(* ===== verification/Prelude.thy ===== *)
theory Prelude
  imports Complex_Main "HOL-Library.Word" "HOL-Library.Multiset"
begin

text \<open>
  Shared vocabulary of the development: the types that stand for the Qt value types, the
  fact collections the component proofs use, generic lemmas on lists and options, and the
  two interfaces (locales) that several components have in common.

  \<^item> A \<open>QString\<close> is a sequence of UTF-16 code units: the type \<open>qstring\<close>. Identifiers and
    error names, which the program only compares and tests for emptiness, are \<open>string\<close>.
  \<^item> \<open>qint64\<close> and \<open>int\<close> values are \<open>int\<close>; where the width matters the checked operations
    \<open>add64\<close> and \<open>sub64\<close> below return \<open>None\<close> for the signed overflow that C++ leaves
    undefined.
  \<^item> \<open>double\<close> and \<open>float\<close> values are \<open>real\<close>; rounding is not modelled.
\<close>

type_synonym qchar = "16 word"
type_synonym qstring = "qchar list"
type_synonym bytes = "8 word list"

text \<open>A literal of the source as UTF-16 code units.\<close>

definition lit :: "string \<Rightarrow> qstring" where
  "lit s = map (\<lambda>c. of_nat (of_char c)) s"

lemma lit_simps [simp]:
  "lit [] = []" "lit (c # s) = of_nat (of_char c) # lit s" "lit (s @ t) = lit s @ lit t"
  by (simp_all add: lit_def)

named_theorems inv_intros \<open>one-step invariant preservation facts\<close>
named_theorems frame_simps \<open>fields an operation leaves unchanged\<close>

subsection \<open>Results\<close>

text \<open>
  \<open>Result<T>\<close> of \<^verbatim>\<open>core/Result.h\<close> holds either an error or a value: the sum
  \<open>'e + 'a\<close> with \<open>Inl\<close> for the failure.
\<close>

fun is_ok :: "'e + 'a \<Rightarrow> bool" where
  "is_ok (Inl e) = False"
| "is_ok (Inr v) = True"

lemma is_ok_iff: "is_ok r \<longleftrightarrow> (\<exists>v. r = Inr v)"
  by (cases r) auto

lemma not_is_ok_iff: "\<not> is_ok r \<longleftrightarrow> (\<exists>e. r = Inl e)"
  by (cases r) auto

subsection \<open>64-bit signed arithmetic\<close>

abbreviation int64_min :: int where "int64_min \<equiv> - (2 ^ 63)"
abbreviation int64_max :: int where "int64_max \<equiv> 2 ^ 63 - 1"

definition in64 :: "int \<Rightarrow> bool" where
  "in64 x \<longleftrightarrow> int64_min \<le> x \<and> x \<le> int64_max"

definition chk64 :: "int \<Rightarrow> int option" where
  "chk64 x = (if in64 x then Some x else None)"

abbreviation add64 :: "int \<Rightarrow> int \<Rightarrow> int option" where "add64 a b \<equiv> chk64 (a + b)"
abbreviation sub64 :: "int \<Rightarrow> int \<Rightarrow> int option" where "sub64 a b \<equiv> chk64 (a - b)"
abbreviation mul64 :: "int \<Rightarrow> int \<Rightarrow> int option" where "mul64 a b \<equiv> chk64 (a * b)"

lemma chk64_Some [simp]: "in64 x \<Longrightarrow> chk64 x = Some x"
  by (simp add: chk64_def)

lemma chk64_eq_Some: "chk64 x = Some y \<longleftrightarrow> y = x \<and> in64 x"
  by (auto simp: chk64_def)

text \<open>\<open>std::clamp\<close> and \<open>qBound\<close> with a lower bound not above the upper one.\<close>

definition clamp :: "'a::linorder \<Rightarrow> 'a \<Rightarrow> 'a \<Rightarrow> 'a" where
  "clamp lo hi x = (if x < lo then lo else if hi < x then hi else x)"

lemma clamp_bounds: "lo \<le> hi \<Longrightarrow> lo \<le> clamp lo hi x \<and> clamp lo hi x \<le> hi"
  by (auto simp: clamp_def)

lemma clamp_id [simp]: "lo \<le> x \<Longrightarrow> x \<le> hi \<Longrightarrow> clamp lo hi x = x"
  by (auto simp: clamp_def)

lemma clamp_mono: "lo \<le> hi \<Longrightarrow> x \<le> y \<Longrightarrow> clamp lo hi x \<le> clamp lo hi y"
  by (auto simp: clamp_def)

subsection \<open>Lists\<close>

lemma nth_append_Cons_self [simp]: "(xs @ x # ys) ! length xs = x"
  by simp

lemma fold_invariant:
  assumes "P s" and "\<And>x s. x \<in> set xs \<Longrightarrow> P s \<Longrightarrow> P (f x s)"
  shows "P (fold f xs s)"
  using assms by (induction xs arbitrary: s) auto

lemma filter_length_map_le: "length (filter P xs) \<le> length xs"
  by simp

text \<open>At most one element of a table satisfies \<open>P\<close>.\<close>

definition at_most_one :: "('a \<Rightarrow> bool) \<Rightarrow> 'a list \<Rightarrow> bool" where
  "at_most_one P xs \<longleftrightarrow> length (filter P xs) \<le> 1"

lemma at_most_oneI_none: "(\<And>x. x \<in> set xs \<Longrightarrow> \<not> P x) \<Longrightarrow> at_most_one P xs"
  unfolding at_most_one_def by (simp add: filter_False)

lemma at_most_one_eq:
  assumes "at_most_one P xs" "x \<in> set xs" "P x" "y \<in> set xs" "P y"
  shows "x = y"
proof -
  have "x \<in> set (filter P xs)" "y \<in> set (filter P xs)" using assms by auto
  moreover have "length (filter P xs) \<le> 1" using assms(1) by (simp add: at_most_one_def)
  ultimately show ?thesis by (cases "filter P xs") auto
qed

lemma at_most_one_map_weaken:
  assumes "at_most_one P xs" and "\<And>x. x \<in> set xs \<Longrightarrow> Q (f x) \<Longrightarrow> P x"
  shows "at_most_one Q (map f xs)"
proof -
  have "length (filter Q (map f xs)) \<le> length (filter P xs)"
    using assms(2) by (induction xs) auto
  then show ?thesis using assms(1) by (simp add: at_most_one_def)
qed

lemma at_most_one_filter: "at_most_one P xs \<Longrightarrow> at_most_one P (filter Q xs)"
proof -
  have "length (filter P (filter Q xs)) \<le> length (filter P xs)"
    by (induction xs) auto
  then show "at_most_one P xs \<Longrightarrow> at_most_one P (filter Q xs)"
    by (simp add: at_most_one_def)
qed

text \<open>\<open>std::stable_sort\<close> with a comparator: insertion from the left, after equal elements.\<close>

fun stable_insert :: "('a \<Rightarrow> 'a \<Rightarrow> bool) \<Rightarrow> 'a \<Rightarrow> 'a list \<Rightarrow> 'a list" where
  "stable_insert bef x [] = [x]"
| "stable_insert bef x (y # ys) =
     (if bef x y then x # y # ys else y # stable_insert bef x ys)"

definition stable_sort :: "('a \<Rightarrow> 'a \<Rightarrow> bool) \<Rightarrow> 'a list \<Rightarrow> 'a list" where
  "stable_sort bef xs = foldl (\<lambda>sorted x. stable_insert bef x sorted) [] xs"

lemma mset_stable_insert [simp]: "mset (stable_insert bef x ys) = add_mset x (mset ys)"
  by (induction ys) auto

lemma mset_stable_sort [simp]: "mset (stable_sort bef xs) = mset xs"
proof -
  have "mset (foldl (\<lambda>sorted x. stable_insert bef x sorted) ys xs) = mset xs + mset ys" for ys
    by (induction xs arbitrary: ys) auto
  then show ?thesis by (simp add: stable_sort_def)
qed

lemma set_stable_sort [simp]: "set (stable_sort bef xs) = set xs"
  by (metis mset_stable_sort set_mset_mset)

text \<open>For a comparator that is a strict weak order the result is sorted.\<close>

definition strict_weak :: "('a \<Rightarrow> 'a \<Rightarrow> bool) \<Rightarrow> bool" where
  "strict_weak bef \<longleftrightarrow> (\<forall>x y. bef x y \<longrightarrow> \<not> bef y x)
     \<and> (\<forall>x y z. \<not> bef x y \<longrightarrow> \<not> bef y z \<longrightarrow> \<not> bef x z)"

lemma strict_weak_asym: "strict_weak bef \<Longrightarrow> bef x y \<Longrightarrow> \<not> bef y x"
  unfolding strict_weak_def by blast

lemma strict_weak_trans: "strict_weak bef \<Longrightarrow> \<not> bef x y \<Longrightarrow> \<not> bef y z \<Longrightarrow> \<not> bef x z"
  unfolding strict_weak_def by (elim conjE) (erule allE, erule allE, erule allE, erule impE, assumption, erule impE)

lemma sorted_stable_insert:
  assumes "strict_weak bef" "sorted_wrt (\<lambda>a b. \<not> bef b a) ys"
  shows "sorted_wrt (\<lambda>a b. \<not> bef b a) (stable_insert bef x ys)"
  using assms(2)
proof (induction ys)
  case (Cons y ys)
  have set: "set (stable_insert bef x ys) = insert x (set ys)"
    using mset_stable_insert[of bef x ys] by (metis set_mset_add_mset_insert set_mset_mset)
  show ?case
  proof (cases "bef x y")
    case True
    then have yx: "\<not> bef y x" by (rule strict_weak_asym[OF assms(1)])
    moreover have "\<not> bef z x" if "z \<in> set ys" for z
    proof -
      have "\<not> bef z y" using Cons.prems that by simp
      then show ?thesis using yx by (rule strict_weak_trans[OF assms(1)])
    qed
    ultimately show ?thesis using True Cons.prems yx by simp
  next
    case False
    then show ?thesis using Cons set by simp
  qed
qed simp

lemma sorted_stable_sort:
  assumes "strict_weak bef"
  shows "sorted_wrt (\<lambda>a b. \<not> bef b a) (stable_sort bef xs)"
proof -
  have "sorted_wrt (\<lambda>a b. \<not> bef b a) ys \<Longrightarrow>
      sorted_wrt (\<lambda>a b. \<not> bef b a) (foldl (\<lambda>sorted x. stable_insert bef x sorted) ys xs)" for ys
    by (induction xs arbitrary: ys) (auto intro: sorted_stable_insert[OF assms])
  then show ?thesis by (simp add: stable_sort_def)
qed

subsection \<open>An interface: operations that keep an invariant\<close>

text \<open>
  Every stateful component is driven by a sequence of operations or events. What its steps
  keep, all runs keep.
\<close>

locale machine =
  fixes step :: "'s \<Rightarrow> 'e \<Rightarrow> 's"
    and inv :: "'s \<Rightarrow> bool"
  assumes step_inv: "inv s \<Longrightarrow> inv (step s e)"
begin

lemma run_inv: "inv s \<Longrightarrow> inv (foldl step s es)"
  by (induction es arbitrary: s) (auto intro: step_inv)

lemma run_prefix_inv: "inv s \<Longrightarrow> inv (foldl step s (take n es))"
  by (rule run_inv)

end

subsection \<open>An interface: lists of non-overlapping time ranges\<close>

text \<open>
  Speech regions, transcript segments and exported subtitles are lists of half-open
  millisecond ranges that follow one another. A component shows the two local laws for its
  own well-formedness predicate; the global facts follow once.
\<close>

locale timeline =
  fixes lo hi :: "'a \<Rightarrow> int"
    and ok :: "'a list \<Rightarrow> bool"
  assumes ok_range: "ok xs \<Longrightarrow> x \<in> set xs \<Longrightarrow> lo x < hi x"
    and ok_adjacent: "ok xs \<Longrightarrow> Suc i < length xs \<Longrightarrow> hi (xs ! i) \<le> lo (xs ! Suc i)"
begin

lemma ok_order:
  assumes "ok xs" "i < j" "j < length xs"
  shows "hi (xs ! i) \<le> lo (xs ! j)"
  using assms(2,3)
proof (induction j)
  case 0
  then show ?case by simp
next
  case (Suc j)
  have adj: "hi (xs ! j) \<le> lo (xs ! Suc j)" using ok_adjacent assms(1) Suc.prems by blast
  show ?case
  proof (cases "i = j")
    case True
    then show ?thesis using adj by simp
  next
    case False
    then have "hi (xs ! i) \<le> lo (xs ! j)" using Suc by simp
    also have "lo (xs ! j) < hi (xs ! j)" using ok_range assms(1) Suc.prems by simp
    finally show ?thesis using adj by simp
  qed
qed

lemma instant_in_one_range:
  assumes "ok xs" "i < length xs" "j < length xs"
    and "lo (xs ! i) \<le> t" "t < hi (xs ! i)" "lo (xs ! j) \<le> t" "t < hi (xs ! j)"
  shows "i = j"
proof (rule ccontr)
  assume "i \<noteq> j"
  then consider "i < j" | "j < i" by linarith
  then show False
    using ok_order[OF assms(1), of i j] ok_order[OF assms(1), of j i] assms by cases auto
qed

lemma starts_increase: "ok xs \<Longrightarrow> i < j \<Longrightarrow> j < length xs \<Longrightarrow> lo (xs ! i) < lo (xs ! j)"
  using ok_order[of xs i j] ok_range[of xs "xs ! i"] by fastforce

end

end
