(* ===== verification/CoreTypes.thy ===== *)
theory CoreTypes
  imports Prelude
begin

text \<open>
  \<^verbatim>\<open>core/Error.h\<close>, \<^verbatim>\<open>core/Error.cpp\<close>: the error domains and codes, their names, and the two
  constructors the modelled components use. The prose of a \<open>UserFacingError\<close> (title,
  message, suggested action, technical details, context) is left out: no modelled code
  branches on it.
\<close>

datatype error_domain =
  DomNone | DomApplication | DomDatabase | DomAudio | DomAsr | DomWorker | DomModel
  | DomNetwork | DomStorage | DomExport | DomPermission | DomValidation | DomSettings

datatype error_code =
  ErrNone | Unknown | InvalidArgument | InvalidStateTransition | ExecutionLeaseLost
  | NotFound | AlreadyExists | OperationCancelled | ModelNotInstalled
  | ModelChecksumMismatch | ModelLoadFailed | UnsupportedModel | BackendUnavailable
  | GpuInitializationFailed | OutOfMemory | AudioDecodeFailed | UnsupportedMedia
  | SourceFileMissing | InsufficientDiskSpace | DatabaseOpenFailed | DatabaseQueryFailed
  | DatabaseMigrationFailed | DatabaseCorrupt | WorkerCrashed | WorkerProtocolMismatch
  | WorkerTimeout | JobCancelled | PermissionDenied | ExportFailed | NetworkUnavailable
  | DownloadFailed | ChecksumMismatch | SerializationFailed | SettingsReadFailed
  | SettingsWriteFailed

record user_error =
  ue_domain :: error_domain
  ue_code :: error_code
  ue_retryable :: bool

type_synonym 'a result = "user_error + 'a"

definition isError :: "user_error \<Rightarrow> bool" where
  "isError e \<longleftrightarrow> ue_code e \<noteq> ErrNone"

definition validation_error :: "error_code \<Rightarrow> user_error" where
  "validation_error c = \<lparr>ue_domain = DomValidation, ue_code = c, ue_retryable = False\<rparr>"

definition database_error :: "error_code \<Rightarrow> bool \<Rightarrow> user_error" where
  "database_error c retry = \<lparr>ue_domain = DomDatabase, ue_code = c, ue_retryable = retry\<rparr>"

lemma error_codes [simp]:
  "ue_code (validation_error c) = c" "ue_code (database_error c r) = c"
  "ue_retryable (validation_error c) = False" "ue_retryable (database_error c r) = r"
  "ue_domain (validation_error c) = DomValidation" "ue_domain (database_error c r) = DomDatabase"
  by (simp_all add: validation_error_def database_error_def)

fun errorDomainName :: "error_domain \<Rightarrow> string" where
  "errorDomainName DomNone = ''None''"
| "errorDomainName DomApplication = ''Application''"
| "errorDomainName DomDatabase = ''Database''"
| "errorDomainName DomAudio = ''Audio''"
| "errorDomainName DomAsr = ''ASR''"
| "errorDomainName DomWorker = ''Worker''"
| "errorDomainName DomModel = ''Model''"
| "errorDomainName DomNetwork = ''Network''"
| "errorDomainName DomStorage = ''Storage''"
| "errorDomainName DomExport = ''Export''"
| "errorDomainName DomPermission = ''Permission''"
| "errorDomainName DomValidation = ''Validation''"
| "errorDomainName DomSettings = ''Settings''"

fun errorCodeName :: "error_code \<Rightarrow> string" where
  "errorCodeName ErrNone = ''None''"
| "errorCodeName Unknown = ''Unknown''"
| "errorCodeName InvalidArgument = ''InvalidArgument''"
| "errorCodeName InvalidStateTransition = ''InvalidStateTransition''"
| "errorCodeName ExecutionLeaseLost = ''ExecutionLeaseLost''"
| "errorCodeName NotFound = ''NotFound''"
| "errorCodeName AlreadyExists = ''AlreadyExists''"
| "errorCodeName OperationCancelled = ''OperationCancelled''"
| "errorCodeName ModelNotInstalled = ''ModelNotInstalled''"
| "errorCodeName ModelChecksumMismatch = ''ModelChecksumMismatch''"
| "errorCodeName ModelLoadFailed = ''ModelLoadFailed''"
| "errorCodeName UnsupportedModel = ''UnsupportedModel''"
| "errorCodeName BackendUnavailable = ''BackendUnavailable''"
| "errorCodeName GpuInitializationFailed = ''GpuInitializationFailed''"
| "errorCodeName OutOfMemory = ''OutOfMemory''"
| "errorCodeName AudioDecodeFailed = ''AudioDecodeFailed''"
| "errorCodeName UnsupportedMedia = ''UnsupportedMedia''"
| "errorCodeName SourceFileMissing = ''SourceFileMissing''"
| "errorCodeName InsufficientDiskSpace = ''InsufficientDiskSpace''"
| "errorCodeName DatabaseOpenFailed = ''DatabaseOpenFailed''"
| "errorCodeName DatabaseQueryFailed = ''DatabaseQueryFailed''"
| "errorCodeName DatabaseMigrationFailed = ''DatabaseMigrationFailed''"
| "errorCodeName DatabaseCorrupt = ''DatabaseCorrupt''"
| "errorCodeName WorkerCrashed = ''WorkerCrashed''"
| "errorCodeName WorkerProtocolMismatch = ''WorkerProtocolMismatch''"
| "errorCodeName WorkerTimeout = ''WorkerTimeout''"
| "errorCodeName JobCancelled = ''JobCancelled''"
| "errorCodeName PermissionDenied = ''PermissionDenied''"
| "errorCodeName ExportFailed = ''ExportFailed''"
| "errorCodeName NetworkUnavailable = ''NetworkUnavailable''"
| "errorCodeName DownloadFailed = ''DownloadFailed''"
| "errorCodeName ChecksumMismatch = ''ChecksumMismatch''"
| "errorCodeName SerializationFailed = ''SerializationFailed''"
| "errorCodeName SettingsReadFailed = ''SettingsReadFailed''"
| "errorCodeName SettingsWriteFailed = ''SettingsWriteFailed''"

end
