(* ===== verification/JobStates.thy ===== *)
theory JobStates
  imports CoreTypes
begin

text \<open>
  \<^verbatim>\<open>jobs/TranscriptionJob\<close> and \<^verbatim>\<open>jobs/JobStateMachine\<close>: the states, stages and chunk states of
  a transcription job with their stored names, the transition table, and the progress
  value shown to the user. The names are stored in the database; the round trips at the
  end are what lets the repository model keep the enums themselves in its rows.
\<close>

datatype job_state =
  Queued | Preparing | Normalizing | WaitingForModel | LoadingModel | AnalyzingSpeech
  | Transcribing | Finalizing | Completed | Cancelling | Cancelled | Failed | Interrupted

datatype job_stage =
  StagePreparing | InspectingMedia | NormalizingAudio | StageAnalyzingSpeech
  | StageLoadingModel | StageTranscribing | StageFinalizing | StageCompleted

datatype chunk_state =
  ChunkPending | ChunkRunning | ChunkCompleted | ChunkCancelled | ChunkFailed | ChunkInterrupted

text \<open>
  \<open>JobChunk\<close>. Times are milliseconds, an invalid \<open>QDateTime\<close> is \<open>None\<close>, and the JSON
  diagnostics are kept as their text.
\<close>

record job_chunk =
  jc_id :: string
  jc_jobId :: string
  jc_ordinal :: int
  jc_startMs :: int
  jc_endMs :: int
  jc_overlapBeforeMs :: int
  jc_overlapAfterMs :: int
  jc_state :: chunk_state
  jc_attempts :: int
  jc_startedAt :: "int option"
  jc_completedAt :: "int option"
  jc_error :: string
  jc_resultHash :: string
  jc_diagnostics :: string

subsection \<open>Names\<close>

fun jobStateName :: "job_state \<Rightarrow> string" where
  "jobStateName Queued = ''Queued''"
| "jobStateName Preparing = ''Preparing''"
| "jobStateName Normalizing = ''Normalizing''"
| "jobStateName WaitingForModel = ''WaitingForModel''"
| "jobStateName LoadingModel = ''LoadingModel''"
| "jobStateName AnalyzingSpeech = ''AnalyzingSpeech''"
| "jobStateName Transcribing = ''Transcribing''"
| "jobStateName Finalizing = ''Finalizing''"
| "jobStateName Completed = ''Completed''"
| "jobStateName Cancelling = ''Cancelling''"
| "jobStateName Cancelled = ''Cancelled''"
| "jobStateName Failed = ''Failed''"
| "jobStateName Interrupted = ''Interrupted''"

fun jobStageName :: "job_stage \<Rightarrow> string" where
  "jobStageName StagePreparing = ''Preparing''"
| "jobStageName InspectingMedia = ''InspectingMedia''"
| "jobStageName NormalizingAudio = ''NormalizingAudio''"
| "jobStageName StageAnalyzingSpeech = ''AnalyzingSpeech''"
| "jobStageName StageLoadingModel = ''LoadingModel''"
| "jobStageName StageTranscribing = ''Transcribing''"
| "jobStageName StageFinalizing = ''Finalizing''"
| "jobStageName StageCompleted = ''Completed''"

fun chunkStateName :: "chunk_state \<Rightarrow> string" where
  "chunkStateName ChunkPending = ''Pending''"
| "chunkStateName ChunkRunning = ''Running''"
| "chunkStateName ChunkCompleted = ''Completed''"
| "chunkStateName ChunkCancelled = ''Cancelled''"
| "chunkStateName ChunkFailed = ''Failed''"
| "chunkStateName ChunkInterrupted = ''Interrupted''"

definition all_job_states :: "job_state list" where
  "all_job_states = [Queued, Preparing, Normalizing, WaitingForModel, LoadingModel,
     AnalyzingSpeech, Transcribing, Finalizing, Completed, Cancelling, Cancelled, Failed,
     Interrupted]"

definition all_job_stages :: "job_stage list" where
  "all_job_stages = [StagePreparing, InspectingMedia, NormalizingAudio, StageAnalyzingSpeech,
     StageLoadingModel, StageTranscribing, StageFinalizing, StageCompleted]"

definition all_chunk_states :: "chunk_state list" where
  "all_chunk_states = [ChunkPending, ChunkRunning, ChunkCompleted, ChunkCancelled, ChunkFailed,
     ChunkInterrupted]"

lemma all_job_states_UNIV: "set all_job_states = UNIV"
proof -
  have "s \<in> set all_job_states" for s by (cases s) (simp_all add: all_job_states_def)
  then show ?thesis by blast
qed

lemma all_job_stages_UNIV: "set all_job_stages = UNIV"
proof -
  have "s \<in> set all_job_stages" for s by (cases s) (simp_all add: all_job_stages_def)
  then show ?thesis by blast
qed

lemma all_chunk_states_UNIV: "set all_chunk_states = UNIV"
proof -
  have "s \<in> set all_chunk_states" for s by (cases s) (simp_all add: all_chunk_states_def)
  then show ?thesis by blast
qed

text \<open>
  \<open>valueFor\<close>: the first entry whose name equals the given one up to case. \<open>cf\<close>
  stands for Qt's case folding, on which \<open>QString::compare\<close> with
  \<open>Qt::CaseInsensitive\<close> is based.
\<close>

definition valueFor :: "(string \<Rightarrow> string) \<Rightarrow> ('e \<times> string) list \<Rightarrow> string \<Rightarrow> 'e \<Rightarrow> 'e" where
  "valueFor cf names name fallback =
     (case find (\<lambda>(v, n). cf n = cf name) names of
        Some (v, n) \<Rightarrow> v
      | None \<Rightarrow> fallback)"

definition jobStateFromName :: "(string \<Rightarrow> string) \<Rightarrow> string \<Rightarrow> job_state \<Rightarrow> job_state" where
  "jobStateFromName cf name fallback =
     valueFor cf (map (\<lambda>s. (s, jobStateName s)) all_job_states) name fallback"

definition jobStageFromName :: "(string \<Rightarrow> string) \<Rightarrow> string \<Rightarrow> job_stage \<Rightarrow> job_stage" where
  "jobStageFromName cf name fallback =
     valueFor cf (map (\<lambda>s. (s, jobStageName s)) all_job_stages) name fallback"

definition chunkStateFromName ::
  "(string \<Rightarrow> string) \<Rightarrow> string \<Rightarrow> chunk_state \<Rightarrow> chunk_state" where
  "chunkStateFromName cf name fallback =
     valueFor cf (map (\<lambda>s. (s, chunkStateName s)) all_chunk_states) name fallback"

lemma valueFor_name:
  assumes "x \<in> set xs" and "inj_on (\<lambda>y. cf (nm y)) (set xs)"
  shows "valueFor cf (map (\<lambda>y. (y, nm y)) xs) (nm x) fb = x"
proof -
  have "find (\<lambda>(v, n). cf n = cf (nm x)) (map (\<lambda>y. (y, nm y)) xs) = Some (x, nm x)"
    using assms
  proof (induction xs)
    case Nil
    then show ?case by simp
  next
    case (Cons a xs)
    show ?case
    proof (cases "cf (nm a) = cf (nm x)")
      case True
      then have "a = x" using Cons.prems by (meson inj_on_eq_iff list.set_intros(1))
      then show ?thesis by simp
    next
      case False
      then have "x \<in> set xs" using Cons.prems by auto
      moreover have "inj_on (\<lambda>y. cf (nm y)) (set xs)"
        using Cons.prems(2) by (auto intro: inj_on_subset)
      ultimately show ?thesis using False Cons.IH by simp
    qed
  qed
  then show ?thesis by (simp add: valueFor_def)
qed

lemma inj_jobStateName: "inj jobStateName"
proof (rule injI)
  fix s t :: job_state
  assume "jobStateName s = jobStateName t"
  then show "s = t" by (cases s; cases t) simp_all
qed

lemma inj_jobStageName: "inj jobStageName"
proof (rule injI)
  fix s t :: job_stage
  assume "jobStageName s = jobStageName t"
  then show "s = t" by (cases s; cases t) simp_all
qed

lemma inj_chunkStateName: "inj chunkStateName"
proof (rule injI)
  fix s t :: chunk_state
  assume "chunkStateName s = chunkStateName t"
  then show "s = t" by (cases s; cases t) simp_all
qed

subsection \<open>The transition table\<close>

fun transitions :: "job_state \<Rightarrow> job_state list" where
  "transitions Queued = [Preparing, Cancelled]"
| "transitions Preparing = [Normalizing, AnalyzingSpeech, WaitingForModel, LoadingModel,
     Cancelling, Failed, Interrupted]"
| "transitions Normalizing = [WaitingForModel, LoadingModel, AnalyzingSpeech, Cancelling,
     Failed, Interrupted]"
| "transitions WaitingForModel = [LoadingModel, Cancelling, Failed, Interrupted]"
| "transitions LoadingModel = [AnalyzingSpeech, Transcribing, Cancelling, Failed, Interrupted]"
| "transitions AnalyzingSpeech = [WaitingForModel, LoadingModel, Transcribing, Cancelling,
     Failed, Interrupted]"
| "transitions Transcribing = [Finalizing, Cancelling, Failed, Interrupted]"
| "transitions Finalizing = [Completed, Cancelling, Failed, Interrupted]"
| "transitions Cancelling = [Cancelled]"
| "transitions Interrupted = [Queued, Cancelled]"
| "transitions Failed = [Queued]"
| "transitions Completed = []"
| "transitions Cancelled = [Queued]"

definition canTransition :: "job_state \<Rightarrow> job_state \<Rightarrow> bool" where
  "canTransition from to \<longleftrightarrow> from = to \<or> to \<in> set (transitions from)"

definition allowedTransitions :: "job_state \<Rightarrow> job_state list" where
  "allowedTransitions from = transitions from"

definition validateTransition :: "job_state \<Rightarrow> job_state \<Rightarrow> unit result" where
  "validateTransition from to =
     (if canTransition from to then Inr ()
      else Inl (validation_error InvalidStateTransition))"

definition isTerminal :: "job_state \<Rightarrow> bool" where
  "isTerminal s \<longleftrightarrow> s = Completed \<or> s = Cancelled \<or> s = Failed"

definition isRunning :: "job_state \<Rightarrow> bool" where
  "isRunning s \<longleftrightarrow> s \<noteq> Queued \<and> \<not> isTerminal s \<and> s \<noteq> Interrupted"

lemma validateTransition_ok [simp]: "validateTransition a b = Inr u \<longleftrightarrow> canTransition a b"
  by (auto simp: validateTransition_def)

lemma validateTransition_err: "validateTransition a b = Inl e \<Longrightarrow> \<not> canTransition a b"
  by (auto simp: validateTransition_def split: if_splits)

lemma isRunning_simps [simp]:
  "\<not> isRunning Queued" "isRunning Preparing" "isRunning Normalizing" "isRunning WaitingForModel"
  "isRunning LoadingModel" "isRunning AnalyzingSpeech" "isRunning Transcribing"
  "isRunning Finalizing" "\<not> isRunning Completed" "isRunning Cancelling" "\<not> isRunning Cancelled"
  "\<not> isRunning Failed" "\<not> isRunning Interrupted"
  by (simp_all add: isRunning_def isTerminal_def)

lemma isTerminal_simps [simp]:
  "\<not> isTerminal Queued" "\<not> isTerminal Preparing" "\<not> isTerminal Normalizing"
  "\<not> isTerminal WaitingForModel" "\<not> isTerminal LoadingModel" "\<not> isTerminal AnalyzingSpeech"
  "\<not> isTerminal Transcribing" "\<not> isTerminal Finalizing" "isTerminal Completed"
  "\<not> isTerminal Cancelling" "isTerminal Cancelled" "isTerminal Failed" "\<not> isTerminal Interrupted"
  by (simp_all add: isTerminal_def)

text \<open>The step relation the table describes, and the states a fresh job can reach.\<close>

inductive job_step :: "job_state \<Rightarrow> job_state \<Rightarrow> bool" where
  move: "t \<in> set (transitions s) \<Longrightarrow> job_step s t"

inductive_cases job_stepE: "job_step s t"

inductive_simps job_step_from_completed: "job_step Completed t"

text \<open>Paths of moves, as the list of states visited after the first.\<close>

fun job_path :: "job_state \<Rightarrow> job_state list \<Rightarrow> bool" where
  "job_path s [] \<longleftrightarrow> True"
| "job_path s (t # ts) \<longleftrightarrow> t \<in> set (transitions s) \<and> job_path t ts"

lemma into_completed: "Completed \<in> set (transitions s) \<longleftrightarrow> s = Finalizing"
  by (cases s) simp_all

lemma into_finalizing: "Finalizing \<in> set (transitions s) \<longleftrightarrow> s = Transcribing"
  by (cases s) simp_all

lemma into_running:
  "t \<in> set (transitions s) \<Longrightarrow> isRunning t \<Longrightarrow> isRunning s \<or> s = Queued \<and> t = Preparing"
  by (cases s; cases t) simp_all

lemma running_leaves_to:
  "t \<in> set (transitions s) \<Longrightarrow> isRunning s \<Longrightarrow> \<not> isRunning t \<Longrightarrow> isTerminal t \<or> t = Interrupted"
  by (cases s; cases t) simp_all

lemma job_path_visits:
  assumes "job_path s ts" "last (s # ts) = c" "s \<noteq> c"
    and pred: "\<And>x. c \<in> set (transitions x) \<Longrightarrow> x = p"
  shows "p \<in> set (s # ts)"
  using assms(1-3)
proof (induction ts arbitrary: s)
  case Nil
  then show ?case by simp
next
  case (Cons t ts)
  show ?case
  proof (cases "t = c")
    case True
    then show ?thesis using Cons.prems pred[of s] by simp
  next
    case False
    then show ?thesis using Cons.IH[of t] Cons.prems by auto
  qed
qed

lemma job_path_prefix: "job_path s (xs @ ys) \<Longrightarrow> job_path s xs"
  by (induction xs arbitrary: s) auto

subsection \<open>Stages in order\<close>

text \<open>The repository compares stages by their enum values.\<close>

fun stage_index :: "job_stage \<Rightarrow> nat" where
  "stage_index StagePreparing = 0"
| "stage_index InspectingMedia = 1"
| "stage_index NormalizingAudio = 2"
| "stage_index StageAnalyzingSpeech = 3"
| "stage_index StageLoadingModel = 4"
| "stage_index StageTranscribing = 5"
| "stage_index StageFinalizing = 6"
| "stage_index StageCompleted = 7"

lemma stage_index_inj: "stage_index a = stage_index b \<Longrightarrow> a = b"
  by (cases a; cases b) simp_all

instantiation job_stage :: linorder
begin

definition less_eq_job_stage :: "job_stage \<Rightarrow> job_stage \<Rightarrow> bool" where
  "less_eq_job_stage a b \<longleftrightarrow> stage_index a \<le> stage_index b"

definition less_job_stage :: "job_stage \<Rightarrow> job_stage \<Rightarrow> bool" where
  "less_job_stage a b \<longleftrightarrow> stage_index a < stage_index b"

instance
  by standard (auto simp: less_eq_job_stage_def less_job_stage_def dest: stage_index_inj)

end

subsection \<open>Progress\<close>

fun stage_range :: "job_stage \<Rightarrow> real \<times> real" where
  "stage_range StagePreparing = (0, 2 / 100)"
| "stage_range InspectingMedia = (2 / 100, 5 / 100)"
| "stage_range NormalizingAudio = (5 / 100, 20 / 100)"
| "stage_range StageAnalyzingSpeech = (20 / 100, 30 / 100)"
| "stage_range StageLoadingModel = (30 / 100, 35 / 100)"
| "stage_range StageTranscribing = (35 / 100, 95 / 100)"
| "stage_range StageFinalizing = (95 / 100, 1)"
| "stage_range StageCompleted = (1, 1)"

definition map_progress :: "job_stage \<Rightarrow> real \<Rightarrow> real" where
  "map_progress stage fraction =
     (let (b, e) = stage_range stage in b + (e - b) * clamp 0 1 fraction)"

record monotonic_progress =
  mp_stage :: job_stage
  mp_value :: real

definition initial_progress :: monotonic_progress where
  "initial_progress = \<lparr>mp_stage = StagePreparing, mp_value = 0\<rparr>"

definition advance :: "monotonic_progress \<Rightarrow> job_stage \<times> real \<Rightarrow> monotonic_progress" where
  "advance p x =
     (case x of (stage, fraction) \<Rightarrow>
        \<lparr>mp_stage = stage, mp_value = max (mp_value p) (map_progress stage fraction)\<rparr>)"

definition restore :: "monotonic_progress \<Rightarrow> job_stage \<Rightarrow> real \<Rightarrow> monotonic_progress" where
  "restore p stage progress = \<lparr>mp_stage = stage, mp_value = clamp 0 1 progress\<rparr>"

lemma stage_range_bounds:
  "0 \<le> fst (stage_range s)" "fst (stage_range s) \<le> snd (stage_range s)" "snd (stage_range s) \<le> 1"
  by (cases s; simp)+

lemma map_progress_in_range:
  "fst (stage_range s) \<le> map_progress s f \<and> map_progress s f \<le> snd (stage_range s)"
proof -
  obtain b e where be: "stage_range s = (b, e)" by fastforce
  have le: "b \<le> e" using stage_range_bounds(2)[of s] be by simp
  have c: "0 \<le> clamp 0 1 f" "clamp 0 1 f \<le> (1::real)" using clamp_bounds[of 0 1 f] by auto
  have "(e - b) * clamp 0 1 f \<le> (e - b) * 1"
    using le c by (intro mult_left_mono) auto
  moreover have "0 \<le> (e - b) * clamp 0 1 f" using le c by simp
  ultimately show ?thesis by (simp add: map_progress_def be)
qed

lemma map_progress_unit: "0 \<le> map_progress s f \<and> map_progress s f \<le> 1"
  using map_progress_in_range[of s f] stage_range_bounds(1,3)[of s] by simp

lemma map_progress_stage_order: "s < t \<Longrightarrow> map_progress s f \<le> map_progress t g"
proof -
  assume "s < t"
  then have "snd (stage_range s) \<le> fst (stage_range t)"
    by (cases s; cases t) (simp_all add: less_job_stage_def)
  then show ?thesis using map_progress_in_range[of s f] map_progress_in_range[of t g] by linarith
qed

definition progress_ok :: "monotonic_progress \<Rightarrow> bool" where
  "progress_ok p \<longleftrightarrow> 0 \<le> mp_value p \<and> mp_value p \<le> 1"

interpretation progress: machine advance progress_ok
proof unfold_locales
  fix p :: monotonic_progress and x
  assume "progress_ok p"
  then show "progress_ok (advance p x)"
    using map_progress_unit[of "fst x" "snd x"]
    by (cases x) (auto simp: progress_ok_def advance_def)
qed

lemma advance_ge: "mp_value p \<le> mp_value (advance p x)"
  by (cases x) (simp add: advance_def)

lemma advance_run_ge: "mp_value p \<le> mp_value (foldl advance p xs)"
proof (induction xs arbitrary: p)
  case Nil
  then show ?case by simp
next
  case (Cons x xs)
  have "mp_value p \<le> mp_value (advance p x)" by (rule advance_ge)
  also have "\<dots> \<le> mp_value (foldl advance (advance p x) xs)" by (rule Cons.IH)
  finally show ?case by simp
qed

subsection \<open>Properties\<close>

text \<open>
  A job reaches Completed only through Transcribing and Finalizing: every path of the
  transition table from Queued to Completed visits both, in that order.
\<close>

theorem completed_only_through_transcribing:
  assumes "job_path Queued ts" and "last (Queued # ts) = Completed"
  shows "\<exists>xs ys. Queued # ts = xs @ [Finalizing] @ ys \<and> Transcribing \<in> set xs"
proof -
  have "Finalizing \<in> set (Queued # ts)"
    using job_path_visits[OF assms, of Finalizing] into_completed by simp
  then obtain xs ys where split: "ts = xs @ Finalizing # ys"
    by (auto dest: split_list)
  have "job_path Queued (xs @ [Finalizing])"
    using assms(1) split job_path_prefix[of Queued "xs @ [Finalizing]" ys] by simp
  then have "Transcribing \<in> set (Queued # xs @ [Finalizing])"
    using job_path_visits[of Queued "xs @ [Finalizing]" Finalizing Transcribing] into_finalizing
    by simp
  then have "Transcribing \<in> set (Queued # xs)" by simp
  then show ?thesis using split by (intro exI[of _ "Queued # xs"] exI[of _ ys]) simp
qed

theorem completed_only_through_transcribing_witness:
  "\<exists>xs ys. Queued # [Preparing, LoadingModel, Transcribing, Finalizing, Completed]
     = xs @ [Finalizing] @ ys \<and> Transcribing \<in> set xs"
  by (rule completed_only_through_transcribing) simp_all

text \<open>
  The progress shown to the user never moves backwards, whatever stages and fractions
  are reported, and it stays within 0 and 1.
\<close>

theorem progress_monotone_bounded:
  assumes "0 \<le> mp_value p" and "mp_value p \<le> 1"
  shows "mp_value (foldl advance p (take i xs)) \<le> mp_value (foldl advance p xs)
    \<and> 0 \<le> mp_value (foldl advance p xs) \<and> mp_value (foldl advance p xs) \<le> 1"
proof -
  have "foldl advance p xs = foldl advance (foldl advance p (take i xs)) (drop i xs)"
    by (metis append_take_drop_id foldl_append)
  then have "mp_value (foldl advance p (take i xs)) \<le> mp_value (foldl advance p xs)"
    by (simp add: advance_run_ge)
  moreover have "progress_ok (foldl advance p xs)"
    using progress.run_inv[of p xs] assms by (simp add: progress_ok_def)
  ultimately show ?thesis by (simp add: progress_ok_def)
qed

theorem progress_monotone_bounded_witness:
  "mp_value (foldl advance initial_progress (take 1 [(StageTranscribing, 1/2), (InspectingMedia, 2)]))
     \<le> mp_value (foldl advance initial_progress [(StageTranscribing, 1/2), (InspectingMedia, 2)])"
  using progress_monotone_bounded[of initial_progress 1
      "[(StageTranscribing, 1/2), (InspectingMedia, 2)]"]
  by (simp add: initial_progress_def)

text \<open>
  The stored names of states, stages and chunk states can be read back: looking a name
  up gives the value it was written for, whatever the fallback, as long as case folding
  keeps the stored names apart.
\<close>

theorem job_names_roundtrip:
  assumes "inj_on cf (set (map jobStateName all_job_states))"
    and "inj_on cf (set (map jobStageName all_job_stages))"
    and "inj_on cf (set (map chunkStateName all_chunk_states))"
  shows "jobStateFromName cf (jobStateName s) fb = s
    \<and> jobStageFromName cf (jobStageName g) gb = g
    \<and> chunkStateFromName cf (chunkStateName c) cb = c"
proof -
  have "inj_on (\<lambda>y. cf (jobStateName y)) (set all_job_states)"
    using assms(1) inj_jobStateName comp_inj_on[of jobStateName "set all_job_states" cf]
    by (simp add: comp_def all_job_states_UNIV)
  moreover have "inj_on (\<lambda>y. cf (jobStageName y)) (set all_job_stages)"
    using assms(2) inj_jobStageName comp_inj_on[of jobStageName "set all_job_stages" cf]
    by (simp add: comp_def all_job_stages_UNIV)
  moreover have "inj_on (\<lambda>y. cf (chunkStateName y)) (set all_chunk_states)"
    using assms(3) inj_chunkStateName comp_inj_on[of chunkStateName "set all_chunk_states" cf]
    by (simp add: comp_def all_chunk_states_UNIV)
  ultimately show ?thesis
    unfolding jobStateFromName_def jobStageFromName_def chunkStateFromName_def
    by (simp add: valueFor_name all_job_states_UNIV all_job_stages_UNIV all_chunk_states_UNIV)
qed

theorem job_names_roundtrip_witness:
  "jobStateFromName id (jobStateName Finalizing) Queued = Finalizing
    \<and> jobStageFromName id (jobStageName InspectingMedia) StagePreparing = InspectingMedia
    \<and> chunkStateFromName id (chunkStateName ChunkFailed) ChunkPending = ChunkFailed"
  by (rule job_names_roundtrip) simp_all

end
