(* ===== verification/Cbor.thy ===== *)
theory Cbor
  imports Prelude "HOL-Library.AList"
begin

text \<open>
  The Qt value types the worker protocol is built on, as their documentation describes
  them: \<open>QCborValue\<close> as a tagged union, \<open>QCborArray\<close> as a list and \<open>QCborMap\<close> as an
  association list with string keys, the only keys the program uses. \<open>mapInsert\<close> is
  \<open>QCborMap::insert\<close>, which overwrites an existing key, and \<open>mapValue\<close> is
  \<open>QCborMap::value\<close>, which answers with an undefined value for a missing key. The byte
  encoding of these values is a parameter of the protocol model.
\<close>

datatype cbor =
  CborInteger int | CborDouble real | CborBool bool | CborString qstring | CborBytes bytes
  | CborArray "cbor list" | CborMap "(string \<times> cbor) list" | CborNull | CborUndefined

type_synonym cbor_map = "(string \<times> cbor) list"

definition mapValue :: "cbor_map \<Rightarrow> string \<Rightarrow> cbor" where
  "mapValue m k = (case map_of m k of None \<Rightarrow> CborUndefined | Some v \<Rightarrow> v)"

definition mapInsert :: "string \<Rightarrow> cbor \<Rightarrow> cbor_map \<Rightarrow> cbor_map" where
  "mapInsert k v m = AList.update k v m"

definition mapContains :: "cbor_map \<Rightarrow> string \<Rightarrow> bool" where
  "mapContains m k \<longleftrightarrow> map_of m k \<noteq> None"

fun isInteger :: "cbor \<Rightarrow> bool" where
  "isInteger (CborInteger _) = True" | "isInteger _ = False"

fun isString :: "cbor \<Rightarrow> bool" where
  "isString (CborString _) = True" | "isString _ = False"

fun isByteArray :: "cbor \<Rightarrow> bool" where
  "isByteArray (CborBytes _) = True" | "isByteArray _ = False"

fun isArray :: "cbor \<Rightarrow> bool" where
  "isArray (CborArray _) = True" | "isArray _ = False"

fun isMap :: "cbor \<Rightarrow> bool" where
  "isMap (CborMap _) = True" | "isMap _ = False"

fun isBool :: "cbor \<Rightarrow> bool" where
  "isBool (CborBool _) = True" | "isBool _ = False"

fun isUndefined :: "cbor \<Rightarrow> bool" where
  "isUndefined CborUndefined = True" | "isUndefined _ = False"

text \<open>The conversions return the default for a value of another type.\<close>

fun toInteger :: "int \<Rightarrow> cbor \<Rightarrow> int" where
  "toInteger d (CborInteger i) = i"
| "toInteger d (CborDouble r) = (if r < 0 then - \<lfloor>- r\<rfloor> else \<lfloor>r\<rfloor>)"
| "toInteger d _ = d"

fun toStringValue :: "qstring \<Rightarrow> cbor \<Rightarrow> qstring" where
  "toStringValue d (CborString s) = s"
| "toStringValue d _ = d"

fun toByteArray :: "cbor \<Rightarrow> bytes" where
  "toByteArray (CborBytes b) = b"
| "toByteArray _ = []"

fun toArray :: "cbor \<Rightarrow> cbor list" where
  "toArray (CborArray xs) = xs"
| "toArray _ = []"

fun toMap :: "cbor \<Rightarrow> cbor_map" where
  "toMap (CborMap m) = m"
| "toMap _ = []"

fun toBool :: "bool \<Rightarrow> cbor \<Rightarrow> bool" where
  "toBool d (CborBool b) = b"
| "toBool d _ = d"

lemma mapValue_insert [simp]:
  "mapValue (mapInsert k v m) k' = (if k' = k then v else mapValue m k')"
  by (simp add: mapValue_def mapInsert_def update_conv')

lemma mapValue_empty [simp]: "mapValue [] k = CborUndefined"
  by (simp add: mapValue_def)

lemma mapContains_insert [simp]:
  "mapContains (mapInsert k v m) k' \<longleftrightarrow> k' = k \<or> mapContains m k'"
  by (simp add: mapContains_def mapInsert_def update_conv')

lemma mapContains_empty [simp]: "\<not> mapContains [] k"
  by (simp add: mapContains_def)

text \<open>Typed reads: the value of a key when it has the expected type.\<close>

definition readInteger :: "cbor_map \<Rightarrow> string \<Rightarrow> int option" where
  "readInteger m k =
     (let encoded = mapValue m k in
      if isInteger encoded then Some (toInteger 0 encoded) else None)"

lemma readInteger_insert [simp]:
  "readInteger (mapInsert k (CborInteger i) m) k = Some i"
  "k' \<noteq> k \<Longrightarrow> readInteger (mapInsert k v m) k' = readInteger m k'"
  by (simp_all add: readInteger_def)

end
