(* ===== verification/ChunkPlanner.thy ===== *)
theory ChunkPlanner
  imports JobStates Cbor
begin

text \<open>
  \<^verbatim>\<open>asr/LongFormChunkPlanner\<close>: a recording is cut into chunks, at the middle of a silence
  where one is near the target length and with an overlap where a chunk has to be cut
  through speech. The worker sends the plan to the application
  (\<^verbatim>\<open>worker/main.cpp\<close>), which checks it (\<^verbatim>\<open>decodeWorkerChunkPlan\<close> in
  \<^verbatim>\<open>app/TranscriptionCoordinator.cpp\<close>) before it stores it.

  Times are \<open>int\<close>; every sum of the planner is at most the duration plus the hard maximum
  of 15 minutes, so \<open>qint64\<close> does not wrap for durations up to \<open>int64_max - 900000\<close>.
\<close>

record speech_region =
  sr_startMs :: int
  sr_endMs :: int

record transcription_chunk =
  tc_ordinal :: int
  tc_startMs :: int
  tc_endMs :: int
  tc_overlapBeforeMs :: int
  tc_overlapAfterMs :: int

record chunk_planner_configuration =
  shortAudioThresholdMs :: int
  targetChunkMs :: int
  minimumPreferredChunkMs :: int
  maximumPreferredChunkMs :: int
  hardMaximumChunkMs :: int
  hardCutOverlapMs :: int

definition default_chunk_configuration :: chunk_planner_configuration where
  "default_chunk_configuration =
     \<lparr>shortAudioThresholdMs = 12 * 60 * 1000, targetChunkMs = 10 * 60 * 1000,
      minimumPreferredChunkMs = 8 * 60 * 1000, maximumPreferredChunkMs = 12 * 60 * 1000,
      hardMaximumChunkMs = 15 * 60 * 1000, hardCutOverlapMs = 900\<rparr>"

lemma default_chunk_configuration_simps [simp]:
  "shortAudioThresholdMs default_chunk_configuration = 720000"
  "targetChunkMs default_chunk_configuration = 600000"
  "minimumPreferredChunkMs default_chunk_configuration = 480000"
  "maximumPreferredChunkMs default_chunk_configuration = 720000"
  "hardMaximumChunkMs default_chunk_configuration = 900000"
  "hardCutOverlapMs default_chunk_configuration = 900"
  by (simp_all add: default_chunk_configuration_def)

subsection \<open>Silence boundaries\<close>

definition clip_regions :: "int \<Rightarrow> speech_region list \<Rightarrow> speech_region list" where
  "clip_regions durationMs regions =
     sort_key sr_startMs
       (filter (\<lambda>r. sr_endMs r > sr_startMs r)
         (map (\<lambda>r. \<lparr>sr_startMs = clamp 0 durationMs (sr_startMs r),
                    sr_endMs = clamp 0 durationMs (sr_endMs r)\<rparr>) regions))"

text \<open>
  The loop over target multiples is the only one that depends on the configuration for its
  termination: with a target that is not positive it does not end, which is \<open>None\<close>.
\<close>

partial_function (option) target_boundaries :: "int \<Rightarrow> int \<Rightarrow> int \<Rightarrow> int list option" where
  [code]: "target_boundaries target durationMs boundary =
     (if boundary < durationMs
      then Option.bind (target_boundaries target durationMs (boundary + target))
             (\<lambda>rest. Some (boundary # rest))
      else Some [])"

fun silence_gaps :: "int \<Rightarrow> int \<Rightarrow> speech_region list \<Rightarrow> int list" where
  "silence_gaps durationMs previousEnd [] =
     (if previousEnd < durationMs
      then [previousEnd + (durationMs - previousEnd) div 2] else [])"
| "silence_gaps durationMs previousEnd (r # rs) =
     (if sr_startMs r > previousEnd
      then [previousEnd + (sr_startMs r - previousEnd) div 2] else [])
     @ silence_gaps durationMs (max previousEnd (sr_endMs r)) rs"

definition silence_boundaries ::
  "chunk_planner_configuration \<Rightarrow> int \<Rightarrow> speech_region list \<Rightarrow> int list option" where
  "silence_boundaries cfg durationMs regions =
     Option.bind
       (if regions = [] then target_boundaries (targetChunkMs cfg) durationMs (targetChunkMs cfg)
        else Some [])
       (\<lambda>initial. Some (initial @ silence_gaps durationMs 0 regions))"

subsection \<open>The planning loop\<close>

text \<open>
  The scan for the candidate nearest to the target; the pair is \<open>(boundary, bestDistance)\<close>.
\<close>

fun nearest :: "int \<Rightarrow> int \<Rightarrow> int \<Rightarrow> int list \<Rightarrow> int \<times> int \<Rightarrow> int \<times> int" where
  "nearest lower upper target [] best = best"
| "nearest lower upper target (candidate # cs) (boundary, bestDistance) =
     (if candidate < lower \<or> upper < candidate
      then nearest lower upper target cs (boundary, bestDistance)
      else let distance = \<bar>candidate - target\<bar> in
           if distance < bestDistance
           then nearest lower upper target cs (candidate, distance)
           else nearest lower upper target cs (boundary, bestDistance))"

definition choose_boundary ::
  "chunk_planner_configuration \<Rightarrow> int \<Rightarrow> int list \<Rightarrow> int \<Rightarrow> int \<times> bool" where
  "choose_boundary cfg durationMs boundaries cursor =
     (let preferredMin = cursor + minimumPreferredChunkMs cfg;
          preferredMax = min durationMs (cursor + maximumPreferredChunkMs cfg);
          target = min durationMs (cursor + targetChunkMs cfg);
          (boundary, bestDistance) =
            nearest preferredMin preferredMax target boundaries (-1, int64_max)
      in if boundary \<le> cursor
         then let hardMaximum = min durationMs (cursor + hardMaximumChunkMs cfg);
                  (boundary', _) =
                    nearest preferredMin hardMaximum target boundaries (boundary, bestDistance)
              in if boundary' \<le> cursor then (hardMaximum, hardMaximum < durationMs)
                 else (boundary', False)
         else (boundary, False))"

text \<open>\<open>before\<close> is the overlap after the last chunk, 0 when there is none.\<close>

function plan_loop ::
  "chunk_planner_configuration \<Rightarrow> int \<Rightarrow> int list \<Rightarrow> int \<Rightarrow> int \<Rightarrow> int \<Rightarrow> transcription_chunk list" where
  "plan_loop cfg durationMs boundaries cursor ordinal before =
     (if cursor < durationMs
      then if durationMs - cursor \<le> maximumPreferredChunkMs cfg
           then [\<lparr>tc_ordinal = ordinal, tc_startMs = cursor, tc_endMs = durationMs,
                  tc_overlapBeforeMs = before, tc_overlapAfterMs = 0\<rparr>]
           else let (boundary, hardCut) = choose_boundary cfg durationMs boundaries cursor;
                    overlap = (if hardCut then hardCutOverlapMs cfg else 0);
                    nextCursor = boundary - overlap
                in \<lparr>tc_ordinal = ordinal, tc_startMs = cursor, tc_endMs = boundary,
                    tc_overlapBeforeMs = before, tc_overlapAfterMs = overlap\<rparr>
                   # (if nextCursor \<le> cursor then []
                      else plan_loop cfg durationMs boundaries nextCursor (ordinal + 1) overlap)
      else [])"
  by pat_completeness auto
termination
  by (relation "measure (\<lambda>(cfg, d, bs, c, ordinal, before). nat (d - c))") auto

declare plan_loop.simps [simp del]

definition plan ::
  "chunk_planner_configuration \<Rightarrow> int \<Rightarrow> speech_region list \<Rightarrow> transcription_chunk list option" where
  "plan cfg durationMs speechRegions =
     (if durationMs \<le> 0 then Some []
      else if durationMs \<le> shortAudioThresholdMs cfg
      then Some [\<lparr>tc_ordinal = 0, tc_startMs = 0, tc_endMs = durationMs,
                  tc_overlapBeforeMs = 0, tc_overlapAfterMs = 0\<rparr>]
      else map_option (\<lambda>boundaries. plan_loop cfg durationMs boundaries 0 0 0)
             (silence_boundaries cfg durationMs (clip_regions durationMs speechRegions)))"

subsection \<open>What the planner guarantees\<close>

lemma nearest_result:
  "fst (nearest lo hi t cs (b, d)) = b \<or>
     (fst (nearest lo hi t cs (b, d)) \<in> set cs \<and>
      lo \<le> fst (nearest lo hi t cs (b, d)) \<and> fst (nearest lo hi t cs (b, d)) \<le> hi)"
proof (induction cs arbitrary: b d)
  case Nil
  then show ?case by simp
next
  case (Cons c cs)
  show ?case using Cons.IH[of b d] Cons.IH[of c "\<bar>c - t\<bar>"] by (auto simp: Let_def)
qed

lemma nearest_minimal:
  assumes "c \<in> set cs" "lo \<le> c" "c \<le> hi"
  shows "snd (nearest lo hi t cs (b, d)) \<le> \<bar>c - t\<bar>"
proof -
  have le: "snd (nearest lo hi t cs (b, d)) \<le> d" for b d
  proof (induction cs arbitrary: b d)
    case (Cons a cs)
    show ?case using Cons.IH[of b d] Cons.IH[of a "\<bar>a - t\<bar>"] by (auto simp: Let_def)
  qed simp
  from assms show ?thesis
  proof (induction cs arbitrary: b d)
    case (Cons a cs)
    show ?case
    proof (cases "c \<in> set cs")
      case True
      then show ?thesis using Cons by (auto simp: Let_def)
    next
      case False
      then have "a = c" using Cons.prems by simp
      moreover have "snd (nearest lo hi t cs (b, d)) \<le> d" for b d
      proof (induction cs arbitrary: b d)
        case (Cons a cs)
        show ?case using Cons.IH[of b d] Cons.IH[of a "\<bar>a - t\<bar>"] by (auto simp: Let_def)
      qed simp
      ultimately show ?thesis
        using Cons.prems by (fastforce simp: Let_def intro: order_trans)
    qed
  qed simp
qed

lemma choose_boundary_bounds:
  assumes "choose_boundary default_chunk_configuration d bs c = (b, hard)"
    and "0 \<le> c" and "d - c > 720000"
  shows "c + 480000 \<le> b \<and> b \<le> d \<and> b \<le> c + 900000 \<and> (hard \<longrightarrow> b < d)"
proof -
  define n1 where "n1 = nearest (c + 480000) (min d (c + 720000)) (min d (c + 600000)) bs (-1, int64_max)"
  define n2 where "n2 = nearest (c + 480000) (min d (c + 900000)) (min d (c + 600000)) bs n1"
  have n1: "fst n1 = -1 \<or> c + 480000 \<le> fst n1 \<and> fst n1 \<le> min d (c + 720000)"
    using nearest_result[of "c + 480000" "min d (c + 720000)" "min d (c + 600000)" bs "-1" int64_max]
    unfolding n1_def by auto
  have n2: "fst n2 = fst n1 \<or> c + 480000 \<le> fst n2 \<and> fst n2 \<le> min d (c + 900000)"
    using nearest_result[of "c + 480000" "min d (c + 900000)" "min d (c + 600000)" bs "fst n1" "snd n1"]
    unfolding n2_def by auto
  show ?thesis
  proof (cases "fst n1 \<le> c")
    case True
    then have "(b, hard) =
        (if fst n2 \<le> c then (min d (c + 900000), min d (c + 900000) < d) else (fst n2, False))"
      using assms(1) unfolding choose_boundary_def n2_def n1_def
      by (auto simp: Let_def split_beta split: if_splits)
    then show ?thesis using True n2 assms(2,3) by (cases "fst n2 \<le> c") auto
  next
    case False
    then have "b = fst n1" "\<not> hard"
      using assms(1) unfolding choose_boundary_def n1_def by (simp_all add: Let_def split_beta)
    then show ?thesis using False n1 assms(2) by auto
  qed
qed

text \<open>
  A list of chunks that covers the recording from \<open>c\<close> to \<open>d\<close>: consecutive ordinals, each
  chunk starting where its predecessor ended less the overlap they share.
\<close>

fun good_chunks :: "int \<Rightarrow> int \<Rightarrow> int \<Rightarrow> int \<Rightarrow> transcription_chunk list \<Rightarrow> bool" where
  "good_chunks d c n b [] \<longleftrightarrow> False"
| "good_chunks d c n b (k # ks) \<longleftrightarrow>
     tc_ordinal k = n \<and> tc_startMs k = c \<and> tc_overlapBeforeMs k = b \<and> 0 \<le> c \<and> 0 \<le> b \<and>
     c + b < tc_endMs k \<and> tc_endMs k \<le> c + 900000 \<and> tc_endMs k \<le> d \<and>
     (if ks = [] then tc_endMs k = d \<and> tc_overlapAfterMs k = 0
      else c + 480000 \<le> tc_endMs k \<and> tc_overlapAfterMs k \<in> {0, 900} \<and>
        good_chunks d (tc_endMs k - tc_overlapAfterMs k) (n + 1) (tc_overlapAfterMs k) ks)"

lemma good_chunks_single:
  "good_chunks d c n b [k] \<longleftrightarrow>
     tc_ordinal k = n \<and> tc_startMs k = c \<and> tc_overlapBeforeMs k = b \<and> 0 \<le> c \<and> 0 \<le> b \<and>
     c + b < tc_endMs k \<and> tc_endMs k \<le> c + 900000 \<and> tc_endMs k = d \<and> tc_overlapAfterMs k = 0"
  by auto

lemma good_chunks_more:
  "ks \<noteq> [] \<Longrightarrow> good_chunks d c n b (k # ks) \<longleftrightarrow>
     tc_ordinal k = n \<and> tc_startMs k = c \<and> tc_overlapBeforeMs k = b \<and> 0 \<le> c \<and> 0 \<le> b \<and>
     c + b < tc_endMs k \<and> tc_endMs k \<le> c + 900000 \<and> tc_endMs k \<le> d \<and>
     c + 480000 \<le> tc_endMs k \<and> (tc_overlapAfterMs k = 0 \<or> tc_overlapAfterMs k = 900) \<and>
     good_chunks d (tc_endMs k - tc_overlapAfterMs k) (n + 1) (tc_overlapAfterMs k) ks"
  by (subst good_chunks.simps(2)) simp

declare good_chunks.simps(2) [simp del]

lemma good_chunks_head:
  "good_chunks d c n b (k # ks) \<Longrightarrow>
     tc_ordinal k = n \<and> tc_startMs k = c \<and> tc_overlapBeforeMs k = b \<and> 0 \<le> c \<and> 0 \<le> b \<and>
     c + b < tc_endMs k \<and> tc_endMs k \<le> c + 900000 \<and> tc_endMs k \<le> d"
  by (cases "ks = []") (auto simp: good_chunks_single good_chunks_more)

lemma plan_loop_good:
  assumes "0 \<le> c" "b = 0 \<or> b = 900" "c + b < d"
  shows "good_chunks d c n b (plan_loop default_chunk_configuration d bs c n b)"
  using assms
proof (induction "nat (d - c)" arbitrary: c n b rule: less_induct)
  case less
  let ?cfg = default_chunk_configuration
  show ?case
  proof (cases "d - c \<le> 720000")
    case True
    then show ?thesis using less.prems
      by (subst plan_loop.simps) (auto simp: good_chunks_single)
  next
    case False
    obtain e hard where e: "choose_boundary ?cfg d bs c = (e, hard)" by fastforce
    have bnd: "c + 480000 \<le> e" "e \<le> d" "e \<le> c + 900000" "hard \<longrightarrow> e < d"
      using choose_boundary_bounds[OF e] less.prems False by auto
    define ov :: int where "ov = (if hard then 900 else 0)"
    define rest where "rest = plan_loop ?cfg d bs (e - ov) (n + 1) ov"
    have unfold: "plan_loop ?cfg d bs c n b =
        \<lparr>tc_ordinal = n, tc_startMs = c, tc_endMs = e, tc_overlapBeforeMs = b,
         tc_overlapAfterMs = ov\<rparr> # rest"
      using False bnd less.prems e
      by (subst plan_loop.simps) (simp add: ov_def rest_def Let_def)
    show ?thesis
    proof (cases "e = d")
      case True
      then have "rest = []" "ov = 0" using bnd(4)
        by (auto simp: rest_def ov_def) (subst plan_loop.simps, simp)
      then show ?thesis using unfold True bnd less.prems by (auto simp: good_chunks_single)
    next
      case neq: False
      then have "good_chunks d (e - ov) (n + 1) ov rest"
        unfolding rest_def using bnd less.prems
        by (intro less.hyps) (auto simp: ov_def split: if_splits)
      moreover then have "rest \<noteq> []" by auto
      ultimately show ?thesis using unfold bnd less.prems by (auto simp: good_chunks_more ov_def)
    qed
  qed
qed

lemma target_boundaries_total:
  assumes "0 < target"
  shows "\<exists>bs. target_boundaries target d b = Some bs"
proof (induction "nat (d - b)" arbitrary: b rule: less_induct)
  case less
  show ?case
  proof (cases "b < d")
    case True
    then obtain bs where "target_boundaries target d (b + target) = Some bs"
      using less[of "b + target"] assms by auto
    then show ?thesis by (subst target_boundaries.simps) simp
  next
    case False
    then show ?thesis by (subst target_boundaries.simps) simp
  qed
qed

lemma plan_good:
  assumes "0 < d"
  shows "\<exists>cs. plan default_chunk_configuration d rs = Some cs \<and> good_chunks d 0 0 0 cs"
proof (cases "d \<le> 720000")
  case True
  then show ?thesis using assms by (simp add: plan_def good_chunks_single)
next
  case False
  let ?cfg = default_chunk_configuration
  obtain ts where "target_boundaries 600000 d 600000 = Some ts"
    using target_boundaries_total[of 600000 d 600000] by auto
  then obtain bs where "silence_boundaries ?cfg d (clip_regions d rs) = Some bs"
    by (cases "clip_regions d rs = []") (simp_all add: silence_boundaries_def)
  moreover have "good_chunks d 0 0 0 (plan_loop ?cfg d bs 0 0 0)"
    using assms by (intro plan_loop_good) auto
  ultimately show ?thesis using False assms by (simp add: plan_def)
qed

lemma good_chunks_nth:
  "good_chunks d c n b cs \<Longrightarrow> i < length cs \<Longrightarrow>
     tc_ordinal (cs ! i) = n + int i
     \<and> 0 \<le> tc_startMs (cs ! i) \<and> 0 \<le> tc_overlapBeforeMs (cs ! i)
     \<and> tc_startMs (cs ! i) + tc_overlapBeforeMs (cs ! i) < tc_endMs (cs ! i)
     \<and> tc_endMs (cs ! i) \<le> tc_startMs (cs ! i) + 900000 \<and> tc_endMs (cs ! i) \<le> d"
proof (induction cs arbitrary: c n b i)
  case Nil
  then show ?case by simp
next
  case (Cons k ks)
  show ?case
  proof (cases i)
    case 0
    then show ?thesis using good_chunks_head[OF Cons.prems(1)] by simp
  next
    case (Suc j)
    then have "ks \<noteq> []" using Cons.prems(2) by auto
    then have "good_chunks d (tc_endMs k - tc_overlapAfterMs k) (n + 1) (tc_overlapAfterMs k) ks"
      using Cons.prems(1) by (simp add: good_chunks_more)
    then show ?thesis using Cons.IH[of _ "n + 1" _ j] Cons.prems(2) Suc by simp
  qed
qed

lemma good_chunks_Suc:
  "good_chunks d c n b cs \<Longrightarrow> Suc i < length cs \<Longrightarrow>
     tc_startMs (cs ! i) + 480000 \<le> tc_endMs (cs ! i)
     \<and> tc_startMs (cs ! Suc i) = tc_endMs (cs ! i) - tc_overlapAfterMs (cs ! i)
     \<and> tc_overlapBeforeMs (cs ! Suc i) = tc_overlapAfterMs (cs ! i)
     \<and> (tc_overlapAfterMs (cs ! i) = 0 \<or> tc_overlapAfterMs (cs ! i) = 900)"
proof (induction cs arbitrary: c n b i)
  case Nil
  then show ?case by simp
next
  case (Cons k ks)
  then obtain k' ks' where ks: "ks = k' # ks'" by (cases ks) auto
  then have k: "tc_startMs k = c" "c + 480000 \<le> tc_endMs k"
      "tc_overlapAfterMs k = 0 \<or> tc_overlapAfterMs k = 900"
    and tail: "good_chunks d (tc_endMs k - tc_overlapAfterMs k) (n + 1) (tc_overlapAfterMs k) ks"
    using Cons.prems(1) by (simp_all add: good_chunks_more)
  show ?case
  proof (cases i)
    case 0
    then show ?thesis using k good_chunks_head[OF tail[unfolded ks]] ks by simp
  next
    case (Suc j)
    then show ?thesis using Cons.IH[OF tail, of j] Cons.prems(2) by simp
  qed
qed

lemma good_chunks_ends:
  "good_chunks d c n b cs \<Longrightarrow>
     cs \<noteq> [] \<and> tc_startMs (hd cs) = c \<and> tc_overlapBeforeMs (hd cs) = b
     \<and> tc_endMs (last cs) = d \<and> tc_overlapAfterMs (last cs) = 0"
proof (induction cs arbitrary: c n b)
  case (Cons k ks)
  show ?case
  proof (cases "ks = []")
    case False
    then have "good_chunks d (tc_endMs k - tc_overlapAfterMs k) (n + 1) (tc_overlapAfterMs k) ks"
      using Cons.prems by (simp add: good_chunks_more)
    then show ?thesis using Cons.IH good_chunks_head[OF Cons.prems] False by simp
  qed (use Cons.prems in \<open>simp add: good_chunks_single\<close>)
qed simp

text \<open>A plan with \<open>k\<close> chunks needs at least 479.1 s for every chunk but the last.\<close>

lemma good_chunks_count:
  "good_chunks d c n b cs \<Longrightarrow> (int (length cs) - 1) * 479100 < d - c"
proof (induction cs arbitrary: c n b)
  case (Cons k ks)
  show ?case
  proof (cases "ks = []")
    case True
    then show ?thesis using Cons.prems by (simp add: good_chunks_single)
  next
    case False
    then have k: "c + 480000 \<le> tc_endMs k" "tc_overlapAfterMs k = 0 \<or> tc_overlapAfterMs k = 900"
      and tail: "good_chunks d (tc_endMs k - tc_overlapAfterMs k) (n + 1) (tc_overlapAfterMs k) ks"
      using Cons.prems by (simp_all add: good_chunks_more)
    have "(int (length ks) - 1) * 479100 < d - (tc_endMs k - tc_overlapAfterMs k)"
      by (rule Cons.IH[OF tail])
    then show ?thesis using k by (auto simp: algebra_simps)
  qed
qed simp

subsection \<open>The plan on the wire\<close>

text \<open>
  The payload of SpeechAnalysisCompleted as the worker builds it, and the application's
  check of it. \<open>uuid\<close> stands for \<open>QUuid::createUuid\<close>: the id of the chunk with a given
  index. A rejected payload is \<open>None\<close>; the error texts are left out.
\<close>

definition encode_chunk :: "transcription_chunk \<Rightarrow> cbor" where
  "encode_chunk c = CborMap
     (mapInsert ''overlapAfterMs'' (CborInteger (tc_overlapAfterMs c))
     (mapInsert ''overlapBeforeMs'' (CborInteger (tc_overlapBeforeMs c))
     (mapInsert ''endMs'' (CborInteger (tc_endMs c))
     (mapInsert ''startMs'' (CborInteger (tc_startMs c))
     (mapInsert ''ordinal'' (CborInteger (tc_ordinal c)) [])))))"

definition encode_region :: "speech_region \<Rightarrow> cbor" where
  "encode_region r = CborMap
     (mapInsert ''endMs'' (CborInteger (sr_endMs r))
     (mapInsert ''startMs'' (CborInteger (sr_startMs r)) []))"

definition speech_analysis_payload ::
  "int \<Rightarrow> speech_region list \<Rightarrow> transcription_chunk list \<Rightarrow> cbor_map" where
  "speech_analysis_payload durationMs regions chunks =
     mapInsert ''chunks'' (CborArray (map encode_chunk chunks))
     (mapInsert ''speechRegions'' (CborArray (map encode_region regions))
     (mapInsert ''durationMs'' (CborInteger durationMs) []))"

definition MaximumWorkerChunks :: nat where
  "MaximumWorkerChunks = 4096"

definition job_chunk_of :: "string \<Rightarrow> string \<Rightarrow> transcription_chunk \<Rightarrow> job_chunk" where
  "job_chunk_of identifier jobId c =
     \<lparr>jc_id = identifier, jc_jobId = jobId, jc_ordinal = tc_ordinal c,
      jc_startMs = tc_startMs c, jc_endMs = tc_endMs c,
      jc_overlapBeforeMs = tc_overlapBeforeMs c, jc_overlapAfterMs = tc_overlapAfterMs c,
      jc_state = ChunkPending, jc_attempts = 0, jc_startedAt = None, jc_completedAt = None,
      jc_error = [], jc_resultHash = [], jc_diagnostics = []\<rparr>"

definition makeJobChunks ::
  "(nat \<Rightarrow> string) \<Rightarrow> string \<Rightarrow> transcription_chunk list \<Rightarrow> job_chunk list" where
  "makeJobChunks uuid jobId planned =
     map (\<lambda>(index, c). job_chunk_of (uuid index) jobId c) (enumerate 0 planned)"

text \<open>The five integers of an encoded chunk, \<open>None\<close> unless all of them are integers.\<close>

definition read_chunk :: "cbor_map \<Rightarrow> transcription_chunk option" where
  "read_chunk m =
     (case (readInteger m ''ordinal'', readInteger m ''startMs'', readInteger m ''endMs'',
            readInteger m ''overlapBeforeMs'', readInteger m ''overlapAfterMs'') of
        (Some ordinal, Some startMs, Some endMs, Some overlapBefore, Some overlapAfter) \<Rightarrow>
          Some \<lparr>tc_ordinal = ordinal, tc_startMs = startMs, tc_endMs = endMs,
                tc_overlapBeforeMs = overlapBefore, tc_overlapAfterMs = overlapAfter\<rparr>
      | _ \<Rightarrow> None)"

fun decode_chunks ::
  "(nat \<Rightarrow> string) \<Rightarrow> string \<Rightarrow> int \<Rightarrow> nat \<Rightarrow> int \<Rightarrow> int \<Rightarrow> cbor list \<Rightarrow> job_chunk list option" where
  "decode_chunks uuid jobId durationMs index previousEnd previousOverlapAfter [] = Some []"
| "decode_chunks uuid jobId durationMs index previousEnd previousOverlapAfter (encoded # es) =
     (if \<not> isMap encoded then None
      else case read_chunk (toMap encoded) of
        None \<Rightarrow> None
      | Some c \<Rightarrow>
          if tc_ordinal c \<noteq> int index \<or> tc_startMs c < 0 \<or> tc_endMs c \<le> tc_startMs c
             \<or> tc_endMs c > durationMs \<or> tc_overlapBeforeMs c < 0 \<or> tc_overlapAfterMs c < 0
             \<or> tc_overlapBeforeMs c \<ge> tc_endMs c - tc_startMs c
             \<or> tc_overlapAfterMs c \<ge> tc_endMs c - tc_startMs c
          then None
          else if index = 0 \<and> (tc_startMs c \<noteq> 0 \<or> tc_overlapBeforeMs c \<noteq> 0)
             \<or> index > 0 \<and> (tc_overlapBeforeMs c \<noteq> previousOverlapAfter
                  \<or> tc_startMs c \<noteq> previousEnd - tc_overlapBeforeMs c)
          then None
          else map_option (Cons (job_chunk_of (uuid index) jobId c))
                 (decode_chunks uuid jobId durationMs (Suc index) (tc_endMs c)
                    (tc_overlapAfterMs c) es))"

definition decodeWorkerChunkPlan ::
  "(nat \<Rightarrow> string) \<Rightarrow> cbor_map \<Rightarrow> string \<Rightarrow> (int \<times> job_chunk list) option" where
  "decodeWorkerChunkPlan uuid payload jobId =
     (let durationValue = mapValue payload ''durationMs'';
          chunksValue = mapValue payload ''chunks'' in
      if \<not> isInteger durationValue \<or> \<not> isArray chunksValue then None
      else let durationMs = toInteger 0 durationValue;
               encodedChunks = toArray chunksValue in
        if durationMs \<le> 0 \<or> encodedChunks = [] \<or> length encodedChunks > MaximumWorkerChunks
        then None
        else case decode_chunks uuid jobId durationMs 0 0 0 encodedChunks of
          None \<Rightarrow> None
        | Some chunks \<Rightarrow>
            if jc_endMs (last chunks) \<noteq> durationMs \<or> jc_overlapAfterMs (last chunks) \<noteq> 0
            then None
            else Some (durationMs, chunks))"

lemma read_encode_chunk [simp]: "read_chunk (toMap (encode_chunk c)) = Some c"
  by (simp add: read_chunk_def encode_chunk_def)

lemma isMap_encode_chunk [simp]: "isMap (encode_chunk c)"
  by (simp add: encode_chunk_def)

lemma job_chunk_of_simps [simp]:
  "jc_endMs (job_chunk_of i j c) = tc_endMs c"
  "jc_startMs (job_chunk_of i j c) = tc_startMs c"
  "jc_ordinal (job_chunk_of i j c) = tc_ordinal c"
  "jc_overlapBeforeMs (job_chunk_of i j c) = tc_overlapBeforeMs c"
  "jc_overlapAfterMs (job_chunk_of i j c) = tc_overlapAfterMs c"
  by (simp_all add: job_chunk_of_def)

lemma decode_encoded_chunks:
  "good_chunks d (previousEnd - overlap) (int index) overlap cs \<Longrightarrow>
   (index = 0 \<longrightarrow> previousEnd = 0 \<and> overlap = 0) \<Longrightarrow>
   decode_chunks uuid jobId d index previousEnd overlap (map encode_chunk cs)
     = Some (map (\<lambda>(i, c). job_chunk_of (uuid i) jobId c) (enumerate index cs))"
proof (induction cs arbitrary: index previousEnd overlap)
  case (Cons k ks)
  note head = good_chunks_head[OF Cons.prems(1)]
  have rest: "decode_chunks uuid jobId d (Suc index) (tc_endMs k) (tc_overlapAfterMs k)
        (map encode_chunk ks)
      = Some (map (\<lambda>(i, c). job_chunk_of (uuid i) jobId c) (enumerate (Suc index) ks))
      \<and> 0 \<le> tc_overlapAfterMs k \<and> tc_overlapAfterMs k < tc_endMs k - tc_startMs k"
  proof (cases "ks = []")
    case True
    then show ?thesis using Cons.prems(1) by (simp add: good_chunks_single)
  next
    case False
    then have "good_chunks d (tc_endMs k - tc_overlapAfterMs k) (int (Suc index)) (tc_overlapAfterMs k) ks"
      and "0 \<le> tc_overlapAfterMs k" "tc_overlapAfterMs k < tc_endMs k - tc_startMs k"
      using Cons.prems(1) by (auto simp: good_chunks_more add.commute)
    then show ?thesis using Cons.IH[of "tc_endMs k" "tc_overlapAfterMs k" "Suc index"] by simp
  qed
  have checks: "\<not> (tc_ordinal k \<noteq> int index \<or> tc_startMs k < 0 \<or> tc_endMs k \<le> tc_startMs k
      \<or> tc_endMs k > d \<or> tc_overlapBeforeMs k < 0 \<or> tc_overlapAfterMs k < 0
      \<or> tc_overlapBeforeMs k \<ge> tc_endMs k - tc_startMs k
      \<or> tc_overlapAfterMs k \<ge> tc_endMs k - tc_startMs k)"
    using head rest by auto
  have linked: "\<not> (index = 0 \<and> (tc_startMs k \<noteq> 0 \<or> tc_overlapBeforeMs k \<noteq> 0)
      \<or> index > 0 \<and> (tc_overlapBeforeMs k \<noteq> overlap \<or> tc_startMs k \<noteq> previousEnd - tc_overlapBeforeMs k))"
    using head Cons.prems(2) by auto
  show ?case
    using rest by (simp only: list.map decode_chunks.simps isMap_encode_chunk not_True_eq_False
        if_False read_encode_chunk option.case checks linked) simp
qed simp

subsection \<open>Properties\<close>

text \<open>
  C28: Planning always ends with a plan, whatever speech regions were detected, and the plan
  covers the recording: the first chunk starts at 0, the last one ends at the duration,
  each chunk starts exactly where its predecessor ended less the overlap both record,
  ordinals count from 0, no chunk is empty or longer than 15 minutes, and no chunk but the
  last is shorter than 8 minutes.
\<close>

theorem plan_covers_recording:
  assumes "0 < durationMs"
  shows "\<exists>cs. plan default_chunk_configuration durationMs regions = Some cs \<and> cs \<noteq> []
    \<and> tc_startMs (hd cs) = 0 \<and> tc_endMs (last cs) = durationMs
    \<and> (\<forall>i < length cs. tc_ordinal (cs ! i) = int i \<and> tc_startMs (cs ! i) < tc_endMs (cs ! i)
         \<and> tc_endMs (cs ! i) - tc_startMs (cs ! i) \<le> 15 * 60 * 1000)
    \<and> (\<forall>i. Suc i < length cs \<longrightarrow>
         tc_endMs (cs ! i) - tc_startMs (cs ! i) \<ge> 8 * 60 * 1000
         \<and> tc_startMs (cs ! Suc i) = tc_endMs (cs ! i) - tc_overlapAfterMs (cs ! i)
         \<and> tc_overlapBeforeMs (cs ! Suc i) = tc_overlapAfterMs (cs ! i)
         \<and> tc_overlapAfterMs (cs ! i) \<in> {0, 900})"
proof -
  obtain cs where cs: "plan default_chunk_configuration durationMs regions = Some cs"
    and good: "good_chunks durationMs 0 0 0 cs"
    using plan_good[OF assms] by blast
  have "tc_ordinal (cs ! i) = int i \<and> tc_startMs (cs ! i) < tc_endMs (cs ! i)
      \<and> tc_endMs (cs ! i) - tc_startMs (cs ! i) \<le> 15 * 60 * 1000" if "i < length cs" for i
    using good_chunks_nth[OF good that] by auto
  moreover have "tc_endMs (cs ! i) - tc_startMs (cs ! i) \<ge> 8 * 60 * 1000
         \<and> tc_startMs (cs ! Suc i) = tc_endMs (cs ! i) - tc_overlapAfterMs (cs ! i)
         \<and> tc_overlapBeforeMs (cs ! Suc i) = tc_overlapAfterMs (cs ! i)
         \<and> tc_overlapAfterMs (cs ! i) \<in> {0, 900}" if "Suc i < length cs" for i
    using good_chunks_Suc[OF good that] by auto
  ultimately show ?thesis using cs good_chunks_ends[OF good] by blast
qed

theorem plan_covers_recording_witness:
  "\<exists>cs. plan default_chunk_configuration 2000000 [\<lparr>sr_startMs = 5, sr_endMs = 1900000\<rparr>] = Some cs
     \<and> cs \<noteq> [] \<and> tc_startMs (hd cs) = 0 \<and> tc_endMs (last cs) = 2000000"
  using plan_covers_recording[of 2000000 "[\<lparr>sr_startMs = 5, sr_endMs = 1900000\<rparr>]"] by auto

text \<open>
  The worker and the application agree on chunk plans: for a recording of up to 545
  hours, the application accepts the plan the worker's planner produces and recovers exactly
  its chunks and the duration.
\<close>

theorem worker_plan_accepted:
  assumes "0 < durationMs" and "durationMs \<le> 545 * 60 * 60 * 1000"
    and "plan default_chunk_configuration durationMs regions = Some cs"
  shows "decodeWorkerChunkPlan uuid (speech_analysis_payload durationMs regions cs) jobId
    = Some (durationMs, makeJobChunks uuid jobId cs)"
proof -
  have good: "good_chunks durationMs 0 0 0 cs" using plan_good[OF assms(1), of regions] assms(3) by auto
  have "(int (length cs) - 1) * 479100 < 4096 * 479100"
    using good_chunks_count[OF good] assms(2) by linarith
  then have len: "\<not> length cs > MaximumWorkerChunks" by (simp add: MaximumWorkerChunks_def)
  have decoded: "decode_chunks uuid jobId durationMs 0 0 0 (map encode_chunk cs)
      = Some (makeJobChunks uuid jobId cs)"
    using decode_encoded_chunks[of durationMs 0 0 0 cs uuid jobId] good
    by (simp add: makeJobChunks_def)
  note ends = good_chunks_ends[OF good]
  have len_eq: "length (makeJobChunks uuid jobId cs) = length cs" by (simp add: makeJobChunks_def)
  then have "makeJobChunks uuid jobId cs \<noteq> []" using ends by (metis length_0_conv)
  then have "last (makeJobChunks uuid jobId cs) = makeJobChunks uuid jobId cs ! (length cs - 1)"
    using len_eq by (simp add: last_conv_nth)
  also have "\<dots> = job_chunk_of (uuid (length cs - 1)) jobId (last cs)"
    using ends by (simp add: makeJobChunks_def nth_enumerate_eq last_conv_nth)
  finally have "last (makeJobChunks uuid jobId cs)
    = job_chunk_of (uuid (length cs - 1)) jobId (last cs)" .
  then show ?thesis
    using ends len decoded assms(1)
    by (simp add: decodeWorkerChunkPlan_def speech_analysis_payload_def Let_def)
qed

theorem worker_plan_accepted_witness:
  "decodeWorkerChunkPlan (\<lambda>i. ''c'')
     (speech_analysis_payload 1000 [] [\<lparr>tc_ordinal = 0, tc_startMs = 0, tc_endMs = 1000,
        tc_overlapBeforeMs = 0, tc_overlapAfterMs = 0\<rparr>]) ''job''
   = Some (1000, makeJobChunks (\<lambda>i. ''c'') ''job'' [\<lparr>tc_ordinal = 0, tc_startMs = 0, tc_endMs = 1000,
        tc_overlapBeforeMs = 0, tc_overlapAfterMs = 0\<rparr>])"
  by (rule worker_plan_accepted) (simp_all add: plan_def)

end
