(* ===== verification/VadSegmenter.thy ===== *)
theory VadSegmenter
  imports ChunkPlanner
begin

text \<open>
  \<^verbatim>\<open>asr/StreamingVadSegmenter\<close>: speech probabilities arrive in blocks, one per frame, and
  become the speech regions the chunk planner cuts between. A negative start stands for
  "none", as in the source. The properties are that the regions are an ordered timeline
  inside the recording and that no long enough run of speech frames is lost.
\<close>

record streaming_vad_configuration =
  vc_threshold :: real
  vc_probabilityFrameMs :: int
  vc_minimumSpeechMs :: int
  vc_minimumSilenceMs :: int
  vc_speechPaddingMs :: int

record streaming_vad_segmenter =
  vs_regions :: "speech_region list"
  vs_frameIndex :: int
  vs_speechStartMs :: int
  vs_silenceStartMs :: int

definition default_vad_configuration :: streaming_vad_configuration where
  "default_vad_configuration = \<lparr>vc_threshold = 1 / 2, vc_probabilityFrameMs = 32,
     vc_minimumSpeechMs = 250, vc_minimumSilenceMs = 100, vc_speechPaddingMs = 30\<rparr>"

definition vad_reset :: streaming_vad_segmenter where
  "vad_reset = \<lparr>vs_regions = [], vs_frameIndex = 0, vs_speechStartMs = -1, vs_silenceStartMs = -1\<rparr>"

definition set_last_end :: "int \<Rightarrow> speech_region list \<Rightarrow> speech_region list" where
  "set_last_end e rs = butlast rs @ [(last rs)\<lparr>sr_endMs := e\<rparr>]"

definition closeSpeech ::
  "streaming_vad_configuration \<Rightarrow> int \<Rightarrow> streaming_vad_segmenter \<Rightarrow> streaming_vad_segmenter" where
  "closeSpeech cfg endMs s =
     (let rs = vs_regions s;
          regions' =
            (if vs_speechStartMs s \<ge> 0 \<and> endMs - vs_speechStartMs s \<ge> vc_minimumSpeechMs cfg
             then let paddedStart = max 0 (vs_speechStartMs s - vc_speechPaddingMs cfg);
                      paddedEnd = endMs + vc_speechPaddingMs cfg
                  in if rs \<noteq> [] \<and> paddedStart \<le> sr_endMs (last rs)
                     then set_last_end (max (sr_endMs (last rs)) paddedEnd) rs
                     else rs @ [\<lparr>sr_startMs = paddedStart, sr_endMs = paddedEnd\<rparr>]
             else rs)
      in s\<lparr>vs_regions := regions', vs_speechStartMs := -1, vs_silenceStartMs := -1\<rparr>)"

text \<open>The body of the loop of \<open>appendProbabilities\<close>, and the loop.\<close>

definition vad_frame ::
  "streaming_vad_configuration \<Rightarrow> streaming_vad_segmenter \<Rightarrow> real \<Rightarrow> streaming_vad_segmenter" where
  "vad_frame cfg s probability =
     (let frameStart = vs_frameIndex s * vc_probabilityFrameMs cfg;
          s' = (if probability \<ge> vc_threshold cfg
                then (if vs_speechStartMs s < 0 then s\<lparr>vs_speechStartMs := frameStart\<rparr> else s)
                       \<lparr>vs_silenceStartMs := -1\<rparr>
                else if vs_speechStartMs s \<ge> 0
                then let s1 = (if vs_silenceStartMs s < 0
                               then s\<lparr>vs_silenceStartMs := frameStart\<rparr> else s)
                     in if frameStart - vs_silenceStartMs s1 \<ge> vc_minimumSilenceMs cfg
                        then closeSpeech cfg (vs_silenceStartMs s1) s1 else s1
                else s)
      in s'\<lparr>vs_frameIndex := vs_frameIndex s + 1\<rparr>)"

definition appendProbabilities ::
  "streaming_vad_configuration \<Rightarrow> streaming_vad_segmenter \<Rightarrow> real list \<Rightarrow> streaming_vad_segmenter" where
  "appendProbabilities cfg s probabilities = foldl (vad_frame cfg) s probabilities"

definition vad_finish ::
  "streaming_vad_configuration \<Rightarrow> int \<Rightarrow> streaming_vad_segmenter \<Rightarrow> streaming_vad_segmenter" where
  "vad_finish cfg audioDurationMs s =
     (let s1 = (if vs_speechStartMs s \<ge> 0 then closeSpeech cfg (max 0 audioDurationMs) s else s)
      in if vs_regions s1 = [] then s1
         else s1\<lparr>vs_regions := set_last_end
                (min (sr_endMs (last (vs_regions s1))) (max 0 audioDurationMs)) (vs_regions s1)\<rparr>)"

subsection \<open>Regions are a timeline\<close>

definition regions_ok :: "speech_region list \<Rightarrow> bool" where
  "regions_ok rs \<longleftrightarrow> (\<forall>r \<in> set rs. 0 \<le> sr_startMs r \<and> sr_startMs r < sr_endMs r)
     \<and> sorted_wrt (\<lambda>a b. sr_endMs a < sr_startMs b) rs"

interpretation regions: timeline sr_startMs sr_endMs regions_ok
proof unfold_locales
  fix xs :: "speech_region list" and i
  assume "regions_ok xs" "Suc i < length xs"
  then show "sr_endMs (xs ! i) \<le> sr_startMs (xs ! Suc i)"
    by (simp add: regions_ok_def sorted_wrt_iff_nth_less less_imp_le)
qed (simp add: regions_ok_def)

definition config_ok :: "streaming_vad_configuration \<Rightarrow> bool" where
  "config_ok cfg \<longleftrightarrow> 0 < vc_probabilityFrameMs cfg \<and> 0 < vc_minimumSpeechMs cfg
     \<and> 0 \<le> vc_speechPaddingMs cfg"

lemma regions_ok_snoc:
  "regions_ok (rs @ [r]) \<longleftrightarrow> regions_ok rs \<and> 0 \<le> sr_startMs r \<and> sr_startMs r < sr_endMs r
     \<and> (\<forall>a \<in> set rs. sr_endMs a < sr_startMs r)"
  by (auto simp: regions_ok_def sorted_wrt_append)

lemma regions_ok_last_max:
  assumes "regions_ok rs" "a \<in> set rs"
  shows "sr_endMs a \<le> sr_endMs (last rs)"
proof (cases rs rule: rev_cases)
  case Nil
  then show ?thesis using assms by simp
next
  case (snoc ys y)
  then show ?thesis using assms by (fastforce simp: regions_ok_snoc)
qed

lemma set_last_end_ok:
  assumes "regions_ok rs" "rs \<noteq> []" "sr_startMs (last rs) < e"
  shows "regions_ok (set_last_end e rs)"
proof -
  obtain ys y where "rs = ys @ [y]" using assms(2) by (cases rs rule: rev_cases) auto
  then show ?thesis using assms by (simp add: set_last_end_def regions_ok_snoc)
qed

lemma closeSpeech_fields [simp]:
  "vs_speechStartMs (closeSpeech cfg e s) = -1"
  "vs_silenceStartMs (closeSpeech cfg e s) = -1"
  "vs_frameIndex (closeSpeech cfg e s) = vs_frameIndex s"
  by (simp_all add: closeSpeech_def Let_def)

lemma closeSpeech_cases:
  obtains (dropped) "\<not> (0 \<le> vs_speechStartMs s \<and> vc_minimumSpeechMs cfg \<le> e - vs_speechStartMs s)"
      "vs_regions (closeSpeech cfg e s) = vs_regions s"
    | (merged) "0 \<le> vs_speechStartMs s" "vc_minimumSpeechMs cfg \<le> e - vs_speechStartMs s"
      "vs_regions s \<noteq> []"
      "vs_speechStartMs s - vc_speechPaddingMs cfg \<le> sr_endMs (last (vs_regions s))"
      "0 \<le> sr_endMs (last (vs_regions s))"
      "vs_regions (closeSpeech cfg e s) =
        set_last_end (max (sr_endMs (last (vs_regions s))) (e + vc_speechPaddingMs cfg)) (vs_regions s)"
    | (added) "0 \<le> vs_speechStartMs s" "vc_minimumSpeechMs cfg \<le> e - vs_speechStartMs s"
      "vs_regions s = [] \<or> sr_endMs (last (vs_regions s)) < max 0 (vs_speechStartMs s - vc_speechPaddingMs cfg)"
      "vs_regions (closeSpeech cfg e s) = vs_regions s @
        [\<lparr>sr_startMs = max 0 (vs_speechStartMs s - vc_speechPaddingMs cfg),
          sr_endMs = e + vc_speechPaddingMs cfg\<rparr>]"
proof (cases "0 \<le> vs_speechStartMs s \<and> vc_minimumSpeechMs cfg \<le> e - vs_speechStartMs s")
  case False
  then have "vs_regions (closeSpeech cfg e s) = vs_regions s" by (auto simp: closeSpeech_def)
  then show ?thesis using False dropped by simp
next
  case True
  show ?thesis
  proof (cases "vs_regions s \<noteq> [] \<and>
      max 0 (vs_speechStartMs s - vc_speechPaddingMs cfg) \<le> sr_endMs (last (vs_regions s))")
    case m: True
    then show ?thesis using True merged by (simp add: closeSpeech_def Let_def)
  next
    case n: False
    have "vs_regions (closeSpeech cfg e s) = vs_regions s @
        [\<lparr>sr_startMs = max 0 (vs_speechStartMs s - vc_speechPaddingMs cfg),
          sr_endMs = e + vc_speechPaddingMs cfg\<rparr>]"
      using True n by (auto simp: closeSpeech_def Let_def)
    then show ?thesis using True n by (intro added) auto
  qed
qed

lemma closeSpeech_regions:
  assumes "config_ok cfg" "regions_ok (vs_regions s)"
  shows "regions_ok (vs_regions (closeSpeech cfg e s))"
proof (cases cfg e s rule: closeSpeech_cases)
  case merged
  then have "sr_startMs (last (vs_regions s)) < sr_endMs (last (vs_regions s))"
    using assms(2) by (simp add: regions_ok_def)
  then show ?thesis
    unfolding merged(6) using merged(3) assms(2) by (intro set_last_end_ok) auto
next
  case added
  have "sr_endMs r < max 0 (vs_speechStartMs s - vc_speechPaddingMs cfg)"
    if "r \<in> set (vs_regions s)" for r
    using regions_ok_last_max[OF assms(2) that] that added(3) by auto
  then show ?thesis
    unfolding added(4) using added assms by (auto simp: regions_ok_snoc config_ok_def)
qed (use assms in simp)

lemma vad_frame_regions:
  assumes "config_ok cfg" "regions_ok (vs_regions s)"
  shows "regions_ok (vs_regions (vad_frame cfg s p))"
  using assms by (simp add: vad_frame_def Let_def closeSpeech_regions)

lemma vad_frame_index [simp]: "vs_frameIndex (vad_frame cfg s p) = vs_frameIndex s + 1"
  by (simp add: vad_frame_def Let_def)

text \<open>
  \<open>vad_inv\<close>: nothing recorded lies beyond the last frame seen.
\<close>

definition vad_inv :: "streaming_vad_configuration \<Rightarrow> streaming_vad_segmenter \<Rightarrow> bool" where
  "vad_inv cfg s \<longleftrightarrow> regions_ok (vs_regions s)
     \<and> (\<forall>r \<in> set (vs_regions s). sr_startMs r < (vs_frameIndex s - 1) * vc_probabilityFrameMs cfg)
     \<and> (0 \<le> vs_speechStartMs s \<longrightarrow>
          vs_speechStartMs s \<le> (vs_frameIndex s - 1) * vc_probabilityFrameMs cfg
          \<and> (\<forall>r \<in> set (vs_regions s). sr_startMs r \<le> vs_speechStartMs s))
     \<and> (0 \<le> vs_silenceStartMs s \<longrightarrow>
          vs_silenceStartMs s \<le> (vs_frameIndex s - 1) * vc_probabilityFrameMs cfg)"

lemma set_last_end_set:
  assumes "r \<in> set (set_last_end e rs)" "rs \<noteq> []"
  shows "\<exists>q \<in> set rs. sr_startMs q = sr_startMs r"
proof -
  consider "r \<in> set (butlast rs)" | "r = (last rs)\<lparr>sr_endMs := e\<rparr>"
    using assms by (auto simp: set_last_end_def)
  then show ?thesis
  proof cases
    case 1
    then show ?thesis by (auto dest: in_set_butlastD)
  next
    case 2
    then show ?thesis using assms(2) by (intro bexI[of _ "last rs"]) auto
  qed
qed

lemma closeSpeech_starts:
  assumes "config_ok cfg" "r \<in> set (vs_regions (closeSpeech cfg e s))"
  shows "(\<exists>q \<in> set (vs_regions s). sr_startMs q = sr_startMs r) \<or> sr_startMs r < e"
proof (cases cfg e s rule: closeSpeech_cases)
  case merged
  then show ?thesis using assms(2) set_last_end_set by metis
next
  case added
  then show ?thesis using assms by (auto simp: config_ok_def)
qed (use assms in auto)

lemma vad_frame_inv:
  assumes "config_ok cfg" "vad_inv cfg s"
  shows "vad_inv cfg (vad_frame cfg s p)"
proof -
  let ?F = "vc_probabilityFrameMs cfg" and ?t = "vs_frameIndex s * vc_probabilityFrameMs cfg"
  have F: "0 < ?F" using assms(1) by (simp add: config_ok_def)
  then have step: "(vs_frameIndex s - 1) * ?F < ?t" by (simp add: algebra_simps)
  let ?s1 = "if vs_silenceStartMs s < 0 then s\<lparr>vs_silenceStartMs := ?t\<rparr> else s"
  have sil: "vs_silenceStartMs ?s1 \<le> ?t" and sp: "0 \<le> vs_speechStartMs s \<longrightarrow> vs_speechStartMs s \<le> ?t"
    using assms(2) step by (auto simp: vad_inv_def)
  have old: "sr_startMs r < ?t" if "r \<in> set (vs_regions s)" for r
    using assms(2) that step by (fastforce simp: vad_inv_def)
  have old_le: "sr_startMs r \<le> ?t" if "r \<in> set (vs_regions s)" for r
    using old[OF that] by simp
  have opened: "0 \<le> vs_speechStartMs s \<longrightarrow> (\<forall>r \<in> set (vs_regions s). sr_startMs r \<le> vs_speechStartMs s)"
    using assms(2) by (simp add: vad_inv_def)
  have closed: "sr_startMs r < ?t"
    if "r \<in> set (vs_regions (closeSpeech cfg (vs_silenceStartMs ?s1) ?s1))" for r
  proof -
    have "vs_regions ?s1 = vs_regions s" by simp
    then show ?thesis using closeSpeech_starts[OF assms(1) that] old sil by fastforce
  qed
  have "regions_ok (vs_regions (vad_frame cfg s p))"
    using vad_frame_regions[OF assms(1)] assms(2) by (simp add: vad_inv_def)
  then show ?thesis
    using old old_le opened closed sil sp unfolding vad_inv_def
    by (auto simp: vad_frame_def Let_def split: if_splits)
qed

lemma vad_reset_inv: "vad_inv cfg vad_reset"
  by (simp add: vad_inv_def vad_reset_def regions_ok_def)

interpretation vad: machine "vad_frame cfg" "\<lambda>s. config_ok cfg \<and> vad_inv cfg s" for cfg
  by unfold_locales (auto intro: vad_frame_inv)

lemma append_inv:
  "config_ok cfg \<Longrightarrow> vad_inv cfg s \<Longrightarrow> vad_inv cfg (appendProbabilities cfg s ps)"
  using vad.run_inv[of cfg s ps] by (simp add: appendProbabilities_def)

lemma append_frameIndex [simp]:
  "vs_frameIndex (appendProbabilities cfg s ps) = vs_frameIndex s + int (length ps)"
  unfolding appendProbabilities_def by (induction ps arbitrary: s) simp_all

lemma append_snoc:
  "appendProbabilities cfg s (ps @ [p]) = vad_frame cfg (appendProbabilities cfg s ps) p"
  by (simp add: appendProbabilities_def)

lemma finish_regions:
  assumes "config_ok cfg" "vad_inv cfg s"
    and "(vs_frameIndex s - 1) * vc_probabilityFrameMs cfg \<le> d" "0 \<le> d"
    and "r \<in> set (vs_regions (vad_finish cfg d s))"
  shows "regions_ok (vs_regions (vad_finish cfg d s)) \<and> sr_endMs r \<le> d"
proof -
  define s1 where "s1 = (if vs_speechStartMs s \<ge> 0 then closeSpeech cfg d s else s)"
  have ok: "regions_ok (vs_regions s1)"
    using assms by (simp add: s1_def vad_inv_def closeSpeech_regions)
  have old: "sr_startMs q < d" if "q \<in> set (vs_regions s)" for q
    using assms(2,3) that by (fastforce simp: vad_inv_def)
  have starts: "sr_startMs q < d" if "q \<in> set (vs_regions s1)" for q
    using that old closeSpeech_starts[OF assms(1), of q d s]
    by (cases "vs_speechStartMs s \<ge> 0") (fastforce simp: s1_def)+
  have fin: "vs_regions (vad_finish cfg d s) = (if vs_regions s1 = [] then []
      else set_last_end (min (sr_endMs (last (vs_regions s1))) d) (vs_regions s1))"
    using assms(4) by (auto simp: vad_finish_def Let_def s1_def)
  then have ne: "vs_regions s1 \<noteq> []" using assms(5) by auto
  then have "sr_startMs (last (vs_regions s1)) < min (sr_endMs (last (vs_regions s1))) d"
    using ok starts by (auto simp: regions_ok_def)
  then have fin_ok: "regions_ok (vs_regions (vad_finish cfg d s))"
    using fin ne ok by (simp add: set_last_end_ok)
  then have "sr_endMs r \<le> sr_endMs (last (vs_regions (vad_finish cfg d s)))"
    using assms(5) by (rule regions_ok_last_max)
  then show ?thesis using fin ne fin_ok by (simp add: set_last_end_def)
qed

subsection \<open>No speech is lost\<close>

definition covered :: "speech_region list \<Rightarrow> int \<Rightarrow> int \<Rightarrow> bool" where
  "covered rs x y \<longleftrightarrow> (\<exists>r \<in> set rs. sr_startMs r \<le> x \<and> y \<le> sr_endMs r)"

definition speech_run :: "streaming_vad_configuration \<Rightarrow> real list \<Rightarrow> nat \<Rightarrow> nat \<Rightarrow> bool" where
  "speech_run cfg ps a b \<longleftrightarrow>
     a < b \<and> b \<le> length ps \<and> (\<forall>i \<in> {a..<b}. vc_threshold cfg \<le> ps ! i)"

lemma covered_append: "covered rs x y \<Longrightarrow> covered (rs @ qs) x y"
  by (auto simp: covered_def)

lemma covered_set_last_end:
  assumes "covered rs x y" "y \<le> e \<or> sr_endMs (last rs) \<le> e"
  shows "covered (set_last_end e rs) x y"
proof -
  obtain r where r: "r \<in> set rs" "sr_startMs r \<le> x" "y \<le> sr_endMs r"
    using assms(1) by (auto simp: covered_def)
  then obtain ys z where rs: "rs = ys @ [z]" by (cases rs rule: rev_cases) auto
  show ?thesis
  proof (cases "r = z")
    case True
    then show ?thesis using r rs assms(2) by (auto simp: covered_def set_last_end_def)
  next
    case False
    then show ?thesis using r rs by (auto simp: covered_def set_last_end_def)
  qed
qed

lemma closeSpeech_keeps: "covered (vs_regions s) x y \<Longrightarrow> covered (vs_regions (closeSpeech cfg e s)) x y"
  by (cases cfg e s rule: closeSpeech_cases)
     (simp_all add: covered_append covered_set_last_end)

lemma closeSpeech_covers:
  assumes "config_ok cfg" "\<forall>r \<in> set (vs_regions s). sr_startMs r \<le> vs_speechStartMs s"
    and "0 \<le> vs_speechStartMs s" "vs_speechStartMs s \<le> x" "y \<le> e" "vc_minimumSpeechMs cfg \<le> y - x"
  shows "covered (vs_regions (closeSpeech cfg e s)) x y"
proof (cases cfg e s rule: closeSpeech_cases)
  case dropped
  then show ?thesis using assms by auto
next
  case merged
  let ?rs = "vs_regions s"
  obtain ys z where rs: "?rs = ys @ [z]" using merged(3) by (cases ?rs rule: rev_cases) auto
  have "sr_startMs z \<le> x" using assms(2,4) rs by auto
  then show ?thesis using merged(6) rs assms(1,5)
    by (auto simp: covered_def set_last_end_def config_ok_def)
next
  case added
  then show ?thesis using assms by (auto simp: covered_def config_ok_def)
qed

text \<open>
  Every run of speech frames seen so far is still open, was too short, or is covered.
\<close>

definition runs_inv ::
  "streaming_vad_configuration \<Rightarrow> real list \<Rightarrow> streaming_vad_segmenter \<Rightarrow> bool" where
  "runs_inv cfg ps s \<longleftrightarrow> (\<forall>a b. speech_run cfg ps a b \<longrightarrow>
     0 \<le> vs_speechStartMs s \<and> vs_speechStartMs s \<le> int a * vc_probabilityFrameMs cfg
       \<and> (vs_silenceStartMs s < 0
          \<or> b < length ps \<and> int b * vc_probabilityFrameMs cfg \<le> vs_silenceStartMs s)
     \<or> b < length ps \<and> (int b - int a) * vc_probabilityFrameMs cfg < vc_minimumSpeechMs cfg
     \<or> b < length ps \<and> covered (vs_regions s) (int a * vc_probabilityFrameMs cfg)
                        (int b * vc_probabilityFrameMs cfg))"

lemma speech_run_snoc:
  "speech_run cfg (ps @ [p]) a b \<longleftrightarrow>
     speech_run cfg ps a b
     \<or> b = Suc (length ps) \<and> vc_threshold cfg \<le> p \<and> (a = length ps \<or> speech_run cfg ps a (length ps))"
proof -
  have "speech_run cfg (ps @ [p]) a b \<longleftrightarrow> speech_run cfg ps a b" if "b \<le> length ps"
    using that by (auto simp: speech_run_def nth_append)
  moreover have "speech_run cfg (ps @ [p]) a (Suc (length ps)) \<longleftrightarrow>
      vc_threshold cfg \<le> p \<and> (a = length ps \<or> speech_run cfg ps a (length ps))"
    by (auto simp: speech_run_def nth_append less_Suc_eq atLeastLessThanSuc)
  ultimately show ?thesis by (auto simp: speech_run_def le_Suc_eq)
qed

lemma runs_step_speech:
  assumes "runs_inv cfg ps s" "vc_threshold cfg \<le> p" "vad_inv cfg s" "config_ok cfg"
    and "vs_frameIndex s = int (length ps)"
  shows "runs_inv cfg (ps @ [p]) (vad_frame cfg s p)"
proof -
  let ?F = "vc_probabilityFrameMs cfg"
  define t where "t = vad_frame cfg s p"
  have t: "vs_regions t = vs_regions s" "vs_silenceStartMs t = -1"
      "vs_speechStartMs t = (if vs_speechStartMs s < 0 then int (length ps) * ?F else vs_speechStartMs s)"
    using assms(2,5) by (simp_all add: t_def vad_frame_def)
  have F: "0 < ?F" using assms(4) by (simp add: config_ok_def)
  have now: "0 \<le> vs_speechStartMs t" "vs_speechStartMs t \<le> int (length ps) * ?F"
    using t(3) F assms(3,5) by (auto simp: vad_inv_def algebra_simps split: if_splits)
  show ?thesis unfolding runs_inv_def t_def[symmetric]
  proof (intro allI impI)
    fix a b
    assume "speech_run cfg (ps @ [p]) a b"
    then consider "speech_run cfg ps a b" | "a = length ps" | "speech_run cfg ps a (length ps)" "b = Suc (length ps)"
      by (auto simp: speech_run_snoc)
    then show "0 \<le> vs_speechStartMs t \<and> vs_speechStartMs t \<le> int a * ?F \<and> (vs_silenceStartMs t < 0
          \<or> b < length (ps @ [p]) \<and> int b * ?F \<le> vs_silenceStartMs t)
        \<or> b < length (ps @ [p]) \<and> (int b - int a) * ?F < vc_minimumSpeechMs cfg
        \<or> b < length (ps @ [p]) \<and> covered (vs_regions t) (int a * ?F) (int b * ?F)"
    proof cases
      case 1
      then have "b \<le> length ps" by (simp add: speech_run_def)
      then show ?thesis using assms(1) 1 t unfolding runs_inv_def by fastforce
    next
      case 2
      then show ?thesis using now t(2) by simp
    next
      case 3
      then have "0 \<le> vs_speechStartMs s" "vs_speechStartMs s \<le> int a * ?F"
        using assms(1) unfolding runs_inv_def by blast+
      then show ?thesis using t by simp
    qed
  qed
qed

lemma runs_step_silence:
  assumes "runs_inv cfg ps s" "\<not> vc_threshold cfg \<le> p" "vad_inv cfg s" "config_ok cfg"
    and "vs_frameIndex s = int (length ps)"
  shows "runs_inv cfg (ps @ [p]) (vad_frame cfg s p)"
proof -
  let ?F = "vc_probabilityFrameMs cfg" and ?t = "int (length ps) * vc_probabilityFrameMs cfg"
  have F: "0 < ?F" using assms(4) by (simp add: config_ok_def)
  define s1 where "s1 = (if vs_silenceStartMs s < 0 then s\<lparr>vs_silenceStartMs := ?t\<rparr> else s)"
  have s1: "vs_regions s1 = vs_regions s" "vs_speechStartMs s1 = vs_speechStartMs s"
      "0 \<le> vs_silenceStartMs s1"
    using F by (simp_all add: s1_def)
  define t where "t = vad_frame cfg s p"
  have unfold: "t = (if vs_speechStartMs s < 0 then s
       else if vc_minimumSilenceMs cfg \<le> ?t - vs_silenceStartMs s1
       then closeSpeech cfg (vs_silenceStartMs s1) s1 else s1)\<lparr>vs_frameIndex := vs_frameIndex s + 1\<rparr>"
    using assms(2,5) by (simp add: t_def vad_frame_def s1_def Let_def)
  consider (idle) "vs_speechStartMs s < 0" "vs_regions t = vs_regions s"
    | (closing) "0 \<le> vs_speechStartMs s" "vs_regions t = vs_regions (closeSpeech cfg (vs_silenceStartMs s1) s1)"
    | (pending) "0 \<le> vs_speechStartMs s" "vs_regions t = vs_regions s" "vs_speechStartMs t = vs_speechStartMs s"
        "vs_silenceStartMs t = vs_silenceStartMs s1"
    using unfold s1(1,2) that
    by (cases "vs_speechStartMs s < 0"; cases "vc_minimumSilenceMs cfg \<le> ?t - vs_silenceStartMs s1")
      simp_all
  note how = this
  show ?thesis unfolding runs_inv_def t_def[symmetric]
  proof (intro allI impI)
    fix a b
    assume "speech_run cfg (ps @ [p]) a b"
    then have run: "speech_run cfg ps a b" using assms(2) by (simp add: speech_run_snoc)
    then have b: "b \<le> length ps" "b < length (ps @ [p])" by (simp_all add: speech_run_def)
    have bF: "int b * ?F \<le> ?t" using b(1) F by simp
    have run_cases: "0 \<le> vs_speechStartMs s \<and> vs_speechStartMs s \<le> int a * ?F
          \<and> int b * ?F \<le> vs_silenceStartMs s1
        \<or> (int b - int a) * ?F < vc_minimumSpeechMs cfg
        \<or> covered (vs_regions s) (int a * ?F) (int b * ?F)"
      using assms(1) run bF unfolding runs_inv_def s1_def by fastforce
    show "0 \<le> vs_speechStartMs t \<and> vs_speechStartMs t \<le> int a * ?F \<and> (vs_silenceStartMs t < 0
          \<or> b < length (ps @ [p]) \<and> int b * ?F \<le> vs_silenceStartMs t)
        \<or> b < length (ps @ [p]) \<and> (int b - int a) * ?F < vc_minimumSpeechMs cfg
        \<or> b < length (ps @ [p]) \<and> covered (vs_regions t) (int a * ?F) (int b * ?F)"
    proof (cases rule: how)
      case idle
      then show ?thesis using run_cases b by auto
    next
      case pending
      then show ?thesis using run_cases b by auto
    next
      case closing
      have "\<forall>r \<in> set (vs_regions s1). sr_startMs r \<le> vs_speechStartMs s1"
        using assms(3) closing(1) s1 by (simp add: vad_inv_def)
      then have "covered (vs_regions (closeSpeech cfg (vs_silenceStartMs s1) s1)) (int a * ?F) (int b * ?F)"
        if "vs_speechStartMs s \<le> int a * ?F" "int b * ?F \<le> vs_silenceStartMs s1"
          "vc_minimumSpeechMs cfg \<le> (int b - int a) * ?F"
        using that closing(1) s1 assms(4) by (intro closeSpeech_covers) (simp_all add: algebra_simps)
      then show ?thesis
        using run_cases b closing(2) s1(1) closeSpeech_keeps[of s1] by fastforce
    qed
  qed
qed

lemma runs_inv_append:
  assumes "config_ok cfg"
  shows "runs_inv cfg ps (appendProbabilities cfg vad_reset ps)"
proof (induction ps rule: rev_induct)
  case Nil
  then show ?case by (simp add: runs_inv_def speech_run_def)
next
  case (snoc p ps)
  let ?s = "appendProbabilities cfg vad_reset ps"
  have "vad_inv cfg ?s" "vs_frameIndex ?s = int (length ps)"
    using append_inv[OF assms vad_reset_inv] by simp_all (simp add: vad_reset_def)
  then show ?case
    using runs_step_speech[OF snoc.IH _ _ assms] runs_step_silence[OF snoc.IH _ _ assms]
    by (simp add: append_snoc) blast
qed

subsection \<open>Properties\<close>

text \<open>
  C39: The speech regions of a recording form a timeline: whatever the model's probabilities
  are, the regions reported at the end are non-empty, in order, separated, and inside the
  recording, provided its duration reaches the start of the last frame.
\<close>

theorem speech_regions_timeline:
  assumes "config_ok cfg" and "0 \<le> durationMs"
    and "(int (length ps) - 1) * vc_probabilityFrameMs cfg \<le> durationMs"
    and "rs = vs_regions (vad_finish cfg durationMs (appendProbabilities cfg vad_reset ps))"
  shows "(\<forall>i < length rs. 0 \<le> sr_startMs (rs ! i) \<and> sr_startMs (rs ! i) < sr_endMs (rs ! i)
            \<and> sr_endMs (rs ! i) \<le> durationMs)
    \<and> (\<forall>i j. i < j \<and> j < length rs \<longrightarrow> sr_endMs (rs ! i) < sr_startMs (rs ! j))"
proof -
  let ?s = "appendProbabilities cfg vad_reset ps"
  have "(vs_frameIndex ?s - 1) * vc_probabilityFrameMs cfg \<le> durationMs"
    using assms(3) by (simp add: vad_reset_def)
  then have each: "regions_ok rs \<and> sr_endMs r \<le> durationMs" if "r \<in> set rs" for r
    using finish_regions[OF assms(1) append_inv[OF assms(1) vad_reset_inv, of ps] _ assms(2), of r]
      assms(4) that by simp
  have ok: "regions_ok rs"
  proof (cases rs)
    case Nil
    then show ?thesis by (simp add: regions_ok_def)
  next
    case (Cons r rs')
    then show ?thesis using each[of r] by simp
  qed
  have "0 \<le> sr_startMs (rs ! i) \<and> sr_startMs (rs ! i) < sr_endMs (rs ! i)
      \<and> sr_endMs (rs ! i) \<le> durationMs" if "i < length rs" for i
    using ok each[of "rs ! i"] nth_mem[OF that] unfolding regions_ok_def by blast
  moreover have "sr_endMs (rs ! i) < sr_startMs (rs ! j)" if "i < j \<and> j < length rs" for i j
    using ok that by (simp add: regions_ok_def sorted_wrt_iff_nth_less)
  ultimately show ?thesis by blast
qed

theorem speech_regions_timeline_witness:
  "list_all (\<lambda>r. 0 \<le> sr_startMs r \<and> sr_startMs r < sr_endMs r \<and> sr_endMs r \<le> 320)
     (vs_regions (vad_finish default_vad_configuration 320
       (appendProbabilities default_vad_configuration vad_reset (replicate 10 1))))"
  using speech_regions_timeline[of default_vad_configuration 320 "replicate 10 1"]
  by (simp add: config_ok_def default_vad_configuration_def list_all_length)

text \<open>
  C40: No speech is lost. For a configuration with a positive frame length and no negative durations, and a
  recording of any length: a run of frames at or above the threshold that reaches the minimum speech length
  inside the recording lies as a whole, up to the end of the recording, within one of the reported regions.
\<close>

theorem speech_run_reported:
  assumes "config_ok cfg" and "0 \<le> durationMs"
    and "speech_run cfg ps a b"
    and "vc_minimumSpeechMs cfg
      \<le> min (int b * vc_probabilityFrameMs cfg) durationMs - int a * vc_probabilityFrameMs cfg"
  shows "covered (vs_regions (vad_finish cfg durationMs (appendProbabilities cfg vad_reset ps)))
    (int a * vc_probabilityFrameMs cfg) (min (int b * vc_probabilityFrameMs cfg) durationMs)"
proof -
  let ?F = "vc_probabilityFrameMs cfg"
  let ?s = "appendProbabilities cfg vad_reset ps"
  let ?y = "min (int b * ?F) durationMs"
  define s1 where "s1 = (if vs_speechStartMs ?s \<ge> 0 then closeSpeech cfg durationMs ?s else ?s)"
  have inv: "vad_inv cfg ?s" using append_inv[OF assms(1) vad_reset_inv] .
  have "0 \<le> vs_speechStartMs ?s \<and> vs_speechStartMs ?s \<le> int a * ?F
      \<or> covered (vs_regions ?s) (int a * ?F) (int b * ?F)"
    using runs_inv_append[OF assms(1), of ps] assms(3,4)
    unfolding runs_inv_def by (fastforce simp: algebra_simps)
  then have s1: "covered (vs_regions s1) (int a * ?F) ?y"
  proof
    assume cov: "covered (vs_regions ?s) (int a * ?F) (int b * ?F)"
    then have "covered (vs_regions ?s) (int a * ?F) ?y" by (fastforce simp: covered_def)
    then show ?thesis by (simp add: s1_def closeSpeech_keeps)
  next
    assume "0 \<le> vs_speechStartMs ?s \<and> vs_speechStartMs ?s \<le> int a * ?F"
    then show ?thesis
      using closeSpeech_covers[OF assms(1), of ?s "int a * ?F" ?y durationMs] inv assms(4)
      by (simp add: s1_def vad_inv_def)
  qed
  then have ne: "vs_regions s1 \<noteq> []" by (auto simp: covered_def)
  have "vs_regions (vad_finish cfg durationMs ?s)
      = set_last_end (min (sr_endMs (last (vs_regions s1))) durationMs) (vs_regions s1)"
    using ne assms(2) by (auto simp: vad_finish_def Let_def s1_def)
  then show ?thesis using s1 by (auto intro!: covered_set_last_end)
qed

theorem speech_run_reported_witness:
  "covered (vs_regions (vad_finish default_vad_configuration 320
       (appendProbabilities default_vad_configuration vad_reset (replicate 10 1)))) 0 320"
  using speech_run_reported[of default_vad_configuration 320 "replicate 10 1" 0 10]
  by (simp add: config_ok_def default_vad_configuration_def speech_run_def)

end
