(* ===== verification/QText.thy ===== *)
theory QText
  imports Prelude
begin

text \<open>
  The \<open>QString\<close> operations the text components use. What Qt reads from its Unicode tables
  (character classes, case folding) is a parameter, the record \<open>unicode\<close>; the predicate
  \<open>unicode_ok\<close> states what the documentation promises and the proofs rely on. The rest is
  defined on UTF-16 code units as Qt documents it.
\<close>

record unicode =
  uc_isSpace :: "qchar \<Rightarrow> bool"
  uc_isLetterOrNumber :: "qchar \<Rightarrow> bool"
  uc_isPunct :: "qchar \<Rightarrow> bool"
  uc_isLatin :: "qchar \<Rightarrow> bool"
  uc_toCaseFolded :: "qstring \<Rightarrow> qstring"
  uc_caseEqual :: "qstring \<Rightarrow> qstring \<Rightarrow> bool"

definition trimmed :: "unicode \<Rightarrow> qstring \<Rightarrow> qstring" where
  "trimmed uc s = rev (dropWhile (uc_isSpace uc) (rev (dropWhile (uc_isSpace uc) s)))"

text \<open>\<open>simplified\<close>: trimmed, with each inner run of white space replaced by one space.\<close>

fun words_of :: "unicode \<Rightarrow> qstring \<Rightarrow> qstring \<Rightarrow> qstring list" where
  "words_of uc [] w = (if w = [] then [] else [w])"
| "words_of uc (c # cs) w =
     (if uc_isSpace uc c then (if w = [] then [] else [w]) @ words_of uc cs []
      else words_of uc cs (w @ [c]))"

fun join :: "qstring \<Rightarrow> qstring list \<Rightarrow> qstring" where
  "join sep [] = []"
| "join sep [x] = x"
| "join sep (x # y # ys) = x @ sep @ join sep (y # ys)"

text \<open>\<open>split\<close> at a character, without the empty parts.\<close>

fun split_skip_empty :: "qchar \<Rightarrow> qstring \<Rightarrow> qstring \<Rightarrow> qstring list" where
  "split_skip_empty sep part [] = (if part = [] then [] else [part])"
| "split_skip_empty sep part (c # cs) =
     (if c = sep then (if part = [] then [] else [part]) @ split_skip_empty sep [] cs
      else split_skip_empty sep (part @ [c]) cs)"

definition simplified :: "unicode \<Rightarrow> qstring \<Rightarrow> qstring" where
  "simplified uc s = join (lit '' '') (words_of uc s [])"

definition isHighSurrogate :: "qchar \<Rightarrow> bool" where
  "isHighSurrogate c \<longleftrightarrow> 0xD800 \<le> c \<and> c \<le> 0xDBFF"

definition isLowSurrogate :: "qchar \<Rightarrow> bool" where
  "isLowSurrogate c \<longleftrightarrow> 0xDC00 \<le> c \<and> c \<le> 0xDFFF"

definition surrogateToUcs4 :: "qchar \<Rightarrow> qchar \<Rightarrow> int" where
  "surrogateToUcs4 high low = (uint high - 0xD800) * 0x400 + (uint low - 0xDC00) + 0x10000"

text \<open>
  \<open>QString::indexOf\<close>: the first position from \<open>from\<close> on at which the needle matches.
\<close>

definition matchesAt :: "unicode \<Rightarrow> bool \<Rightarrow> qstring \<Rightarrow> qstring \<Rightarrow> nat \<Rightarrow> bool" where
  "matchesAt uc caseSensitive s needle p \<longleftrightarrow> p + length needle \<le> length s \<and>
     (let here = take (length needle) (drop p s) in
      if caseSensitive then here = needle else uc_caseEqual uc here needle)"

definition indexOf :: "unicode \<Rightarrow> bool \<Rightarrow> qstring \<Rightarrow> qstring \<Rightarrow> nat \<Rightarrow> nat option" where
  "indexOf uc caseSensitive s needle start =
     find (matchesAt uc caseSensitive s needle) [start..<Suc (length s)]"

text \<open>\<open>QString::replace\<close> and \<open>mid\<close> by position.\<close>

definition replaceAt :: "nat \<Rightarrow> nat \<Rightarrow> 'a list \<Rightarrow> 'a list \<Rightarrow> 'a list" where
  "replaceAt p n new s = take p s @ new @ drop (p + n) s"

definition mid :: "nat \<Rightarrow> nat \<Rightarrow> 'a list \<Rightarrow> 'a list" where
  "mid p n s = take n (drop p s)"

lemma replaceAt_middle [simp]:
  "length a = p \<Longrightarrow> length m = n \<Longrightarrow> replaceAt p n new (a @ m @ b) = a @ new @ b"
  by (simp add: replaceAt_def)

lemma mid_middle [simp]: "length a = p \<Longrightarrow> length m = n \<Longrightarrow> mid p n (a @ m @ b) = m"
  by (simp add: mid_def)

lemma indexOf_Some:
  assumes "indexOf uc cs s needle start = Some p"
  shows "start \<le> p \<and> p + length needle \<le> length s \<and> matchesAt uc cs s needle p"
proof -
  have "p \<in> set [start..<Suc (length s)]" "matchesAt uc cs s needle p"
    using assms unfolding indexOf_def find_Some_iff by (auto simp del: upt_Suc)
  then show ?thesis by (auto simp: matchesAt_def simp del: upt_Suc)
qed

text \<open>Documented facts: separators are not word characters, ideographs or surrogates.\<close>

definition isCjk :: "int \<Rightarrow> bool" where
  "isCjk cp \<longleftrightarrow> 0x3400 \<le> cp \<and> cp \<le> 0x4DBF \<or> 0x4E00 \<le> cp \<and> cp \<le> 0x9FFF
     \<or> 0xF900 \<le> cp \<and> cp \<le> 0xFAFF \<or> 0x20000 \<le> cp \<and> cp \<le> 0x3134F"

definition unicode_ok :: "unicode \<Rightarrow> bool" where
  "unicode_ok uc \<longleftrightarrow> uc_isSpace uc 0x20 \<and> (\<forall>s. uc_caseEqual uc s s) \<and>
     (\<forall>c. uc_isSpace uc c \<or> uc_isPunct uc c \<longrightarrow>
        \<not> uc_isLetterOrNumber uc c \<and> \<not> isCjk (uint c) \<and> \<not> isHighSurrogate c)"

text \<open>A concrete instance on ASCII, for examples.\<close>

definition ascii_fold :: "qchar \<Rightarrow> qchar" where
  "ascii_fold c = (if 0x41 \<le> c \<and> c \<le> 0x5A then c + 0x20 else c)"

definition ascii :: unicode where
  "ascii = \<lparr>uc_isSpace = (\<lambda>c. c = 0x20 \<or> 9 \<le> c \<and> c \<le> 13),
     uc_isLetterOrNumber = (\<lambda>c. 0x30 \<le> c \<and> c \<le> 0x39 \<or> 0x41 \<le> c \<and> c \<le> 0x5A \<or> 0x61 \<le> c \<and> c \<le> 0x7A),
     uc_isPunct = (\<lambda>c. c \<in> {0x21, 0x22, 0x27, 0x28, 0x29, 0x2C, 0x2D, 0x2E, 0x2F, 0x3A, 0x3B, 0x3F, 0x5F}),
     uc_isLatin = (\<lambda>c. 0x41 \<le> c \<and> c \<le> 0x5A \<or> 0x61 \<le> c \<and> c \<le> 0x7A),
     uc_toCaseFolded = map ascii_fold,
     uc_caseEqual = (\<lambda>s t. map ascii_fold s = map ascii_fold t)\<rparr>"

lemma ascii_ok: "unicode_ok ascii"
proof -
  have "\<not> uc_isLetterOrNumber ascii c \<and> \<not> isCjk (uint c) \<and> \<not> isHighSurrogate c"
    if "uc_isSpace ascii c \<or> uc_isPunct ascii c" for c
  proof -
    consider "c = 0x20" | "9 \<le> c \<and> c \<le> 13"
      | "c \<in> {0x21, 0x22, 0x27, 0x28, 0x29, 0x2C, 0x2D, 0x2E, 0x2F, 0x3A, 0x3B, 0x3F, 0x5F}"
      using \<open>uc_isSpace ascii c \<or> uc_isPunct ascii c\<close> by (auto simp: ascii_def)
    then show ?thesis
    proof cases
      case 2
      then have "uint c \<le> 13" by (simp add: word_le_def)
      then show ?thesis
        by (simp add: ascii_def isCjk_def isHighSurrogate_def word_le_def)
    qed (auto simp: ascii_def isCjk_def isHighSurrogate_def)
  qed
  then show ?thesis by (auto simp: unicode_ok_def) (simp_all add: ascii_def)
qed

lemma dropWhile_idem: "dropWhile P (dropWhile P xs) = dropWhile P xs"
  by (induction xs) auto

lemma trimmed_suffix_free:
  "trimmed uc s \<noteq> [] \<Longrightarrow> \<not> uc_isSpace uc (hd (trimmed uc s)) \<and> \<not> uc_isSpace uc (last (trimmed uc s))"
proof -
  let ?P = "uc_isSpace uc"
  let ?t = "dropWhile ?P s"
  assume ne: "trimmed uc s \<noteq> []"
  then have ne': "dropWhile ?P (rev ?t) \<noteq> []" by (simp add: trimmed_def)
  have lst: "\<not> ?P (last (trimmed uc s))"
    using ne' hd_dropWhile[of ?P "rev ?t"] by (simp add: trimmed_def last_rev dropWhile_eq_Nil_conv)
  have "rev ?t = takeWhile ?P (rev ?t) @ dropWhile ?P (rev ?t)" by simp
  then have "?t = trimmed uc s @ rev (takeWhile ?P (rev ?t))"
    unfolding trimmed_def by (metis rev_append rev_rev_ident)
  note split = this
  have "?t \<noteq> []" by (subst split) (simp add: ne)
  moreover have "hd ?t = hd (trimmed uc s)" by (subst split) (simp add: ne)
  moreover note ne
  ultimately have "\<not> ?P (hd (trimmed uc s))" using hd_dropWhile[of ?P s] by metis
  then show ?thesis using lst by simp
qed

lemma trimmed_id: "trimmed uc s = s \<longleftrightarrow> s = [] \<or> (\<not> uc_isSpace uc (hd s) \<and> \<not> uc_isSpace uc (last s))"
proof
  assume "trimmed uc s = s"
  then show "s = [] \<or> (\<not> uc_isSpace uc (hd s) \<and> \<not> uc_isSpace uc (last s))"
    using trimmed_suffix_free[of uc s] by force
next
  assume a: "s = [] \<or> (\<not> uc_isSpace uc (hd s) \<and> \<not> uc_isSpace uc (last s))"
  show "trimmed uc s = s"
  proof (cases "s = []")
    case True
    then show ?thesis by (simp add: trimmed_def)
  next
    case False
    then have h: "\<not> uc_isSpace uc (hd s)" "\<not> uc_isSpace uc (hd (rev s))"
      using a by (simp_all add: hd_rev)
    have d1: "dropWhile (uc_isSpace uc) s = s" using False h(1) by (cases s) auto
    have d2: "dropWhile (uc_isSpace uc) (rev s) = rev s" using False h(2) by (cases "rev s") auto
    show ?thesis unfolding trimmed_def d1 d2 by simp
  qed
qed

lemma trimmed_trimmed [simp]: "trimmed uc (trimmed uc s) = trimmed uc s"
  using trimmed_suffix_free[of uc s] trimmed_id[of uc "trimmed uc s"] by blast

lemma trimmed_Nil [simp]: "trimmed uc [] = []"
  by (simp add: trimmed_def)

lemma trimmed_empty_iff: "trimmed uc s = [] \<longleftrightarrow> (\<forall>c \<in> set s. uc_isSpace uc c)"
proof -
  have "trimmed uc s = [] \<longleftrightarrow> (\<forall>c \<in> set (dropWhile (uc_isSpace uc) s). uc_isSpace uc c)"
    by (simp add: trimmed_def)
  also have "\<dots> \<longleftrightarrow> (\<forall>c \<in> set s. uc_isSpace uc c)"
    by (induction s) auto
  finally show ?thesis .
qed

end
