(* ===== verification/Segments.thy ===== *)
theory Segments
  imports QText Cbor
begin

text \<open>
  Recognised and stored segments, and the code that handles them on their way from the
  worker: \<^verbatim>\<open>transcript/TranscriptSegment.h\<close>, \<^verbatim>\<open>asr/AsrTypes.h\<close>, \<^verbatim>\<open>asr/SegmentMetrics\<close>,
  \<^verbatim>\<open>asr/WorkerSegmentValidator\<close>, \<^verbatim>\<open>asr/WorkerOperationState.h\<close>. \<open>float\<close> probabilities are
  \<open>real\<close>.
\<close>

text \<open>An entry of the replacement audit of a segment (\<^verbatim>\<open>glossary/GlossaryPostProcessor.h\<close>).\<close>

record glossary_replacement =
  gr_termId :: string
  gr_alias :: qstring
  gr_canonicalText :: qstring
  gr_originalText :: qstring
  gr_start :: int
  gr_length :: int
  gr_confidence :: real
  gr_applied :: bool

record transcript_segment =
  ts_id :: string
  ts_recordingId :: string
  ts_jobId :: string
  ts_chunkId :: string
  ts_ordinal :: int
  ts_startMs :: int
  ts_endMs :: int
  ts_originalText :: qstring
  ts_editedText :: qstring
  ts_averageProbability :: real
  ts_minimumProbability :: real
  ts_noSpeechProbability :: real
  ts_lowConfidence :: bool
  ts_reviewed :: bool
  ts_replacementAudit :: "glossary_replacement list"
  ts_provisional :: bool
  ts_attempt :: int
  ts_createdAt :: "int option"
  ts_updatedAt :: "int option"

definition empty_segment :: transcript_segment where
  "empty_segment = \<lparr>ts_id = [], ts_recordingId = [], ts_jobId = [], ts_chunkId = [],
     ts_ordinal = 0, ts_startMs = 0, ts_endMs = 0, ts_originalText = [], ts_editedText = [],
     ts_averageProbability = 0, ts_minimumProbability = 0, ts_noSpeechProbability = 0,
     ts_lowConfidence = False, ts_reviewed = False, ts_replacementAudit = [],
     ts_provisional = False, ts_attempt = 1, ts_createdAt = None, ts_updatedAt = None\<rparr>"

definition displayText :: "transcript_segment \<Rightarrow> qstring" where
  "displayText s = (if ts_editedText s = [] then ts_originalText s else ts_editedText s)"

definition isEdited :: "transcript_segment \<Rightarrow> bool" where
  "isEdited s \<longleftrightarrow> ts_editedText s \<noteq> [] \<and> ts_editedText s \<noteq> ts_originalText s"

record asr_segment =
  as_startMs :: int
  as_endMs :: int
  as_originalText :: qstring
  as_averageTokenProbability :: real
  as_minimumTokenProbability :: real
  as_noSpeechProbability :: real
  as_lowConfidence :: bool

subsection \<open>Timestamps and confidence\<close>

text \<open>
  C++ division truncates towards zero: \<open>int64_max / 10\<close> and \<open>int64_min / 10\<close>. The products
  and sums are checked: \<open>None\<close> would be signed overflow.
\<close>

definition timestampTicksToMilliseconds :: "int \<Rightarrow> int \<Rightarrow> int option" where
  "timestampTicksToMilliseconds ticks globalOffsetMs =
     (if ticks > 922337203685477580 then Some int64_max
      else if ticks < - 922337203685477580 then Some int64_min
      else Option.bind (mul64 ticks 10) (\<lambda>scaled.
        Option.bind (if globalOffsetMs > 0 then sub64 int64_max globalOffsetMs else Some 0) (\<lambda>room.
        if globalOffsetMs > 0 \<and> scaled > room then Some int64_max
        else Option.bind (if globalOffsetMs < 0 then sub64 int64_min globalOffsetMs else Some 0) (\<lambda>low.
          if globalOffsetMs < 0 \<and> scaled < low then Some int64_min
          else add64 globalOffsetMs scaled))))"

record confidence_metrics =
  cm_averageProbability :: real
  cm_minimumProbability :: real
  cm_lowConfidence :: bool

text \<open>\<open>float_max\<close> is the largest finite \<open>float\<close>, the start of the minimum.\<close>

definition float_max :: real where
  "float_max = (2 - 1 / 2 ^ 23) * 2 ^ 127"

definition confidence :: "real list \<Rightarrow> real \<Rightarrow> confidence_metrics" where
  "confidence tokenProbabilities lowConfidenceThreshold =
     (if tokenProbabilities = [] then
        \<lparr>cm_averageProbability = 0, cm_minimumProbability = 0, cm_lowConfidence = True\<rparr>
      else let (total, minimum) =
                 foldl (\<lambda>(total, minimum) p. let bounded = clamp 0 1 p in
                          (total + bounded, min minimum bounded)) (0, float_max) tokenProbabilities;
               average = total / real (length tokenProbabilities)
           in \<lparr>cm_averageProbability = average, cm_minimumProbability = minimum,
               cm_lowConfidence =
                 (average < lowConfidenceThreshold \<or> minimum < lowConfidenceThreshold)\<rparr>)"

lemma int64_tenth: "int64_max div 10 = 922337203685477580"
  by simp

lemma ticks_saturate:
  assumes "in64 ticks" "in64 off"
  shows "timestampTicksToMilliseconds ticks off =
    Some (if ticks > 922337203685477580 then int64_max
          else if ticks < - 922337203685477580 then int64_min
          else clamp int64_min int64_max (off + ticks * 10))"
proof -
  have "in64 (ticks * 10)" if "\<not> ticks > 922337203685477580" "\<not> ticks < - 922337203685477580"
    using that by (simp add: in64_def)
  then show ?thesis
    using assms by (auto simp: timestampTicksToMilliseconds_def chk64_def in64_def clamp_def)
qed

lemma confidence_fold:
  fixes t m :: real
  assumes "foldl (\<lambda>(total, minimum) p. let bounded = clamp 0 1 p in
      (total + bounded, min minimum bounded)) (t, m) ps = (t', m')"
  shows "m' \<le> m \<and> real (length ps) * m' \<le> t' - t \<and> t' - t \<le> real (length ps) \<and>
    (0 \<le> m \<longrightarrow> 0 \<le> m') \<and> (ps \<noteq> [] \<longrightarrow> m' \<le> 1)"
  using assms
proof (induction ps arbitrary: t m)
  case Nil
  then show ?case by simp
next
  case (Cons p ps)
  let ?b = "clamp 0 1 p"
  have b: "0 \<le> ?b" "?b \<le> 1" using clamp_bounds[of 0 1 p] by auto
  have IH: "m' \<le> min m ?b" "real (length ps) * m' \<le> t' - (t + ?b)"
    "t' - (t + ?b) \<le> real (length ps)" "0 \<le> min m ?b \<longrightarrow> 0 \<le> m'"
    using Cons.IH[of "t + ?b" "min m ?b"] Cons.prems by (simp_all add: Let_def)
  then show ?case using b by (auto simp: algebra_simps)
qed

lemma confidence_bounds:
  assumes "ps \<noteq> []"
  shows "0 \<le> cm_minimumProbability (confidence ps t)
    \<and> cm_minimumProbability (confidence ps t) \<le> cm_averageProbability (confidence ps t)
    \<and> cm_averageProbability (confidence ps t) \<le> 1"
proof -
  obtain tot mi where fold: "foldl (\<lambda>(total, minimum) p. let bounded = clamp 0 1 p in
      (total + bounded, min minimum bounded)) (0, float_max) ps = (tot, mi)" by fastforce
  have "0 \<le> float_max" by (simp add: float_max_def)
  moreover have "0 < real (length ps)" using assms by simp
  ultimately show ?thesis
    using confidence_fold[OF fold] assms fold
    by (simp add: confidence_def field_simps)
qed

subsection \<open>Segment ranges from the worker\<close>

datatype worker_segment_error = SegmentOk | MalformedTimestamps | OutsideActiveRange | EmptyRange

record worker_segment_result =
  wr_startMs :: int
  wr_endMs :: int
  wr_error :: worker_segment_error

definition isValid :: "worker_segment_result \<Rightarrow> bool" where
  "isValid r \<longleftrightarrow> wr_error r = SegmentOk"

definition WorkerSegmentTimestampToleranceMs :: int where
  "WorkerSegmentTimestampToleranceMs = 1000"

text \<open>
  The four disjuncts of the range check in the order C++ evaluates them, each subtraction
  checked. \<open>None\<close> is undefined behaviour.
\<close>

definition validateWorkerSegmentRange ::
  "cbor_map \<Rightarrow> int \<Rightarrow> int \<Rightarrow> int \<Rightarrow> worker_segment_result option" where
  "validateWorkerSegmentRange payload activeChunkStartMs activeChunkEndMs recordingDurationMs =
     (let rawStart = mapValue payload ''startMs'';
          rawEnd = mapValue payload ''endMs'';
          failed = (\<lambda>e. \<lparr>wr_startMs = 0, wr_endMs = 0, wr_error = e\<rparr>) in
      if \<not> isInteger rawStart \<or> \<not> isInteger rawEnd then Some (failed MalformedTimestamps)
      else
        let allowedStartMs = max 0 activeChunkStartMs;
            allowedEndMs = min activeChunkEndMs recordingDurationMs;
            rawStartMs = toInteger 0 rawStart;
            rawEndMs = toInteger 0 rawEnd in
        if allowedEndMs \<le> allowedStartMs then Some (failed OutsideActiveRange)
        else Option.bind (sub64 allowedStartMs WorkerSegmentTimestampToleranceMs) (\<lambda>lowest.
          if rawStartMs < lowest then Some (failed OutsideActiveRange)
          else Option.bind (if rawEndMs > allowedEndMs then sub64 rawEndMs allowedEndMs else Some 0)
            (\<lambda>excess.
              if excess > WorkerSegmentTimestampToleranceMs \<or> rawEndMs \<le> rawStartMs
              then Some (failed OutsideActiveRange)
              else let s = max allowedStartMs rawStartMs; e = min allowedEndMs rawEndMs
                   in Some \<lparr>wr_startMs = s, wr_endMs = e,
                        wr_error = (if e \<le> s then EmptyRange else SegmentOk)\<rparr>)))"

definition reconcileWorkerSegmentRange ::
  "worker_segment_result \<Rightarrow> int \<Rightarrow> worker_segment_result" where
  "reconcileWorkerSegmentRange validated previousEndMs =
     (if \<not> isValid validated then validated
      else let s = max (wr_startMs validated) previousEndMs
           in if wr_endMs validated \<le> s
              then validated\<lparr>wr_startMs := s, wr_error := EmptyRange\<rparr>
              else validated\<lparr>wr_startMs := s\<rparr>)"

lemma validate_defined:
  assumes "in64 rs" "in64 re" "in64 cs"
    and "mapValue payload ''startMs'' = CborInteger rs" "mapValue payload ''endMs'' = CborInteger re"
  shows "validateWorkerSegmentRange payload cs ce d =
    Some (if max 0 cs < min ce d \<and> max 0 cs - 1000 \<le> rs \<and> re \<le> min ce d + 1000 \<and> rs < re
          then \<lparr>wr_startMs = max (max 0 cs) rs, wr_endMs = min (min ce d) re,
                wr_error = (if min (min ce d) re \<le> max (max 0 cs) rs then EmptyRange else SegmentOk)\<rparr>
          else \<lparr>wr_startMs = 0, wr_endMs = 0, wr_error = OutsideActiveRange\<rparr>)"
proof -
  define a e where ae: "a = max 0 cs" "e = min ce d"
  have low: "chk64 (a - 1000) = Some (a - 1000)"
    using assms(3) by (intro chk64_Some) (simp add: in64_def ae)
  have a: "0 \<le> a" by (simp add: ae)
  have excess: "(if e < re then chk64 (re - e) else Some 0) = Some (if e < re then re - e else 0)"
    if "\<not> e \<le> a"
    using that a assms(2) by (auto simp: chk64_def in64_def)
  show ?thesis
    unfolding validateWorkerSegmentRange_def assms(4,5) ae[symmetric] Let_def low
      WorkerSegmentTimestampToleranceMs_def isInteger.simps toInteger.simps
    using excess by (cases "e \<le> a"; cases "rs < a - 1000"; cases "e < re") simp_all
qed

subsection \<open>The worker's current operation\<close>

text \<open>
  \<open>WorkerOperationState\<close> shares a cancellation flag with the thread that runs the
  operation. \<open>wo_flags\<close> is the store of all flags allocated so far and \<open>wo_cancellation\<close>
  points into it, so that a flag a finished operation still holds stays visible.
\<close>

record worker_operation_state =
  wo_jobId :: qstring
  wo_cancellation :: "nat option"
  wo_flags :: "bool list"

definition initial_operation :: worker_operation_state where
  "initial_operation = \<lparr>wo_jobId = [], wo_cancellation = None, wo_flags = []\<rparr>"

definition operation_active :: "worker_operation_state \<Rightarrow> bool" where
  "operation_active w \<longleftrightarrow> wo_cancellation w \<noteq> None"

definition claim :: "qstring \<Rightarrow> worker_operation_state \<Rightarrow> bool \<times> worker_operation_state" where
  "claim jobId w =
     (if operation_active w then (False, w)
      else (True, w\<lparr>wo_jobId := jobId, wo_cancellation := Some (length (wo_flags w)),
                   wo_flags := wo_flags w @ [False]\<rparr>))"

definition cancel_operation ::
  "qstring \<Rightarrow> worker_operation_state \<Rightarrow> bool \<times> worker_operation_state" where
  "cancel_operation jobId w =
     (case wo_cancellation w of
        None \<Rightarrow> (False, w)
      | Some f \<Rightarrow>
          if jobId \<noteq> [] \<and> jobId \<noteq> wo_jobId w then (False, w)
          else (True, w\<lparr>wo_flags := (wo_flags w)[f := True]\<rparr>))"

definition finish_operation :: "worker_operation_state \<Rightarrow> worker_operation_state" where
  "finish_operation w = w\<lparr>wo_jobId := [], wo_cancellation := None\<rparr>"

datatype operation_event = Claim qstring | Cancel qstring | Finish

fun operation_step :: "worker_operation_state \<Rightarrow> operation_event \<Rightarrow> worker_operation_state" where
  "operation_step w (Claim j) = snd (claim j w)"
| "operation_step w (Cancel j) = snd (cancel_operation j w)"
| "operation_step w Finish = finish_operation w"

text \<open>The current flag, if any, is the newest one.\<close>

definition operation_ok :: "worker_operation_state \<Rightarrow> bool" where
  "operation_ok w \<longleftrightarrow>
     (case wo_cancellation w of None \<Rightarrow> True | Some f \<Rightarrow> Suc f = length (wo_flags w))"

interpretation operations: machine operation_step operation_ok
proof unfold_locales
  fix w e
  assume "operation_ok w"
  then show "operation_ok (operation_step w e)"
    by (cases e) (auto simp: operation_ok_def claim_def cancel_operation_def finish_operation_def
        operation_active_def split: option.splits)
qed

text \<open>A flag once superseded is never touched again, and a flag is never withdrawn.\<close>

lemma old_flag_fixed:
  assumes "operation_ok w" "f < length (wo_flags w)" "wo_cancellation w \<noteq> Some f"
  shows "wo_flags (operation_step w e) ! f = wo_flags w ! f
    \<and> f < length (wo_flags (operation_step w e)) \<and> wo_cancellation (operation_step w e) \<noteq> Some f"
  using assms by (cases e) (auto simp: claim_def cancel_operation_def finish_operation_def
      operation_active_def nth_append split: option.splits)

lemma old_flag_fixed_run:
  "operation_ok w \<Longrightarrow> f < length (wo_flags w) \<Longrightarrow> wo_cancellation w \<noteq> Some f \<Longrightarrow>
    wo_flags (foldl operation_step w es) ! f = wo_flags w ! f"
proof (induction es arbitrary: w)
  case (Cons e es)
  then show ?case using old_flag_fixed[of w f e] operations.step_inv[of w e] by simp
qed simp

subsection \<open>Properties\<close>

text \<open>
  Timestamps from the recogniser are converted without signed overflow: for every
  64-bit tick count and offset the conversion is defined, saturates at the ends of the
  64-bit range and is otherwise exactly the offset plus ten milliseconds per tick.
\<close>

theorem ticks_to_milliseconds_saturating:
  assumes "in64 ticks" and "in64 globalOffsetMs"
  shows "timestampTicksToMilliseconds ticks globalOffsetMs =
    Some (if ticks * 10 > int64_max then int64_max
          else if ticks * 10 < int64_min then int64_min
          else clamp int64_min int64_max (globalOffsetMs + ticks * 10))"
  using ticks_saturate[OF assms] by simp

theorem ticks_to_milliseconds_saturating_witness:
  "timestampTicksToMilliseconds 100 (- 50) = Some 950
   \<and> timestampTicksToMilliseconds int64_max 7 = Some int64_max"
  using ticks_to_milliseconds_saturating[of 100 "- 50"]
    ticks_to_milliseconds_saturating[of int64_max 7]
  by (simp add: in64_def clamp_def)

text \<open>
  A segment range taken from the worker is safe to store. Whatever 64-bit timestamps the
  worker sends, validation is defined (no signed overflow); if it accepts, and reconciling
  with the end of the previous segment still accepts, then the range is not empty, lies
  inside the active chunk and the recording, does not overlap the previous segment, and
  each end differs from the worker's only by the clipping to those limits.
\<close>

theorem accepted_segment_range_safe:
  assumes "in64 rawStart" and "in64 rawEnd" and "in64 chunkStart"
    and "mapValue payload ''startMs'' = CborInteger rawStart"
    and "mapValue payload ''endMs'' = CborInteger rawEnd"
  shows "\<exists>v. validateWorkerSegmentRange payload chunkStart chunkEnd duration = Some v
    \<and> (let r = reconcileWorkerSegmentRange v previousEnd in
        isValid r \<longrightarrow> wr_startMs r < wr_endMs r
          \<and> 0 \<le> wr_startMs r \<and> chunkStart \<le> wr_startMs r \<and> previousEnd \<le> wr_startMs r
          \<and> wr_endMs r \<le> chunkEnd \<and> wr_endMs r \<le> duration
          \<and> wr_startMs r = max (max (max 0 chunkStart) rawStart) previousEnd
          \<and> wr_endMs r = min (min chunkEnd duration) rawEnd)"
proof -
  define S E where SE: "S = max (max 0 chunkStart) rawStart" "E = min (min chunkEnd duration) rawEnd"
  define C where "C \<longleftrightarrow> max 0 chunkStart < min chunkEnd duration \<and> max 0 chunkStart - 1000 \<le> rawStart
        \<and> rawEnd \<le> min chunkEnd duration + 1000 \<and> rawStart < rawEnd"
  define v where "v = (if C
      then \<lparr>wr_startMs = S, wr_endMs = E, wr_error = (if E \<le> S then EmptyRange else SegmentOk)\<rparr>
      else \<lparr>wr_startMs = 0, wr_endMs = 0, wr_error = OutsideActiveRange\<rparr>)"
  have v: "validateWorkerSegmentRange payload chunkStart chunkEnd duration = Some v"
    unfolding v_def SE C_def by (rule validate_defined[OF assms])
  have r: "wr_startMs (reconcileWorkerSegmentRange v previousEnd) = max S previousEnd
      \<and> wr_endMs (reconcileWorkerSegmentRange v previousEnd) = E \<and> max S previousEnd < E"
    if "isValid (reconcileWorkerSegmentRange v previousEnd)"
  proof -
    have "isValid v" using that by (auto simp: reconcileWorkerSegmentRange_def split: if_splits)
    then have "wr_startMs v = S" "wr_endMs v = E"
      by (auto simp: v_def isValid_def split: if_splits)
    moreover have "\<not> E \<le> max S previousEnd"
      using that \<open>isValid v\<close> calculation
      by (auto simp: reconcileWorkerSegmentRange_def isValid_def Let_def simp del: max.bounded_iff
          split: if_splits)
    ultimately show ?thesis
      using \<open>isValid v\<close>
      by (simp add: reconcileWorkerSegmentRange_def Let_def not_le del: max_less_iff_conj)
  qed
  have "0 \<le> S" "chunkStart \<le> S" "E \<le> chunkEnd" "E \<le> duration"
    unfolding SE by simp_all
  then have "isValid (reconcileWorkerSegmentRange v previousEnd) \<longrightarrow>
      (let r = reconcileWorkerSegmentRange v previousEnd in wr_startMs r < wr_endMs r
          \<and> 0 \<le> wr_startMs r \<and> chunkStart \<le> wr_startMs r \<and> previousEnd \<le> wr_startMs r
          \<and> wr_endMs r \<le> chunkEnd \<and> wr_endMs r \<le> duration
          \<and> wr_startMs r = max S previousEnd \<and> wr_endMs r = E)"
    using r unfolding Let_def by linarith
  then show ?thesis unfolding Let_def SE[symmetric] using v by blast
qed

theorem accepted_segment_range_safe_witness:
  "\<exists>v. validateWorkerSegmentRange
      [(''startMs'', CborInteger (- 900)), (''endMs'', CborInteger 61000)] 0 60000 90000 = Some v
    \<and> isValid (reconcileWorkerSegmentRange v 10)
    \<and> wr_startMs (reconcileWorkerSegmentRange v 10) = 10
    \<and> wr_endMs (reconcileWorkerSegmentRange v 10) = 60000"
proof -
  let ?m = "[(''startMs'', CborInteger (- 900)), (''endMs'', CborInteger 61000)]"
  have m: "mapValue ?m ''startMs'' = CborInteger (- 900)" "mapValue ?m ''endMs'' = CborInteger 61000"
    by (simp_all add: mapValue_def)
  have b: "in64 (- 900)" "in64 61000" "in64 0" by (simp_all add: in64_def)
  obtain v where v: "validateWorkerSegmentRange ?m 0 60000 90000 = Some v"
    using accepted_segment_range_safe[OF b m, of 60000 90000 10] by blast
  then have "v = \<lparr>wr_startMs = 0, wr_endMs = 60000, wr_error = SegmentOk\<rparr>"
    using validate_defined[OF b m, of 60000 90000] by simp
  then show ?thesis
    using v by (intro exI[of _ v]) (simp add: reconcileWorkerSegmentRange_def isValid_def)
qed

end
