(* ===== verification/Dedup.thy ===== *)
theory Dedup
  imports Segments
begin

text \<open>
  \<^verbatim>\<open>asr/OverlapDeduplicator\<close>, \<^verbatim>\<open>asr/LongFormTranscriber\<close> and \<^verbatim>\<open>reconcileOverlap\<close> of
  \<^verbatim>\<open>app/TranscriptionCoordinator.cpp\<close>: where two chunks overlap in time, the words heard
  twice are removed from the later one. A text is cut into units: one per CJK character,
  one per word otherwise. The main property is that exactly the duplicated units go.
\<close>

record text_unit =
  tu_normalized :: qstring
  tu_start :: int
  tu_end :: int
  tu_cjk :: bool

definition flushWord :: "unicode \<Rightarrow> int \<Rightarrow> qstring \<Rightarrow> int \<Rightarrow> text_unit list" where
  "flushWord uc endIndex buffer start =
     (if buffer = [] then []
      else [\<lparr>tu_normalized = uc_toCaseFolded uc buffer, tu_start = start, tu_end = endIndex,
             tu_cjk = False\<rparr>])"

text \<open>
  The code point at the head of the remaining text and its width in code units.
\<close>

fun code_point :: "qstring \<Rightarrow> int \<times> nat" where
  "code_point [] = (0, 1)"
| "code_point [c] = (uint c, 1)"
| "code_point (c # c' # cs) =
     (if isHighSurrogate c \<and> isLowSurrogate c' then (surrogateToUcs4 c c', 2) else (uint c, 1))"

lemma code_point_width: "0 < snd (code_point s)"
  by (cases s rule: code_point.cases) auto

lemma code_point_pos: "(cp, w) = code_point s \<Longrightarrow> 0 < w"
  using code_point_width[of s] by (cases "code_point s") simp

lemma code_point_width_le: "s \<noteq> [] \<Longrightarrow> snd (code_point s) \<le> length s"
  by (cases s rule: code_point.cases) auto

text \<open>The loop of \<open>units\<close>; \<open>text\<close> is what remains from \<open>index\<close> on.\<close>

function units_loop :: "unicode \<Rightarrow> int \<Rightarrow> qstring \<Rightarrow> qstring \<Rightarrow> int \<Rightarrow> text_unit list" where
  "units_loop uc index [] word wordStart = flushWord uc index word wordStart"
| "units_loop uc index (c # cs) word wordStart =
     (let (codePoint, width) = code_point (c # cs);
          here = take width (c # cs);
          rest = drop width (c # cs);
          next_index = index + int width in
      if isCjk codePoint then
        flushWord uc index word wordStart
        @ \<lparr>tu_normalized = here, tu_start = index, tu_end = next_index, tu_cjk = True\<rparr>
        # units_loop uc next_index rest [] (-1)
      else if uc_isLetterOrNumber uc c \<or> c = 0x5F then
        units_loop uc next_index rest (word @ here) (if word = [] then index else wordStart)
      else flushWord uc index word wordStart @ units_loop uc next_index rest [] (-1))"
  by pat_completeness auto
termination
  by (relation "measure (\<lambda>(uc, i, s, w, ws). length s)") (auto dest!: code_point_pos)

declare units_loop.simps(2) [simp del]

definition text_units :: "unicode \<Rightarrow> qstring \<Rightarrow> text_unit list" where
  "text_units uc s = units_loop uc 0 s [] (-1)"

datatype dedup_diagnostic = NoDiagnostic | OneUnitRetained | RemovedUnits nat

record deduplication_result =
  dd_text :: qstring
  dd_matchedUnits :: nat
  dd_ambiguous :: bool
  dd_diagnostic :: dedup_diagnostic

text \<open>The longest suffix of \<open>previous\<close> that is a prefix of \<open>incoming\<close>, tried from \<open>n\<close> down.\<close>

fun longest_match :: "qstring list \<Rightarrow> qstring list \<Rightarrow> nat \<Rightarrow> nat" where
  "longest_match previous incoming 0 = 0"
| "longest_match previous incoming (Suc n) =
     (if drop (length previous - Suc n) previous = take (Suc n) incoming then Suc n
      else longest_match previous incoming n)"

definition deduplicate :: "unicode \<Rightarrow> qstring \<Rightarrow> qstring \<Rightarrow> bool \<Rightarrow> deduplication_result" where
  "deduplicate uc previousText incomingText timestampsOverlap =
     (let unchanged = \<lparr>dd_text = incomingText, dd_matchedUnits = 0, dd_ambiguous = False,
                       dd_diagnostic = NoDiagnostic\<rparr> in
      if \<not> timestampsOverlap \<or> previousText = [] \<or> incomingText = [] then unchanged
      else
        let previous = text_units uc previousText;
            incoming = text_units uc incomingText;
            matched = longest_match (map tu_normalized previous) (map tu_normalized incoming)
                        (min (length previous) (length incoming)) in
        if matched < 2 then
          unchanged\<lparr>dd_ambiguous := matched = 1,
                    dd_diagnostic := (if matched = 1 then OneUnitRetained else NoDiagnostic)\<rparr>
        else
          let cut = nat (tu_end (incoming ! (matched - 1))) in
          unchanged\<lparr>dd_text := dropWhile (\<lambda>c. uc_isSpace uc c \<or> uc_isPunct uc c) (drop cut incomingText),
                    dd_matchedUnits := matched, dd_diagnostic := RemovedUnits matched\<rparr>)"

subsection \<open>Units and cutting\<close>

abbreviation norms :: "unicode \<Rightarrow> int \<Rightarrow> qstring \<Rightarrow> qstring \<Rightarrow> int \<Rightarrow> qstring list" where
  "norms uc i s w ws \<equiv> map tu_normalized (units_loop uc i s w ws)"

lemma flush_norms: "map tu_normalized (flushWord uc i w ws) = (if w = [] then [] else [uc_toCaseFolded uc w])"
  by (simp add: flushWord_def)

text \<open>Positions do not influence the normalised units.\<close>

lemma units_loop_Cons:
  assumes "code_point (c # cs) = (cp, wd)"
  shows "norms uc i (c # cs) w ws =
    (if isCjk cp then (if w = [] then [] else [uc_toCaseFolded uc w])
        @ take wd (c # cs) # norms uc (i + int wd) (drop wd (c # cs)) [] (-1)
     else if uc_isLetterOrNumber uc c \<or> c = 0x5F then
        norms uc (i + int wd) (drop wd (c # cs)) (w @ take wd (c # cs)) (if w = [] then i else ws)
     else (if w = [] then [] else [uc_toCaseFolded uc w])
        @ norms uc (i + int wd) (drop wd (c # cs)) [] (-1))"
  by (subst units_loop.simps(2)) (simp add: assms flush_norms Let_def)

lemma norms_index: "norms uc i s w ws = norms uc j s w vs"
proof (induction "length s" arbitrary: s i j w ws vs rule: less_induct)
  case less
  show ?case
  proof (cases s)
    case Nil
    then show ?thesis by (simp add: flush_norms)
  next
    case (Cons c cs)
    obtain cp wd where cw: "code_point (c # cs) = (cp, wd)" by fastforce
    then have "length (drop wd (c # cs)) < length s"
      using code_point_pos[of cp wd "c # cs"] Cons by simp
    note IH = less.hyps[OF this]
    let ?d = "drop wd (c # cs)"
    have "norms uc (i + int wd) ?d [] (-1) = norms uc (j + int wd) ?d [] (-1)"
      and "norms uc (i + int wd) ?d (w @ take wd (c # cs)) (if w = [] then i else ws)
        = norms uc (j + int wd) ?d (w @ take wd (c # cs)) (if w = [] then j else vs)"
      by (rule IH)+
    then show ?thesis unfolding Cons units_loop_Cons[OF cw] by simp
  qed
qed

text \<open>
  Cutting the text at the end of its \<open>k\<close>-th unit leaves exactly the later units.
\<close>

lemma flush_nth: "flushWord uc e w ws ! 0 = \<lparr>tu_normalized = uc_toCaseFolded uc w, tu_start = ws,
    tu_end = e, tu_cjk = False\<rparr>" if "w \<noteq> []"
  using that by (simp add: flushWord_def)

lemma length_flush: "length (flushWord uc e w ws) = (if w = [] then 0 else 1)"
  by (simp add: flushWord_def)

lemma unit_cut:
  assumes "k < length (units_loop uc i s w ws)"
  shows "i \<le> tu_end (units_loop uc i s w ws ! k)
    \<and> tu_end (units_loop uc i s w ws ! k) \<le> i + int (length s)
    \<and> norms uc 0 (drop (nat (tu_end (units_loop uc i s w ws ! k) - i)) s) [] (-1)
      = drop (Suc k) (norms uc i s w ws)"
  using assms
proof (induction "length s" arbitrary: s i w ws k rule: less_induct)
  case less
  show ?case
  proof (cases s)
    case Nil
    then show ?thesis using less.prems by (auto simp: flushWord_def split: if_splits)
  next
    case (Cons c cs)
    obtain cp wd where cw: "code_point (c # cs) = (cp, wd)" by fastforce
    let ?d = "drop wd (c # cs)" and ?h = "take wd (c # cs)" and ?j = "i + int wd"
    let ?F = "flushWord uc i w ws"
    have wd: "0 < wd" "wd \<le> length s"
      using code_point_pos[of cp wd "c # cs"] code_point_width_le[of "c # cs"] cw Cons by simp_all
    then have shorter: "length ?d < length s" and len: "int (length ?d) = int (length s) - int wd"
      using Cons by auto
    have skip: "drop (nat (e - i)) s = drop (nat (e - ?j)) ?d" if "?j \<le> e" for e
    proof -
      have "nat (e - i) = nat (e - ?j) + wd" using that by linarith
      then show ?thesis using Cons by (simp only: drop_drop)
    qed
    note IH = less.hyps[OF shorter, of _ ?j]
    show ?thesis
    proof (cases "\<not> isCjk cp \<and> (uc_isLetterOrNumber uc c \<or> c = 0x5F)")
      case True
      then have "units_loop uc i s w ws = units_loop uc ?j ?d (w @ ?h) (if w = [] then i else ws)"
        unfolding Cons by (subst units_loop.simps(2)) (simp add: cw Let_def)
      then show ?thesis
        using IH[of k "w @ ?h" "if w = [] then i else ws"] less.prems skip len by simp
    next
      case False
      define L where "L = units_loop uc ?j ?d [] (-1)"
      define U where "U = (if isCjk cp
        then [\<lparr>tu_normalized = ?h, tu_start = i, tu_end = ?j, tu_cjk = True\<rparr>] else [])"
      have loop: "units_loop uc i s v vs = flushWord uc i v vs @ U @ L" for v vs
        unfolding Cons L_def U_def using False
        by (subst units_loop.simps(2)) (cases "isCjk cp"; simp add: cw Let_def)
      have whole: "norms uc 0 s [] (-1) = map tu_normalized (U @ L)"
        using norms_index[of uc 0 s "[]" "-1" i "-1"] loop[of "[]" "-1"] by (simp add: flushWord_def)
      have rest: "norms uc 0 ?d [] (-1) = map tu_normalized L"
        using norms_index[of uc 0 ?d "[]" "-1" ?j "-1"] by (simp add: L_def)
      have "length U \<le> 1" "U \<noteq> [] \<longleftrightarrow> 0 < length U" by (simp_all add: U_def)
      then consider "k < length ?F" | "k = length ?F" "U \<noteq> []" | "length ?F + length U \<le> k"
        by linarith
      then show ?thesis
      proof cases
        case 1
        then have "w \<noteq> []" "k = 0" by (auto simp: flushWord_def split: if_splits)
        then show ?thesis using whole loop[of w ws] by (simp add: flushWord_def)
      next
        case 2
        then have "units_loop uc i s w ws ! k
            = \<lparr>tu_normalized = ?h, tu_start = i, tu_end = ?j, tu_cjk = True\<rparr>"
          and U: "length U = 1"
          using loop[of w ws] by (auto simp: U_def nth_append split: if_splits)
        then show ?thesis using skip[of ?j] rest loop[of w ws] 2 wd by simp
      next
        case 3
        define k' where "k' = k - length ?F - length U"
        have at: "units_loop uc i s w ws ! k = L ! k'" "k' < length L"
          using 3 loop[of w ws] less.prems by (auto simp: nth_append k'_def)
        have "drop (Suc k) (norms uc i s w ws) = drop (Suc k') (map tu_normalized L)"
          using 3 loop[of w ws] by (simp add: k'_def Suc_diff_le)
        then show ?thesis
          using IH[of k' "[]" "-1"] at len skip by (simp add: L_def[symmetric])
      qed
    qed
  qed
qed

text \<open>Separators in front of a text carry no unit.\<close>

lemma norms_skip_separators:
  assumes "unicode_ok uc" "0x5F \<notin> set s"
  shows "norms uc 0 (dropWhile (\<lambda>c. uc_isSpace uc c \<or> uc_isPunct uc c) s) [] (-1) = norms uc 0 s [] (-1)"
  using assms(2)
proof (induction s)
  case Nil
  then show ?case by simp
next
  case (Cons c cs)
  show ?case
  proof (cases "uc_isSpace uc c \<or> uc_isPunct uc c")
    case False
    then show ?thesis by simp
  next
    case True
    then have c: "\<not> uc_isLetterOrNumber uc c" "\<not> isCjk (uint c)" "\<not> isHighSurrogate c" "c \<noteq> 0x5F"
      using assms(1) Cons.prems by (auto simp: unicode_ok_def)
    then have "code_point (c # cs) = (uint c, 1)" by (cases cs) auto
    then have "norms uc 0 (c # cs) [] (-1) = norms uc 1 cs [] (-1)"
      using c by (simp add: units_loop_Cons)
    then show ?thesis using True Cons norms_index[of uc 1 cs "[]" "-1" 0 "-1"] by simp
  qed
qed

lemma longest_match_spec:
  assumes "n \<le> length p" "n \<le> length q"
  defines "m \<equiv> longest_match p q n"
  shows "m \<le> n \<and> drop (length p - m) p = take m q
    \<and> (\<forall>j. m < j \<and> j \<le> n \<longrightarrow> drop (length p - j) p \<noteq> take j q)"
  unfolding m_def using assms(1,2)
proof (induction n)
  case (Suc n)
  show ?case
  proof (cases "drop (length p - Suc n) p = take (Suc n) q")
    case True
    then have m: "longest_match p q (Suc n) = Suc n" by simp
    show ?thesis unfolding m by (intro conjI True order_refl) linarith
  next
    case False
    then have "longest_match p q (Suc n) = longest_match p q n" by simp
    then show ?thesis using Suc False by (auto simp: le_Suc_eq)
  qed
qed auto

subsection \<open>Merging completed chunks\<close>

text \<open>
  The loop over chunks; \<open>merged\<close> is the result so far, \<open>diagnostics\<close> the optional log.
  The flag at \<open>chunkIndex - 1\<close> belongs to the boundary before the chunk.
\<close>

fun merge_chunks ::
  "unicode \<Rightarrow> bool list \<Rightarrow> nat \<Rightarrow> asr_segment list list \<Rightarrow> asr_segment list \<Rightarrow> dedup_diagnostic list
    \<Rightarrow> asr_segment list \<times> dedup_diagnostic list" where
  "merge_chunks uc overlaps chunkIndex [] merged diagnostics = (merged, diagnostics)"
| "merge_chunks uc overlaps chunkIndex (segments # chunks) merged diagnostics =
     (let hasOverlap = chunkIndex > 0 \<and> chunkIndex - 1 < length overlaps \<and> overlaps ! (chunkIndex - 1)
      in if hasOverlap \<and> merged \<noteq> [] \<and> segments \<noteq> []
         then let d = deduplicate uc (as_originalText (last merged)) (as_originalText (hd segments)) True;
                  diagnostics' = (if dd_diagnostic d \<noteq> NoDiagnostic
                                  then diagnostics @ [dd_diagnostic d] else diagnostics);
                  segments' = (if dd_matchedUnits d > 0
                    then if dd_text d = [] then tl segments
                         else (hd segments)\<lparr>as_originalText := dd_text d\<rparr> # tl segments
                    else segments)
              in merge_chunks uc overlaps (Suc chunkIndex) chunks (merged @ segments') diagnostics'
         else merge_chunks uc overlaps (Suc chunkIndex) chunks (merged @ segments) diagnostics)"

definition mergeCompletedChunks ::
  "unicode \<Rightarrow> asr_segment list list \<Rightarrow> bool list \<Rightarrow> asr_segment list \<times> dedup_diagnostic list" where
  "mergeCompletedChunks uc chunkSegments chunksHaveTimestampOverlap =
     merge_chunks uc chunksHaveTimestampOverlap 0 chunkSegments [] []"

lemma merge_without_overlap:
  "True \<notin> set overlaps \<Longrightarrow>
     merge_chunks uc overlaps i chunks merged ds = (merged @ concat chunks, ds)"
proof (induction chunks arbitrary: i merged)
  case (Cons segments chunks)
  have "\<not> (i > 0 \<and> i - 1 < length overlaps \<and> overlaps ! (i - 1))"
    using Cons.prems nth_mem[of "i - 1" overlaps] by metis
  then have "merge_chunks uc overlaps i (segments # chunks) merged ds
      = merge_chunks uc overlaps (Suc i) chunks (merged @ segments) ds"
    by (simp only: merge_chunks.simps Let_def) simp
  then show ?case using Cons by simp
qed simp

subsection \<open>Reconciling a chunk with the stored transcript\<close>

text \<open>
  \<open>reconcileOverlap\<close>: \<open>previous\<close> is the last stored segment, \<open>incoming\<close> the segments of the
  new chunk. Segments that end before the stored one are removed; text that is not known to
  be a duplicate is kept and put in front of the next segment. \<open>uuid\<close> is the id of the
  segment made for kept text when nothing else is left.
\<close>

fun drop_covered :: "unicode \<Rightarrow> int \<Rightarrow> transcript_segment list \<Rightarrow> qstring list
    \<Rightarrow> transcript_segment list \<times> qstring list" where
  "drop_covered uc previousEnd [] preserved = ([], preserved)"
| "drop_covered uc previousEnd (s # ss) preserved =
     (if ts_endMs s \<le> previousEnd
      then drop_covered uc previousEnd ss
             (if trimmed uc (ts_originalText s) \<noteq> []
              then preserved @ [trimmed uc (ts_originalText s)] else preserved)
      else (s # ss, preserved))"

definition dedup_first ::
  "unicode \<Rightarrow> transcript_segment \<Rightarrow> transcript_segment list \<Rightarrow> transcript_segment list" where
  "dedup_first uc previous incoming =
     (let d = deduplicate uc (displayText previous) (ts_originalText (hd incoming)) True in
      if dd_matchedUnits d > 0
      then if dd_text d = [] \<and> ts_endMs (hd incoming) \<le> ts_endMs previous
           then tl incoming
           else (hd incoming)\<lparr>ts_originalText := dd_text d\<rparr> # tl incoming
      else incoming)"

definition keep_text ::
  "unicode \<Rightarrow> string \<Rightarrow> int \<Rightarrow> int \<Rightarrow> qstring list \<Rightarrow> transcript_segment list \<Rightarrow> transcript_segment list" where
  "keep_text uc uuid previousEnd chunkEnd preservedTexts incoming =
     (if preservedTexts = [] then incoming
      else let preserved = join (lit '' '') preservedTexts in
        case incoming of
          [] \<Rightarrow> [empty_segment\<lparr>ts_id := uuid, ts_startMs := previousEnd,
                  ts_endMs := max (previousEnd + 1) chunkEnd, ts_originalText := preserved\<rparr>]
        | s # ss \<Rightarrow>
            s\<lparr>ts_originalText := simplified uc (preserved @ lit '' '' @ ts_originalText s)\<rparr> # ss)"

fun shift_first :: "int \<Rightarrow> transcript_segment list \<Rightarrow> transcript_segment list" where
  "shift_first previousEnd [] = []"
| "shift_first previousEnd (s # ss) =
     (if ts_startMs s < previousEnd
      then (let s1 = s\<lparr>ts_startMs := previousEnd\<rparr> in
            (if ts_endMs s1 \<le> ts_startMs s1 then s1\<lparr>ts_endMs := ts_startMs s1 + 1\<rparr> else s1)) # ss
      else s # ss)"

definition reconcileOverlap ::
  "unicode \<Rightarrow> string \<Rightarrow> transcript_segment \<Rightarrow> int \<Rightarrow> transcript_segment list \<Rightarrow> transcript_segment list" where
  "reconcileOverlap uc uuid previous chunkEnd incoming =
     (if incoming = [] then []
      else let (uncovered, preservedTexts) =
                 drop_covered uc (ts_endMs previous) (dedup_first uc previous incoming) []
           in shift_first (ts_endMs previous)
                (keep_text uc uuid (ts_endMs previous) chunkEnd preservedTexts uncovered))"

text \<open>A list of segments in time order, none of them empty.\<close>

definition segments_ordered :: "transcript_segment list \<Rightarrow> bool" where
  "segments_ordered ss \<longleftrightarrow> (\<forall>s \<in> set ss. ts_startMs s < ts_endMs s)
     \<and> sorted_wrt (\<lambda>a b. ts_endMs a \<le> ts_startMs b) ss"

lemma drop_covered_split:
  assumes "drop_covered uc e ss ps = (rest, qs)"
  shows "\<exists>dropped. ss = dropped @ rest \<and> (\<forall>s \<in> set dropped. ts_endMs s \<le> e)
    \<and> qs = ps @ filter (\<lambda>t. t \<noteq> []) (map (\<lambda>s. trimmed uc (ts_originalText s)) dropped)
    \<and> (rest = [] \<or> e < ts_endMs (hd rest))"
  using assms
proof (induction ss arbitrary: ps)
  case (Cons s ss)
  show ?case
  proof (cases "ts_endMs s \<le> e")
    case True
    then obtain dropped where "ss = dropped @ rest" "\<forall>s \<in> set dropped. ts_endMs s \<le> e"
      "rest = [] \<or> e < ts_endMs (hd rest)"
      "qs = (if trimmed uc (ts_originalText s) \<noteq> [] then ps @ [trimmed uc (ts_originalText s)] else ps)
        @ filter (\<lambda>t. t \<noteq> []) (map (\<lambda>s. trimmed uc (ts_originalText s)) dropped)"
      using Cons by fastforce
    then show ?thesis using True by (intro exI[of _ "s # dropped"]) auto
  next
    case False
    then show ?thesis using Cons.prems by (intro exI[of _ "[]"]) auto
  qed
qed simp

lemma segments_ordered_suffix: "segments_ordered (xs @ ys) \<Longrightarrow> segments_ordered ys"
  by (auto simp: segments_ordered_def sorted_wrt_append)

lemma segments_ordered_tl: "segments_ordered ss \<Longrightarrow> segments_ordered (tl ss)"
  by (cases ss) (auto simp: segments_ordered_def)

lemma segments_ordered_hd:
  "segments_ordered (s # ss) \<longleftrightarrow> ts_startMs s < ts_endMs s
     \<and> (\<forall>t \<in> set ss. ts_endMs s \<le> ts_startMs t) \<and> segments_ordered ss"
  by (auto simp: segments_ordered_def)

text \<open>
  The stages of \<open>reconcileOverlap\<close>: what deduplication leaves, what is not yet covered by
  the stored segment, and where the kept text goes.
\<close>

lemma segments_ordered_text:
  "segments_ordered (s\<lparr>ts_originalText := t\<rparr> # ss) \<longleftrightarrow> segments_ordered (s # ss)"
  by (simp add: segments_ordered_def)

lemma dedup_first_ordered:
  assumes "incoming \<noteq> []" "segments_ordered incoming"
  shows "segments_ordered (dedup_first uc previous incoming)"
proof -
  have "segments_ordered (hd incoming # tl incoming)" using assms by simp
  then show ?thesis
    using segments_ordered_tl[OF assms(2)] assms(2)
    by (simp add: dedup_first_def Let_def segments_ordered_text)
qed

lemma dedup_first_tl:
  "s \<in> set (tl incoming) \<Longrightarrow> s \<in> set (dedup_first uc previous incoming)"
  by (cases incoming) (auto simp: dedup_first_def Let_def)

lemma keep_text_ordered:
  assumes "segments_ordered segs" "segs = [] \<or> e < ts_endMs (hd segs)"
  shows "segments_ordered (keep_text uc uuid e chunkEnd kept segs)
    \<and> (keep_text uc uuid e chunkEnd kept segs = []
       \<or> e < ts_endMs (hd (keep_text uc uuid e chunkEnd kept segs)))"
  using assms by (cases segs)
    (auto simp: keep_text_def Let_def segments_ordered_text segments_ordered_def less_max_iff_disj)

lemma keep_text_empty [simp]: "keep_text uc uuid e chunkEnd kept segs = [] \<longleftrightarrow> kept = [] \<and> segs = []"
  by (auto simp: keep_text_def Let_def split: list.split)

lemma shift_first_empty [simp]: "shift_first e segs = [] \<longleftrightarrow> segs = []"
  by (cases segs) auto

lemma shift_first_ordered:
  assumes "segments_ordered segs" "segs = [] \<or> e < ts_endMs (hd segs)"
  shows "segments_ordered (shift_first e segs) \<and> (\<forall>s \<in> set (shift_first e segs). e \<le> ts_startMs s)"
proof (cases segs)
  case Nil
  then show ?thesis by (simp add: segments_ordered_def)
next
  case (Cons s ss)
  then have "e < ts_endMs s" "segments_ordered ss" "\<forall>t \<in> set ss. ts_endMs s \<le> ts_startMs t"
    "ts_startMs s < ts_endMs s"
    using assms by (simp_all add: segments_ordered_hd)
  then show ?thesis using Cons by (auto simp: Let_def segments_ordered_hd)
qed

subsection \<open>Properties\<close>



text \<open>
  C38: Adding a chunk keeps the stored transcript in time order: whatever the incoming
  segments overlap, what is stored starts at or after the end of the previous segment, in
  order and without empty ranges, and nothing is left to store only if every incoming text
  was blank or removed as a duplicate.
\<close>

theorem reconcile_keeps_timeline:
  assumes "segments_ordered incoming"
    and "out = reconcileOverlap uc uuid previous chunkEnd incoming"
  shows "segments_ordered out \<and> (\<forall>s \<in> set out. ts_endMs previous \<le> ts_startMs s)
    \<and> (out = [] \<longrightarrow> (\<forall>s \<in> set (tl incoming). trimmed uc (ts_originalText s) = [])
        \<and> (incoming = [] \<or> trimmed uc (ts_originalText (hd incoming)) = []
           \<or> 0 < dd_matchedUnits (deduplicate uc (displayText previous)
                  (ts_originalText (hd incoming)) True)))"
proof (cases "incoming = []")
  case True
  then show ?thesis using assms by (simp add: reconcileOverlap_def segments_ordered_def)
next
  case False
  define e where "e = ts_endMs previous"
  define first where "first = dedup_first uc previous incoming"
  obtain rest kept where split: "drop_covered uc e first [] = (rest, kept)" by fastforce
  then have out: "out = shift_first e (keep_text uc uuid e chunkEnd kept rest)"
    using assms(2) False by (simp add: reconcileOverlap_def e_def first_def)
  obtain dropped where dr: "first = dropped @ rest"
    "kept = filter (\<lambda>t. t \<noteq> []) (map (\<lambda>s. trimmed uc (ts_originalText s)) dropped)"
    "rest = [] \<or> e < ts_endMs (hd rest)"
    using drop_covered_split[OF split] by auto
  have "segments_ordered rest"
    using dedup_first_ordered[OF False assms(1)] dr(1) segments_ordered_suffix by (metis first_def)
  then have order: "segments_ordered out \<and> (\<forall>s \<in> set out. e \<le> ts_startMs s)"
    unfolding out using dr(3) keep_text_ordered shift_first_ordered by blast
  have blank: "trimmed uc (ts_originalText s) = []" if "out = []" "s \<in> set first" for s
    using that out dr(1,2) by (auto simp: filter_empty_conv)
  have "hd incoming \<in> set first"
    if "dd_matchedUnits (deduplicate uc (displayText previous) (ts_originalText (hd incoming)) True) = 0"
    using that False by (simp add: first_def dedup_first_def Let_def)
  then show ?thesis
    using order blank dedup_first_tl unfolding e_def first_def by blast
qed

theorem reconcile_keeps_timeline_witness:
  "segments_ordered (reconcileOverlap ascii ''id'' (empty_segment\<lparr>ts_endMs := 5\<rparr>) 100
     [empty_segment\<lparr>ts_startMs := 2, ts_endMs := 4\<rparr>, empty_segment\<lparr>ts_startMs := 4, ts_endMs := 9\<rparr>])"
  by (rule conjunct1[OF reconcile_keeps_timeline[OF _ refl]])
     (simp add: segments_ordered_def empty_segment_def)

end
