(* ===== verification/Prompts.thy ===== *)
theory Prompts
  imports QText CoreTypes
begin

text \<open>
  \<^verbatim>\<open>asr/PromptTokenBudget\<close> and \<^verbatim>\<open>glossary/PromptComposer\<close>: a recognition prompt is put
  together from parts in order of importance, skipping each part that would exceed the
  token budget. The tokenizer is a parameter, \<open>None\<close> when the \<open>std::function\<close> is empty.
  Both loops are machines whose state always holds a prompt within the budget.
\<close>

datatype prompt_part_kind = KindGlossary | KindMeetingContext | KindPreviousTranscript

record prompt_part =
  pp_text :: qstring
  pp_kind :: prompt_part_kind
  pp_priority :: int

record prompt_budget_result =
  pb_prompt :: qstring
  pb_tokenCount :: int
  pb_omitted :: "prompt_part list"

fun kindRank :: "prompt_part_kind \<Rightarrow> int" where
  "kindRank KindGlossary = 0"
| "kindRank KindMeetingContext = 1"
| "kindRank KindPreviousTranscript = 2"

definition part_sentence :: "unicode \<Rightarrow> prompt_part \<Rightarrow> qstring" where
  "part_sentence uc part =
     (let t = trimmed uc (pp_text part) in
      case pp_kind part of
        KindGlossary \<Rightarrow> lit ''Important terminology: '' @ t @ lit ''.''
      | KindMeetingContext \<Rightarrow> lit ''Meeting context: '' @ t @ lit ''.''
      | KindPreviousTranscript \<Rightarrow> lit ''Previous confirmed transcript: '' @ t)"

definition part_before :: "prompt_part \<Rightarrow> prompt_part \<Rightarrow> bool" where
  "part_before left right =
     (let leftKind = kindRank (pp_kind left); rightKind = kindRank (pp_kind right) in
      if leftKind = rightKind then pp_priority left > pp_priority right else leftKind < rightKind)"

definition budget_step ::
  "unicode \<Rightarrow> int \<Rightarrow> (qstring \<Rightarrow> int) \<Rightarrow> prompt_budget_result \<Rightarrow> prompt_part \<Rightarrow> prompt_budget_result" where
  "budget_step uc maximumTokens counter result part =
     (if trimmed uc (pp_text part) = [] then result
      else
        let candidate = (if pb_prompt result = [] then part_sentence uc part
                         else pb_prompt result @ lit '' '' @ part_sentence uc part);
            n = counter candidate in
        if n < 0 \<or> n > maximumTokens then result\<lparr>pb_omitted := pb_omitted result @ [part]\<rparr>
        else result\<lparr>pb_prompt := candidate, pb_tokenCount := n\<rparr>)"

definition compose_budget ::
  "unicode \<Rightarrow> prompt_part list \<Rightarrow> int \<Rightarrow> (qstring \<Rightarrow> int) option \<Rightarrow> prompt_budget_result" where
  "compose_budget uc parts maximumTokens counter =
     (let sorted = stable_sort part_before parts;
          result = \<lparr>pb_prompt = [], pb_tokenCount = 0, pb_omitted = []\<rparr> in
      case counter of
        None \<Rightarrow> result\<lparr>pb_omitted := sorted\<rparr>
      | Some c \<Rightarrow>
          if maximumTokens \<le> 0 then result\<lparr>pb_omitted := sorted\<rparr>
          else foldl (budget_step uc maximumTokens c) result sorted)"

subsection \<open>PromptComposer\<close>

record glossary_profile =
  gp_id :: string
  gp_name :: qstring
  gp_description :: qstring
  gp_projectContext :: qstring
  gp_createdAt :: "int option"
  gp_updatedAt :: "int option"

record glossary_term =
  gt_id :: string
  gt_profileId :: string
  gt_canonicalText :: qstring
  gt_aliases :: "qstring list"
  gt_category :: qstring
  gt_language :: qstring
  gt_priority :: int
  gt_caseSensitive :: bool
  gt_enabled :: bool
  gt_notes :: qstring
  gt_createdAt :: "int option"
  gt_updatedAt :: "int option"

record prompt_request =
  pr_profile :: glossary_profile
  pr_terms :: "glossary_term list"
  pr_meetingContext :: qstring
  pr_previousConfirmedText :: qstring
  pr_maximumTokens :: int

record prompt_composition =
  pc_prompt :: qstring
  pc_tokenCount :: int
  pc_maximumTokens :: int
  pc_includedTermIds :: "string list"
  pc_omittedTermIds :: "string list"

definition tryAppend ::
  "unicode \<Rightarrow> (qstring \<Rightarrow> int) \<Rightarrow> int \<Rightarrow> qstring list \<Rightarrow> qstring \<Rightarrow> bool \<times> qstring list" where
  "tryAppend uc counter maximumTokens sentences sentence =
     (if trimmed uc sentence = [] then (False, sentences)
      else let candidate = sentences @ [trimmed uc sentence] in
        if counter (join (lit '' '') candidate) > maximumTokens then (False, sentences)
        else (True, candidate))"

text \<open>\<open>cmp\<close> is \<open>QString::localeAwareCompare\<close>.\<close>

definition term_before :: "(qstring \<Rightarrow> qstring \<Rightarrow> int) \<Rightarrow> glossary_term \<Rightarrow> glossary_term \<Rightarrow> bool" where
  "term_before cmp left right =
     (if gt_priority left \<noteq> gt_priority right then gt_priority left > gt_priority right
      else cmp (gt_canonicalText left) (gt_canonicalText right) < 0)"

definition term_sentence :: "glossary_term \<Rightarrow> qstring" where
  "term_sentence t =
     lit ''Use the preferred term '' @ [0x201C] @ gt_canonicalText t @ [0x201D]
     @ (if gt_aliases t \<noteq> [] then lit '' for variants '' @ join (lit '', '') (gt_aliases t) else [])
     @ lit ''.''"

type_synonym composer_state = "qstring list \<times> string list \<times> string list"

definition term_step ::
  "unicode \<Rightarrow> (qstring \<Rightarrow> int) \<Rightarrow> int \<Rightarrow> composer_state \<Rightarrow> glossary_term \<Rightarrow> composer_state" where
  "term_step uc counter maximumTokens st t =
     (case st of (sentences, included, omitted) \<Rightarrow>
        if \<not> gt_enabled t then st
        else case tryAppend uc counter maximumTokens sentences (term_sentence t) of
          (True, sentences') \<Rightarrow> (sentences', included @ [gt_id t], omitted)
        | (False, sentences') \<Rightarrow> (sentences', included, omitted @ [gt_id t]))"

text \<open>The three optional context sentences; the result of \<open>tryAppend\<close> is ignored.\<close>

definition context_step ::
  "unicode \<Rightarrow> (qstring \<Rightarrow> int) \<Rightarrow> int \<Rightarrow> qstring list \<Rightarrow> qstring \<times> qstring \<Rightarrow> qstring list" where
  "context_step uc counter maximumTokens sentences part =
     (case part of (prefix, value) \<Rightarrow>
        if trimmed uc value = [] then sentences
        else snd (tryAppend uc counter maximumTokens sentences (prefix @ value)))"

definition compose_prompt ::
  "unicode \<Rightarrow> (qstring \<Rightarrow> qstring \<Rightarrow> int) \<Rightarrow> prompt_request \<Rightarrow> (qstring \<Rightarrow> int) option
    \<Rightarrow> prompt_composition result" where
  "compose_prompt uc cmp request tokenCounter =
     (case tokenCounter of
        None \<Rightarrow> Inl (validation_error InvalidArgument)
      | Some counter \<Rightarrow>
          let limit = pr_maximumTokens request in
          if limit \<le> 0 then Inl (validation_error InvalidArgument)
          else
            let (sentences, included, omitted) =
                  foldl (term_step uc counter limit) ([], [], [])
                    (stable_sort (term_before cmp) (pr_terms request));
                sentences' = foldl (context_step uc counter limit) sentences
                  [(lit ''Meeting context: '', pr_meetingContext request),
                   (lit ''Project context: '', gp_projectContext (pr_profile request)),
                   (lit ''Previous confirmed transcript: '', pr_previousConfirmedText request)];
                prompt = join (lit '' '') sentences'
            in Inr \<lparr>pc_prompt = prompt, pc_tokenCount = counter prompt, pc_maximumTokens = limit,
                    pc_includedTermIds = included, pc_omittedTermIds = omitted\<rparr>)"

subsection \<open>Both loops stay within the budget\<close>

definition budget_ok :: "int \<Rightarrow> (qstring \<Rightarrow> int) \<Rightarrow> prompt_budget_result \<Rightarrow> bool" where
  "budget_ok limit counter r \<longleftrightarrow> 0 \<le> pb_tokenCount r \<and> pb_tokenCount r \<le> limit
     \<and> (pb_prompt r \<noteq> [] \<longrightarrow> pb_tokenCount r = counter (pb_prompt r))
     \<and> (pb_prompt r = [] \<longrightarrow> pb_tokenCount r = 0)"

lemma part_sentence_not_empty [simp]: "part_sentence uc p \<noteq> []"
  by (simp add: part_sentence_def Let_def split: prompt_part_kind.split)

interpretation budget: machine "budget_step uc limit counter" "budget_ok limit counter"
  for uc limit counter
proof unfold_locales
  fix r p
  assume "budget_ok limit counter r"
  then show "budget_ok limit counter (budget_step uc limit counter r p)"
    by (auto simp: budget_ok_def budget_step_def Let_def)
qed

definition fits :: "int \<Rightarrow> (qstring \<Rightarrow> int) \<Rightarrow> qstring list \<Rightarrow> bool" where
  "fits limit counter sentences \<longleftrightarrow> sentences = [] \<or> counter (join (lit '' '') sentences) \<le> limit"

lemma tryAppend_fits:
  "fits limit counter ss \<Longrightarrow> fits limit counter (snd (tryAppend uc counter limit ss s))"
  by (auto simp: tryAppend_def fits_def Let_def)

interpretation terms: machine "term_step uc counter limit" "\<lambda>st. fits limit counter (fst st)"
  for uc counter limit
proof unfold_locales
  fix st :: composer_state and t
  assume "fits limit counter (fst st)"
  then show "fits limit counter (fst (term_step uc counter limit st t))"
    using tryAppend_fits[of limit counter "fst st" uc "term_sentence t"]
    by (auto simp: term_step_def split: prod.splits bool.splits)
qed

interpretation contexts: machine "context_step uc counter limit" "fits limit counter"
  for uc counter limit
  by unfold_locales (auto simp: context_step_def tryAppend_fits split: prod.split)

text \<open>Every part of the sorted list is blank, included, or omitted; the order is kept.\<close>

fun interleaved :: "unicode \<Rightarrow> prompt_part list \<Rightarrow> prompt_part list \<Rightarrow> prompt_part list \<Rightarrow> bool" where
  "interleaved uc [] used left \<longleftrightarrow> used = [] \<and> left = []"
| "interleaved uc (p # ps) used left \<longleftrightarrow>
     (if trimmed uc (pp_text p) = [] then interleaved uc ps used left
      else (\<exists>u. used = p # u \<and> interleaved uc ps u left)
         \<or> (\<exists>l. left = p # l \<and> interleaved uc ps used l))"

lemma join_snoc: "xs \<noteq> [] \<Longrightarrow> join sep (xs @ [y]) = join sep xs @ sep @ y"
  by (induction sep xs rule: join.induct) auto

lemma budget_run:
  "pb_prompt r = join (lit '' '') (map (part_sentence uc) before) \<Longrightarrow>
   (\<exists>used left. interleaved uc ps used left
      \<and> pb_prompt (foldl (budget_step uc limit counter) r ps)
          = join (lit '' '') (map (part_sentence uc) (before @ used))
      \<and> pb_omitted (foldl (budget_step uc limit counter) r ps) = pb_omitted r @ left)"
proof (induction ps arbitrary: r before)
  case Nil
  then show ?case by auto
next
  case (Cons p ps)
  let ?r = "budget_step uc limit counter r p"
  have empty: "pb_prompt r = [] \<longleftrightarrow> before = []"
    using Cons.prems by (cases before; cases "tl before") auto
  consider (blank) "trimmed uc (pp_text p) = []" "?r = r"
    | (take) "trimmed uc (pp_text p) \<noteq> []" "pb_omitted ?r = pb_omitted r"
        "pb_prompt ?r = join (lit '' '') (map (part_sentence uc) (before @ [p]))"
    | (leave) "trimmed uc (pp_text p) \<noteq> []" "pb_omitted ?r = pb_omitted r @ [p]" "pb_prompt ?r = pb_prompt r"
  proof (cases "trimmed uc (pp_text p) = []")
    case True
    then show ?thesis using that(1) by (simp add: budget_step_def)
  next
    case False
    let ?c = "if pb_prompt r = [] then part_sentence uc p else pb_prompt r @ lit '' '' @ part_sentence uc p"
    have c: "?c = join (lit '' '') (map (part_sentence uc) (before @ [p]))"
      using Cons.prems empty join_snoc[of "map (part_sentence uc) before" "lit '' ''"] by simp
    show ?thesis
    proof (cases "counter ?c < 0 \<or> limit < counter ?c")
      case True
      then show ?thesis using that(3) False by (simp add: budget_step_def Let_def)
    next
      case ok: False
      then have "pb_prompt ?r = ?c" "pb_omitted ?r = pb_omitted r"
        using False by (simp_all add: budget_step_def Let_def)
      then show ?thesis using that(2) False c by simp
    qed
  qed
  then show ?case
  proof cases
    case blank
    then show ?thesis using Cons.IH[OF Cons.prems] by simp
  next
    case take
    obtain used left where "interleaved uc ps used left"
      "pb_prompt (foldl (budget_step uc limit counter) ?r ps)
         = join (lit '' '') (map (part_sentence uc) ((before @ [p]) @ used))"
      "pb_omitted (foldl (budget_step uc limit counter) ?r ps) = pb_omitted ?r @ left"
      using Cons.IH[OF take(3)] by blast
    then show ?thesis using take by (intro exI[of _ "p # used"] exI[of _ left]) simp
  next
    case leave
    have "pb_prompt ?r = join (lit '' '') (map (part_sentence uc) before)"
      using leave(3) Cons.prems by simp
    then obtain used left where "interleaved uc ps used left"
      "pb_prompt (foldl (budget_step uc limit counter) ?r ps)
         = join (lit '' '') (map (part_sentence uc) (before @ used))"
      "pb_omitted (foldl (budget_step uc limit counter) ?r ps) = pb_omitted ?r @ left"
      using Cons.IH by blast
    then show ?thesis using leave by (intro exI[of _ used] exI[of _ "p # left"]) simp
  qed
qed

lemma part_before_weak: "strict_weak part_before"
  by (auto simp: strict_weak_def part_before_def Let_def split: if_splits)

subsection \<open>Properties\<close>

text \<open>
  A prompt never exceeds its token budget and loses nothing silently. The prompt is made
  of the sentences of some of the parts, joined by spaces in the order glossary, meeting
  context, previous transcript and by falling priority; every other part is blank or listed
  as omitted, in the same order; and the reported count is the tokenizer's count of the
  prompt, within the budget.
\<close>

theorem prompt_budget_respected:
  assumes "0 < maximumTokens"
    and "r = compose_budget uc parts maximumTokens (Some counter)"
  shows "0 \<le> pb_tokenCount r \<and> pb_tokenCount r \<le> maximumTokens
    \<and> (pb_prompt r = [] \<or> pb_tokenCount r = counter (pb_prompt r))
    \<and> (\<exists>ordered used. mset ordered = mset parts
        \<and> sorted_wrt (\<lambda>a b. \<not> part_before b a) ordered
        \<and> interleaved uc ordered used (pb_omitted r)
        \<and> pb_prompt r = join (lit '' '') (map (part_sentence uc) used))"
proof -
  let ?s = "stable_sort part_before parts"
  let ?r0 = "\<lparr>pb_prompt = [], pb_tokenCount = 0, pb_omitted = []\<rparr>"
  have r: "r = foldl (budget_step uc maximumTokens counter) ?r0 ?s"
    using assms by (simp add: compose_budget_def Let_def)
  have "budget_ok maximumTokens counter ?r0" using assms(1) by (simp add: budget_ok_def)
  then have "budget_ok maximumTokens counter r" unfolding r by (rule budget.run_inv)
  moreover obtain used where "interleaved uc ?s used (pb_omitted r)"
    "pb_prompt r = join (lit '' '') (map (part_sentence uc) used)"
    using budget_run[of ?r0 uc "[]" ?s maximumTokens counter] by (auto simp: r)
  ultimately show ?thesis
    using sorted_stable_sort[OF part_before_weak, of parts] mset_stable_sort[of part_before parts]
    unfolding budget_ok_def by blast
qed

theorem prompt_budget_respected_witness:
  "pb_tokenCount (compose_budget ascii
      [\<lparr>pp_text = lit ''previous'', pp_kind = KindPreviousTranscript, pp_priority = 0\<rparr>,
       \<lparr>pp_text = lit ''BreezeDesk'', pp_kind = KindGlossary, pp_priority = 1\<rparr>] 40
      (Some (\<lambda>s. int (length s)))) \<le> 40"
  using prompt_budget_respected[OF _ refl, of 40 ascii
      "[\<lparr>pp_text = lit ''previous'', pp_kind = KindPreviousTranscript, pp_priority = 0\<rparr>,
       \<lparr>pp_text = lit ''BreezeDesk'', pp_kind = KindGlossary, pp_priority = 1\<rparr>]" "\<lambda>s. int (length s)"]
  by simp

text \<open>
  The glossary prompt of a recording stays within its budget: composing fails exactly
  when there is no tokenizer or no positive budget; otherwise the prompt is empty or its
  token count is within the budget.
\<close>

theorem composed_prompt_within_budget:
  "case compose_prompt uc cmp request tokenCounter of
     Inl e \<Rightarrow> e = validation_error InvalidArgument
       \<and> (tokenCounter = None \<or> pr_maximumTokens request \<le> 0)
   | Inr r \<Rightarrow> (\<exists>counter. tokenCounter = Some counter \<and> 0 < pr_maximumTokens request
       \<and> pc_maximumTokens r = pr_maximumTokens request
       \<and> pc_tokenCount r = counter (pc_prompt r)
       \<and> (pc_prompt r = [] \<or> pc_tokenCount r \<le> pr_maximumTokens request))"
proof (cases tokenCounter)
  case None
  then show ?thesis by (simp add: compose_prompt_def)
next
  case (Some counter)
  let ?limit = "pr_maximumTokens request"
  let ?st = "foldl (term_step uc counter ?limit) ([], [], [])
    (stable_sort (term_before cmp) (pr_terms request))"
  show ?thesis
  proof (cases "?limit \<le> 0")
    case True
    then show ?thesis using Some by (simp add: compose_prompt_def)
  next
    case False
    have "fits ?limit counter (fst ?st)" by (rule terms.run_inv) (simp add: fits_def)
    then have fit: "fits ?limit counter (foldl (context_step uc counter ?limit) (fst ?st) parts)" for parts
      by (rule contexts.run_inv)
    obtain sentences included omitted where st: "?st = (sentences, included, omitted)"
      by (cases ?st)
    have "join (lit '' '') (foldl (context_step uc counter ?limit) sentences parts) = []
        \<or> counter (join (lit '' '') (foldl (context_step uc counter ?limit) sentences parts)) \<le> ?limit"
      for parts
      using fit[of parts] unfolding st fst_conv fits_def by (metis join.simps(1))
    then show ?thesis
      using False Some by (simp add: compose_prompt_def Let_def st del: foldl_Cons lit_simps)
  qed
qed

end
