(* ===== verification/Glossary.thy ===== *)
theory Glossary
  imports Prompts Segments
begin

text \<open>
  \<^verbatim>\<open>glossary/GlossaryPostProcessor\<close>: aliases of glossary terms found in a transcript are
  replaced by the canonical text, and every replacement is recorded so that it can be
  reverted or rendered again from the original. The properties say that the record is
  complete: it leads back to the original text and forward to the replaced one.
\<close>

record alias_candidate =
  ac_termId :: string
  ac_alias :: qstring
  ac_canonical :: qstring
  ac_caseSensitive :: bool
  ac_priority :: int

definition isWordCharacter :: "unicode \<Rightarrow> qchar \<Rightarrow> bool" where
  "isWordCharacter uc c \<longleftrightarrow> uc_isLetterOrNumber uc c \<or> c = 0x5F"

definition boundariesAllow :: "unicode \<Rightarrow> qstring \<Rightarrow> nat \<Rightarrow> nat \<Rightarrow> qstring \<Rightarrow> bool" where
  "boundariesAllow uc s start len alias =
     (if \<not> list_ex (uc_isLatin uc) alias then True
      else (start = 0 \<or> \<not> isWordCharacter uc (s ! (start - 1)))
         \<and> (start + len = length s \<or> \<not> isWordCharacter uc (s ! (start + len))))"

definition candidate_before :: "alias_candidate \<Rightarrow> alias_candidate \<Rightarrow> bool" where
  "candidate_before left right =
     (if length (ac_alias left) \<noteq> length (ac_alias right)
      then length (ac_alias left) > length (ac_alias right)
      else ac_priority left > ac_priority right)"

definition alias_candidates :: "glossary_term list \<Rightarrow> alias_candidate list" where
  "alias_candidates terms =
     concat (map (\<lambda>t. if \<not> gt_enabled t then []
       else map (\<lambda>a. \<lparr>ac_termId = gt_id t, ac_alias = a, ac_canonical = gt_canonicalText t,
                      ac_caseSensitive = gt_caseSensitive t, ac_priority = gt_priority t\<rparr>)
              (filter (\<lambda>a. a \<noteq> [] \<and> a \<noteq> gt_canonicalText t) (gt_aliases t))) terms)"

definition overlapping :: "int \<Rightarrow> int \<Rightarrow> glossary_replacement \<Rightarrow> bool" where
  "overlapping position len r \<longleftrightarrow>
     position < gr_start r + gr_length r \<and> gr_start r < position + len"

definition shift_after :: "int \<Rightarrow> int \<Rightarrow> glossary_replacement \<Rightarrow> glossary_replacement" where
  "shift_after position delta r =
     (if gr_start r > position then r\<lparr>gr_start := gr_start r + delta\<rparr> else r)"

definition replacement_at :: "alias_candidate \<Rightarrow> nat \<Rightarrow> qstring \<Rightarrow> glossary_replacement" where
  "replacement_at c position matchedText =
     \<lparr>gr_termId = ac_termId c, gr_alias = ac_alias c, gr_canonicalText = ac_canonical c,
      gr_originalText = matchedText, gr_start = int position,
      gr_length = int (length (ac_canonical c)), gr_confidence = 1, gr_applied = True\<rparr>"

text \<open>
  The search loop for one candidate. Candidates have a non-empty alias, which the guard
  repeats so that the recursion is total.
\<close>

function replace_loop ::
  "unicode \<Rightarrow> alias_candidate \<Rightarrow> nat \<Rightarrow> qstring \<Rightarrow> glossary_replacement list
    \<Rightarrow> qstring \<times> glossary_replacement list" where
  "replace_loop uc c start s reps =
     (if start < length s \<and> ac_alias c \<noteq> [] then
        (case indexOf uc (ac_caseSensitive c) s (ac_alias c) start of
           None \<Rightarrow> (s, reps)
         | Some position \<Rightarrow>
             let n = length (ac_alias c) in
             if \<not> boundariesAllow uc s position n (ac_alias c)
                \<or> list_ex (overlapping (int position) (int n)) reps
             then replace_loop uc c (position + n) s reps
             else replace_loop uc c (position + length (ac_canonical c))
                    (replaceAt position n (ac_canonical c) s)
                    (map (shift_after (int position) (int (length (ac_canonical c)) - int n)) reps
                     @ [replacement_at c position (mid position n s)]))
      else (s, reps))"
  by pat_completeness auto
termination
proof (relation "measure (\<lambda>(uc, c, start, s, reps). length s - start)", goal_cases)
  case 1
  then show ?case by simp
next
  case (2 uc c start s reps position n)
  then show ?case using indexOf_Some[of uc "ac_caseSensitive c" s "ac_alias c" start position]
    by (cases "ac_alias c") auto
next
  case (3 uc c start s reps position n)
  then show ?case using indexOf_Some[of uc "ac_caseSensitive c" s "ac_alias c" start position]
    by (cases "ac_alias c") (auto simp: replaceAt_def)
qed

declare replace_loop.simps [simp del]

record glossary_result =
  gl_text :: qstring
  gl_replacements :: "glossary_replacement list"

definition applyExplicitAliases :: "unicode \<Rightarrow> qstring \<Rightarrow> glossary_term list \<Rightarrow> glossary_result" where
  "applyExplicitAliases uc s terms =
     (let candidates = stable_sort candidate_before (alias_candidates terms);
          (s', reps) = foldl (\<lambda>(s, reps) c. replace_loop uc c 0 s reps) (s, []) candidates
      in \<lparr>gl_text = s', gl_replacements = sort_key gr_start reps\<rparr>)"

definition revert_step :: "qstring \<Rightarrow> glossary_replacement \<Rightarrow> qstring" where
  "revert_step s r =
     (if gr_applied r \<and> mid (nat (gr_start r)) (nat (gr_length r)) s = gr_canonicalText r
      then replaceAt (nat (gr_start r)) (nat (gr_length r)) (gr_originalText r) s else s)"

definition revert :: "qstring \<Rightarrow> glossary_replacement list \<Rightarrow> qstring" where
  "revert s replacements = foldl revert_step s (sort_key (\<lambda>r. - gr_start r) replacements)"

text \<open>
  \<open>renderAudit\<close>: the positions in the original text, \<open>None\<close> when the record does not fit.
\<close>

fun audit_positions ::
  "unicode \<Rightarrow> qstring \<Rightarrow> int \<Rightarrow> int \<Rightarrow> glossary_replacement list
    \<Rightarrow> (glossary_replacement \<times> int) list option" where
  "audit_positions uc originalText accumulatedDelta previousOriginalEnd [] = Some []"
| "audit_positions uc originalText accumulatedDelta previousOriginalEnd (r # rs) =
     (if gr_start r < 0 \<or> gr_length r \<noteq> int (length (gr_canonicalText r)) \<or> gr_originalText r = []
      then None
      else
        let n = int (length (gr_originalText r));
            originalStart = gr_start r - accumulatedDelta;
            originalEnd = originalStart + n in
        if originalStart < previousOriginalEnd \<or> originalEnd > int (length originalText) then None
        else if \<not> uc_caseEqual uc (mid (nat originalStart) (nat n) originalText) (gr_originalText r)
        then None
        else map_option (Cons (r, originalStart))
               (audit_positions uc originalText
                  (accumulatedDelta + (int (length (gr_canonicalText r)) - n)) originalEnd rs))"

definition render_step :: "qstring \<Rightarrow> glossary_replacement \<times> int \<Rightarrow> qstring" where
  "render_step rendered p =
     (case p of (r, originalStart) \<Rightarrow>
        if gr_applied r
        then replaceAt (nat originalStart) (length (gr_originalText r)) (gr_canonicalText r) rendered
        else rendered)"

definition renderAudit :: "unicode \<Rightarrow> qstring \<Rightarrow> glossary_replacement list \<Rightarrow> qstring option" where
  "renderAudit uc originalText replacements =
     map_option (\<lambda>positioned. foldl render_step originalText (rev positioned))
       (audit_positions uc originalText 0 0 (sort_key gr_start replacements))"

subsection \<open>The replacement record describes the text\<close>

text \<open>
  A replaced text cut at its replacements: \<open>pieces\<close> are pairs of untouched text and the
  replacement after it, \<open>t\<close> is the rest. \<open>placed\<close> says that the recorded positions are right.
\<close>

type_synonym pieces = "(qstring \<times> glossary_replacement) list"

fun after_text :: "pieces \<Rightarrow> qstring \<Rightarrow> qstring" where
  "after_text [] t = t"
| "after_text ((u, r) # ps) t = u @ gr_canonicalText r @ after_text ps t"

fun before_text :: "pieces \<Rightarrow> qstring \<Rightarrow> qstring" where
  "before_text [] t = t"
| "before_text ((u, r) # ps) t = u @ gr_originalText r @ before_text ps t"

fun placed :: "int \<Rightarrow> pieces \<Rightarrow> bool" where
  "placed off [] \<longleftrightarrow> True"
| "placed off ((u, r) # ps) \<longleftrightarrow>
     gr_start r = off + int (length u) \<and> gr_length r = int (length (gr_canonicalText r))
     \<and> gr_canonicalText r \<noteq> [] \<and> gr_originalText r \<noteq> [] \<and> gr_applied r
     \<and> placed (off + int (length u) + int (length (gr_canonicalText r))) ps"

lemma placed_starts: "placed off ps \<Longrightarrow> r \<in> set (map snd ps) \<Longrightarrow> off \<le> gr_start r"
  by (induction off ps rule: placed.induct) (auto, force)

lemma placed_increasing: "placed off ps \<Longrightarrow> sorted_wrt (<) (map (\<lambda>p. gr_start (snd p)) ps)"
proof (induction off ps rule: placed.induct)
  case (2 off u r ps)
  have "gr_start r < gr_start q" if "q \<in> set (map snd ps)" for q
  proof -
    have "off + int (length u) + int (length (gr_canonicalText r)) \<le> gr_start q"
      using 2(2) by (intro placed_starts[OF _ that]) simp
    moreover have "gr_start r = off + int (length u)" "gr_canonicalText r \<noteq> []" using 2(2) by auto
    ultimately show ?thesis by (cases "gr_canonicalText r") auto
  qed
  then show ?case using 2 by auto
qed simp

lemma shift_after_fields [simp]:
  "gr_canonicalText (shift_after p d r) = gr_canonicalText r"
  "gr_originalText (shift_after p d r) = gr_originalText r"
  "gr_length (shift_after p d r) = gr_length r"
  "gr_applied (shift_after p d r) = gr_applied r"
  by (simp_all add: shift_after_def)

definition shift_pieces :: "int \<Rightarrow> int \<Rightarrow> pieces \<Rightarrow> pieces" where
  "shift_pieces p d ps = map (\<lambda>(u, r). (u, shift_after p d r)) ps"

lemma shift_pieces_simps [simp]:
  "shift_pieces p d [] = []"
  "shift_pieces p d ((u, r) # ps) = (u, shift_after p d r) # shift_pieces p d ps"
  by (simp_all add: shift_pieces_def)

lemma shift_pieces_texts [simp]:
  "after_text (shift_pieces p d ps) t = after_text ps t"
  "before_text (shift_pieces p d ps) t = before_text ps t"
  "map snd (shift_pieces p d ps) = map (shift_after p d) (map snd ps)"
  by (induction ps) auto

lemma placed_shift: "placed off ps \<Longrightarrow> p < off \<Longrightarrow> placed (off + d) (shift_pieces p d ps)"
proof (induction off ps rule: placed.induct)
  case (2 off u r ps)
  then have "gr_start (shift_after p d r) = gr_start r + d" by (simp add: shift_after_def)
  moreover have "placed (off + int (length u) + int (length (gr_canonicalText r)) + d) (shift_pieces p d ps)"
    using 2 by simp
  ultimately show ?case using 2(2) by (simp add: add.assoc add.commute[of d])
qed simp

lemma split_range:
  assumes "p + n \<le> length s"
  obtains a m b where "s = a @ m @ b" "length a = p" "length m = n"
proof -
  have "s = take p s @ take n (drop p s) @ drop (p + n) s"
    by (metis append_take_drop_id drop_drop add.commute)
  then show thesis using assms by (intro that) auto
qed

text \<open>One replacement that touches no earlier one keeps the description valid.\<close>

lemma insert_piece:
  assumes "placed off ps" "off \<le> int p" "0 < n" "int (p + n) \<le> off + int (length (after_text ps t))"
    and "\<forall>r \<in> set (map snd ps). \<not> overlapping (int p) (int n) r"
    and "new = \<lparr>gr_termId = i, gr_alias = al, gr_canonicalText = c, gr_originalText = orig,
      gr_start = int p, gr_length = int (length c), gr_confidence = f, gr_applied = True\<rparr>"
    and "c \<noteq> []" "orig = mid (p - nat off) n (after_text ps t)" "0 \<le> off"
  shows "\<exists>ps' t'. after_text ps' t' = replaceAt (p - nat off) n c (after_text ps t)
    \<and> before_text ps' t' = before_text ps t \<and> placed off ps'
    \<and> mset (map snd ps') = add_mset new (mset (map (shift_after (int p) (int (length c) - int n)) (map snd ps)))"
  using assms(1,2,4,5,8,9)
proof (induction off ps rule: placed.induct)
  case (1 off)
  have "(p - nat off) + n \<le> length t" using 1 by simp
  then obtain a m b where t: "t = a @ m @ b" "length a = p - nat off" "length m = n"
    by (rule split_range)
  then have "orig = m" "orig \<noteq> []" using 1(5) assms(3) by auto
  then show ?case using t 1 assms(6,7)
    by (intro exI[of _ "[(a, new)]"] exI[of _ b]) simp
next
  case (2 off u r ps)
  let ?d = "int (length c) - int n"
  have r: "gr_start r = off + int (length u)" "gr_length r = int (length (gr_canonicalText r))"
    "gr_canonicalText r \<noteq> []" "gr_originalText r \<noteq> []" "gr_applied r"
    and tail: "placed (gr_start r + gr_length r) ps"
    using 2(2) by auto
  note IH = 2(1)[folded r(1,2)]
  have "\<not> overlapping (int p) (int n) r" using 2(5) by simp
  then consider (inside) "int p + int n \<le> gr_start r" | (later) "gr_start r + gr_length r \<le> int p"
    unfolding overlapping_def by linarith
  then show ?case
  proof cases
    case inside
    have "(p - nat off) + n \<le> length u" using inside r(1) 2(3,7) by linarith
    then obtain a m b where u: "u = a @ m @ b" "length a = p - nat off" "length m = n"
      by (rule split_range)
    then have orig: "orig = m" "orig \<noteq> []" using 2(6) assms(3) by auto
    have shift: "placed (gr_start r + gr_length r + ?d) (shift_pieces (int p) ?d ps)"
      by (rule placed_shift[OF tail]) (use inside assms(3) r(2) in simp)
    have rs: "gr_start (shift_after (int p) ?d r) = gr_start r + ?d"
      using inside assms(3) by (simp add: shift_after_def)
    show ?thesis
      using u orig assms(6,7) r shift rs 2(3,7)
      by (intro exI[of _ "(a, new) # (b, shift_after (int p) ?d r) # shift_pieces (int p) ?d ps"] exI[of _ t])
        (simp add: algebra_simps)
  next
    case later
    let ?off = "gr_start r + gr_length r"
    have off: "0 \<le> ?off" "nat ?off = nat off + length u + length (gr_canonicalText r)"
      using r(1,2) 2(7) by auto
    have le: "nat off + length u + length (gr_canonicalText r) \<le> p" using later off by linarith
    define q where "q = p - nat ?off"
    have pq: "p - nat off = length (u @ gr_canonicalText r) + q" using le off(2) by (simp add: q_def)
    have orig: "orig = mid q n (after_text ps t)"
      using 2(6) pq by (simp add: mid_def)
    obtain ps' t' where ih: "after_text ps' t' = replaceAt q n c (after_text ps t)"
      "before_text ps' t' = before_text ps t" "placed ?off ps'"
      "mset (map snd ps') = add_mset new (mset (map (shift_after (int p) ?d) (map snd ps)))"
      using IH[OF tail later _ _ orig[unfolded q_def] off(1)] 2(4,5) r(1,2) by (auto simp: q_def)
    have "shift_after (int p) ?d r = r" using later r(2) by (simp add: shift_after_def)
    moreover have "replaceAt (p - nat off) n c (after_text ((u, r) # ps) t)
        = u @ gr_canonicalText r @ replaceAt q n c (after_text ps t)"
      unfolding pq by (simp add: replaceAt_def)
    ultimately show ?thesis
      using ih r by (intro exI[of _ "(u, r) # ps'"] exI[of _ t']) simp
  qed
qed

definition described :: "qstring \<Rightarrow> qstring \<Rightarrow> glossary_replacement list \<Rightarrow> bool" where
  "described original s reps \<longleftrightarrow>
     (\<exists>ps t. s = after_text ps t \<and> original = before_text ps t \<and> placed 0 ps
        \<and> mset reps = mset (map snd ps))"

lemma described_start: "described s s []"
  unfolding described_def by (intro exI[of _ "[]"] exI[of _ s]) simp

lemma described_replace:
  assumes "described original s reps" "ac_canonical c \<noteq> []" "0 < n" "position + n \<le> length s"
    and "\<not> list_ex (overlapping (int position) (int n)) reps"
  shows "described original (replaceAt position n (ac_canonical c) s)
    (map (shift_after (int position) (int (length (ac_canonical c)) - int n)) reps
      @ [replacement_at c position (mid position n s)])"
proof -
  let ?sh = "shift_after (int position) (int (length (ac_canonical c)) - int n)"
  obtain ps t where d: "s = after_text ps t" "original = before_text ps t" "placed 0 ps"
    "mset reps = mset (map snd ps)" using assms(1) by (auto simp: described_def)
  have "set reps = set (map snd ps)" using d(4) by (metis set_mset_mset)
  then have free: "\<forall>r \<in> set (map snd ps). \<not> overlapping (int position) (int n) r"
    using assms(5) by (simp add: list_ex_iff)
  have "\<exists>ps' t'. after_text ps' t' = replaceAt (position - nat 0) n (ac_canonical c) (after_text ps t)
    \<and> before_text ps' t' = before_text ps t \<and> placed 0 ps'
    \<and> mset (map snd ps') = add_mset (replacement_at c position (mid position n s))
        (mset (map ?sh (map snd ps)))"
    by (rule insert_piece[OF d(3) _ assms(3) _ free replacement_at_def assms(2)])
      (use assms(4) d(1) in simp_all)
  then obtain ps' t' where ps': "after_text ps' t' = replaceAt position n (ac_canonical c) s"
    "before_text ps' t' = original" "placed 0 ps'"
    "mset (map snd ps') = add_mset (replacement_at c position (mid position n s)) (mset (map ?sh (map snd ps)))"
    unfolding d(1)[symmetric] d(2)[symmetric] by auto
  have "mset (map ?sh reps) = mset (map ?sh (map snd ps))" using d(4) by (metis mset_map)
  then have "mset (map ?sh reps @ [replacement_at c position (mid position n s)]) = mset (map snd ps')"
    using ps'(4) by simp
  then show ?thesis using ps' unfolding described_def by metis
qed

lemma replace_loop_described:
  assumes "ac_canonical c \<noteq> []" "described original s reps"
  shows "described original (fst (replace_loop uc c start s reps)) (snd (replace_loop uc c start s reps))"
  using assms
proof (induction uc c start s reps rule: replace_loop.induct)
  case (1 uc c start s reps)
  show ?case
  proof (cases "start < length s \<and> ac_alias c \<noteq> []")
    case False
    then show ?thesis using 1(4) by (subst (1 2) replace_loop.simps) auto
  next
    case True
    show ?thesis
    proof (cases "indexOf uc (ac_caseSensitive c) s (ac_alias c) start")
      case None
      then show ?thesis using 1(4) by (subst (1 2) replace_loop.simps) auto
    next
      case (Some position)
      let ?n = "length (ac_alias c)"
      let ?skip = "\<not> boundariesAllow uc s position ?n (ac_alias c)
          \<or> list_ex (overlapping (int position) (int ?n)) reps"
      have pos: "position + ?n \<le> length s" "0 < ?n" using indexOf_Some[OF Some] True by auto
      show ?thesis
      proof (cases ?skip)
        case skip: True
        then have "replace_loop uc c start s reps = replace_loop uc c (position + ?n) s reps"
          using True Some by (subst replace_loop.simps) simp
        then show ?thesis using 1(1)[OF True Some refl skip 1(3,4)] by simp
      next
        case False
        then have "replace_loop uc c start s reps = replace_loop uc c (position + length (ac_canonical c))
            (replaceAt position ?n (ac_canonical c) s)
            (map (shift_after (int position) (int (length (ac_canonical c)) - int ?n)) reps
              @ [replacement_at c position (mid position ?n s)])"
          using True Some by (subst replace_loop.simps) (simp add: Let_def)
        then show ?thesis
          using 1(2)[OF True Some refl False 1(3) described_replace[OF 1(4,3) pos(2,1)]] False by simp
      qed
    qed
  qed
qed

lemma candidates_canonical:
  assumes "\<forall>t \<in> set terms. gt_enabled t \<longrightarrow> gt_canonicalText t \<noteq> []"
  shows "\<forall>c \<in> set (stable_sort candidate_before (alias_candidates terms)). ac_canonical c \<noteq> []"
  using assms by (auto simp: alias_candidates_def)

lemma fold_described:
  assumes "\<forall>c \<in> set cs. ac_canonical c \<noteq> []" "described original s reps"
  shows "described original
    (fst (foldl (\<lambda>(s, reps) c. replace_loop uc c 0 s reps) (s, reps) cs))
    (snd (foldl (\<lambda>(s, reps) c. replace_loop uc c 0 s reps) (s, reps) cs))"
  using assms
proof (induction cs arbitrary: s reps)
  case (Cons c cs)
  obtain s' reps' where r: "replace_loop uc c 0 s reps = (s', reps')" by fastforce
  then have "described original s' reps'"
    using replace_loop_described[of c original s reps uc 0] Cons.prems by simp
  then show ?case using Cons r by simp
qed simp

lemma sort_placed:
  assumes "placed off ps" "mset reps = mset (map snd ps)"
  shows "sort_key gr_start reps = map snd ps"
    and "sort_key (\<lambda>r. - gr_start r) reps = rev (map snd ps)"
proof -
  have inc: "sorted_wrt (<) (map (\<lambda>p. gr_start (snd p)) ps)" by (rule placed_increasing[OF assms(1)])
  then have "distinct (map gr_start (map snd ps))"
    by (simp add: comp_def strict_sorted_iff)
  then have inj: "inj_on gr_start (set (map snd ps))" by (auto simp: distinct_map inj_on_def)
  have set: "set reps = set (map snd ps)" using assms(2) by (metis set_mset_mset)
  have "sorted (map gr_start (map snd ps))"
    using inc by (simp add: comp_def strict_sorted_iff)
  then show "sort_key gr_start reps = map snd ps"
    using inj set assms(2) by (intro sort_key_inj_key_eq) simp_all
  have "sorted_wrt (\<lambda>a b. gr_start b \<le> gr_start a) (rev (map snd ps))"
    using inc by (simp add: sorted_wrt_rev sorted_wrt_map) (rule sorted_wrt_mono_rel, auto)
  then have "sorted (map (\<lambda>r. - gr_start r) (rev (map snd ps)))"
    by (simp add: sorted_wrt_map)
  moreover have "inj_on (\<lambda>r. - gr_start r) (set reps)" using inj set by (simp add: inj_on_def)
  ultimately show "sort_key (\<lambda>r. - gr_start r) reps = rev (map snd ps)"
    using assms(2) by (intro sort_key_inj_key_eq) simp_all
qed

lemma revert_pieces:
  "placed (int (length x)) ps \<Longrightarrow>
   foldl revert_step (x @ after_text ps t) (rev (map snd ps)) = x @ before_text ps t"
proof (induction ps arbitrary: x)
  case (Cons p ps)
  obtain u r where p: "p = (u, r)" by (cases p)
  have r: "gr_start r = int (length (x @ u))" "gr_length r = int (length (gr_canonicalText r))" "gr_applied r"
    and "placed (int (length (x @ u @ gr_canonicalText r))) ps"
    using Cons.prems p by (simp_all add: add.assoc)
  then have "foldl revert_step ((x @ u @ gr_canonicalText r) @ after_text ps t) (rev (map snd ps))
      = (x @ u) @ gr_canonicalText r @ before_text ps t"
    using Cons.IH[of "x @ u @ gr_canonicalText r"] by simp
  moreover have "revert_step ((x @ u) @ gr_canonicalText r @ before_text ps t) r
      = (x @ u) @ gr_originalText r @ before_text ps t"
  proof -
    have "mid (length (x @ u)) (length (gr_canonicalText r))
        ((x @ u) @ gr_canonicalText r @ before_text ps t) = gr_canonicalText r"
      and "replaceAt (length (x @ u)) (length (gr_canonicalText r)) (gr_originalText r)
        ((x @ u) @ gr_canonicalText r @ before_text ps t) = (x @ u) @ gr_originalText r @ before_text ps t"
      by (rule mid_middle replaceAt_middle; rule refl)+
    then show ?thesis unfolding revert_step_def r(1,2) nat_int using r(3) by simp
  qed
  ultimately show ?case using p by simp
qed simp

lemma audit_pieces:
  assumes "unicode_ok uc"
  shows "placed (int (length x) + delta) ps \<Longrightarrow> prev \<le> int (length x) \<Longrightarrow> 0 \<le> int (length x) + delta \<Longrightarrow>
   \<exists>pos. audit_positions uc (x @ before_text ps t) delta prev (map snd ps) = Some pos
     \<and> foldl render_step (x @ before_text ps t) (rev pos) = x @ after_text ps t"
proof (induction ps arbitrary: x delta prev)
  case (Cons p ps)
  obtain u r where p: "p = (u, r)" by (cases p)
  let ?T = "(x @ u) @ gr_originalText r @ before_text ps t"
  let ?n = "int (length (gr_originalText r))"
  let ?delta = "delta + (int (length (gr_canonicalText r)) - ?n)"
  have r: "gr_start r - delta = int (length (x @ u))" "gr_length r = int (length (gr_canonicalText r))"
    "gr_applied r" "gr_originalText r \<noteq> []" "0 \<le> gr_start r"
    using Cons.prems p by auto
  have "placed (int (length (x @ u @ gr_originalText r)) + ?delta) ps"
    using Cons.prems(1) p by (simp add: algebra_simps)
  then obtain pos where pos:
    "audit_positions uc ((x @ u @ gr_originalText r) @ before_text ps t) ?delta
       (int (length (x @ u)) + ?n) (map snd ps) = Some pos"
    "foldl render_step ((x @ u @ gr_originalText r) @ before_text ps t) (rev pos)
       = (x @ u @ gr_originalText r) @ after_text ps t"
    using Cons.IH[of "x @ u @ gr_originalText r" ?delta "int (length (x @ u)) + ?n"] Cons.prems(3) by auto
  have mid: "uc_caseEqual uc (mid (nat (int (length (x @ u)))) (nat ?n) ?T) (gr_originalText r)"
    unfolding nat_int by (subst mid_middle) (use assms in \<open>simp_all add: unicode_ok_def\<close>)
  have "audit_positions uc ?T delta prev (r # map snd ps) = Some ((r, int (length (x @ u))) # pos)"
    unfolding audit_positions.simps(2) r(1) Let_def
    using r mid pos(1) Cons.prems(2) by simp
  moreover have "render_step ((x @ u) @ gr_originalText r @ after_text ps t) (r, int (length (x @ u)))
      = (x @ u) @ gr_canonicalText r @ after_text ps t"
    unfolding render_step_def prod.case nat_int replaceAt_middle[OF refl refl] using r(3) by simp
  ultimately show ?case using p pos(2) by simp
qed simp

text \<open>What the loops establish about the result of \<open>applyExplicitAliases\<close>.\<close>

lemma apply_described:
  assumes "\<forall>t \<in> set terms. gt_enabled t \<longrightarrow> gt_canonicalText t \<noteq> []"
  obtains ps t where "gl_text (applyExplicitAliases uc s terms) = after_text ps t"
    "s = before_text ps t" "placed 0 ps" "gl_replacements (applyExplicitAliases uc s terms) = map snd ps"
proof -
  let ?cs = "stable_sort candidate_before (alias_candidates terms)"
  obtain s' reps where f: "foldl (\<lambda>(s, reps) c. replace_loop uc c 0 s reps) (s, []) ?cs = (s', reps)"
    by fastforce
  have "described s s' reps"
    using fold_described[OF candidates_canonical[OF assms] described_start[of s], of uc]
    unfolding f by simp
  then obtain ps t where d: "s' = after_text ps t" "s = before_text ps t" "placed 0 ps"
    "mset reps = mset (map snd ps)" by (auto simp: described_def)
  have "applyExplicitAliases uc s terms = \<lparr>gl_text = s', gl_replacements = sort_key gr_start reps\<rparr>"
    by (simp add: applyExplicitAliases_def Let_def f)
  then show thesis using that[of ps t] d sort_placed(1)[OF d(3,4)] by simp
qed

lemma placed_in_text: "placed off ps \<Longrightarrow> r \<in> set (map snd ps) \<Longrightarrow> 0 \<le> off \<Longrightarrow>
    gr_start r + gr_length r \<le> off + int (length (after_text ps t))
    \<and> mid (nat (gr_start r - off)) (nat (gr_length r)) (after_text ps t) = gr_canonicalText r"
proof (induction off ps rule: placed.induct)
  case (2 off u r' ps)
  show ?case
  proof (cases "r = r'")
    case True
    then show ?thesis using 2(2) by simp
  next
    case False
    let ?off = "off + int (length u) + int (length (gr_canonicalText r'))"
    have "r \<in> set (map snd ps)" "placed ?off ps" using 2 False by auto
    then have ih: "gr_start r + gr_length r \<le> ?off + int (length (after_text ps t))"
      "mid (nat (gr_start r - ?off)) (nat (gr_length r)) (after_text ps t) = gr_canonicalText r"
      and "?off \<le> gr_start r"
      using 2(1,4) placed_starts by auto
    then have "nat (gr_start r - off)
        = length (u @ gr_canonicalText r') + nat (gr_start r - ?off)" by auto
    then show ?thesis using ih by (simp add: mid_def)
  qed
qed simp

subsection \<open>Properties\<close>

text \<open>
  C31: Glossary replacement is reversible and reproducible. Whatever aliases overlap or
  contain one another, reverting the recorded replacements in the replaced text gives the
  original text back, and rendering the record on the original text gives exactly the
  replaced text; no enabled term may have an empty canonical text.
\<close>

theorem replacements_reversible:
  assumes "unicode_ok uc"
    and "\<forall>t \<in> set terms. gt_enabled t \<longrightarrow> gt_canonicalText t \<noteq> []"
    and "r = applyExplicitAliases uc s terms"
  shows "revert (gl_text r) (gl_replacements r) = s
    \<and> renderAudit uc s (gl_replacements r) = Some (gl_text r)"
proof -
  obtain ps t where d: "gl_text r = after_text ps t" "s = before_text ps t" "placed 0 ps"
    "gl_replacements r = map snd ps"
    using apply_described[OF assms(2)] assms(3) by metis
  have "revert (gl_text r) (gl_replacements r) = s"
    using revert_pieces[of "[]" ps t] sort_placed(2)[OF d(3), of "map snd ps"] d
    by (simp add: revert_def)
  moreover obtain pos where "audit_positions uc s 0 0 (map snd ps) = Some pos"
    "foldl render_step s (rev pos) = after_text ps t"
    using audit_pieces[OF assms(1), of "[]" 0 ps 0 t] d(2,3) by auto
  ultimately show ?thesis
    using d sort_placed(1)[OF d(3), of "map snd ps"] by (simp add: renderAudit_def)
qed

abbreviation sample_term :: glossary_term where
  "sample_term \<equiv> \<lparr>gt_id = ''t'', gt_profileId = [], gt_canonicalText = lit ''BreezeDesk'',
     gt_aliases = [lit ''breeze desk''], gt_category = [], gt_language = [], gt_priority = 0,
     gt_caseSensitive = False, gt_enabled = True, gt_notes = [], gt_createdAt = None,
     gt_updatedAt = None\<rparr>"

theorem replacements_reversible_witness:
  "revert (gl_text (applyExplicitAliases ascii (lit ''I use breeze desk.'') [sample_term]))
     (gl_replacements (applyExplicitAliases ascii (lit ''I use breeze desk.'') [sample_term]))
   = lit ''I use breeze desk.''"
  by (rule conjunct1[OF replacements_reversible[OF ascii_ok _ refl]]) simp

text \<open>
  C32: The replacement record is accurate: the recorded replacements are in text order, do
  not overlap, lie inside the replaced text, and at each recorded position the text is the
  recorded canonical text.
\<close>

theorem replacements_accurate:
  assumes "\<forall>t \<in> set terms. gt_enabled t \<longrightarrow> gt_canonicalText t \<noteq> []"
    and "r = applyExplicitAliases uc s terms"
  shows "sorted_wrt (\<lambda>a b. gr_start a + gr_length a \<le> gr_start b) (gl_replacements r)
    \<and> (\<forall>x \<in> set (gl_replacements r). 0 \<le> gr_start x
         \<and> gr_start x + gr_length x \<le> int (length (gl_text r))
         \<and> mid (nat (gr_start x)) (nat (gr_length x)) (gl_text r) = gr_canonicalText x)"
proof -
  obtain ps t where d: "gl_text r = after_text ps t" "placed 0 ps" "gl_replacements r = map snd ps"
    using apply_described[OF assms(1)] assms(2) by metis
  have "sorted_wrt (\<lambda>a b. gr_start a + gr_length a \<le> gr_start b) (map snd qs)"
    if "placed off qs" for off qs
    using that
  proof (induction off qs rule: placed.induct)
    case (2 off u x qs)
    have "gr_start x + gr_length x \<le> gr_start y" if "y \<in> set (map snd qs)" for y
      using placed_starts[OF _ that] 2(2) by simp
    then show ?case using 2 by simp
  qed simp
  then have "sorted_wrt (\<lambda>a b. gr_start a + gr_length a \<le> gr_start b) (map snd ps)" using d(2) .
  then show ?thesis
    using placed_starts[OF d(2)] placed_in_text[OF d(2), of _ t] d(1,3) by simp
qed

theorem replacements_accurate_witness:
  "sorted_wrt (\<lambda>a b. gr_start a + gr_length a \<le> gr_start b)
     (gl_replacements (applyExplicitAliases ascii (lit ''breeze desk, breeze desk'') [sample_term]))"
  by (rule conjunct1[OF replacements_accurate[OF _ refl]]) simp

end
