(* ===== verification/Protocol.thy ===== *)
theory Protocol
  imports Cbor
begin

text \<open>
  \<^verbatim>\<open>ipc/Protocol\<close>: message types and their names, and the envelope every message travels in,
  as a CBOR map. Strings on the wire are \<open>qstring\<close>.
\<close>

definition kProtocolVersion :: int where "kProtocolVersion = 2"
definition kFramePrefixSize :: nat where "kFramePrefixSize = 4"
definition kMaximumMessageSize :: nat where "kMaximumMessageSize = 16 * 1024 * 1024"
definition kHeartbeatIntervalMs :: int where "kHeartbeatIntervalMs = 2000"
definition kHeartbeatTimeoutMs :: int where "kHeartbeatTimeoutMs = 10000"

datatype message_type =
  Hello | HelloAck | GetCapabilities | Capabilities | LoadModel | ModelLoaded | UnloadModel
  | AnalyzeSpeech | SpeechAnalysisCompleted | StartTranscription | Progress | PartialSegment
  | ChunkCompletedMessage | TranscriptionCompleted | CancelJob | JobCancelledMessage | ErrorMessage
  | Ping | Pong | Shutdown | ActivateApplication | ActivationAccepted | ApplicationCommand
  | ApplicationCommandResult

definition kMessageEntries :: "(message_type \<times> string) list" where
  "kMessageEntries =
    [(Hello, ''Hello''), (HelloAck, ''HelloAck''), (GetCapabilities, ''GetCapabilities''),
     (Capabilities, ''Capabilities''), (LoadModel, ''LoadModel''), (ModelLoaded, ''ModelLoaded''),
     (UnloadModel, ''UnloadModel''), (AnalyzeSpeech, ''AnalyzeSpeech''),
     (SpeechAnalysisCompleted, ''SpeechAnalysisCompleted''),
     (StartTranscription, ''StartTranscription''), (Progress, ''Progress''),
     (PartialSegment, ''PartialSegment''), (ChunkCompletedMessage, ''ChunkCompleted''),
     (TranscriptionCompleted, ''TranscriptionCompleted''), (CancelJob, ''CancelJob''),
     (JobCancelledMessage, ''JobCancelled''), (ErrorMessage, ''Error''), (Ping, ''Ping''),
     (Pong, ''Pong''), (Shutdown, ''Shutdown''), (ActivateApplication, ''ActivateApplication''),
     (ActivationAccepted, ''ActivationAccepted''), (ApplicationCommand, ''ApplicationCommand''),
     (ApplicationCommandResult, ''ApplicationCommandResult'')]"

definition messageTypeName :: "message_type \<Rightarrow> qstring" where
  "messageTypeName t =
     (case find (\<lambda>(candidate, name). candidate = t) kMessageEntries of
        Some (_, name) \<Rightarrow> lit name
      | None \<Rightarrow> lit ''Error'')"

definition messageTypeFromName :: "qstring \<Rightarrow> message_type option" where
  "messageTypeFromName name =
     map_option fst (find (\<lambda>(t, candidate). lit candidate = name) kMessageEntries)"

datatype protocol_error =
  NoProtocolError | FrameTooLarge | InvalidFrameLength | InvalidCbor | InvalidEnvelope
  | UnsupportedMessage | ProtocolMismatch | AuthenticationFailed | HandshakeRequired
  | HeartbeatTimeout | SocketError

record envelope =
  env_protocolVersion :: int
  env_type :: message_type
  env_requestId :: qstring
  env_jobId :: qstring
  env_workerVersion :: qstring
  env_sessionToken :: bytes
  env_payload :: cbor_map

definition default_envelope :: "message_type \<Rightarrow> envelope" where
  "default_envelope t = \<lparr>env_protocolVersion = kProtocolVersion, env_type = t, env_requestId = [],
     env_jobId = [], env_workerVersion = [], env_sessionToken = [], env_payload = []\<rparr>"

definition envelope_toCbor :: "envelope \<Rightarrow> cbor_map" where
  "envelope_toCbor e =
     mapInsert ''payload'' (CborMap (env_payload e))
     (mapInsert ''sessionToken'' (CborBytes (env_sessionToken e))
     (mapInsert ''workerVersion'' (CborString (env_workerVersion e))
     (mapInsert ''jobId'' (CborString (env_jobId e))
     (mapInsert ''requestId'' (CborString (env_requestId e))
     (mapInsert ''type'' (CborString (messageTypeName (env_type e)))
     (mapInsert ''protocolVersion'' (CborInteger (env_protocolVersion e)) []))))))"

definition envelope_fromCbor :: "cbor_map \<Rightarrow> protocol_error + envelope" where
  "envelope_fromCbor m =
     (let protocolValue = mapValue m ''protocolVersion'';
          typeValue = mapValue m ''type'';
          requestValue = mapValue m ''requestId'';
          jobValue = mapValue m ''jobId'';
          workerValue = mapValue m ''workerVersion'';
          tokenValue = mapValue m ''sessionToken'';
          payloadValue = mapValue m ''payload'' in
      if \<not> isInteger protocolValue \<or> \<not> isString typeValue \<or> \<not> isString requestValue
         \<or> \<not> isString jobValue \<or> \<not> isString workerValue \<or> \<not> isByteArray tokenValue
         \<or> \<not> isMap payloadValue
      then Inl InvalidEnvelope
      else case messageTypeFromName (toStringValue [] typeValue) of
        None \<Rightarrow> Inl UnsupportedMessage
      | Some t \<Rightarrow> Inr \<lparr>env_protocolVersion = toInteger 0 protocolValue, env_type = t,
                     env_requestId = toStringValue [] requestValue,
                     env_jobId = toStringValue [] jobValue,
                     env_workerVersion = toStringValue [] workerValue,
                     env_sessionToken = toByteArray tokenValue,
                     env_payload = toMap payloadValue\<rparr>)"

lemma find_distinct_fst:
  "distinct (map fst xs) \<Longrightarrow> (a, b) \<in> set xs \<Longrightarrow> find (\<lambda>(x, y). x = a) xs = Some (a, b)"
  by (induction xs) (auto, force)

lemma find_distinct_snd:
  "distinct (map snd xs) \<Longrightarrow> (a, b) \<in> set xs \<Longrightarrow> find (\<lambda>(x, y). y = b) xs = Some (a, b)"
  by (induction xs) (auto, force)

lemma entries_total: "\<exists>n. (t, n) \<in> set kMessageEntries"
  by (cases t) (simp_all add: kMessageEntries_def)

lemma entries_distinct: "distinct (map fst kMessageEntries)"
  by (simp add: kMessageEntries_def)

lemma of_char_inj_word: "(of_nat (of_char c) :: qchar) = of_nat (of_char d) \<longleftrightarrow> c = d"
proof
  assume "(of_nat (of_char c) :: qchar) = of_nat (of_char d)"
  then have "(of_char c :: nat) mod 65536 = of_char d mod 65536"
    by (simp add: word_of_nat_eq_iff take_bit_eq_mod)
  moreover have "(of_char c :: nat) < 65536" "(of_char d :: nat) < 65536"
    using nat_of_char_less_256[of c] nat_of_char_less_256[of d] by linarith+
  ultimately have "(of_char c :: nat) = of_char d" by simp
  then show "c = d" by simp
qed simp

lemma lit_inj [simp]: "lit s = lit t \<longleftrightarrow> s = t"
proof (induction s arbitrary: t)
  case Nil
  then show ?case by (cases t) auto
next
  case (Cons a s)
  then show ?case by (cases t) (auto simp: of_char_inj_word)
qed

lemma message_type_roundtrip [simp]: "messageTypeFromName (messageTypeName t) = Some t"
proof -
  obtain n where n: "(t, n) \<in> set kMessageEntries" using entries_total by blast
  then have name: "messageTypeName t = lit n"
    by (simp add: messageTypeName_def find_distinct_fst[OF entries_distinct])
  have "distinct (map snd kMessageEntries)" by (simp add: kMessageEntries_def)
  then have "find (\<lambda>(u, m). m = n) kMessageEntries = Some (t, n)"
    using n by (rule find_distinct_snd)
  then show ?thesis by (simp add: messageTypeFromName_def name)
qed

lemma envelope_roundtrip [simp]: "envelope_fromCbor (envelope_toCbor e) = Inr e"
  by (simp add: envelope_fromCbor_def envelope_toCbor_def Let_def)

end
