(* ===== verification/Frames.thy ===== *)
theory Frames
  imports Protocol
begin

text \<open>
  \<^verbatim>\<open>ipc/FrameCodec\<close>: a message is a big-endian length prefix of four bytes and a CBOR body.
  The encoding of CBOR values (\<open>QCborValue::toCbor\<close>, \<open>QCborValue::fromCbor\<close>) is a
  parameter, a record of two functions; \<open>decodes_back\<close> states that the values of given
  envelopes survive it. The decoder is fed bytes in arbitrary pieces; the main property is
  that the pieces do not matter.
\<close>

record cbor_codec =
  cc_toCbor :: "cbor \<Rightarrow> bytes"
  cc_fromCbor :: "bytes \<Rightarrow> cbor option"

subsection \<open>The length prefix\<close>

definition toBigEndian :: "nat \<Rightarrow> bytes" where
  "toBigEndian n = [of_nat (n div 2 ^ 24), of_nat (n div 2 ^ 16), of_nat (n div 2 ^ 8), of_nat n]"

fun fromBigEndian :: "bytes \<Rightarrow> nat" where
  "fromBigEndian (a # b # c # d # rest) =
     ((unat a * 256 + unat b) * 256 + unat c) * 256 + unat d"
| "fromBigEndian _ = 0"

lemma big_endian_roundtrip: "n < 2 ^ 32 \<Longrightarrow> fromBigEndian (toBigEndian n @ rest) = n"
proof -
  assume "n < 2 ^ 32"
  then have "n div 2 ^ 24 < 256" by (simp add: less_mult_imp_div_less)
  moreover have "(n div 2 ^ 24 mod 256 * 256 + n div 2 ^ 16 mod 256) = n div 2 ^ 16"
    if "n div 2 ^ 24 < 256"
    using that div_mult_mod_eq[of "n div 2 ^ 16" 256] by (simp add: div_mult2_eq[symmetric])
  moreover have "n div 2 ^ 16 * 256 + n div 2 ^ 8 mod 256 = n div 2 ^ 8"
    using div_mult_mod_eq[of "n div 2 ^ 8" 256] by (simp add: div_mult2_eq[symmetric])
  moreover have "n div 2 ^ 8 * 256 + n mod 256 = n"
    using div_mult_mod_eq[of n 256] by simp
  ultimately show ?thesis
    by (simp add: toBigEndian_def unat_of_nat)
qed

lemma length_toBigEndian [simp]: "length (toBigEndian n) = 4"
  by (simp add: toBigEndian_def)

lemma fromBigEndian_append: "4 \<le> length xs \<Longrightarrow> fromBigEndian (xs @ ys) = fromBigEndian xs"
  by (cases xs rule: fromBigEndian.cases) auto

subsection \<open>Encoding\<close>

text \<open>\<open>FrameCodec::encode\<close>: an empty result with an error is \<open>Inl\<close>.\<close>

definition encode_frame :: "cbor_codec \<Rightarrow> envelope \<Rightarrow> protocol_error + bytes" where
  "encode_frame cc e =
     (let body = cc_toCbor cc (CborMap (envelope_toCbor e)) in
      if body = [] then Inl InvalidEnvelope
      else if length body > kMaximumMessageSize \<or> length body > 2 ^ 32 - 1 then Inl FrameTooLarge
      else Inr (toBigEndian (length body) @ body))"

subsection \<open>Decoding\<close>

record frame_decoder =
  fd_buffer :: bytes
  fd_maximumMessageSize :: nat
  fd_fatalError :: bool

definition new_decoder :: "nat \<Rightarrow> frame_decoder" where
  "new_decoder maximum = \<lparr>fd_buffer = [], fd_maximumMessageSize = maximum, fd_fatalError = False\<rparr>"

definition reset_decoder :: "frame_decoder \<Rightarrow> frame_decoder" where
  "reset_decoder d = d\<lparr>fd_buffer := [], fd_fatalError := False\<rparr>"

text \<open>
  The loop of \<open>append\<close>: the envelopes taken out of the buffer, the error that ended it
  (\<open>NoProtocolError\<close> when more bytes are needed), and the buffer left.
\<close>

function drain :: "cbor_codec \<Rightarrow> nat \<Rightarrow> bytes \<Rightarrow> envelope list \<times> protocol_error \<times> bytes" where
  "drain cc maximum buffer =
     (if length buffer < kFramePrefixSize then ([], NoProtocolError, buffer)
      else
        let len = fromBigEndian buffer in
        if len = 0 then ([], InvalidFrameLength, buffer)
        else if len > maximum then ([], FrameTooLarge, buffer)
        else
          let completeSize = kFramePrefixSize + len in
          if length buffer < completeSize then ([], NoProtocolError, buffer)
          else
            let body = take len (drop kFramePrefixSize buffer);
                rest = drop completeSize buffer in
            case cc_fromCbor cc body of
              None \<Rightarrow> ([], InvalidCbor, rest)
            | Some value \<Rightarrow>
                if \<not> isMap value then ([], InvalidCbor, rest)
                else case envelope_fromCbor (toMap value) of
                  Inl err \<Rightarrow> ([], err, rest)
                | Inr e \<Rightarrow> (case drain cc maximum rest of (es, err, left) \<Rightarrow> (e # es, err, left)))"
  by pat_completeness auto
termination
  by (relation "measure (\<lambda>(cc, maximum, buffer). length buffer)") (auto simp: kFramePrefixSize_def)

declare drain.simps [simp del]

definition append_bytes ::
  "cbor_codec \<Rightarrow> frame_decoder \<Rightarrow> bytes \<Rightarrow> (envelope list \<times> protocol_error) \<times> frame_decoder" where
  "append_bytes cc d new =
     (if fd_fatalError d then (([], InvalidFrameLength), d)
      else case drain cc (fd_maximumMessageSize d) (fd_buffer d @ new) of
        (es, err, left) \<Rightarrow>
          ((es, err), d\<lparr>fd_buffer := left, fd_fatalError := err \<noteq> NoProtocolError\<rparr>))"

text \<open>Bytes arriving in pieces: all envelopes in order, and the decoder afterwards.\<close>

fun feed :: "cbor_codec \<Rightarrow> frame_decoder \<Rightarrow> bytes list \<Rightarrow> envelope list \<times> frame_decoder" where
  "feed cc d [] = ([], d)"
| "feed cc d (piece # pieces) =
     (case append_bytes cc d piece of
        ((es, _), d') \<Rightarrow> (case feed cc d' pieces of (es', d'') \<Rightarrow> (es @ es', d'')))"

subsection \<open>Decoding in pieces\<close>

text \<open>The cases of one round of the loop.\<close>

lemma envelope_error: "envelope_fromCbor m = Inl err \<Longrightarrow> err \<noteq> NoProtocolError"
  by (auto simp: envelope_fromCbor_def Let_def split: if_splits option.splits)

lemma drain_extra:
  assumes "4 \<le> length buffer" "fromBigEndian buffer = len" "len \<noteq> 0" "len \<le> maximum"
    and "4 + len \<le> length buffer"
  shows "drain cc maximum (buffer @ extra) =
    (case cc_fromCbor cc (take len (drop 4 buffer)) of
       None \<Rightarrow> ([], InvalidCbor, drop (4 + len) buffer @ extra)
     | Some value \<Rightarrow>
         if \<not> isMap value then ([], InvalidCbor, drop (4 + len) buffer @ extra)
         else case envelope_fromCbor (toMap value) of
           Inl err \<Rightarrow> ([], err, drop (4 + len) buffer @ extra)
         | Inr e \<Rightarrow> (case drain cc maximum (drop (4 + len) buffer @ extra) of
                      (es, err, left) \<Rightarrow> (e # es, err, left)))"
proof -
  have "take len (drop 4 (buffer @ extra)) = take len (drop 4 buffer)"
    and "drop (4 + len) (buffer @ extra) = drop (4 + len) buffer @ extra"
    using assms(5) by auto
  then show ?thesis
    using assms by (subst drain.simps) (simp add: fromBigEndian_append kFramePrefixSize_def Let_def)
qed

lemma drain_cases:
  obtains (wait) "drain cc maximum buffer = ([], NoProtocolError, buffer)"
    | (bad_length) err where "drain cc maximum buffer = ([], err, buffer)" "err \<noteq> NoProtocolError"
      "\<And>extra. drain cc maximum (buffer @ extra) = ([], err, buffer @ extra)"
    | (bad_body) err rest where "drain cc maximum buffer = ([], err, rest)" "err \<noteq> NoProtocolError"
      "\<And>extra. drain cc maximum (buffer @ extra) = ([], err, rest @ extra)"
    | (message) e rest where "length rest < length buffer"
      "\<And>extra. drain cc maximum (buffer @ extra) =
        (case drain cc maximum (rest @ extra) of (es, err, left) \<Rightarrow> (e # es, err, left))"
proof -
  define len where "len = fromBigEndian buffer"
  consider "length buffer < 4" | "4 \<le> length buffer" "len = 0" | "4 \<le> length buffer" "maximum < len"
    | "4 \<le> length buffer" "len \<noteq> 0" "len \<le> maximum" "length buffer < 4 + len"
    | (full) "4 \<le> length buffer" "len \<noteq> 0" "len \<le> maximum" "4 + len \<le> length buffer"
    by linarith
  then show thesis
  proof cases
    case 1
    then show thesis by (intro wait) (subst drain.simps, simp add: kFramePrefixSize_def)
  next
    case 2
    then have long: "drain cc maximum (buffer @ extra) = ([], InvalidFrameLength, buffer @ extra)" for extra
      by (subst drain.simps) (simp add: kFramePrefixSize_def fromBigEndian_append len_def Let_def)
    then show thesis using bad_length[of InvalidFrameLength] long[of "[]"] long by simp
  next
    case 3
    then have long: "drain cc maximum (buffer @ extra) = ([], FrameTooLarge, buffer @ extra)" for extra
      by (subst drain.simps) (simp add: kFramePrefixSize_def fromBigEndian_append len_def Let_def)
    then show thesis using bad_length[of FrameTooLarge] long[of "[]"] long by simp
  next
    case 4
    then show thesis
      by (intro wait) (subst drain.simps, simp add: kFramePrefixSize_def len_def Let_def)
  next
    case full
    note ext = drain_extra[OF full(1) len_def[symmetric] full(2,3,4), of cc]
    let ?rest = "drop (4 + len) buffer"
    show thesis
    proof (cases "cc_fromCbor cc (take len (drop 4 buffer))")
      case None
      then show thesis using ext bad_body[of InvalidCbor ?rest] ext[of "[]"] by simp
    next
      case (Some val)
      show thesis
      proof (cases "isMap val")
        case False
        then show thesis using Some ext bad_body[of InvalidCbor ?rest] ext[of "[]"] by simp
      next
        case True
        show thesis
        proof (cases "envelope_fromCbor (toMap val)")
          case (Inl err)
          then show thesis
            using True Some ext bad_body[of err ?rest] ext[of "[]"] envelope_error[OF Inl] by simp
        next
          case (Inr e)
          have "length ?rest < length buffer" using full(1) by simp
          then show thesis using True Some Inr ext by (intro message[of ?rest e]) simp_all
        qed
      qed
    qed
  qed
qed

text \<open>Draining a longer buffer continues where draining the shorter one stopped.\<close>

lemma drain_append:
  "drain cc maximum (buffer @ extra) =
     (case drain cc maximum buffer of (es, err, left) \<Rightarrow>
        if err \<noteq> NoProtocolError then (es, err, left @ extra)
        else case drain cc maximum (left @ extra) of (es', err', left') \<Rightarrow> (es @ es', err', left'))"
proof (induction "length buffer" arbitrary: buffer rule: less_induct)
  case less
  show ?case
  proof (cases cc maximum buffer rule: drain_cases)
    case wait
    then show ?thesis by (simp split: prod.split)
  next
    case (message e rest)
    note IH = less.hyps[OF message(1)]
    show ?thesis
      using message(2)[of "[]"] unfolding message(2)[of extra] IH
      by (auto split: prod.splits)
  qed simp_all
qed

lemma drain_stops: "drain cc maximum buffer = (es, err, left) \<Longrightarrow> err = NoProtocolError \<Longrightarrow>
    drain cc maximum left = ([], NoProtocolError, left)"
proof (induction "length buffer" arbitrary: buffer es rule: less_induct)
  case less
  show ?case
  proof (cases cc maximum buffer rule: drain_cases)
    case (message e rest)
    then show ?thesis
      using less.hyps[OF message(1)] less.prems message(2)[of "[]"] by (auto split: prod.splits)
  qed (use less.prems in auto)
qed

definition decoder_idle :: "cbor_codec \<Rightarrow> frame_decoder \<Rightarrow> bool" where
  "decoder_idle cc d \<longleftrightarrow> \<not> fd_fatalError d
     \<and> drain cc (fd_maximumMessageSize d) (fd_buffer d) = ([], NoProtocolError, fd_buffer d)"

text \<open>
  Feeding pieces gives the envelopes of draining everything at once, and the decoder is
  fatal exactly when that draining fails.
\<close>

lemma feed_fatal: "fd_fatalError d \<Longrightarrow> feed cc d pieces = ([], d)"
  by (induction pieces) (simp_all add: append_bytes_def)

lemma feed_drain:
  assumes "decoder_idle cc d"
  shows "drain cc (fd_maximumMessageSize d) (fd_buffer d @ concat pieces) = (es, err, left) \<Longrightarrow>
    fst (feed cc d pieces) = es \<and> fd_fatalError (snd (feed cc d pieces)) = (err \<noteq> NoProtocolError)
    \<and> (err = NoProtocolError \<longrightarrow> fd_buffer (snd (feed cc d pieces)) = left)"
  using assms
proof (induction pieces arbitrary: d es)
  case Nil
  then show ?case by (auto simp: decoder_idle_def)
next
  case (Cons piece pieces)
  let ?max = "fd_maximumMessageSize d"
  obtain es1 err1 left1 where d1: "drain cc ?max (fd_buffer d @ piece) = (es1, err1, left1)"
    by (cases "drain cc ?max (fd_buffer d @ piece)")
  let ?d1 = "d\<lparr>fd_buffer := left1, fd_fatalError := err1 \<noteq> NoProtocolError\<rparr>"
  have ap: "append_bytes cc d piece = ((es1, err1), ?d1)"
    using Cons.prems(2) d1 by (simp add: append_bytes_def decoder_idle_def)
  have all: "drain cc ?max ((fd_buffer d @ piece) @ concat pieces) = (es, err, left)"
    using Cons.prems(1) by simp
  show ?case
  proof (cases "err1 = NoProtocolError")
    case False
    then have "es = es1" "err = err1" using all d1 unfolding drain_append[of _ _ "fd_buffer d @ piece"] by auto
    then show ?thesis using ap False feed_fatal[of ?d1] by simp
  next
    case True
    then have "decoder_idle cc ?d1" using drain_stops[OF d1] by (simp add: decoder_idle_def)
    moreover obtain es2 where "drain cc ?max (left1 @ concat pieces) = (es2, err, left)" "es = es1 @ es2"
      using all d1 True unfolding drain_append[of _ _ "fd_buffer d @ piece"] by (auto split: prod.splits)
    ultimately show ?thesis using Cons.IH[of ?d1 es2] ap by (auto split: prod.splits)
  qed
qed

text \<open>\<open>decodes_back\<close>: the codec gives the envelope's map back from its own bytes.\<close>

definition decodes_back :: "cbor_codec \<Rightarrow> envelope \<Rightarrow> bool" where
  "decodes_back cc e \<longleftrightarrow>
     cc_fromCbor cc (cc_toCbor cc (CborMap (envelope_toCbor e))) = Some (CborMap (envelope_toCbor e))"

lemma drain_frame:
  assumes "encode_frame cc e = Inr frame" "decodes_back cc e"
  shows "drain cc kMaximumMessageSize (frame @ extra) =
    (case drain cc kMaximumMessageSize extra of (es, err, left) \<Rightarrow> (e # es, err, left))"
proof -
  let ?body = "cc_toCbor cc (CborMap (envelope_toCbor e))"
  have f: "frame = toBigEndian (length ?body) @ ?body" "?body \<noteq> []"
    "length ?body \<le> kMaximumMessageSize" "length ?body \<le> 2 ^ 32 - 1"
    using assms(1) by (auto simp: encode_frame_def Let_def not_less split: if_splits)
  have "length ?body < 2 ^ 32" using f(4) by simp
  then have len: "fromBigEndian (frame @ extra) = length ?body"
    unfolding f(1) append_assoc by (rule big_endian_roundtrip)
  have "drain cc kMaximumMessageSize ((frame @ extra) @ []) =
    (case cc_fromCbor cc (take (length ?body) (drop 4 (frame @ extra))) of
       None \<Rightarrow> ([], InvalidCbor, drop (4 + length ?body) (frame @ extra) @ [])
     | Some value \<Rightarrow>
         if \<not> isMap value then ([], InvalidCbor, drop (4 + length ?body) (frame @ extra) @ [])
         else case envelope_fromCbor (toMap value) of
           Inl err \<Rightarrow> ([], err, drop (4 + length ?body) (frame @ extra) @ [])
         | Inr e \<Rightarrow> (case drain cc kMaximumMessageSize (drop (4 + length ?body) (frame @ extra) @ []) of
                      (es, err, left) \<Rightarrow> (e # es, err, left)))"
    by (rule drain_extra) (use f len in \<open>simp_all\<close>)
  moreover have "take (length ?body) (drop 4 (frame @ extra)) = ?body"
    "drop (4 + length ?body) (frame @ extra) = extra"
    by (simp_all add: f(1))
  ultimately show ?thesis using assms(2) by (simp add: decodes_back_def)
qed

lemma drain_frames:
  assumes "\<forall>e \<in> set es. decodes_back cc e" "map (encode_frame cc) es = map Inr frames"
  shows "drain cc kMaximumMessageSize (concat frames) = (es, NoProtocolError, [])"
  using assms
proof (induction es arbitrary: frames)
  case Nil
  then show ?case by (subst drain.simps) (simp add: kFramePrefixSize_def)
next
  case (Cons e es)
  then obtain f fs where fs: "frames = f # fs" "encode_frame cc e = Inr f"
    "map (encode_frame cc) es = map Inr fs" by (cases frames) auto
  then show ?case using Cons.IH[of fs] Cons.prems(1) drain_frame[OF fs(2), of "concat fs"] by simp
qed

subsection \<open>Properties\<close>

text \<open>
  C27: Messages arrive whole and in order however the transport cuts them up: if envelopes
  are encoded to frames and the bytes of all frames reach a fresh decoder in any pieces,
  the decoder yields exactly those envelopes, reports no error and has no bytes left.
\<close>

theorem frames_survive_any_splitting:
  assumes "\<forall>e \<in> set es. decodes_back cc e"
    and "map (encode_frame cc) es = map Inr frames"
    and "concat pieces = concat frames"
  shows "fst (feed cc (new_decoder kMaximumMessageSize) pieces) = es
    \<and> \<not> fd_fatalError (snd (feed cc (new_decoder kMaximumMessageSize) pieces))
    \<and> fd_buffer (snd (feed cc (new_decoder kMaximumMessageSize) pieces)) = []"
proof -
  let ?d = "new_decoder kMaximumMessageSize"
  have "decoder_idle cc ?d"
    by (simp add: decoder_idle_def new_decoder_def) (subst drain.simps, simp add: kFramePrefixSize_def)
  moreover have "drain cc (fd_maximumMessageSize ?d) (fd_buffer ?d @ concat pieces) = (es, NoProtocolError, [])"
    using drain_frames[OF assms(1,2)] assms(3) by (simp add: new_decoder_def)
  ultimately show ?thesis using feed_drain by blast
qed

text \<open>A codec for the witness: it knows one message, a Ping.\<close>

abbreviation ping_codec :: cbor_codec where
  "ping_codec \<equiv> \<lparr>cc_toCbor = (\<lambda>_. [0xA0, 0x01]),
     cc_fromCbor = (\<lambda>_. Some (CborMap (envelope_toCbor (default_envelope Ping))))\<rparr>"

theorem frames_survive_any_splitting_witness:
  "fst (feed ping_codec (new_decoder kMaximumMessageSize)
      [[0, 0], [], [0, 2, 0xA0], [0x01, 0, 0, 0, 2, 0xA0, 0x01]])
    = [default_envelope Ping, default_envelope Ping]"
proof -
  have "encode_frame ping_codec (default_envelope Ping) = Inr [0, 0, 0, 2, 0xA0, 0x01]"
    by (simp add: encode_frame_def toBigEndian_def kMaximumMessageSize_def)
  then show ?thesis
    using frames_survive_any_splitting[of "[default_envelope Ping, default_envelope Ping]" ping_codec
        "[[0, 0, 0, 2, 0xA0, 0x01], [0, 0, 0, 2, 0xA0, 0x01]]"
        "[[0, 0], [], [0, 2, 0xA0], [0x01, 0, 0, 0, 2, 0xA0, 0x01]]"]
    by (simp add: decodes_back_def)
qed

text \<open>
  The splitting does not matter for broken streams either: for any bytes, two ways of
  cutting them into pieces give the same envelopes and the same verdict on whether the
  stream is broken, and once it is broken nothing more is delivered.
\<close>

theorem splitting_irrelevant:
  assumes "concat pieces = concat pieces'"
  shows "fst (feed cc (new_decoder maximum) pieces) = fst (feed cc (new_decoder maximum) pieces')
    \<and> fd_fatalError (snd (feed cc (new_decoder maximum) pieces))
      = fd_fatalError (snd (feed cc (new_decoder maximum) pieces'))
    \<and> (fd_fatalError d \<longrightarrow> fst (feed cc d pieces) = [])"
proof -
  let ?d = "new_decoder maximum"
  have idle: "decoder_idle cc ?d"
    by (simp add: decoder_idle_def new_decoder_def) (subst drain.simps, simp add: kFramePrefixSize_def)
  obtain es err left where "drain cc (fd_maximumMessageSize ?d) (fd_buffer ?d @ concat pieces) = (es, err, left)"
    by (cases "drain cc (fd_maximumMessageSize ?d) (fd_buffer ?d @ concat pieces)")
  then show ?thesis
    using feed_drain[OF idle, of pieces es err left] feed_drain[OF idle, of pieces' es err left] assms
      feed_fatal[of d cc pieces] by simp
qed

theorem splitting_irrelevant_witness:
  "fst (feed ping_codec (new_decoder 100) [[0, 0, 0, 0], [1]])
    = fst (feed ping_codec (new_decoder 100) [[0, 0, 0], [0, 1]])"
  using splitting_irrelevant[of "[[0, 0, 0, 0], [1]]" "[[0, 0, 0], [0, 1]]"] by simp

end
