(* ===== verification/WorkerLink.thy ===== *)
theory WorkerLink
  imports Frames
begin

text \<open>
  \<^verbatim>\<open>ipc/WorkerServer\<close>, \<^verbatim>\<open>ipc/AsrWorkerClient\<close> and \<^verbatim>\<open>app/CliChunkEnvelopeGate.h\<close>: the two ends of
  the connection between the application and the worker process, as machines over socket
  events. A step returns the Qt signals emitted and the frames written, in order, and the
  new state. What connected slots do in response is outside the model; time is in
  milliseconds. \<open>QHash::keys\<close> has no fixed order; the model keeps clients in the order of
  arrival.
\<close>

record client_state =
  cl_decoder :: frame_decoder
  cl_lastActivity :: int
  cl_ready :: bool
  cl_connected :: bool

record worker_server =
  sv_clients :: "(nat \<times> client_state) list"
  sv_sessionToken :: bytes
  sv_nextClientId :: nat
  sv_listening :: bool
  sv_watchdog :: bool

datatype server_signal =
  ClientReady nat | ClientDisconnected nat | EnvelopeReceived nat envelope
  | ServerError nat protocol_error | Written nat bytes

type_synonym server_output = "server_signal list \<times> worker_server"

definition new_server :: worker_server where
  "new_server = \<lparr>sv_clients = [], sv_sessionToken = [], sv_nextClientId = 1,
     sv_listening = False, sv_watchdog = False\<rparr>"

definition disconnectClient :: "nat \<Rightarrow> protocol_error \<Rightarrow> worker_server \<Rightarrow> server_output" where
  "disconnectClient clientId err sv =
     (case map_of (sv_clients sv) clientId of
        None \<Rightarrow> ([], sv)
      | Some c \<Rightarrow>
          ((if err \<noteq> NoProtocolError then [ServerError clientId err] else [])
             @ [ClientDisconnected clientId],
           sv\<lparr>sv_clients := AList.delete clientId (sv_clients sv)\<rparr>))"

fun disconnectAll :: "nat list \<Rightarrow> protocol_error \<Rightarrow> worker_server \<Rightarrow> server_output" where
  "disconnectAll [] err sv = ([], sv)"
| "disconnectAll (i # is) err sv =
     (case disconnectClient i err sv of (out, sv') \<Rightarrow>
        (case disconnectAll is err sv' of (out', sv'') \<Rightarrow> (out @ out', sv'')))"

definition close_server :: "worker_server \<Rightarrow> server_output" where
  "close_server sv =
     (case disconnectAll (map fst (sv_clients sv)) NoProtocolError (sv\<lparr>sv_watchdog := False\<rparr>) of
        (out, sv') \<Rightarrow> (out, sv'\<lparr>sv_listening := False, sv_sessionToken := []\<rparr>))"

text \<open>\<open>bound\<close>: whether the operating system lets the server listen under the name.\<close>

definition listen :: "bool \<Rightarrow> qstring \<Rightarrow> bytes \<Rightarrow> worker_server \<Rightarrow> bool \<times> server_output" where
  "listen bound serverName sessionToken sv =
     (case close_server sv of (out, sv1) \<Rightarrow>
        if serverName = [] \<or> length sessionToken < 16 then (False, out, sv1)
        else (bound, out, sv1\<lparr>sv_sessionToken := sessionToken, sv_listening := bound,
                            sv_watchdog := (bound \<or> sv_watchdog sv1)\<rparr>))"

definition server_send :: "cbor_codec \<Rightarrow> nat \<Rightarrow> envelope \<Rightarrow> worker_server \<Rightarrow> server_signal list" where
  "server_send cc clientId e sv =
     (case map_of (sv_clients sv) clientId of
        None \<Rightarrow> []
      | Some c \<Rightarrow>
          if \<not> cl_connected c then []
          else case encode_frame cc (e\<lparr>env_protocolVersion := kProtocolVersion,
                                      env_sessionToken := sv_sessionToken sv\<rparr>) of
            Inl err \<Rightarrow> [ServerError clientId err]
          | Inr bytes \<Rightarrow> [Written clientId bytes])"

definition broadcast :: "cbor_codec \<Rightarrow> envelope \<Rightarrow> worker_server \<Rightarrow> server_signal list" where
  "broadcast cc e sv = concat (map (\<lambda>i. server_send cc i e sv) (map fst (sv_clients sv)))"

definition acceptConnection :: "int \<Rightarrow> worker_server \<Rightarrow> server_output" where
  "acceptConnection now sv =
     ([], sv\<lparr>sv_nextClientId := sv_nextClientId sv + 1,
            sv_clients := sv_clients sv @ [(sv_nextClientId sv,
              \<lparr>cl_decoder = new_decoder kMaximumMessageSize, cl_lastActivity = now,
               cl_ready = False, cl_connected = True\<rparr>)]\<rparr>)"

definition set_client :: "nat \<Rightarrow> client_state \<Rightarrow> worker_server \<Rightarrow> worker_server" where
  "set_client i c sv = sv\<lparr>sv_clients := AList.update i c (sv_clients sv)\<rparr>"

definition processEnvelope :: "cbor_codec \<Rightarrow> nat \<Rightarrow> envelope \<Rightarrow> worker_server \<Rightarrow> bool \<times> server_output" where
  "processEnvelope cc clientId e sv =
     (case map_of (sv_clients sv) clientId of
        None \<Rightarrow> (False, [], sv)
      | Some c \<Rightarrow>
          if env_protocolVersion e \<noteq> kProtocolVersion then
            (False, disconnectClient clientId ProtocolMismatch sv)
          else if env_sessionToken e \<noteq> sv_sessionToken sv then
            (False, disconnectClient clientId AuthenticationFailed sv)
          else if \<not> cl_ready c then
            if env_type e \<noteq> Hello then (False, disconnectClient clientId HandshakeRequired sv)
            else
              let sv' = set_client clientId (c\<lparr>cl_ready := True\<rparr>) sv;
                  reply = (default_envelope HelloAck)\<lparr>env_requestId := env_requestId e,
                    env_payload := mapInsert ''protocolVersion'' (CborInteger kProtocolVersion) []\<rparr>
              in (True, server_send cc clientId reply sv' @ [ClientReady clientId], sv')
          else if env_type e = Ping then
            (True, server_send cc clientId ((default_envelope Pong)\<lparr>env_requestId := env_requestId e\<rparr>) sv, sv)
          else (True, [EnvelopeReceived clientId e], sv))"

fun processEnvelopes :: "cbor_codec \<Rightarrow> nat \<Rightarrow> envelope list \<Rightarrow> worker_server \<Rightarrow> server_output" where
  "processEnvelopes cc clientId [] sv = ([], sv)"
| "processEnvelopes cc clientId (e # es) sv =
     (case processEnvelope cc clientId e sv of (continue, out, sv') \<Rightarrow>
        if \<not> continue then (out, sv')
        else case processEnvelopes cc clientId es sv' of (out', sv'') \<Rightarrow> (out @ out', sv''))"

definition readClient :: "cbor_codec \<Rightarrow> int \<Rightarrow> nat \<Rightarrow> bytes \<Rightarrow> worker_server \<Rightarrow> server_output" where
  "readClient cc now clientId bytes sv =
     (case map_of (sv_clients sv) clientId of
        None \<Rightarrow> ([], sv)
      | Some c \<Rightarrow>
          (case append_bytes cc (cl_decoder c) bytes of ((envelopes, err), d) \<Rightarrow>
             let sv' = set_client clientId (c\<lparr>cl_lastActivity := now, cl_decoder := d\<rparr>) sv in
             if err \<noteq> NoProtocolError then disconnectClient clientId err sv'
             else processEnvelopes cc clientId envelopes sv'))"

definition watchdog_timeout :: "int \<Rightarrow> worker_server \<Rightarrow> server_output" where
  "watchdog_timeout now sv =
     disconnectAll (map fst (filter (\<lambda>(i, c). now - cl_lastActivity c > kHeartbeatTimeoutMs) (sv_clients sv)))
       HeartbeatTimeout sv"

text \<open>
  The events of the server's sockets and its timer. Connections arrive only while the
  server listens, and the watchdog runs from a successful \<open>listen\<close> to \<open>close\<close>.
\<close>

datatype server_event =
  NewConnection int | ReadyRead int nat bytes | SocketClosed nat | SocketFailed nat
  | WatchdogTimeout int | CloseServer

fun server_step :: "cbor_codec \<Rightarrow> worker_server \<Rightarrow> server_event \<Rightarrow> server_output" where
  "server_step cc sv (NewConnection now) =
     (if sv_listening sv then acceptConnection now sv else ([], sv))"
| "server_step cc sv (ReadyRead now clientId bytes) = readClient cc now clientId bytes sv"
| "server_step cc sv (SocketClosed clientId) = disconnectClient clientId NoProtocolError sv"
| "server_step cc sv (SocketFailed clientId) =
     ((if map_of (sv_clients sv) clientId \<noteq> None then [ServerError clientId SocketError] else []), sv)"
| "server_step cc sv (WatchdogTimeout now) =
     (if sv_watchdog sv then watchdog_timeout now sv else ([], sv))"
| "server_step cc sv CloseServer = close_server sv"

fun server_run :: "cbor_codec \<Rightarrow> worker_server \<Rightarrow> server_event list \<Rightarrow> server_output" where
  "server_run cc sv [] = ([], sv)"
| "server_run cc sv (ev # evs) =
     (case server_step cc sv ev of (out, sv') \<Rightarrow>
        (case server_run cc sv' evs of (out', sv'') \<Rightarrow> (out @ out', sv'')))"

subsection \<open>The session specification\<close>

text \<open>
  What the rest of the worker may rely on: the signals form a trace of sessions. A session
  opens with \<open>ClientReady\<close>, ends with \<open>ClientDisconnected\<close>, and an envelope is delivered only
  inside a session, with the right token and version. The state is the set of open sessions.
\<close>

fun session_step :: "bytes \<Rightarrow> nat set \<Rightarrow> server_signal \<Rightarrow> nat set option" where
  "session_step token S (ClientReady i) = (if i \<in> S then None else Some (insert i S))"
| "session_step token S (ClientDisconnected i) = Some (S - {i})"
| "session_step token S (EnvelopeReceived i e) =
     (if i \<in> S \<and> env_protocolVersion e = kProtocolVersion \<and> env_sessionToken e = token
         \<and> env_type e \<noteq> Ping then Some S else None)"
| "session_step token S (ServerError i err) = Some S"
| "session_step token S (Written i bytes) = Some S"

fun session_trace :: "bytes \<Rightarrow> nat set \<Rightarrow> server_signal list \<Rightarrow> nat set option" where
  "session_trace token S [] = Some S"
| "session_trace token S (x # xs) =
     (case session_step token S x of None \<Rightarrow> None | Some S' \<Rightarrow> session_trace token S' xs)"

lemma session_trace_append:
  "session_trace token S (xs @ ys) =
     (case session_trace token S xs of None \<Rightarrow> None | Some S' \<Rightarrow> session_trace token S' ys)"
  by (induction xs arbitrary: S) (auto split: option.splits)

definition ready_clients :: "worker_server \<Rightarrow> nat set" where
  "ready_clients sv = {i. \<exists>c. map_of (sv_clients sv) i = Some c \<and> cl_ready c}"

text \<open>One step of the server is a trace from the old to the new set of ready clients.\<close>

definition implements :: "bytes \<Rightarrow> worker_server \<Rightarrow> server_output \<Rightarrow> bool" where
  "implements token sv result \<longleftrightarrow>
     session_trace token (ready_clients sv) (fst result) = Some (ready_clients (snd result))"

definition server_ok :: "bytes \<Rightarrow> worker_server \<Rightarrow> bool" where
  "server_ok token sv \<longleftrightarrow> distinct (map fst (sv_clients sv))
     \<and> (\<forall>i \<in> fst ` set (sv_clients sv). i < sv_nextClientId sv)
     \<and> (sv_clients sv \<noteq> [] \<longrightarrow> sv_sessionToken sv = token)
     \<and> (sv_listening sv \<longrightarrow> sv_sessionToken sv = token)"

lemma delete_clients: "AList.delete i cs = filter (\<lambda>p. fst p \<noteq> i) cs"
  by (induction cs) auto

lemma disconnect_clients:
  "sv_clients (snd (disconnectClient i err sv)) = filter (\<lambda>p. fst p \<noteq> i) (sv_clients sv)"
proof (cases "map_of (sv_clients sv) i")
  case None
  then have "\<forall>p \<in> set (sv_clients sv). fst p \<noteq> i" by (auto simp: map_of_eq_None_iff)
  then show ?thesis using None by (simp add: disconnectClient_def)
next
  case (Some c)
  then show ?thesis by (simp add: disconnectClient_def delete_clients)
qed

lemma disconnect_frame [frame_simps]:
  "sv_sessionToken (snd (disconnectClient i err sv)) = sv_sessionToken sv"
  "sv_nextClientId (snd (disconnectClient i err sv)) = sv_nextClientId sv"
  "sv_listening (snd (disconnectClient i err sv)) = sv_listening sv"
  "sv_watchdog (snd (disconnectClient i err sv)) = sv_watchdog sv"
  by (simp_all add: disconnectClient_def split: option.split)

lemma map_of_filter_other:
  "map_of (filter (\<lambda>p. fst p \<notin> X) cs) j = (if j \<in> X then None else map_of cs j)"
  by (induction cs) auto

lemma map_of_filter_key:
  "map_of (filter (\<lambda>p. fst p \<noteq> i) cs) j = (if j = i then None else map_of cs j)"
  by (induction cs) auto

lemma disconnect_ready: "ready_clients (snd (disconnectClient i err sv)) = ready_clients sv - {i}"
  by (auto simp: ready_clients_def disconnect_clients map_of_filter_key)

lemma disconnect_implements [inv_intros]: "implements token sv (disconnectClient i err sv)"
proof (cases "map_of (sv_clients sv) i")
  case None
  then show ?thesis by (simp add: implements_def disconnectClient_def)
next
  case (Some c)
  then have "session_trace token (ready_clients sv) (fst (disconnectClient i err sv))
      = Some (ready_clients sv - {i})"
    by (simp add: disconnectClient_def)
  then show ?thesis by (simp add: implements_def disconnect_ready)
qed

lemma disconnect_ok [inv_intros]: "server_ok token sv \<Longrightarrow> server_ok token (snd (disconnectClient i err sv))"
  unfolding server_ok_def frame_simps disconnect_clients
  by (auto simp: distinct_map_filter)

lemma implements_seq:
  assumes "implements token sv (out, sv')" "implements token sv' (out', sv'')"
  shows "implements token sv (out @ out', sv'')"
  using assms by (simp add: implements_def session_trace_append)

lemma implements_skip: "implements token sv ([], sv)"
  by (simp add: implements_def)

lemma disconnectAll_props:
  "implements token sv (disconnectAll is err sv)
   \<and> (server_ok token sv \<longrightarrow> server_ok token (snd (disconnectAll is err sv)))
   \<and> sv_clients (snd (disconnectAll is err sv)) = filter (\<lambda>p. fst p \<notin> set is) (sv_clients sv)"
proof (induction "is" arbitrary: sv)
  case Nil
  then show ?case by (simp add: implements_skip)
next
  case (Cons i js)
  obtain out sv' where d: "disconnectClient i err sv = (out, sv')" by fastforce
  obtain out' sv'' where r: "disconnectAll js err sv' = (out', sv'')" by fastforce
  have clients: "sv_clients sv' = filter (\<lambda>p. fst p \<noteq> i) (sv_clients sv)"
    using disconnect_clients[of i err sv] d by simp
  have "implements token sv (out @ out', sv'')"
    using implements_seq[of token sv out sv' out' sv''] disconnect_implements[of token sv i err]
      Cons.IH[of sv'] d r by simp
  moreover have "server_ok token sv \<longrightarrow> server_ok token sv''"
    using disconnect_ok[of token sv i err] Cons.IH[of sv'] d r by simp
  moreover have "sv_clients sv'' = filter (\<lambda>p. fst p \<notin> set (i # js)) (sv_clients sv)"
    using Cons.IH[of sv'] r clients by (auto intro: filter_cong)
  ultimately show ?case using d r by simp
qed

lemma send_silent: "session_trace token S (server_send cc i e sv) = Some S"
  by (simp add: server_send_def split: option.split sum.split)

lemma set_client_map: "map_of (sv_clients (set_client i c sv)) j = (if j = i then Some c else map_of (sv_clients sv) j)"
  by (simp add: set_client_def update_conv')

lemma set_client_ok:
  assumes "server_ok token sv" "map_of (sv_clients sv) i = Some c"
  shows "server_ok token (set_client i c' sv)"
proof -
  have i: "i \<in> fst ` set (sv_clients sv)"
    using assms(2) map_of_eq_None_iff[of "sv_clients sv" i] by auto
  have keys: "fst ` set (AList.update i c' (sv_clients sv)) = fst ` set (sv_clients sv)"
    using i by (auto simp: dom_update)
  have "distinct (map fst (AList.update i c' (sv_clients sv)))"
    using assms(1) by (simp add: server_ok_def distinct_update)
  moreover have "sv_clients sv \<noteq> []" using i by auto
  ultimately show ?thesis
    using assms(1) keys unfolding server_ok_def set_client_def by simp
qed

lemma set_client_ready:
  assumes "map_of (sv_clients sv) i = Some c"
  shows "ready_clients (set_client i c' sv) =
    (if cl_ready c' then insert i (ready_clients sv) else ready_clients sv - {i})"
  by (auto simp: ready_clients_def set_client_map)

lemma process_props:
  assumes "server_ok token sv" "processEnvelope cc i e sv = (continue, out, sv')"
  shows "implements token sv (out, sv') \<and> server_ok token sv'"
proof (cases "map_of (sv_clients sv) i")
  case None
  then show ?thesis using assms by (simp add: processEnvelope_def implements_skip)
next
  case (Some c)
  have tok: "sv_sessionToken sv = token"
    using assms(1) Some unfolding server_ok_def by (metis empty_iff list.set(1) map_of_SomeD)
  note dis = disconnect_implements[of token sv i] disconnect_ok[OF assms(1), of i]
  consider (rejected) err where "(out, sv') = disconnectClient i err sv"
    | (hello) "out = server_send cc i ((default_envelope HelloAck)\<lparr>env_requestId := env_requestId e,
          env_payload := mapInsert ''protocolVersion'' (CborInteger kProtocolVersion) []\<rparr>) sv'
          @ [ClientReady i]" "sv' = set_client i (c\<lparr>cl_ready := True\<rparr>) sv" "\<not> cl_ready c"
    | (pong) x where "out = server_send cc i x sv" "sv' = sv"
    | (deliver) "out = [EnvelopeReceived i e]" "sv' = sv" "cl_ready c" "env_type e \<noteq> Ping"
        "env_protocolVersion e = kProtocolVersion" "env_sessionToken e = token"
  proof -
    note u = assms(2)[unfolded processEnvelope_def Some option.case Let_def]
    consider "env_protocolVersion e \<noteq> kProtocolVersion"
      | "env_protocolVersion e = kProtocolVersion" "env_sessionToken e \<noteq> sv_sessionToken sv"
      | "env_protocolVersion e = kProtocolVersion" "env_sessionToken e = sv_sessionToken sv"
        "\<not> cl_ready c" "env_type e \<noteq> Hello"
      | "env_protocolVersion e = kProtocolVersion" "env_sessionToken e = sv_sessionToken sv"
        "\<not> cl_ready c" "env_type e = Hello"
      | "env_protocolVersion e = kProtocolVersion" "env_sessionToken e = sv_sessionToken sv"
        "cl_ready c" "env_type e = Ping"
      | "env_protocolVersion e = kProtocolVersion" "env_sessionToken e = sv_sessionToken sv"
        "cl_ready c" "env_type e \<noteq> Ping"
      by blast
    then show thesis
    proof cases
      case 1
      then show thesis using u by (intro rejected[of ProtocolMismatch]) simp
    next
      case 2
      then show thesis using u by (intro rejected[of AuthenticationFailed]) simp
    next
      case 3
      then show thesis using u by (intro rejected[of HandshakeRequired]) simp
    next
      case 4
      then show thesis using u by (intro hello) auto
    next
      case 5
      then show thesis using u by (intro pong) auto
    next
      case 6
      then show thesis using u tok by (intro deliver) auto
    qed
  qed
  then show ?thesis
  proof cases
    case rejected
    then show ?thesis using dis[of err] by (metis snd_conv)
  next
    case hello
    have "i \<notin> ready_clients sv" using Some hello(3) by (simp add: ready_clients_def)
    then have "implements token sv (out, sv')"
      unfolding implements_def using hello set_client_ready[OF Some]
      by (simp add: session_trace_append send_silent)
    then show ?thesis using hello(2) set_client_ok[OF assms(1) Some] by simp
  next
    case pong
    then show ?thesis using assms(1) by (simp add: implements_def send_silent)
  next
    case deliver
    then have "i \<in> ready_clients sv" using Some by (simp add: ready_clients_def)
    then show ?thesis using deliver assms(1) by (simp add: implements_def)
  qed
qed

lemma processEnvelopes_props:
  "server_ok token sv \<Longrightarrow> implements token sv (processEnvelopes cc i es sv)
    \<and> server_ok token (snd (processEnvelopes cc i es sv))"
proof (induction es arbitrary: sv)
  case Nil
  then show ?case by (simp add: implements_skip)
next
  case (Cons e es)
  obtain continue out sv' where p: "processEnvelope cc i e sv = (continue, out, sv')"
    by (cases "processEnvelope cc i e sv")
  note step = process_props[OF Cons.prems p]
  obtain out' sv'' where r: "processEnvelopes cc i es sv' = (out', sv'')" by fastforce
  show ?case
    using step Cons.IH[of sv'] implements_seq[of token sv out sv' out' sv''] p r by auto
qed

lemma readClient_props:
  assumes "server_ok token sv"
  shows "implements token sv (readClient cc now i bytes sv)
    \<and> server_ok token (snd (readClient cc now i bytes sv))"
proof (cases "map_of (sv_clients sv) i")
  case None
  then show ?thesis using assms by (simp add: readClient_def implements_skip)
next
  case (Some c)
  obtain es err d where a: "append_bytes cc (cl_decoder c) bytes = ((es, err), d)"
    by (metis surj_pair)
  let ?c = "c\<lparr>cl_lastActivity := now, cl_decoder := d\<rparr>"
  let ?sv = "set_client i ?c sv"
  have ready: "ready_clients ?sv = ready_clients sv"
    using set_client_ready[OF Some, of ?c] Some by (auto simp: ready_clients_def)
  have ok: "server_ok token ?sv" by (rule set_client_ok[OF assms Some])
  have unfold: "readClient cc now i bytes sv =
      (if err \<noteq> NoProtocolError then disconnectClient i err ?sv else processEnvelopes cc i es ?sv)"
    using Some a by (simp add: readClient_def Let_def)
  show ?thesis
    unfolding unfold using ready processEnvelopes_props[OF ok, of cc i es]
      disconnect_implements[of token ?sv i err] disconnect_ok[OF ok, of i err]
    by (simp add: implements_def)
qed

lemma server_step_props:
  assumes "server_ok token sv"
  shows "implements token sv (server_step cc sv ev) \<and> server_ok token (snd (server_step cc sv ev))"
proof (cases ev)
  case (NewConnection now)
  show ?thesis
  proof (cases "sv_listening sv")
    case True
    have fresh: "sv_nextClientId sv \<notin> fst ` set (sv_clients sv)"
      using assms by (auto simp: server_ok_def)
    then have "map_of (sv_clients sv) (sv_nextClientId sv) = None" by (simp add: map_of_eq_None_iff)
    then have "ready_clients (snd (acceptConnection now sv)) = ready_clients sv"
      by (auto simp: ready_clients_def acceptConnection_def map_add_def split: option.splits)
    moreover have "server_ok token (snd (acceptConnection now sv))"
      using assms True fresh by (auto simp: server_ok_def acceptConnection_def)
    ultimately show ?thesis using NewConnection True
      by (simp add: implements_def) (simp add: acceptConnection_def)
  qed (use assms NewConnection in \<open>simp add: implements_skip\<close>)
next
  case (ReadyRead now i bytes)
  then show ?thesis using readClient_props[OF assms] by simp
next
  case (SocketClosed i)
  then show ?thesis using disconnect_implements disconnect_ok[OF assms] by simp
next
  case (SocketFailed i)
  then show ?thesis using assms by (simp add: implements_def)
next
  case (WatchdogTimeout now)
  then show ?thesis using disconnectAll_props assms by (simp add: watchdog_timeout_def implements_skip)
next
  case CloseServer
  let ?sv = "sv\<lparr>sv_watchdog := False\<rparr>"
  have ok: "server_ok token ?sv" using assms by (simp add: server_ok_def)
  obtain out sv' where d: "disconnectAll (map fst (sv_clients sv)) NoProtocolError ?sv = (out, sv')"
    by fastforce
  have "implements token ?sv (out, sv')" "server_ok token sv'" "sv_clients sv' = []"
    using disconnectAll_props[of token ?sv "map fst (sv_clients sv)" NoProtocolError] ok d
    by (simp_all add: filter_empty_conv)
  then show ?thesis using CloseServer d
    by (simp add: close_server_def implements_def ready_clients_def server_ok_def)
qed

lemma server_run_props:
  "server_ok token sv \<Longrightarrow> implements token sv (server_run cc sv evs)
    \<and> server_ok token (snd (server_run cc sv evs))"
proof (induction evs arbitrary: sv)
  case Nil
  then show ?case by (simp add: implements_skip)
next
  case (Cons ev evs)
  obtain out sv' where s: "server_step cc sv ev = (out, sv')" by fastforce
  obtain out' sv'' where r: "server_run cc sv' evs = (out', sv'')" by fastforce
  show ?case
    using server_step_props[OF Cons.prems, of cc ev] Cons.IH[of sv'] s r
      implements_seq[of token sv out sv' out' sv''] by simp
qed

interpretation server: machine "\<lambda>sv ev. snd (server_step cc sv ev)" "server_ok token" for cc token
  by unfold_locales (simp add: server_step_props)

lemma listen_ok:
  assumes "listen bound name token new_server = (True, out, sv)"
  shows "server_ok token sv \<and> sv_clients sv = [] \<and> 16 \<le> length token"
  using assms
  by (auto simp: listen_def close_server_def new_server_def server_ok_def split: if_splits)

subsection \<open>The client\<close>

record worker_client =
  ac_ready :: bool
  ac_connected :: bool
  ac_decoder :: frame_decoder
  ac_sessionToken :: bytes
  ac_clientVersion :: qstring
  ac_lastPong :: "int option"
  ac_heartbeat :: bool

datatype client_signal =
  Ready | Disconnected | Received envelope | ClientError protocol_error | Sent bytes

type_synonym client_output = "client_signal list \<times> worker_client"

definition client_fail :: "protocol_error \<Rightarrow> worker_client \<Rightarrow> client_output" where
  "client_fail code cl =
     ([ClientError code], cl\<lparr>ac_ready := False, ac_heartbeat := False, ac_connected := False\<rparr>)"

definition disconnectFromWorker :: "worker_client \<Rightarrow> worker_client" where
  "disconnectFromWorker cl = cl\<lparr>ac_heartbeat := False, ac_ready := False, ac_connected := False\<rparr>"

text \<open>\<open>connectToWorker\<close>; the socket is on its way to the connected state.\<close>

definition connectToWorker :: "bytes \<Rightarrow> worker_client \<Rightarrow> worker_client" where
  "connectToWorker sessionToken cl =
     (disconnectFromWorker cl)\<lparr>ac_decoder := reset_decoder (ac_decoder cl),
       ac_sessionToken := sessionToken, ac_connected := True\<rparr>"

text \<open>A socket that is not connected accepts no bytes.\<close>

definition sendEnvelope :: "cbor_codec \<Rightarrow> envelope \<Rightarrow> worker_client \<Rightarrow> client_output" where
  "sendEnvelope cc e cl =
     (case encode_frame cc (e\<lparr>env_protocolVersion := kProtocolVersion,
              env_sessionToken := ac_sessionToken cl, env_workerVersion := ac_clientVersion cl\<rparr>) of
        Inl err \<Rightarrow> ([ClientError err], cl)
      | Inr frame \<Rightarrow>
          if \<not> ac_connected cl then client_fail SocketError cl else ([Sent frame], cl))"

definition sendRequest :: "cbor_codec \<Rightarrow> qstring \<Rightarrow> message_type \<Rightarrow> qstring \<Rightarrow> cbor_map \<Rightarrow> worker_client
    \<Rightarrow> qstring \<times> client_output" where
  "sendRequest cc uuid t jobId payload cl =
     (if \<not> ac_ready cl then ([], client_fail HandshakeRequired cl)
      else (uuid, sendEnvelope cc ((default_envelope t)\<lparr>env_requestId := uuid, env_jobId := jobId,
                     env_payload := payload\<rparr>) cl))"

definition client_process :: "int \<Rightarrow> envelope \<Rightarrow> worker_client \<Rightarrow> client_output" where
  "client_process now e cl =
     (if env_protocolVersion e \<noteq> kProtocolVersion then client_fail ProtocolMismatch cl
      else if env_sessionToken e \<noteq> ac_sessionToken cl then client_fail AuthenticationFailed cl
      else if \<not> ac_ready cl then
        if env_type e \<noteq> HelloAck then client_fail HandshakeRequired cl
        else ([Ready], cl\<lparr>ac_ready := True, ac_lastPong := Some now, ac_heartbeat := True\<rparr>)
      else if env_type e = Pong then ([], cl\<lparr>ac_lastPong := Some now\<rparr>)
      else ([Received e], cl))"

text \<open>The loop of \<open>readAvailable\<close> goes on after an envelope was refused.\<close>

fun client_process_all :: "int \<Rightarrow> envelope list \<Rightarrow> worker_client \<Rightarrow> client_output" where
  "client_process_all now [] cl = ([], cl)"
| "client_process_all now (e # es) cl =
     (case client_process now e cl of (out, cl') \<Rightarrow>
        (case client_process_all now es cl' of (out', cl'') \<Rightarrow> (out @ out', cl'')))"

definition readAvailable :: "cbor_codec \<Rightarrow> int \<Rightarrow> bytes \<Rightarrow> worker_client \<Rightarrow> client_output" where
  "readAvailable cc now bytes cl =
     (case append_bytes cc (ac_decoder cl) bytes of ((envelopes, err), d) \<Rightarrow>
        let cl' = cl\<lparr>ac_decoder := d\<rparr> in
        if err \<noteq> NoProtocolError then client_fail err cl'
        else client_process_all now envelopes cl')"

definition heartbeat :: "cbor_codec \<Rightarrow> int \<Rightarrow> qstring \<Rightarrow> worker_client \<Rightarrow> client_output" where
  "heartbeat cc now uuid cl =
     (if \<not> ac_ready cl then ([], cl)
      else case ac_lastPong cl of
        Some t \<Rightarrow>
          if now - t > kHeartbeatTimeoutMs then client_fail HeartbeatTimeout cl
          else sendEnvelope cc ((default_envelope Ping)\<lparr>env_requestId := uuid\<rparr>) cl
      | None \<Rightarrow> sendEnvelope cc ((default_envelope Ping)\<lparr>env_requestId := uuid\<rparr>) cl)"

text \<open>
  Socket events: connected, bytes, disconnected (with whether the socket reports an unknown
  error), error (with whether it is a closed peer), and the heartbeat timer.
\<close>

datatype client_event =
  Connected qstring | BytesArrived int bytes | SocketDisconnected bool | SocketErrorOccurred bool
  | HeartbeatTick int qstring

fun client_step :: "cbor_codec \<Rightarrow> worker_client \<Rightarrow> client_event \<Rightarrow> client_output" where
  "client_step cc cl (Connected uuid) =
     sendEnvelope cc ((default_envelope Hello)\<lparr>env_requestId := uuid,
        env_workerVersion := ac_clientVersion cl,
        env_payload := mapInsert ''clientVersion'' (CborString (ac_clientVersion cl)) []\<rparr>) cl"
| "client_step cc cl (BytesArrived now bytes) = readAvailable cc now bytes cl"
| "client_step cc cl (SocketDisconnected unknownError) =
     ((if ac_ready cl \<or> unknownError then [Disconnected] else []),
      cl\<lparr>ac_ready := False, ac_heartbeat := False, ac_connected := False\<rparr>)"
| "client_step cc cl (SocketErrorOccurred peerClosed) =
     (if peerClosed then ([], cl) else client_fail SocketError cl)"
| "client_step cc cl (HeartbeatTick now uuid) =
     (if ac_heartbeat cl then heartbeat cc now uuid cl else ([], cl))"

subsection \<open>The gate of the command line client\<close>

record cli_gate =
  cg_protocolFailurePending :: bool
  cg_requestInFlight :: bool

definition shouldProcess :: "message_type \<Rightarrow> cli_gate \<Rightarrow> bool \<times> cli_gate" where
  "shouldProcess t g =
     (if \<not> cg_protocolFailurePending g then (True, g)
      else if t = ChunkCompletedMessage \<or> t = TranscriptionCompleted \<or> t = JobCancelledMessage
              \<or> t = ErrorMessage
      then (False, g\<lparr>cg_requestInFlight := False\<rparr>)
      else (False, g))"

text \<open>What the client hands on was checked, and only while it was ready.\<close>

definition client_trace_ok :: "bytes \<Rightarrow> client_signal list \<Rightarrow> bool" where
  "client_trace_ok token out \<longleftrightarrow>
     (\<forall>e. Received e \<in> set out \<longrightarrow>
        env_protocolVersion e = kProtocolVersion \<and> env_sessionToken e = token \<and> env_type e \<noteq> Pong)"

lemma client_process_checked:
  "client_process now e cl = (out, cl') \<Longrightarrow>
     client_trace_ok (ac_sessionToken cl) out \<and> ac_sessionToken cl' = ac_sessionToken cl"
  by (auto simp: client_process_def client_fail_def client_trace_ok_def split: if_splits)

lemma client_process_all_checked:
  "client_process_all now es cl = (out, cl') \<Longrightarrow>
     client_trace_ok (ac_sessionToken cl) out \<and> ac_sessionToken cl' = ac_sessionToken cl"
proof (induction es arbitrary: cl out)
  case Nil
  then show ?case by (auto simp: client_trace_ok_def)
next
  case (Cons e es)
  obtain o1 c1 where p: "client_process now e cl = (o1, c1)" by fastforce
  obtain o2 where r: "client_process_all now es c1 = (o2, cl')" "out = o1 @ o2"
    using Cons.prems p by (auto split: prod.splits)
  show ?case
    using client_process_checked[OF p] Cons.IH[OF r(1)] r(2) by (auto simp: client_trace_ok_def)
qed

lemma client_step_checked:
  assumes "client_step cc cl ev = (out, cl')"
  shows "client_trace_ok (ac_sessionToken cl) out \<and> ac_sessionToken cl' = ac_sessionToken cl"
proof (cases ev)
  case (BytesArrived now bytes)
  then show ?thesis
    using assms client_process_all_checked[of now _ "cl\<lparr>ac_decoder := _\<rparr>" out cl']
    by (auto simp: readAvailable_def Let_def client_fail_def client_trace_ok_def
        split: prod.splits if_splits)
qed (use assms in \<open>auto simp: sendEnvelope_def heartbeat_def client_fail_def client_trace_ok_def
      split: if_splits sum.splits option.splits\<close>)

fun client_run :: "cbor_codec \<Rightarrow> worker_client \<Rightarrow> client_event list \<Rightarrow> client_output" where
  "client_run cc cl [] = ([], cl)"
| "client_run cc cl (ev # evs) =
     (case client_step cc cl ev of (out, cl') \<Rightarrow>
        (case client_run cc cl' evs of (out', cl'') \<Rightarrow> (out @ out', cl'')))"

lemma client_run_checked:
  "client_trace_ok (ac_sessionToken cl) (fst (client_run cc cl evs))"
proof (induction evs arbitrary: cl)
  case Nil
  then show ?case by (simp add: client_trace_ok_def)
next
  case (Cons ev evs)
  obtain o1 c1 where s: "client_step cc cl ev = (o1, c1)" by fastforce
  obtain o2 c2 where r: "client_run cc c1 evs = (o2, c2)" by fastforce
  show ?case using client_step_checked[OF s] Cons.IH[of c1] s r by (auto simp: client_trace_ok_def)
qed

subsection \<open>Properties\<close>

text \<open>
  A silent client does not stay connected: after a watchdog tick of a listening server
  every remaining client has been heard from within the heartbeat timeout, and no other
  client was dropped.
\<close>

theorem watchdog_drops_silent_clients:
  assumes "sv_watchdog sv" and "server_step cc sv (WatchdogTimeout now) = (out, sv')"
    and "distinct (map fst (sv_clients sv))"
  shows "set (sv_clients sv')
    = {(i, c) \<in> set (sv_clients sv). now - cl_lastActivity c \<le> kHeartbeatTimeoutMs}"
proof -
  let ?silent = "map fst (filter (\<lambda>(i, c). now - cl_lastActivity c > kHeartbeatTimeoutMs) (sv_clients sv))"
  have "sv_clients sv' = filter (\<lambda>p. fst p \<notin> set ?silent) (sv_clients sv)"
    using assms(1,2) disconnectAll_props[of "[]" sv ?silent HeartbeatTimeout]
    by (simp add: watchdog_timeout_def)
  moreover have "fst p \<in> set ?silent \<longleftrightarrow> now - cl_lastActivity (snd p) > kHeartbeatTimeoutMs"
    if "p \<in> set (sv_clients sv)" for p
  proof (cases p)
    case (Pair i c)
    have "c' = c" if "(i, c') \<in> set (sv_clients sv)" for c'
      using eq_key_imp_eq_value[OF assms(3) that] \<open>p \<in> set (sv_clients sv)\<close> Pair by blast
    moreover have "i \<in> set ?silent
        \<longleftrightarrow> (\<exists>c'. (i, c') \<in> set (sv_clients sv) \<and> now - cl_lastActivity c' > kHeartbeatTimeoutMs)"
      unfolding set_map set_filter image_iff by (simp add: Bex_def split_paired_Ex)
    ultimately show ?thesis using \<open>p \<in> set (sv_clients sv)\<close> unfolding Pair fst_conv snd_conv by blast
  qed
  ultimately have "filter (\<lambda>p. fst p \<notin> set ?silent) (sv_clients sv)
      = filter (\<lambda>p. \<not> now - cl_lastActivity (snd p) > kHeartbeatTimeoutMs) (sv_clients sv)"
    and clients: "sv_clients sv' = filter (\<lambda>p. fst p \<notin> set ?silent) (sv_clients sv)"
    by (simp_all cong: filter_cong)
  then show ?thesis unfolding clients by (auto simp: not_less)
qed

theorem watchdog_drops_silent_clients_witness:
  "set (sv_clients (snd (server_step ping_codec
      (new_server\<lparr>sv_watchdog := True, sv_clients :=
         [(1, \<lparr>cl_decoder = new_decoder 9, cl_lastActivity = 0, cl_ready = True, cl_connected = True\<rparr>)]\<rparr>)
      (WatchdogTimeout 10001)))) = {}"
  by (subst watchdog_drops_silent_clients[OF _ surjective_pairing]) (auto simp: kHeartbeatTimeoutMs_def)

text \<open>
  The application acts only on messages of its own worker: whatever happens on the
  socket, every envelope the client passes on carries the session token and the protocol
  version it connected with.
\<close>

theorem client_delivers_checked_envelopes:
  "list_all (\<lambda>signal. case signal of
       Received e \<Rightarrow> env_sessionToken e = token \<and> env_protocolVersion e = kProtocolVersion
         \<and> env_type e \<noteq> Pong
     | _ \<Rightarrow> True) (fst (client_run cc (connectToWorker token cl) events))"
  using client_run_checked[of "connectToWorker token cl" cc events]
  by (auto simp: client_trace_ok_def connectToWorker_def list_all_iff split: client_signal.split)

abbreviation idle_client :: worker_client where
  "idle_client \<equiv> \<lparr>ac_ready = False, ac_connected = False, ac_decoder = new_decoder kMaximumMessageSize,
     ac_sessionToken = [], ac_clientVersion = [], ac_lastPong = None, ac_heartbeat = False\<rparr>"

text \<open>
  A refused connection can still be announced as ready. When one read delivers an
  envelope the client must refuse together with a well-formed HelloAck, the client reports
  the error and aborts the socket, but goes on with the rest of the batch and ends up ready
  on a socket that is no longer connected.
\<close>

theorem client_ready_after_refusal:
  "\<exists>batch out cl'. client_process_all 0 batch (connectToWorker [1] idle_client) = (out, cl')
    \<and> ClientError AuthenticationFailed \<in> set out \<and> last out = Ready
    \<and> ac_ready cl' \<and> \<not> ac_connected cl'"
proof -
  let ?bad = "(default_envelope HelloAck)\<lparr>env_sessionToken := [2]\<rparr>"
  let ?good = "(default_envelope HelloAck)\<lparr>env_sessionToken := [1]\<rparr>"
  obtain out cl' where run:
    "client_process_all 0 [?bad, ?good] (connectToWorker [1] idle_client) = (out, cl')" by fastforce
  then have "ClientError AuthenticationFailed \<in> set out \<and> last out = Ready
      \<and> ac_ready cl' \<and> \<not> ac_connected cl'"
    by (auto simp: client_process_def client_fail_def connectToWorker_def disconnectFromWorker_def
        default_envelope_def)
  then show ?thesis using run by blast
qed

end
