(* ===== verification/Editor.thy ===== *)
theory Editor
  imports Segments CoreTypes
begin

text \<open>
  \<^verbatim>\<open>transcript/TranscriptEditor\<close>: edits of a transcript with undo and redo. Every operation
  returns a result and the editor; a failed operation returns the editor it was given. The
  ids made by \<open>QUuid::createUuid\<close> and the current time are arguments. The invariant is that
  the segments are a timeline with consecutive ordinals, in the present and in the whole
  history.
\<close>

record transcript_editor =
  te_segments :: "transcript_segment list"
  te_undo :: "transcript_segment list list"
  te_redo :: "transcript_segment list list"

definition MaximumUndoSteps :: nat where
  "MaximumUndoSteps = 200"

type_synonym edit_outcome = "unit result \<times> transcript_editor"

definition edit_failure :: "error_code \<Rightarrow> transcript_editor \<Rightarrow> edit_outcome" where
  "edit_failure code ed = (Inl (validation_error code), ed)"

definition joinText :: "unicode \<Rightarrow> qstring \<Rightarrow> qstring \<Rightarrow> qstring" where
  "joinText uc left right =
     (if left = [] then right
      else if right = [] then left
      else let space = uc_isLatin uc (last left) \<and> uc_isLatin uc (hd right)
                 \<and> \<not> uc_isSpace uc (last left) \<and> \<not> uc_isSpace uc (hd right)
           in left @ (if space then lit '' '' else []) @ right)"

definition normalizeOrdinals :: "transcript_segment list \<Rightarrow> transcript_segment list" where
  "normalizeOrdinals ss = map (\<lambda>(i, s). s\<lparr>ts_ordinal := int i\<rparr>) (enumerate 0 ss)"

definition setSegments :: "transcript_segment list \<Rightarrow> transcript_editor \<Rightarrow> transcript_editor" where
  "setSegments segments ed = \<lparr>te_segments = normalizeOrdinals segments, te_undo = [], te_redo = []\<rparr>"

definition beginChange :: "transcript_editor \<Rightarrow> transcript_editor" where
  "beginChange ed =
     (let undo = te_undo ed @ [te_segments ed]
      in ed\<lparr>te_undo := (if length undo > MaximumUndoSteps then tl undo else undo), te_redo := []\<rparr>)"

fun validate_from :: "int \<Rightarrow> transcript_segment list \<Rightarrow> bool" where
  "validate_from previousEnd [] = True"
| "validate_from previousEnd (s # ss) =
     (if ts_startMs s < 0 \<or> ts_endMs s \<le> ts_startMs s \<or> ts_startMs s < previousEnd then False
      else validate_from (ts_endMs s) ss)"

definition validateCandidate :: "transcript_segment list \<Rightarrow> unit result" where
  "validateCandidate candidate =
     (if validate_from (-1) candidate then Inr () else Inl (validation_error InvalidArgument))"

definition validate_editor :: "transcript_editor \<Rightarrow> unit result" where
  "validate_editor ed = validateCandidate (te_segments ed)"

definition index_ok :: "int \<Rightarrow> transcript_editor \<Rightarrow> bool" where
  "index_ok index ed \<longleftrightarrow> \<not> (index < 0 \<or> index \<ge> int (length (te_segments ed)))"

definition editText :: "int \<Rightarrow> int \<Rightarrow> qstring \<Rightarrow> transcript_editor \<Rightarrow> edit_outcome" where
  "editText now index new_text ed =
     (if \<not> index_ok index ed then edit_failure NotFound ed
      else let ed' = beginChange ed; i = nat index
           in (Inr (), ed'\<lparr>te_segments := (te_segments ed')[i :=
                (te_segments ed' ! i)\<lparr>ts_editedText := new_text, ts_updatedAt := Some now\<rparr>]\<rparr>))"

text \<open>\<open>qRound64\<close> of a value that is not negative.\<close>

definition original_offset :: "int \<Rightarrow> int \<Rightarrow> int \<Rightarrow> int" where
  "original_offset textOffset displaySize originalSize =
     (let estimated = \<lfloor>real_of_int textOffset / real_of_int displaySize * real_of_int originalSize + 1 / 2\<rfloor>
      in clamp 1 (max 1 (originalSize - 1)) estimated)"

definition split_halves ::
  "unicode \<Rightarrow> int \<Rightarrow> string \<times> string \<Rightarrow> transcript_segment \<Rightarrow> int \<Rightarrow> int
    \<Rightarrow> transcript_segment \<times> transcript_segment" where
  "split_halves uc now ids source splitMs textOffset =
     (let display = displayText source;
          offset = nat (original_offset textOffset (int (length display))
                     (int (length (ts_originalText source))));
          common = source\<lparr>ts_replacementAudit := [], ts_reviewed := False, ts_updatedAt := Some now\<rparr>
      in (common\<lparr>ts_id := fst ids, ts_endMs := splitMs,
            ts_editedText := trimmed uc (take (nat textOffset) display),
            ts_originalText := trimmed uc (take offset (ts_originalText source))\<rparr>,
          common\<lparr>ts_id := snd ids, ts_startMs := splitMs,
            ts_editedText := trimmed uc (drop (nat textOffset) display),
            ts_originalText := trimmed uc (drop offset (ts_originalText source))\<rparr>))"

definition split_segment ::
  "unicode \<Rightarrow> int \<Rightarrow> string \<times> string \<Rightarrow> int \<Rightarrow> int \<Rightarrow> int \<Rightarrow> transcript_editor \<Rightarrow> edit_outcome" where
  "split_segment uc now ids index splitMs textOffset ed =
     (if \<not> index_ok index ed then edit_failure NotFound ed
      else let source = te_segments ed ! nat index; display = displayText source in
        if splitMs \<le> ts_startMs source \<or> splitMs \<ge> ts_endMs source \<or> textOffset \<le> 0
           \<or> textOffset \<ge> int (length display)
        then edit_failure InvalidArgument ed
        else let (left, right) = split_halves uc now ids source splitMs textOffset;
                 i = nat index; ed' = beginChange ed; ss = te_segments ed'
             in (Inr (), ed'\<lparr>te_segments :=
                   normalizeOrdinals (take i ss @ left # right # drop (i + 1) ss)\<rparr>))"

definition merge_pair ::
  "unicode \<Rightarrow> int \<Rightarrow> transcript_segment \<Rightarrow> transcript_segment \<Rightarrow> transcript_segment" where
  "merge_pair uc now previous current =
     (let mergedDuration = max 1 (ts_endMs previous - ts_startMs previous);
          currentDuration = max 1 (ts_endMs current - ts_startMs current);
          combined = real_of_int (mergedDuration + currentDuration);
          m1 = previous\<lparr>ts_endMs := ts_endMs current,
                 ts_originalText := joinText uc (ts_originalText previous) (ts_originalText current)\<rparr>;
          m2 = m1\<lparr>ts_editedText := joinText uc (displayText m1) (displayText current)\<rparr>
      in m2\<lparr>ts_replacementAudit := [],
           ts_averageProbability :=
             (ts_averageProbability m2 * real_of_int mergedDuration
              + ts_averageProbability current * real_of_int currentDuration) / combined,
           ts_minimumProbability := min (ts_minimumProbability m2) (ts_minimumProbability current),
           ts_noSpeechProbability := max (ts_noSpeechProbability m2) (ts_noSpeechProbability current),
           ts_lowConfidence := (ts_lowConfidence m2 \<or> ts_lowConfidence current),
           ts_reviewed := (ts_reviewed m2 \<and> ts_reviewed current),
           ts_provisional := (ts_provisional m2 \<or> ts_provisional current),
           ts_attempt := max (ts_attempt m2) (ts_attempt current),
           ts_chunkId := (if ts_chunkId m2 \<noteq> ts_chunkId current then [] else ts_chunkId m2),
           ts_updatedAt := Some now\<rparr>)"

definition mergeWithPrevious :: "unicode \<Rightarrow> int \<Rightarrow> int \<Rightarrow> transcript_editor \<Rightarrow> edit_outcome" where
  "mergeWithPrevious uc now index ed =
     (if index \<le> 0 \<or> index \<ge> int (length (te_segments ed)) then edit_failure InvalidArgument ed
      else let ed' = beginChange ed; ss = te_segments ed'; i = nat index;
               merged = merge_pair uc now (ss ! (i - 1)) (ss ! i)
           in (Inr (), ed'\<lparr>te_segments :=
                 normalizeOrdinals (take (i - 1) ss @ merged # drop (i + 1) ss)\<rparr>))"

definition mergeWithNext :: "unicode \<Rightarrow> int \<Rightarrow> int \<Rightarrow> transcript_editor \<Rightarrow> edit_outcome" where
  "mergeWithNext uc now index ed =
     (if index < 0 \<or> index + 1 \<ge> int (length (te_segments ed)) then edit_failure InvalidArgument ed
      else mergeWithPrevious uc now (index + 1) ed)"

definition insert_segment :: "string \<Rightarrow> int \<Rightarrow> transcript_segment \<Rightarrow> transcript_editor \<Rightarrow> edit_outcome" where
  "insert_segment uuid index segment ed =
     (if index < 0 \<or> index > int (length (te_segments ed)) then edit_failure InvalidArgument ed
      else let s = (if ts_id segment = [] then segment\<lparr>ts_id := uuid\<rparr> else segment);
               candidate = take (nat index) (te_segments ed) @ s # drop (nat index) (te_segments ed)
           in case validateCandidate candidate of
                Inl err \<Rightarrow> (Inl err, ed)
              | Inr _ \<Rightarrow> (Inr (), (beginChange ed)\<lparr>te_segments := normalizeOrdinals candidate\<rparr>))"

definition remove_segment :: "int \<Rightarrow> transcript_editor \<Rightarrow> edit_outcome" where
  "remove_segment index ed =
     (if \<not> index_ok index ed then edit_failure NotFound ed
      else let ed' = beginChange ed; ss = te_segments ed'; i = nat index
           in (Inr (), ed'\<lparr>te_segments := normalizeOrdinals (take i ss @ drop (i + 1) ss)\<rparr>))"

definition setTimeRange :: "int \<Rightarrow> int \<Rightarrow> int \<Rightarrow> transcript_editor \<Rightarrow> edit_outcome" where
  "setTimeRange index startMs endMs ed =
     (if \<not> index_ok index ed then edit_failure NotFound ed
      else let i = nat index;
               candidate = (te_segments ed)[i :=
                 (te_segments ed ! i)\<lparr>ts_startMs := startMs, ts_endMs := endMs\<rparr>]
           in case validateCandidate candidate of
                Inl err \<Rightarrow> (Inl err, ed)
              | Inr _ \<Rightarrow> (Inr (), (beginChange ed)\<lparr>te_segments := candidate\<rparr>))"

definition undo :: "transcript_editor \<Rightarrow> edit_outcome" where
  "undo ed =
     (if te_undo ed = [] then edit_failure InvalidStateTransition ed
      else (Inr (), ed\<lparr>te_redo := te_redo ed @ [te_segments ed], te_segments := last (te_undo ed),
                      te_undo := butlast (te_undo ed)\<rparr>))"

definition redo :: "transcript_editor \<Rightarrow> edit_outcome" where
  "redo ed =
     (if te_redo ed = [] then edit_failure InvalidStateTransition ed
      else (Inr (), ed\<lparr>te_undo := te_undo ed @ [te_segments ed], te_segments := last (te_redo ed),
                      te_redo := butlast (te_redo ed)\<rparr>))"

datatype edit =
  EditText int int qstring | Split int "string \<times> string" int int int | MergePrevious int int
  | MergeNext int int | Insert string int transcript_segment | Remove int | SetTimeRange int int int
  | Undo | Redo

fun apply_edit :: "unicode \<Rightarrow> transcript_editor \<Rightarrow> edit \<Rightarrow> edit_outcome" where
  "apply_edit uc ed (EditText now i t) = editText now i t ed"
| "apply_edit uc ed (Split now ids i ms off) = split_segment uc now ids i ms off ed"
| "apply_edit uc ed (MergePrevious now i) = mergeWithPrevious uc now i ed"
| "apply_edit uc ed (MergeNext now i) = mergeWithNext uc now i ed"
| "apply_edit uc ed (Insert uuid i s) = insert_segment uuid i s ed"
| "apply_edit uc ed (Remove i) = remove_segment i ed"
| "apply_edit uc ed (SetTimeRange i a b) = setTimeRange i a b ed"
| "apply_edit uc ed Undo = undo ed"
| "apply_edit uc ed Redo = redo ed"

subsection \<open>Segments stay a timeline\<close>

definition timeline_ok :: "transcript_segment list \<Rightarrow> bool" where
  "timeline_ok ss \<longleftrightarrow> (\<forall>s \<in> set ss. 0 \<le> ts_startMs s \<and> ts_startMs s < ts_endMs s)
     \<and> sorted_wrt (\<lambda>a b. ts_endMs a \<le> ts_startMs b) ss"

lemma validate_from_iff:
  "validate_from e ss \<longleftrightarrow> timeline_ok ss \<and> (ss = [] \<or> e \<le> ts_startMs (hd ss))"
proof (induction ss arbitrary: e)
  case Nil
  then show ?case by (simp add: timeline_ok_def)
next
  case (Cons s ss)
  have "(\<forall>t \<in> set ss. ts_endMs s \<le> ts_startMs t)"
    if "timeline_ok ss" "ss = [] \<or> ts_endMs s \<le> ts_startMs (hd ss)"
    using that by (cases ss) (fastforce simp: timeline_ok_def)+
  moreover have "ss = [] \<or> ts_endMs s \<le> ts_startMs (hd ss)"
    if "\<forall>t \<in> set ss. ts_endMs s \<le> ts_startMs t"
    using that by (cases ss) auto
  ultimately show ?case using Cons.IH[of "ts_endMs s"] by (auto simp: timeline_ok_def)
qed

lemma validateCandidate_if:
  "validateCandidate ss = (if timeline_ok ss then Inr () else Inl (validation_error InvalidArgument))"
proof -
  have "timeline_ok ss \<Longrightarrow> ss = [] \<or> -1 \<le> ts_startMs (hd ss)"
    by (cases ss) (auto simp: timeline_ok_def)
  then show ?thesis by (auto simp: validateCandidate_def validate_from_iff)
qed

interpretation transcript: timeline ts_startMs ts_endMs timeline_ok
proof unfold_locales
  fix xs :: "transcript_segment list" and i
  assume "timeline_ok xs" "Suc i < length xs"
  then show "ts_endMs (xs ! i) \<le> ts_startMs (xs ! Suc i)"
    by (simp add: timeline_ok_def sorted_wrt_iff_nth_less)
qed (simp add: timeline_ok_def)

definition ordinals_ok :: "transcript_segment list \<Rightarrow> bool" where
  "ordinals_ok ss \<longleftrightarrow> (\<forall>i < length ss. ts_ordinal (ss ! i) = int i)"

definition segments_ok :: "transcript_segment list \<Rightarrow> bool" where
  "segments_ok ss \<longleftrightarrow> timeline_ok ss \<and> ordinals_ok ss"

definition editor_ok :: "transcript_editor \<Rightarrow> bool" where
  "editor_ok ed \<longleftrightarrow> segments_ok (te_segments ed)
     \<and> (\<forall>h \<in> set (te_undo ed) \<union> set (te_redo ed). segments_ok h)
     \<and> length (te_undo ed) + length (te_redo ed) \<le> MaximumUndoSteps"

lemma timeline_times:
  assumes "map (\<lambda>s. (ts_startMs s, ts_endMs s)) ss = map (\<lambda>s. (ts_startMs s, ts_endMs s)) ts"
  shows "timeline_ok ss \<longleftrightarrow> timeline_ok ts"
proof -
  have len: "length ss = length ts" using assms map_eq_imp_length_eq by blast
  have "ts_startMs (ss ! i) = ts_startMs (ts ! i) \<and> ts_endMs (ss ! i) = ts_endMs (ts ! i)"
    if "i < length ts" for i
    using arg_cong[OF assms, of "\<lambda>l. l ! i"] that len by simp
  then show ?thesis
    unfolding timeline_ok_def sorted_wrt_iff_nth_less all_set_conv_all_nth using len by auto
qed

lemma normalize_times:
  "map (\<lambda>s. (ts_startMs s, ts_endMs s)) (normalizeOrdinals ss) = map (\<lambda>s. (ts_startMs s, ts_endMs s)) ss"
  by (rule nth_equalityI) (simp_all add: normalizeOrdinals_def nth_enumerate_eq)

lemma normalize_ok: "timeline_ok ss \<Longrightarrow> segments_ok (normalizeOrdinals ss)"
  using timeline_times[OF normalize_times[of ss]]
  by (simp add: segments_ok_def ordinals_ok_def normalizeOrdinals_def nth_enumerate_eq)

lemma timeline_replace:
  assumes "timeline_ok (xs @ s # ys)" "timeline_ok zs" "zs \<noteq> []"
    and "ts_startMs (hd zs) = ts_startMs s" "ts_endMs (last zs) = ts_endMs s"
  shows "timeline_ok (xs @ zs @ ys)"
proof -
  have "ts_startMs (hd zs) \<le> ts_startMs z \<and> ts_endMs z \<le> ts_endMs (last zs)" if "z \<in> set zs" for z
  proof -
    obtain i where i: "i < length zs" "zs ! i = z" using \<open>z \<in> set zs\<close> by (auto simp: in_set_conv_nth)
    have "ts_startMs (zs ! 0) \<le> ts_startMs (zs ! i)"
      using transcript.starts_increase[OF assms(2), of 0 i] i by (cases "i = 0") auto
    moreover have "ts_endMs (zs ! i) \<le> ts_endMs (zs ! (length zs - 1))"
    proof (cases "i = length zs - 1")
      case False
      then have "i < length zs - 1" "length zs - 1 < length zs" using i(1) by linarith+
      then have "ts_endMs (zs ! i) \<le> ts_startMs (zs ! (length zs - 1))"
        and "ts_startMs (zs ! (length zs - 1)) < ts_endMs (zs ! (length zs - 1))"
        using transcript.ok_order[OF assms(2)] transcript.ok_range[OF assms(2)] nth_mem by blast+
      then show ?thesis by simp
    qed simp
    ultimately show ?thesis using i assms(3) by (simp add: hd_conv_nth last_conv_nth)
  qed
  then show ?thesis using assms unfolding timeline_ok_def sorted_wrt_append by fastforce
qed

lemma timeline_drop: "timeline_ok (xs @ ys @ zs) \<Longrightarrow> timeline_ok (xs @ zs)"
  by (auto simp: timeline_ok_def sorted_wrt_append)

lemma split_at: "i < length ss \<Longrightarrow> ss = take i ss @ ss ! i # drop (i + 1) ss"
  by (simp add: id_take_nth_drop)

lemma split_at2: "0 < i \<Longrightarrow> i < length ss \<Longrightarrow>
    ss = take (i - 1) ss @ ss ! (i - 1) # ss ! i # drop (i + 1) ss"
  using split_at[of "i - 1" ss] Cons_nth_drop_Suc[of i ss] by simp

lemma begin_fields [simp]: "te_segments (beginChange ed) = te_segments ed" "te_redo (beginChange ed) = []"
  by (simp_all add: beginChange_def Let_def)

lemma begin_undo:
  "editor_ok ed \<Longrightarrow> length (te_undo (beginChange ed)) \<le> MaximumUndoSteps
     \<and> (\<forall>h \<in> set (te_undo (beginChange ed)). segments_ok h)"
  by (cases "te_undo ed") (auto simp: beginChange_def Let_def editor_ok_def)

lemma change_ok:
  assumes "editor_ok ed" "segments_ok ss"
  shows "editor_ok ((beginChange ed)\<lparr>te_segments := ss\<rparr>)"
  using begin_undo[OF assms(1)] assms(2) by (simp add: editor_ok_def)

lemma merge_pair_times [simp]:
  "ts_startMs (merge_pair uc now p c) = ts_startMs p" "ts_endMs (merge_pair uc now p c) = ts_endMs c"
  by (simp_all add: merge_pair_def Let_def)

text \<open>What each successful operation does to the segments.\<close>

lemma editText_ok: "editor_ok ed \<Longrightarrow> editor_ok (snd (editText now i t ed))"
proof (cases "index_ok i ed")
  case True
  assume ok: "editor_ok ed"
  let ?ss = "te_segments ed"
  let ?new = "?ss[nat i := (?ss ! nat i)\<lparr>ts_editedText := t, ts_updatedAt := Some now\<rparr>]"
  have len: "nat i < length ?ss" using True by (auto simp: index_ok_def)
  then have "map (\<lambda>s. (ts_startMs s, ts_endMs s)) ?new = map (\<lambda>s. (ts_startMs s, ts_endMs s)) ?ss"
    by (simp add: map_update list_update_same_conv)
  moreover have "ordinals_ok ?new" if "ordinals_ok ?ss"
    using that len by (simp add: ordinals_ok_def nth_list_update)
  ultimately have "segments_ok ?new"
    using ok timeline_times[of ?new ?ss] by (simp add: editor_ok_def segments_ok_def)
  then show ?thesis using True change_ok[OF ok] by (simp add: editText_def Let_def)
qed (simp add: editText_def edit_failure_def)

lemma split_halves_times:
  "split_halves uc now ids s ms off = (l, r) \<Longrightarrow>
     ts_startMs l = ts_startMs s \<and> ts_endMs l = ms \<and> ts_startMs r = ms \<and> ts_endMs r = ts_endMs s"
  by (auto simp: split_halves_def Let_def)

lemma split_ok: "editor_ok ed \<Longrightarrow> editor_ok (snd (split_segment uc now ids i ms off ed))"
proof -
  assume ok: "editor_ok ed"
  let ?ss = "te_segments ed" and ?s = "te_segments ed ! nat i"
  obtain l r where lr: "split_halves uc now ids ?s ms off = (l, r)" by fastforce
  note times = split_halves_times[OF lr]
  have "segments_ok (normalizeOrdinals (take (nat i) ?ss @ l # r # drop (nat i + 1) ?ss))"
    if "index_ok i ed" "ts_startMs ?s < ms" "ms < ts_endMs ?s"
  proof -
    have len: "nat i < length ?ss" using that(1) by (auto simp: index_ok_def)
    have tl: "timeline_ok (take (nat i) ?ss @ ?s # drop (nat i + 1) ?ss)"
      using ok split_at[OF len] by (simp add: editor_ok_def segments_ok_def)
    then have "0 \<le> ts_startMs ?s" by (simp add: timeline_ok_def)
    then have "timeline_ok [l, r]" using times that(2,3) by (simp add: timeline_ok_def)
    then have "timeline_ok (take (nat i) ?ss @ [l, r] @ drop (nat i + 1) ?ss)"
      using times by (intro timeline_replace[OF tl]) simp_all
    then show ?thesis by (intro normalize_ok) simp
  qed
  then show ?thesis
    using ok change_ok[OF ok] lr
    by (auto simp: split_segment_def edit_failure_def Let_def not_le)
qed

lemma merge_ok: "editor_ok ed \<Longrightarrow> editor_ok (snd (mergeWithPrevious uc now i ed))"
proof -
  assume ok: "editor_ok ed"
  let ?ss = "te_segments ed" and ?n = "nat i"
  let ?m = "merge_pair uc now (te_segments ed ! (nat i - 1)) (te_segments ed ! nat i)"
  have "segments_ok (normalizeOrdinals (take (?n - 1) ?ss @ ?m # drop (?n + 1) ?ss))"
    if "0 < i" "i < int (length ?ss)"
  proof -
    have n: "0 < ?n" "?n < length ?ss" using that by linarith+
    define xs p c ys where d: "xs = take (?n - 1) ?ss" "p = ?ss ! (?n - 1)" "c = ?ss ! ?n"
      "ys = drop (?n + 1) ?ss"
    have tl: "timeline_ok (xs @ p # c # ys)"
      using ok split_at2[OF n] by (simp add: editor_ok_def segments_ok_def d)
    then have "timeline_ok [merge_pair uc now p c]"
      by (auto simp: timeline_ok_def sorted_wrt_append)
    moreover from this have "timeline_ok (xs @ merge_pair uc now p c # ys)"
      using tl by (auto simp: timeline_ok_def sorted_wrt_append)
    ultimately show ?thesis by (simp add: normalize_ok d)
  qed
  then show ?thesis
    using ok change_ok[OF ok] by (auto simp: mergeWithPrevious_def edit_failure_def Let_def not_le)
qed

lemma insert_ok: "editor_ok ed \<Longrightarrow> editor_ok (snd (insert_segment uuid i s ed))"
  by (auto simp: insert_segment_def edit_failure_def Let_def validateCandidate_if
      intro!: change_ok normalize_ok)

lemma remove_ok: "editor_ok ed \<Longrightarrow> editor_ok (snd (remove_segment i ed))"
proof -
  assume ok: "editor_ok ed"
  let ?ss = "te_segments ed"
  have "segments_ok (normalizeOrdinals (take (nat i) ?ss @ drop (nat i + 1) ?ss))" if "index_ok i ed"
  proof -
    have len: "nat i < length ?ss" using that by (auto simp: index_ok_def)
    have "timeline_ok (take (nat i) ?ss @ [?ss ! nat i] @ drop (nat i + 1) ?ss)"
      using ok split_at[OF len] by (simp add: editor_ok_def segments_ok_def)
    from normalize_ok[OF timeline_drop[OF this]] show ?thesis .
  qed
  then show ?thesis
    using ok change_ok[OF ok] by (auto simp: remove_segment_def edit_failure_def Let_def)
qed

lemma setTimeRange_ok: "editor_ok ed \<Longrightarrow> editor_ok (snd (setTimeRange i a b ed))"
proof -
  assume ok: "editor_ok ed"
  let ?c = "(te_segments ed)[nat i := (te_segments ed ! nat i)\<lparr>ts_startMs := a, ts_endMs := b\<rparr>]"
  show ?thesis
  proof (cases "index_ok i ed")
    case True
    then have "nat i < length (te_segments ed)" by (auto simp: index_ok_def)
    then have ord: "ordinals_ok ?c"
      using ok by (simp add: editor_ok_def segments_ok_def ordinals_ok_def nth_list_update)
    then show ?thesis
      using True ok change_ok[OF ok, of ?c]
      by (cases "timeline_ok ?c") (simp_all add: setTimeRange_def Let_def validateCandidate_if segments_ok_def)
  qed (use ok in \<open>simp add: setTimeRange_def edit_failure_def\<close>)
qed

lemma undo_ok: "editor_ok ed \<Longrightarrow> editor_ok (snd (undo ed))"
  by (cases "te_undo ed" rule: rev_cases)
    (auto simp: undo_def edit_failure_def editor_ok_def)

lemma redo_ok: "editor_ok ed \<Longrightarrow> editor_ok (snd (redo ed))"
  by (cases "te_redo ed" rule: rev_cases)
    (auto simp: redo_def edit_failure_def editor_ok_def)

interpretation editor: machine "\<lambda>ed e. snd (apply_edit uc ed e)" editor_ok for uc
proof unfold_locales
  fix ed e
  assume "editor_ok ed"
  then show "editor_ok (snd (apply_edit uc ed e))"
    using merge_ok
    by (cases e) (auto simp: editText_ok split_ok insert_ok remove_ok setTimeRange_ok undo_ok redo_ok
        mergeWithNext_def edit_failure_def)
qed

subsection \<open>Properties\<close>

text \<open>
  C29: Editing keeps a transcript well-formed. Starting from segments that are in order,
  non-empty and not before 0, after any sequence of edits, splits, merges, insertions,
  removals, time changes, undos and redos, successful or not, the segments are again such a
  timeline, their ordinals are 0, 1, 2 and so on, and at most 200 steps are kept.
\<close>

theorem transcript_stays_valid:
  assumes "timeline_ok segments"
    and "ed = foldl (\<lambda>ed e. snd (apply_edit uc ed e)) (setSegments segments ed0) edits"
  shows "timeline_ok (te_segments ed) \<and> (\<forall>i < length (te_segments ed). ts_ordinal (te_segments ed ! i) = int i)
    \<and> length (te_undo ed) + length (te_redo ed) \<le> 200"
proof -
  have "editor_ok (setSegments segments ed0)"
    using normalize_ok[OF assms(1)] by (simp add: editor_ok_def setSegments_def)
  then have "editor_ok ed" unfolding assms(2) by (rule editor.run_inv)
  then show ?thesis by (simp add: editor_ok_def segments_ok_def ordinals_ok_def MaximumUndoSteps_def)
qed

theorem transcript_stays_valid_witness:
  "timeline_ok (te_segments (foldl (\<lambda>ed e. snd (apply_edit ascii ed e))
     (setSegments [empty_segment\<lparr>ts_endMs := 9\<rparr>] \<lparr>te_segments = [], te_undo = [], te_redo = []\<rparr>)
     [SetTimeRange 0 2 7, Undo, Remove 5, Redo]))"
  by (rule conjunct1[OF transcript_stays_valid[OF _ refl]]) (simp add: timeline_ok_def empty_segment_def)

text \<open>
  C30: Every change can be undone and redone. After a successful edit, undo succeeds and
  restores exactly the segments before it, and redo then leads back to exactly the state
  after it; a failed edit changes nothing.
\<close>

theorem undo_inverts_edit:
  assumes "apply_edit uc ed e = (r, ed')" and "e \<noteq> Undo" and "e \<noteq> Redo"
  shows "if is_ok r then fst (undo ed') = Inr () \<and> te_segments (snd (undo ed')) = te_segments ed
           \<and> redo (snd (undo ed')) = (Inr (), ed')
         else ed' = ed"
proof -
  have "r = Inr () \<and> (\<exists>ss. ed' = (beginChange ed)\<lparr>te_segments := ss\<rparr>) \<or> (\<exists>x. r = Inl x) \<and> ed' = ed"
    using assms by (cases e)
      (auto simp: editText_def split_segment_def mergeWithPrevious_def mergeWithNext_def
        insert_segment_def remove_segment_def setTimeRange_def edit_failure_def Let_def
        validateCandidate_if split: if_splits prod.splits)
  then consider (ok) ss where "r = Inr ()" "ed' = (beginChange ed)\<lparr>te_segments := ss\<rparr>"
    | (failed) x where "r = Inl x" "ed' = ed" by blast
  then show ?thesis
  proof cases
    case ok
    have "te_undo (beginChange ed) \<noteq> [] \<and> last (te_undo (beginChange ed)) = te_segments ed"
      by (cases "te_undo ed") (auto simp: beginChange_def Let_def MaximumUndoSteps_def)
    then obtain us where us: "te_undo (beginChange ed) = us @ [te_segments ed]"
      by (metis append_butlast_last_id)
    show ?thesis
    proof (cases "beginChange ed")
      case (fields segs undos redos)
      then show ?thesis
        using ok us begin_fields[of ed] by (simp add: undo_def redo_def)
    qed
  next
    case failed
    then show ?thesis by simp
  qed
qed

theorem undo_inverts_edit_witness:
  "te_segments (snd (undo (snd (apply_edit ascii
      (setSegments [empty_segment\<lparr>ts_endMs := 9\<rparr>] \<lparr>te_segments = [], te_undo = [], te_redo = []\<rparr>)
      (EditText 1 0 (lit ''x'')))))) = normalizeOrdinals [empty_segment\<lparr>ts_endMs := 9\<rparr>]"
  using undo_inverts_edit[OF surjective_pairing, of "EditText 1 0 (lit ''x'')" ascii
      "setSegments [empty_segment\<lparr>ts_endMs := 9\<rparr>] \<lparr>te_segments = [], te_undo = [], te_redo = []\<rparr>"]
  by (simp add: editText_def index_ok_def setSegments_def normalizeOrdinals_def Let_def)

text \<open>
  What a merged segment shows. If the first segment was edited, the merged one shows
  both texts joined; if it was not, the text of the second segment appears twice, because
  the original texts are joined before the text to display is read.
\<close>

theorem merged_display_text:
  "displayText (merge_pair uc now p c) =
     (if ts_editedText p \<noteq> [] then joinText uc (displayText p) (displayText c)
      else joinText uc (joinText uc (ts_originalText p) (ts_originalText c)) (displayText c))"
  by (auto simp: merge_pair_def displayText_def joinText_def Let_def)

end
