(* ===== verification/TextFormats.thy ===== *)
theory TextFormats
  imports QText
begin

text \<open>
  The text formats of \<^verbatim>\<open>core/TimeUtils\<close>, \<^verbatim>\<open>core/TextUtils\<close> and the CSV reader of
  \<^verbatim>\<open>glossary/GlossarySerializer.cpp\<close>: clock times, line endings, CSV fields. \<open>decimal\<close> is
  \<open>QString::number\<close> in base 10; \<open>padded\<close> is \<open>QString::arg\<close> with a field width and zeros.
\<close>

definition digit :: "nat \<Rightarrow> qchar" where
  "digit n = of_nat (48 + n)"

fun decimal_nat :: "nat \<Rightarrow> qstring" where
  "decimal_nat n = (if n < 10 then [digit n] else decimal_nat (n div 10) @ [digit (n mod 10)])"

declare decimal_nat.simps [simp del]

definition decimal :: "int \<Rightarrow> qstring" where
  "decimal i = (if i < 0 then lit ''-'' @ decimal_nat (nat (- i)) else decimal_nat (nat i))"

definition padded :: "nat \<Rightarrow> int \<Rightarrow> qstring" where
  "padded width i = replicate (width - length (decimal i)) (digit 0) @ decimal i"

definition formatClock :: "int \<Rightarrow> qchar \<Rightarrow> qstring" where
  "formatClock milliseconds decimalSeparator =
     (let bounded = max 0 milliseconds;
          hours = bounded div 3600000;
          minutes = (bounded div 60000) mod 60;
          seconds = (bounded div 1000) mod 60;
          millis = bounded mod 1000
      in padded 2 hours @ lit '':'' @ padded 2 minutes @ lit '':'' @ padded 2 seconds
         @ [decimalSeparator] @ padded 3 millis)"

fun replaceCrLf :: "qstring \<Rightarrow> qstring" where
  "replaceCrLf [] = []"
| "replaceCrLf [c] = [c]"
| "replaceCrLf (c # d # cs) =
     (if c = 0x0D \<and> d = 0x0A then 0x0A # replaceCrLf cs else c # replaceCrLf (d # cs))"

definition normalizedLineEndings :: "qstring \<Rightarrow> qstring" where
  "normalizedLineEndings s = map (\<lambda>c. if c = 0x0D then 0x0A else c) (replaceCrLf s)"

definition doubleQuotes :: "qstring \<Rightarrow> qstring" where
  "doubleQuotes s = concat (map (\<lambda>c. if c = 0x22 then [0x22, 0x22] else [c]) s)"

definition csvField :: "qstring \<Rightarrow> qstring" where
  "csvField s = [0x22] @ doubleQuotes (normalizedLineEndings s) @ [0x22]"

text \<open>
  \<open>parseCsv\<close>: the loop over the characters with its four variables; the result is the rows
  and whether the text ended outside quotes.
\<close>

fun parse_csv_loop ::
  "qstring \<Rightarrow> qstring list list \<Rightarrow> qstring list \<Rightarrow> qstring \<Rightarrow> bool \<Rightarrow> qstring list list \<times> bool" where
  "parse_csv_loop [] rows row field quoted =
     ((if field \<noteq> [] \<or> row \<noteq> [] then rows @ [row @ [field]] else rows), \<not> quoted)"
| "parse_csv_loop (c # cs) rows row field quoted =
     (if quoted then
        (case cs of
           d # ds \<Rightarrow>
             if c = 0x22 \<and> d = 0x22 then parse_csv_loop ds rows row (field @ [c]) True
             else if c = 0x22 then parse_csv_loop cs rows row field False
             else parse_csv_loop cs rows row (field @ [c]) True
         | [] \<Rightarrow>
             if c = 0x22 then parse_csv_loop cs rows row field False
             else parse_csv_loop cs rows row (field @ [c]) True)
      else if c = 0x22 \<and> field = [] then parse_csv_loop cs rows row field True
      else if c = 0x2C then parse_csv_loop cs rows (row @ [field]) [] False
      else if c = 0x0A then parse_csv_loop cs (rows @ [row @ [field]]) [] [] False
      else if c \<noteq> 0x0D then parse_csv_loop cs rows row (field @ [c]) False
      else parse_csv_loop cs rows row field False)"

definition parseCsv :: "qstring \<Rightarrow> qstring list list \<times> bool" where
  "parseCsv s = parse_csv_loop s [] [] [] False"

subsection \<open>Decimal numbers\<close>

lemma unat_digit: "n < 10 \<Longrightarrow> unat (digit n) = 48 + n"
  by (simp only: digit_def unat_of_nat) simp

lemma digit_inj: "m < 10 \<Longrightarrow> n < 10 \<Longrightarrow> digit m = digit n \<longleftrightarrow> m = n"
  using unat_digit[of m] unat_digit[of n] by (metis add_left_cancel)

lemma decimal_nat_not_Nil [simp]: "decimal_nat n \<noteq> []"
  by (subst decimal_nat.simps) simp

lemma decimal_digits: "c \<in> set (decimal_nat n) \<Longrightarrow> \<exists>k < 10. c = digit k"
proof (induction n rule: decimal_nat.induct)
  case (1 n)
  show ?case
  proof (cases "n < 10")
    case True
    then show ?thesis using 1(2) by (subst (asm) decimal_nat.simps) auto
  next
    case False
    then have "c \<in> set (decimal_nat (n div 10)) \<or> c = digit (n mod 10)"
      using 1(2) by (subst (asm) decimal_nat.simps) auto
    then show ?thesis using 1(1)[OF False] by (auto intro: exI[of _ "n mod 10"])
  qed
qed

text \<open>The value of a string of digits.\<close>

definition digits_value :: "qstring \<Rightarrow> nat" where
  "digits_value s = foldl (\<lambda>v c. v * 10 + (unat c - 48)) 0 s"

lemma digits_value_snoc: "digits_value (s @ [c]) = digits_value s * 10 + (unat c - 48)"
  by (simp add: digits_value_def)

lemma digits_value_decimal [simp]: "digits_value (decimal_nat n) = n"
proof (induction n rule: decimal_nat.induct)
  case (1 n)
  show ?case
  proof (cases "n < 10")
    case True
    then show ?thesis by (subst decimal_nat.simps) (simp add: digits_value_def unat_digit)
  next
    case False
    then have "decimal_nat n = decimal_nat (n div 10) @ [digit (n mod 10)]"
      by (subst decimal_nat.simps) simp
    then show ?thesis using 1[OF False] by (simp add: digits_value_snoc unat_digit)
  qed
qed

lemma digits_value_zeros: "digits_value (replicate k (digit 0) @ s) = digits_value s"
proof (induction k)
  case (Suc k)
  have "foldl (\<lambda>v c. v * 10 + (unat c - 48)) 0 (digit 0 # t) = digits_value t" for t
    by (simp add: digits_value_def unat_digit)
  then show ?case using Suc by (simp add: digits_value_def)
qed simp

lemma digits_value_padded: "0 \<le> i \<Longrightarrow> int (digits_value (padded w i)) = i"
  by (simp add: padded_def digits_value_zeros decimal_def)

lemma length_decimal: "n < 10 ^ Suc k \<Longrightarrow> length (decimal_nat n) \<le> Suc k"
proof (induction k arbitrary: n)
  case 0
  then show ?case by (subst decimal_nat.simps) simp
next
  case (Suc k)
  show ?case
  proof (cases "n < 10")
    case True
    then show ?thesis by (subst decimal_nat.simps) simp
  next
    case False
    have "n div 10 < 10 ^ Suc k" using Suc.prems by (simp add: less_mult_imp_div_less)
    then show ?thesis using Suc.IH False by (subst decimal_nat.simps) simp
  qed
qed

lemma length_padded: "0 \<le> i \<Longrightarrow> i < 10 ^ Suc k \<Longrightarrow> length (padded (Suc k) i) = Suc k"
proof -
  assume "0 \<le> i" "i < 10 ^ Suc k"
  then have "length (decimal_nat (nat i)) \<le> Suc k"
    by (intro length_decimal) (metis nat_less_iff of_nat_numeral of_nat_power)
  then show ?thesis using \<open>0 \<le> i\<close> by (simp add: padded_def decimal_def)
qed

lemma append_split_left: "a @ x = b @ y \<Longrightarrow> length a = length b \<Longrightarrow> a = b \<and> x = y"
  by simp

lemma append_split_right: "a @ x = b @ y \<Longrightarrow> length x = length y \<Longrightarrow> a = b \<and> x = y"
  by simp

lemma mixed_radix:
  "e = a * 60 + b \<Longrightarrow> x = e * 60 + c \<Longrightarrow> ms = x * 1000 + d
   \<Longrightarrow> a * 3600000 + b * 60000 + c * 1000 + d = (ms::int)"
  by simp

text \<open>The reading of a clock time, from its end: milliseconds, seconds, minutes, hours.\<close>

definition clock_value :: "qstring \<Rightarrow> int" where
  "clock_value t = (let n = length t in
     int (digits_value (take (n - 10) t)) * 3600000 + int (digits_value (take 2 (drop (n - 9) t))) * 60000
     + int (digits_value (take 2 (drop (n - 6) t))) * 1000 + int (digits_value (drop (n - 3) t)))"

lemma clock_value_parts:
  assumes "length m = 2" "length s = 2" "length f = 3"
  shows "clock_value (h @ lit '':'' @ m @ lit '':'' @ s @ [sep] @ f) =
    int (digits_value h) * 3600000 + int (digits_value m) * 60000
    + int (digits_value s) * 1000 + int (digits_value f)"
proof -
  have "length (lit '':'') = 1" by (simp add: lit_def)
  then obtain colon where c: "lit '':'' = [colon]" by (cases "lit '':''") auto
  show ?thesis using assms by (simp add: clock_value_def Let_def c)
qed

text \<open>
  a clock time written by \<open>formatClock\<close> reads back as the milliseconds it was written from
  (negative times as zero): the fields carry into each other without loss, whatever the
  separator and however many hours there are.
\<close>

theorem clock_reads_back: "clock_value (formatClock ms sep) = max 0 ms"
proof -
  define t where "t = max 0 ms"
  have t: "0 \<le> t" by (simp add: t_def)
  let ?h = "padded 2 (t div 3600000)" and ?m = "padded 2 (t div 60000 mod 60)"
    and ?s = "padded 2 (t div 1000 mod 60)" and ?f = "padded 3 (t mod 1000)"
  have lens: "length ?m = 2" "length ?s = 2" "length ?f = 3"
    using length_padded[of "t div 60000 mod 60" 1] length_padded[of "t div 1000 mod 60" 1]
      length_padded[of "t mod 1000" 2] by (simp_all add: numeral_2_eq_2 numeral_3_eq_3)
  have nn: "0 \<le> t div 3600000" "0 \<le> t div 60000 mod 60" "0 \<le> t div 1000 mod 60" "0 \<le> t mod 1000"
    using t by (simp_all add: pos_imp_zdiv_nonneg_iff)
  have "clock_value (formatClock ms sep)
      = t div 3600000 * 3600000 + t div 60000 mod 60 * 60000 + t div 1000 mod 60 * 1000 + t mod 1000"
    unfolding formatClock_def Let_def t_def[symmetric] clock_value_parts[OF lens]
    by (simp only: digits_value_padded nn)
  moreover have "t div 60000 = t div 1000 div 60" "t div 3600000 = t div 60000 div 60"
    by (simp_all add: zdiv_zmult2_eq[symmetric])
  then have "t div 3600000 * 3600000 + t div 60000 mod 60 * 60000 + t div 1000 mod 60 * 1000 + t mod 1000 = t"
    by (intro mixed_radix[of "t div 60000" _ _ "t div 1000"]) (simp_all only: div_mult_mod_eq)
  ultimately show ?thesis unfolding t_def by simp
qed

subsection \<open>CSV fields\<close>

lemma parse_quoted:
  assumes "rest = [] \<or> hd rest \<noteq> 0x22"
  shows "parse_csv_loop (doubleQuotes v @ 0x22 # rest) rows row field True
     = parse_csv_loop rest rows row (field @ v) False"
proof (induction v arbitrary: field)
  case Nil
  show ?case using assms by (cases rest) (simp_all add: doubleQuotes_def)
next
  case (Cons c v)
  have dq: "doubleQuotes (c # v) = (if c = 0x22 then [0x22, 0x22] else [c]) @ doubleQuotes v"
    by (simp add: doubleQuotes_def)
  define u where "u = doubleQuotes v @ 0x22 # rest"
  then have "u \<noteq> []" by simp
  then obtain d ds where d: "u = d # ds" by (cases u) auto
  have "parse_csv_loop (doubleQuotes (c # v) @ 0x22 # rest) rows row field True
      = parse_csv_loop u rows row (field @ [c]) True"
  proof (cases "c = 0x22")
    case True
    then have "doubleQuotes (c # v) @ 0x22 # rest = 0x22 # 0x22 # u" unfolding dq u_def by simp
    then show ?thesis using True by simp
  next
    case False
    then have "doubleQuotes (c # v) @ 0x22 # rest = c # u" unfolding dq u_def by simp
    then show ?thesis using False d by simp
  qed
  then show ?case using Cons[of "field @ [c]"] by (simp add: u_def)
qed

lemma parse_csvField:
  assumes "rest = [] \<or> hd rest \<noteq> 0x22"
  shows "parse_csv_loop (csvField t @ rest) rows row [] False
     = parse_csv_loop rest rows row (normalizedLineEndings t) False"
  using parse_quoted[OF assms, of "normalizedLineEndings t" rows row "[]"]
  by (simp add: csvField_def)

lemma parse_plain:
  assumes "list_all (\<lambda>c. c \<notin> {0x22, 0x2C, 0x0A, 0x0D}) v"
  shows "parse_csv_loop (v @ rest) rows row field False
     = parse_csv_loop rest rows row (field @ v) False"
  using assms by (induction v arbitrary: field) simp_all

lemma parse_comma [simp]:
  "parse_csv_loop (0x2C # rest) rows row field False = parse_csv_loop rest rows (row @ [field]) [] False"
  by simp

lemma parse_newline [simp]:
  "parse_csv_loop (0x0A # rest) rows row field False
     = parse_csv_loop rest (rows @ [row @ [field]]) [] [] False"
  by simp

end
