(* ===== verification/GlossaryCsv.thy ===== *)
theory GlossaryCsv
  imports TextFormats Prompts
begin

text \<open>
  \<^verbatim>\<open>glossary/GlossarySerializer.cpp\<close>, \<open>termsToCsv\<close> and \<open>termsFromCsv\<close>. The UTF-8 codec and
  \<open>QString::toInt\<close> are parameters; \<open>utf8_text\<close> and \<open>reads_int\<close> state what Qt documents of them
  for one text and one number. The last section proves the round trip.
\<close>

type_synonym byte_string = "8 word list"

definition utf8_bom :: byte_string where
  "utf8_bom = [0xEF, 0xBB, 0xBF]"

definition csv_header :: "qstring list" where
  "csv_header = map lit [''canonical_text'', ''aliases'', ''category'', ''language'', ''priority'',
     ''case_sensitive'', ''enabled'', ''notes'']"

definition bool_text :: "bool \<Rightarrow> qstring" where
  "bool_text b = (if b then lit ''true'' else lit ''false'')"

definition term_row :: "glossary_term \<Rightarrow> qstring" where
  "term_row t = join (lit '','')
     [csvField (gt_canonicalText t), csvField (join (lit ''|'') (gt_aliases t)),
      csvField (gt_category t), csvField (gt_language t), decimal (gt_priority t),
      bool_text (gt_caseSensitive t), bool_text (gt_enabled t), csvField (gt_notes t)]"

definition terms_csv_text :: "glossary_term list \<Rightarrow> qstring" where
  "terms_csv_text terms =
     foldl (\<lambda>output t. (output @ term_row t) @ [0x0A])
       (lit ''canonical_text,aliases,category,language,priority,case_sensitive,enabled,notes'' @ [0x0A]) terms"

definition termsToCsv :: "(qstring \<Rightarrow> byte_string) \<Rightarrow> glossary_term list \<Rightarrow> bool \<Rightarrow> byte_string" where
  "termsToCsv toUtf8 terms withBom =
     (let bytes = toUtf8 (terms_csv_text terms) in if withBom then utf8_bom @ bytes else bytes)"

fun split_on :: "qchar \<Rightarrow> qstring \<Rightarrow> qstring list" where
  "split_on sep [] = [[]]"
| "split_on sep (c # cs) =
     (if c = sep then [] # split_on sep cs
      else case split_on sep cs of [] \<Rightarrow> [[c]] | w # ws \<Rightarrow> (c # w) # ws)"

definition row_term ::
  "unicode \<Rightarrow> string \<Rightarrow> qstring list \<Rightarrow> int \<Rightarrow> glossary_term" where
  "row_term uc profileId row priority =
     \<lparr>gt_id = [], gt_profileId = profileId,
      gt_canonicalText = trimmed uc (row ! 0),
      gt_aliases = filter (\<lambda>a. a \<noteq> []) (split_on 0x7C (row ! 1)),
      gt_category = row ! 2, gt_language = row ! 3, gt_priority = priority,
      gt_caseSensitive = uc_caseEqual uc (row ! 5) (lit ''true''),
      gt_enabled = (\<not> uc_caseEqual uc (row ! 6) (lit ''false'')),
      gt_notes = row ! 7, gt_createdAt = None, gt_updatedAt = None\<rparr>"

fun import_rows ::
  "unicode \<Rightarrow> (qstring \<Rightarrow> int option) \<Rightarrow> string \<Rightarrow> qstring list list \<Rightarrow> glossary_term list
   \<Rightarrow> glossary_term list result" where
  "import_rows uc toInt profileId [] terms = Inr terms"
| "import_rows uc toInt profileId (row # rows) terms =
     (if length row = 1 \<and> hd row = [] then import_rows uc toInt profileId rows terms
      else if length row \<noteq> length csv_header then Inl (validation_error SerializationFailed)
      else case toInt (row ! 4) of
        None \<Rightarrow> Inl (validation_error SerializationFailed)
      | Some priority \<Rightarrow>
          if trimmed uc (row ! 0) = [] then Inl (validation_error SerializationFailed)
          else import_rows uc toInt profileId rows (terms @ [row_term uc profileId row priority]))"

definition termsFromCsv ::
  "unicode \<Rightarrow> (qstring \<Rightarrow> int option) \<Rightarrow> (byte_string \<Rightarrow> qstring) \<Rightarrow> byte_string \<Rightarrow> string
   \<Rightarrow> glossary_term list result" where
  "termsFromCsv uc toInt fromUtf8 data profileId =
     (let decoded = fromUtf8 data;
          s = (case decoded of c # cs \<Rightarrow> if c = 0xFEFF then cs else decoded | [] \<Rightarrow> decoded);
          (rows, valid) = parseCsv s
      in if \<not> valid \<or> rows = [] then Inl (validation_error SerializationFailed)
         else if hd rows \<noteq> csv_header then Inl (validation_error SerializationFailed)
         else import_rows uc toInt profileId (tl rows) [])"

subsection \<open>Assumed of the codec and the number reader\<close>

definition utf8_text :: "(qstring \<Rightarrow> byte_string) \<Rightarrow> (byte_string \<Rightarrow> qstring) \<Rightarrow> qstring \<Rightarrow> bool" where
  "utf8_text toUtf8 fromUtf8 s \<longleftrightarrow>
     fromUtf8 (toUtf8 s) = s \<and> fromUtf8 (utf8_bom @ toUtf8 s) \<in> {s, 0xFEFF # s}"

definition reads_int :: "(qstring \<Rightarrow> int option) \<Rightarrow> int \<Rightarrow> bool" where
  "reads_int toInt i \<longleftrightarrow> toInt (decimal i) = Some i"

subsection \<open>Splitting and line endings\<close>

lemma split_on_not_Nil [simp]: "split_on sep s \<noteq> []"
  by (induction s) (auto split: list.splits)

lemma split_on_no_sep: "sep \<notin> set w \<Longrightarrow> split_on sep w = [w]"
  by (induction w) auto

lemma split_on_append: "sep \<notin> set w \<Longrightarrow> split_on sep (w @ sep # s) = w # split_on sep s"
  by (induction w) auto

lemma split_on_join:
  assumes "ws \<noteq> []" "\<forall>w \<in> set ws. sep \<notin> set w"
  shows "split_on sep (join [sep] ws) = ws"
  using assms by (induction "[sep]" ws rule: join.induct)
    (auto simp: split_on_no_sep split_on_append)

lemma replaceCrLf_bar:
  "d \<noteq> 0x0A \<Longrightarrow> replaceCrLf (x @ d # y) = replaceCrLf x @ replaceCrLf (d # y)"
  by (induction x rule: replaceCrLf.induct) auto

lemma replaceCrLf_skip: "d \<noteq> 0x0D \<Longrightarrow> replaceCrLf (d # y) = d # replaceCrLf y"
  by (cases y) auto

lemma normalized_join:
  "normalizedLineEndings (join [0x7C] ws) = join [0x7C] (map normalizedLineEndings ws)"
  by (induction "[0x7C] :: qstring" ws rule: join.induct)
    (simp_all add: normalizedLineEndings_def replaceCrLf_bar replaceCrLf_skip)

lemma set_replaceCrLf: "set (replaceCrLf s) \<subseteq> insert 0x0A (set s)"
  by (induction s rule: replaceCrLf.induct) auto

lemma replaceCrLf_empty [simp]: "replaceCrLf s = [] \<longleftrightarrow> s = []"
  by (induction s rule: replaceCrLf.induct) auto

lemma normalized_empty [simp]: "normalizedLineEndings s = [] \<longleftrightarrow> s = []"
  by (simp add: normalizedLineEndings_def)

lemma normalized_bar: "0x7C \<notin> set s \<Longrightarrow> 0x7C \<notin> set (normalizedLineEndings s)"
  using set_replaceCrLf[of s] by (auto simp: normalizedLineEndings_def)

lemma replaceCrLf_id: "0x0D \<notin> set s \<Longrightarrow> replaceCrLf s = s"
  by (induction s rule: replaceCrLf.induct) auto

lemma normalized_id: "0x0D \<notin> set s \<Longrightarrow> normalizedLineEndings s = s"
  by (auto simp: normalizedLineEndings_def replaceCrLf_id intro: map_idI)

subsection \<open>Rows\<close>

definition plain_field :: "qstring \<Rightarrow> bool" where
  "plain_field v \<longleftrightarrow> list_all (\<lambda>c. c \<notin> {0x22, 0x2C, 0x0A, 0x0D}) v"

lemma decimal_plain: "plain_field (decimal i)"
proof -
  have ne: "digit k \<notin> {0x22, 0x2C, 0x0A, 0x0D}" if "k < 10" for k
  proof -
    have "unat (digit k) \<noteq> unat (d :: qchar)" if "unat d < 48" for d
      using that unat_digit[OF \<open>k < 10\<close>] by simp
    from this[of "0x22"] this[of "0x2C"] this[of "0x0A"] this[of "0x0D"] show ?thesis by auto
  qed
  have "c \<notin> {0x22, 0x2C, 0x0A, 0x0D}" if c: "c \<in> set (decimal_nat n)" for c n
  proof -
    obtain k where "k < 10" "c = digit k" using decimal_digits[OF c] by blast
    then show ?thesis using ne[OF \<open>k < 10\<close>] \<open>c = digit k\<close> by simp
  qed
  then have "plain_field (decimal_nat n)" for n
    unfolding plain_field_def list_all_iff by (intro ballI)
  then show ?thesis by (simp add: decimal_def plain_field_def)
qed

lemma bool_text_plain: "plain_field (bool_text b)"
  by (simp add: bool_text_def plain_field_def)

definition term_cells :: "glossary_term \<Rightarrow> qstring list" where
  "term_cells t = [normalizedLineEndings (gt_canonicalText t),
     normalizedLineEndings (join (lit ''|'') (gt_aliases t)), normalizedLineEndings (gt_category t),
     normalizedLineEndings (gt_language t), decimal (gt_priority t), bool_text (gt_caseSensitive t),
     bool_text (gt_enabled t), normalizedLineEndings (gt_notes t)]"

lemma field_comma:
  "parse_csv_loop (csvField t @ 0x2C # rest) rows row [] False
     = parse_csv_loop rest rows (row @ [normalizedLineEndings t]) [] False"
  "plain_field v \<Longrightarrow> parse_csv_loop (v @ 0x2C # rest) rows row [] False
     = parse_csv_loop rest rows (row @ [v]) [] False"
  using parse_csvField[of "0x2C # rest" t rows row] parse_plain[of v "0x2C # rest" rows row "[]"]
  by (simp_all add: plain_field_def)

lemma parse_term_row:
  "parse_csv_loop (term_row t @ 0x0A # rest) rows [] [] False
     = parse_csv_loop rest (rows @ [term_cells t]) [] [] False"
proof -
  have "term_row t @ 0x0A # rest
    = csvField (gt_canonicalText t) @ 0x2C # csvField (join (lit ''|'') (gt_aliases t)) @ 0x2C #
      csvField (gt_category t) @ 0x2C # csvField (gt_language t) @ 0x2C # decimal (gt_priority t) @ 0x2C #
      bool_text (gt_caseSensitive t) @ 0x2C # bool_text (gt_enabled t) @ 0x2C #
      csvField (gt_notes t) @ 0x0A # rest" (is "_ = ?r")
    by (simp add: term_row_def)
  moreover have "parse_csv_loop ?r rows [] [] False
    = parse_csv_loop rest (rows @ [term_cells t]) [] [] False"
    unfolding field_comma(1) field_comma(2)[OF decimal_plain] field_comma(2)[OF bool_text_plain]
    by (subst parse_csvField) (simp_all add: term_cells_def)
  ultimately show ?thesis by simp
qed

lemma terms_csv_text_alt:
  "terms_csv_text terms =
     lit ''canonical_text,aliases,category,language,priority,case_sensitive,enabled,notes'' @ 0x0A #
     concat (map (\<lambda>t. term_row t @ [0x0A]) terms)"
proof -
  have "foldl (\<lambda>output t. (output @ term_row t) @ [0x0A]) u terms
      = u @ concat (map (\<lambda>t. term_row t @ [0x0A]) terms)" for u
    by (induction terms arbitrary: u) simp_all
  then show ?thesis by (simp add: terms_csv_text_def)
qed

lemma parse_header:
  "parse_csv_loop
     (lit ''canonical_text,aliases,category,language,priority,case_sensitive,enabled,notes'' @ 0x0A # rest)
     [] [] [] False = parse_csv_loop rest [csv_header] [] [] False"
proof -
  have "lit ''canonical_text,aliases,category,language,priority,case_sensitive,enabled,notes'' @ 0x0A # rest
    = lit ''canonical_text'' @ 0x2C # lit ''aliases'' @ 0x2C # lit ''category'' @ 0x2C #
      lit ''language'' @ 0x2C # lit ''priority'' @ 0x2C # lit ''case_sensitive'' @ 0x2C #
      lit ''enabled'' @ 0x2C # lit ''notes'' @ 0x0A # rest" (is "_ = ?r")
    by simp
  moreover have plain: "plain_field (lit ''canonical_text'')" "plain_field (lit ''aliases'')"
    "plain_field (lit ''category'')" "plain_field (lit ''language'')" "plain_field (lit ''priority'')"
    "plain_field (lit ''case_sensitive'')" "plain_field (lit ''enabled'')" "plain_field (lit ''notes'')"
    by (simp_all add: plain_field_def)
  have "parse_csv_loop ?r [] [] [] False = parse_csv_loop rest [csv_header] [] [] False"
    unfolding field_comma(2)[OF plain(1)] field_comma(2)[OF plain(2)] field_comma(2)[OF plain(3)]
      field_comma(2)[OF plain(4)] field_comma(2)[OF plain(5)] field_comma(2)[OF plain(6)]
      field_comma(2)[OF plain(7)]
    by (subst parse_plain[OF plain(8)[unfolded plain_field_def]]) (simp add: csv_header_def)
  ultimately show ?thesis by simp
qed

lemma parse_terms_text:
  "parseCsv (terms_csv_text terms) = (csv_header # map term_cells terms, True)"
proof -
  have "parse_csv_loop (concat (map (\<lambda>t. term_row t @ [0x0A]) terms)) rows [] [] False
      = (rows @ map term_cells terms, True)" for rows
    by (induction terms arbitrary: rows) (simp_all add: parse_term_row)
  then show ?thesis unfolding parseCsv_def terms_csv_text_alt parse_header by simp
qed

subsection \<open>The round trip\<close>

text \<open>
  A term the import accepts, and the term as it comes back into a profile. The aliases are joined and
  split at a bar, which is not escaped: an alias with bars comes back as its parts.
\<close>

definition storable :: "unicode \<Rightarrow> glossary_term \<Rightarrow> bool" where
  "storable uc t \<longleftrightarrow> trimmed uc (normalizedLineEndings (gt_canonicalText t)) \<noteq> []"

definition alias_parts :: "qstring \<Rightarrow> qstring list" where
  "alias_parts a = filter (\<lambda>w. w \<noteq> []) (split_on 0x7C (normalizedLineEndings a))"

definition reimported :: "unicode \<Rightarrow> string \<Rightarrow> glossary_term \<Rightarrow> glossary_term" where
  "reimported uc profileId t =
     t\<lparr>gt_id := [], gt_profileId := profileId,
       gt_canonicalText := trimmed uc (normalizedLineEndings (gt_canonicalText t)),
       gt_aliases := concat (map alias_parts (gt_aliases t)),
       gt_category := normalizedLineEndings (gt_category t),
       gt_language := normalizedLineEndings (gt_language t),
       gt_notes := normalizedLineEndings (gt_notes t), gt_createdAt := None, gt_updatedAt := None\<rparr>"

definition truth_names_distinct :: "unicode \<Rightarrow> bool" where
  "truth_names_distinct uc \<longleftrightarrow> \<not> uc_caseEqual uc (lit ''false'') (lit ''true'')
     \<and> \<not> uc_caseEqual uc (lit ''true'') (lit ''false'')"

lemma split_on_concat: "split_on sep (w @ sep # s) = split_on sep w @ split_on sep s"
proof (induction w)
  case (Cons c w)
  show ?case
  proof (cases "c = sep")
    case False
    obtain v vs where "split_on sep w = v # vs" by (cases "split_on sep w") auto
    then show ?thesis using Cons False by simp
  qed (simp add: Cons)
qed simp

lemma split_on_join_any: "ws \<noteq> [] \<Longrightarrow> split_on sep (join [sep] ws) = concat (map (split_on sep) ws)"
  by (induction "[sep]" ws rule: join.induct) (simp_all add: split_on_concat)

lemma filter_split_join:
  "filter (\<lambda>a. a \<noteq> []) (split_on sep (join [sep] ws)) = concat (map (\<lambda>a. filter (\<lambda>w. w \<noteq> []) (split_on sep a)) ws)"
proof (cases "ws = []")
  case False
  then show ?thesis by (simp add: split_on_join_any filter_concat o_def)
qed simp

lemma alias_parts_plain: "a \<noteq> [] \<Longrightarrow> 0x7C \<notin> set a \<Longrightarrow> alias_parts a = [normalizedLineEndings a]"
  using normalized_bar[of a] by (simp add: alias_parts_def split_on_no_sep)

lemma aliases_plain:
  "list_all (\<lambda>a. a \<noteq> [] \<and> 0x7C \<notin> set a) as \<Longrightarrow> concat (map alias_parts as) = map normalizedLineEndings as"
  by (induction as) (simp_all add: alias_parts_plain)

lemma row_term_cells:
  assumes "unicode_ok uc" "truth_names_distinct uc"
  shows "row_term uc p (term_cells t) (gt_priority t) = reimported uc p t"
proof -
  have "lit ''|'' = [0x7C]" by simp
  then have "filter (\<lambda>a. a \<noteq> []) (split_on 0x7C (normalizedLineEndings (join (lit ''|'') (gt_aliases t))))
    = concat (map alias_parts (gt_aliases t))"
    by (simp only: normalized_join filter_split_join) (simp add: alias_parts_def[abs_def] o_def)
  moreover have "uc_caseEqual uc (bool_text b) (lit ''true'') = b"
    "(\<not> uc_caseEqual uc (bool_text b) (lit ''false'')) = b" for b
    using assms(1,2) by (simp_all add: bool_text_def truth_names_distinct_def unicode_ok_def)
  ultimately show ?thesis
    unfolding row_term_def term_cells_def reimported_def by (simp del: lit_simps)
qed

lemma import_cells:
  assumes "unicode_ok uc" "truth_names_distinct uc"
    "list_all (\<lambda>t. reads_int toInt (gt_priority t)) ts"
  shows "import_rows uc toInt p (map term_cells ts) acc =
    (if list_all (storable uc) ts then Inr (acc @ map (reimported uc p) ts)
     else Inl (validation_error SerializationFailed))"
  using assms(3)
proof (induction ts arbitrary: acc)
  case (Cons t ts)
  have len: "length (term_cells t) = length csv_header" "length csv_header = 8"
    by (simp_all add: term_cells_def csv_header_def)
  have "toInt (term_cells t ! 4) = Some (gt_priority t)" "storable uc t \<longleftrightarrow> trimmed uc (term_cells t ! 0) \<noteq> []"
    using Cons.prems by (simp_all add: term_cells_def reads_int_def storable_def)
  then show ?case using Cons row_term_cells[OF assms(1,2)] by (simp add: len)
qed simp

text \<open>
  C35: A glossary exported as CSV, with or without a byte order mark, is read back by the import
  with the same terms in the same order: canonical texts, aliases, categories, languages,
  priorities, flags and notes, whatever commas, quotes or line breaks the fields hold (line
  endings come back as newlines, the canonical text trimmed, identities are the importing
  profile's). The list of aliases comes back as it was where no alias is empty or holds a vertical bar;
  in general each alias comes back as its parts between bars, without the empty ones. The import
  refuses the file exactly where a canonical text is blank.
\<close>

theorem glossary_csv_roundtrip:
  assumes "unicode_ok uc" "truth_names_distinct uc"
    and "utf8_text toUtf8 fromUtf8 (terms_csv_text terms)"
    and "list_all (\<lambda>t. reads_int toInt (gt_priority t)) terms"
  shows "termsFromCsv uc toInt fromUtf8 (termsToCsv toUtf8 terms bom) profileId =
      (if list_all (storable uc) terms then Inr (map (reimported uc profileId) terms)
       else Inl (validation_error SerializationFailed))
    \<and> (\<forall>t \<in> set terms. list_all (\<lambda>a. a \<noteq> [] \<and> 0x7C \<notin> set a) (gt_aliases t) \<longrightarrow>
         gt_aliases (reimported uc profileId t) = map normalizedLineEndings (gt_aliases t))"
proof -
  let ?d = "fromUtf8 (termsToCsv toUtf8 terms bom)"
  have "?d \<in> {terms_csv_text terms, 0xFEFF # terms_csv_text terms}"
    using assms(3) by (auto simp: termsToCsv_def utf8_text_def Let_def)
  moreover have "\<exists>cs. terms_csv_text terms = 0x63 # cs"
    unfolding terms_csv_text_alt by simp
  ultimately have "(case ?d of c # cs \<Rightarrow> if c = 0xFEFF then cs else ?d | [] \<Rightarrow> ?d) = terms_csv_text terms"
    by auto
  then show ?thesis
    using import_cells[OF assms(1,2,4), of profileId "[]"] aliases_plain
    by (simp add: termsFromCsv_def parse_terms_text Let_def reimported_def)
qed

text \<open>The codec on ASCII text, for the example.\<close>

definition ascii_toUtf8 :: "qstring \<Rightarrow> byte_string" where
  "ascii_toUtf8 s = map ucast s"

definition ascii_fromUtf8 :: "byte_string \<Rightarrow> qstring" where
  "ascii_fromUtf8 bs = map ucast (if take 3 bs = utf8_bom then drop 3 bs else bs)"

definition sample_term :: glossary_term where
  "sample_term = \<lparr>gt_id = ''t1'', gt_profileId = ''p'', gt_canonicalText = lit ''Breeze, '' @ [0x22] @ lit ''ASR'',
     gt_aliases = [lit ''bries'', lit ''breeze a s r''], gt_category = [], gt_language = lit ''en'',
     gt_priority = 5, gt_caseSensitive = False, gt_enabled = True, gt_notes = lit ''a'' @ [0x0D, 0x0A] @ lit ''b'',
     gt_createdAt = Some 3, gt_updatedAt = None\<rparr>"

lemma ascii_char: "c < 0x80 \<Longrightarrow> ucast (ucast c :: 8 word) = (c :: qchar)"
  by (rule word_unat_eq_iff[THEN iffD2])
    (simp add: unsigned_ucast_eq word_less_nat_alt unsigned_take_bit_eq take_bit_nat_eq_self)

lemma ascii_codec:
  assumes "list_all (\<lambda>c. c < 0x80) s" "s \<noteq> []" "hd s = 0x63"
  shows "utf8_text ascii_toUtf8 ascii_fromUtf8 s"
proof -
  have "map (\<lambda>c. ucast (ucast c :: 8 word)) s = s"
    using assms(1) by (auto simp: list_all_iff ascii_char intro: map_idI)
  moreover have "take 3 (ascii_toUtf8 s) \<noteq> utf8_bom"
    using assms(2,3) by (cases s) (auto simp: ascii_toUtf8_def utf8_bom_def)
  moreover have "take 3 (utf8_bom @ ascii_toUtf8 s) = utf8_bom" "drop 3 (utf8_bom @ ascii_toUtf8 s) = ascii_toUtf8 s"
    by (simp_all add: utf8_bom_def)
  ultimately show ?thesis by (simp add: utf8_text_def ascii_fromUtf8_def ascii_toUtf8_def o_def)
qed

lemma glossary_csv_roundtrip_witness:
  "termsFromCsv ascii (\<lambda>s. Some (int (digits_value s))) ascii_fromUtf8
     (termsToCsv ascii_toUtf8 [sample_term] True) ''q'' = Inr (map (reimported ascii ''q'') [sample_term])
   \<and> gt_aliases (reimported ascii ''q'' sample_term) = [lit ''bries'', lit ''breeze a s r'']"
proof -
  have truth: "truth_names_distinct ascii"
    by (simp add: truth_names_distinct_def ascii_def ascii_fold_def)
  have "normalizedLineEndings (gt_canonicalText sample_term) = gt_canonicalText sample_term"
    by (rule normalized_id) (simp add: sample_term_def)
  then have storable: "list_all (storable ascii) [sample_term]"
    by (simp add: storable_def sample_term_def trimmed_empty_iff) (simp add: ascii_def)
  have int: "list_all (\<lambda>t. reads_int (\<lambda>s. Some (int (digits_value s))) (gt_priority t)) [sample_term]"
    by (simp add: reads_int_def sample_term_def decimal_def)
  have "decimal 5 = lit ''5''" by (simp add: decimal_def decimal_nat.simps digit_def)
  then have codec: "utf8_text ascii_toUtf8 ascii_fromUtf8 (terms_csv_text [sample_term])"
    by (intro ascii_codec)
      (simp_all add: terms_csv_text_alt term_row_def sample_term_def csvField_def doubleQuotes_def
        normalizedLineEndings_def bool_text_def)
  have "list_all (\<lambda>a. a \<noteq> [] \<and> 0x7C \<notin> set a) (gt_aliases sample_term)"
    by (simp add: sample_term_def)
  moreover have "map normalizedLineEndings (gt_aliases sample_term) = [lit ''bries'', lit ''breeze a s r'']"
    by (simp add: sample_term_def normalized_id)
  ultimately show ?thesis
    using glossary_csv_roundtrip[OF ascii_ok truth codec int, of True "''q''"] storable
    by (simp del: lit_simps)
qed

end
