(* ===== verification/Database.thy ===== *)
theory Database
  imports CoreTypes
begin

text \<open>
  \<^verbatim>\<open>database/DatabaseManager.cpp\<close>, the transactions the repositories run in. An operation
  works on a connection: the tables, the clock, and the statements that will fail for a
  reason outside the program (a full disk, a busy or damaged file), as one flag per
  statement. A statement that fails or breaks a constraint has no effect, which is what
  SQLite does; the value \<open>None\<close> of a statement stands for a broken constraint. Transactions of
  several processes are serialised by SQLite, so a run of the program is a sequence of
  operations on one connection.

  The second part is a small calculus: what follows from an operation having succeeded.
\<close>

record 'd connection =
  cn_db :: 'd
  cn_time :: int
  cn_ticks :: "int list"
  cn_faults :: "bool list"

type_synonym ('d, 'a) dbop = "'d connection \<Rightarrow> 'a result \<times> 'd connection"

definition succeed :: "'a \<Rightarrow> ('d, 'a) dbop" where
  "succeed x c = (Inr x, c)"

definition fail :: "user_error \<Rightarrow> ('d, 'a) dbop" where
  "fail e c = (Inl e, c)"

definition and_then :: "('d, 'a) dbop \<Rightarrow> ('a \<Rightarrow> ('d, 'b) dbop) \<Rightarrow> ('d, 'b) dbop" where
  "and_then m f c = (case m c of (Inl e, c') \<Rightarrow> (Inl e, c') | (Inr x, c') \<Rightarrow> f x c')"

definition query_error :: user_error where
  "query_error = database_error DatabaseQueryFailed True"

text \<open>One statement, with the flag that makes it fail.\<close>

definition exec_as :: "user_error \<Rightarrow> ('d \<Rightarrow> ('a \<times> 'd) option) \<Rightarrow> ('d, 'a) dbop" where
  "exec_as err q c =
     (let c' = c\<lparr>cn_faults := tl (cn_faults c)\<rparr> in
      if cn_faults c \<noteq> [] \<and> hd (cn_faults c) then (Inl err, c')
      else case q (cn_db c) of
        None \<Rightarrow> (Inl err, c')
      | Some (x, d) \<Rightarrow> (Inr x, c'\<lparr>cn_db := d\<rparr>))"

definition exec :: "('d \<Rightarrow> ('a \<times> 'd) option) \<Rightarrow> ('d, 'a) dbop" where
  "exec = exec_as query_error"

definition select :: "('d \<Rightarrow> 'a) \<Rightarrow> ('d, 'a) dbop" where
  "select f = exec (\<lambda>d. Some (f d, d))"

definition modify :: "('d \<Rightarrow> 'd) \<Rightarrow> ('d, unit) dbop" where
  "modify f = exec (\<lambda>d. Some ((), f d))"

text \<open>\<open>QDateTime::currentDateTimeUtc\<close>: the clock moves by the next tick after each reading.\<close>

definition clock :: "('d, int) dbop" where
  "clock c = (Inr (cn_time c),
     c\<lparr>cn_time := cn_time c + (if cn_ticks c = [] then 0 else hd (cn_ticks c)), cn_ticks := tl (cn_ticks c)\<rparr>)"

definition connection :: "('d, unit) dbop" where
  "connection = exec_as (database_error DatabaseOpenFailed False) (\<lambda>d. Some ((), d))"

text \<open>
  \<open>BEGIN\<close>, the body, \<open>COMMIT\<close>, with a rollback when the body or the commit fails. The result of
  the body is what the code hands out through the variables its lambda captures. \<open>BEGIN\<close> and
  \<open>BEGIN IMMEDIATE\<close> differ only in when the write lock is taken.
\<close>

definition statement :: "('d, unit) dbop" where
  "statement = select (\<lambda>d. ())"

definition rolled_back :: "('d, 'a) dbop \<Rightarrow> ('d, 'a) dbop" where
  "rolled_back m c =
     (case m c of (Inl e, c') \<Rightarrow> (Inl e, c'\<lparr>cn_db := cn_db c\<rparr>) | (Inr x, c') \<Rightarrow> (Inr x, c'))"

definition immediateTransaction :: "('d, 'a) dbop \<Rightarrow> ('d, 'a) dbop" where
  "immediateTransaction operation =
     and_then connection (\<lambda>_.
     and_then statement (\<lambda>_.
     rolled_back (and_then operation (\<lambda>x. and_then statement (\<lambda>_. succeed x)))))"

definition db_transaction :: "('d, 'a) dbop \<Rightarrow> ('d, 'a) dbop" where
  "db_transaction operation =
     and_then connection (\<lambda>_.
     and_then statement (\<lambda>_.
     rolled_back (and_then operation (\<lambda>x. and_then statement (\<lambda>_. succeed x)))))"

subsection \<open>Identifiers\<close>

text \<open>\<open>trimmed\<close> and \<open>toLower\<close> on Latin-1 identifiers.\<close>

definition white_char :: "char \<Rightarrow> bool" where
  "white_char ch \<longleftrightarrow> (let n = of_char ch :: nat in 9 \<le> n \<and> n \<le> 13 \<or> n = 32 \<or> n = 0x85 \<or> n = 0xA0)"

definition blank :: "string \<Rightarrow> bool" where
  "blank s \<longleftrightarrow> list_all white_char s"

definition trim_string :: "string \<Rightarrow> string" where
  "trim_string s = rev (dropWhile white_char (rev (dropWhile white_char s)))"

definition lower_char :: "char \<Rightarrow> char" where
  "lower_char ch = (let n = of_char ch :: nat in
     if 65 \<le> n \<and> n \<le> 90 \<or> 0xC0 \<le> n \<and> n \<le> 0xDE \<and> n \<noteq> 0xD7 then char_of (n + 32) else ch)"

subsection \<open>What success says\<close>

lemma and_then_success [simp]:
  "and_then m f c = (Inr y, c'') \<longleftrightarrow> (\<exists>x c'. m c = (Inr x, c') \<and> f x c' = (Inr y, c''))"
  by (auto simp: and_then_def split: prod.splits sum.splits)

lemma and_then_elim:
  assumes "and_then m f c = (Inr y, c'')"
  obtains x c' where "m c = (Inr x, c')" "f x c' = (Inr y, c'')"
  using assms by auto

lemma succeed_success [simp]: "succeed x c = (Inr y, c') \<longleftrightarrow> y = x \<and> c' = c"
  by (auto simp: succeed_def)

lemma fail_success [simp]: "fail e c = (Inr y, c') \<longleftrightarrow> False"
  by (simp add: fail_def)

lemma exec_success:
  "exec q c = (Inr x, c') \<longleftrightarrow> (cn_faults c = [] \<or> \<not> hd (cn_faults c))
     \<and> (\<exists>d. q (cn_db c) = Some (x, d) \<and> c' = c\<lparr>cn_faults := tl (cn_faults c), cn_db := d\<rparr>)"
  by (cases c) (auto simp: exec_def exec_as_def Let_def split: option.splits)

lemma execD: "exec q c = (Inr x, c') \<Longrightarrow> q (cn_db c) = Some (x, cn_db c') \<and> cn_time c' = cn_time c"
  by (auto simp: exec_success)

lemma selectD: "select f c = (Inr x, c') \<Longrightarrow> x = f (cn_db c) \<and> cn_db c' = cn_db c \<and> cn_time c' = cn_time c"
  unfolding select_def by (drule execD) auto

lemma modifyD: "modify f c = (Inr u, c') \<Longrightarrow> cn_db c' = f (cn_db c) \<and> cn_time c' = cn_time c"
  unfolding modify_def by (drule execD) auto

lemma clockD: "clock c = (Inr x, c') \<Longrightarrow> x = cn_time c \<and> cn_db c' = cn_db c"
  by (auto simp: clock_def)

lemma connectionD: "connection c = (Inr u, c') \<Longrightarrow> cn_db c' = cn_db c \<and> cn_time c' = cn_time c"
  by (auto simp: connection_def exec_as_def Let_def split: if_splits)

lemma statementD: "statement c = (Inr u, c') \<Longrightarrow> cn_db c' = cn_db c \<and> cn_time c' = cn_time c"
  unfolding statement_def by (drule selectD) simp

lemma rolled_back_success [simp]: "rolled_back m c = (Inr x, c') \<longleftrightarrow> m c = (Inr x, c')"
  by (auto simp: rolled_back_def split: prod.splits sum.splits)

lemma transaction_success:
  assumes "immediateTransaction operation c = (Inr x, c')"
  obtains c1 c2 where "cn_db c1 = cn_db c" "cn_time c1 = cn_time c" "operation c1 = (Inr x, c2)"
    "cn_db c' = cn_db c2"
  using assms unfolding immediateTransaction_def
  by (auto dest!: connectionD statementD)

lemma exec_as_failure: "exec_as err q c = (Inl e, c') \<Longrightarrow> cn_db c' = cn_db c \<and> e = err"
  by (auto simp: exec_as_def Let_def split: if_splits option.splits)

lemma connection_failure: "connection c = (Inl e, c') \<Longrightarrow> cn_db c' = cn_db c"
  unfolding connection_def by (drule exec_as_failure) simp

lemma select_failure: "select f c = (Inl e, c') \<Longrightarrow> cn_db c' = cn_db c \<and> e = query_error"
  unfolding select_def exec_def by (rule exec_as_failure)

lemma statement_failure: "statement c = (Inl e, c') \<Longrightarrow> cn_db c' = cn_db c"
  unfolding statement_def by (drule select_failure) simp

lemma rolled_back_failure: "rolled_back m c = (Inl e, c') \<Longrightarrow> cn_db c' = cn_db c"
  by (auto simp: rolled_back_def split: prod.splits sum.splits)

lemma and_then_failure:
  assumes "and_then m f c = (Inl e, c'')"
  obtains "m c = (Inl e, c'')" | x c' where "m c = (Inr x, c')" "f x c' = (Inl e, c'')"
  using assms by (auto simp: and_then_def split: prod.splits sum.splits)

text \<open>A transaction that fails leaves the tables as they were.\<close>

lemma transaction_failure:
  "immediateTransaction operation c = (Inl e, c') \<Longrightarrow> cn_db c' = cn_db c"
  unfolding immediateTransaction_def
  by (elim and_then_failure) (auto dest!: connection_failure connectionD statement_failure statementD
    rolled_back_failure)

lemma db_transaction_immediate: "db_transaction = immediateTransaction"
  by (intro ext) (simp add: db_transaction_def immediateTransaction_def)

subsection \<open>Triples\<close>

text \<open>
  \<open>achieves P m Q\<close>: if \<open>m\<close> succeeds on tables with \<open>P\<close>, its result and the tables satisfy \<open>Q\<close>.
  \<open>reads_only m\<close>: \<open>m\<close> leaves the tables alone. \<open>atomic m\<close>: it does so when it fails.
\<close>

definition achieves :: "('d \<Rightarrow> bool) \<Rightarrow> ('d, 'a) dbop \<Rightarrow> ('a \<Rightarrow> 'd \<Rightarrow> bool) \<Rightarrow> bool" where
  "achieves P m Q \<longleftrightarrow> (\<forall>c x c'. m c = (Inr x, c') \<longrightarrow> P (cn_db c) \<longrightarrow> Q x (cn_db c'))"

definition reads_only :: "('d, 'a) dbop \<Rightarrow> bool" where
  "reads_only m \<longleftrightarrow> (\<forall>c. cn_db (snd (m c)) = cn_db c)"

definition atomic :: "('d, 'a) dbop \<Rightarrow> bool" where
  "atomic m \<longleftrightarrow> (\<forall>c e c'. m c = (Inl e, c') \<longrightarrow> cn_db c' = cn_db c)"

named_theorems triple \<open>rules for triples\<close>
named_theorems atomics \<open>rules for atomicity\<close>

lemma achievesD: "achieves P m Q \<Longrightarrow> m c = (Inr x, c') \<Longrightarrow> P (cn_db c) \<Longrightarrow> Q x (cn_db c')"
  by (simp add: achieves_def)

lemma achieves_weaken:
  "achieves P m Q \<Longrightarrow> (\<And>d. P' d \<Longrightarrow> P d) \<Longrightarrow> (\<And>x d. Q x d \<Longrightarrow> Q' x d) \<Longrightarrow> achieves P' m Q'"
  unfolding achieves_def by blast

lemma achieves_and_then [triple]:
  "achieves P m R \<Longrightarrow> (\<And>x. achieves (R x) (f x) Q) \<Longrightarrow> achieves P (and_then m f) Q"
  unfolding achieves_def by simp blast

lemma achieves_succeed: "(\<And>d. P d \<Longrightarrow> Q x d) \<Longrightarrow> achieves P (succeed x) Q"
  by (simp add: achieves_def)

lemma achieves_fail [triple]: "achieves P (fail e) Q"
  by (simp add: achieves_def)

lemma achieves_exec: "(\<And>d x d'. P d \<Longrightarrow> q d = Some (x, d') \<Longrightarrow> Q x d') \<Longrightarrow> achieves P (exec q) Q"
  unfolding achieves_def by (auto dest!: execD)

lemma achieves_select: "(\<And>d. P d \<Longrightarrow> Q (f d) d) \<Longrightarrow> achieves P (select f) Q"
  unfolding achieves_def by (auto dest!: selectD)

lemma achieves_modify: "(\<And>d. P d \<Longrightarrow> Q () (f d)) \<Longrightarrow> achieves P (modify f) Q"
  unfolding achieves_def by (auto dest!: modifyD)

lemma achieves_clock [triple]: "achieves P clock (\<lambda>_. P)"
  unfolding achieves_def by (auto dest!: clockD)

lemma achieves_statement [triple]: "achieves P statement (\<lambda>_. P)"
  unfolding achieves_def by (auto dest!: statementD)

lemma achieves_connection [triple]: "achieves P connection (\<lambda>_. P)"
  unfolding achieves_def by (auto dest!: connectionD)

lemma achieves_if [triple]:
  "(b \<Longrightarrow> achieves P m Q) \<Longrightarrow> (\<not> b \<Longrightarrow> achieves P n Q) \<Longrightarrow> achieves P (if b then m else n) Q"
  by simp

lemma achieves_option [triple]:
  "(v = None \<Longrightarrow> achieves P m Q) \<Longrightarrow> (\<And>x. v = Some x \<Longrightarrow> achieves P (f x) Q)
   \<Longrightarrow> achieves P (case v of None \<Rightarrow> m | Some x \<Rightarrow> f x) Q"
  by (cases v) simp_all

lemma achieves_sum [triple]:
  "(\<And>e. v = Inl e \<Longrightarrow> achieves P (g e) Q) \<Longrightarrow> (\<And>x. v = Inr x \<Longrightarrow> achieves P (f x) Q)
   \<Longrightarrow> achieves P (case v of Inl e \<Rightarrow> g e | Inr x \<Rightarrow> f x) Q"
  by (cases v) simp_all

lemma achieves_transaction [triple]: "achieves P m Q \<Longrightarrow> achieves P (immediateTransaction m) Q"
  unfolding achieves_def by (auto elim!: transaction_success)

lemma reads_only_achieves: "reads_only m \<Longrightarrow> achieves P m (\<lambda>_. P)"
  unfolding reads_only_def achieves_def by (metis snd_conv)

lemma reads_onlyI: "(\<And>c r c'. m c = (r, c') \<Longrightarrow> cn_db c' = cn_db c) \<Longrightarrow> reads_only m"
  unfolding reads_only_def by (metis prod.collapse)

lemma reads_only_select [atomics]: "reads_only (select f)"
  by (rule reads_onlyI) (metis selectD select_failure sumE)

lemma reads_only_connection [atomics]: "reads_only connection"
  by (rule reads_onlyI) (metis connectionD connection_failure sumE)

lemma reads_only_statement [atomics]: "reads_only statement"
  unfolding statement_def by (rule reads_only_select)

lemma reads_only_basic [atomics]:
  "reads_only (succeed x)" "reads_only (fail e)" "reads_only clock"
  by (simp_all add: reads_only_def succeed_def fail_def clock_def)

lemma reads_only_and_then [atomics]:
  "reads_only m \<Longrightarrow> (\<And>x. reads_only (f x)) \<Longrightarrow> reads_only (and_then m f)"
  unfolding reads_only_def and_then_def by (auto split: prod.splits sum.splits) (metis snd_conv)+

lemma reads_only_if [atomics]: "reads_only m \<Longrightarrow> reads_only n \<Longrightarrow> reads_only (if b then m else n)"
  by simp

lemma reads_only_option [atomics]:
  "reads_only m \<Longrightarrow> (\<And>x. reads_only (f x)) \<Longrightarrow> reads_only (case v of None \<Rightarrow> m | Some x \<Rightarrow> f x)"
  by (cases v) simp_all

lemma atomic_reads_only: "reads_only m \<Longrightarrow> atomic m"
  unfolding reads_only_def atomic_def by (metis snd_conv)

lemma atomic_transaction [atomics]: "atomic (immediateTransaction m)"
  unfolding atomic_def by (blast dest: transaction_failure)

lemma atomic_fail [atomics]: "atomic (fail e)"
  by (simp add: atomic_def fail_def)

lemma atomic_if [atomics]: "atomic m \<Longrightarrow> atomic n \<Longrightarrow> atomic (if b then m else n)"
  by simp

lemma atomic_and_then [atomics]:
  "reads_only m \<Longrightarrow> (\<And>x. atomic (f x)) \<Longrightarrow> atomic (and_then m f)"
  unfolding reads_only_def atomic_def and_then_def
  by (auto split: prod.splits sum.splits) (metis snd_conv)+

lemma atomic_then_succeed: "atomic m \<Longrightarrow> atomic (and_then m (\<lambda>x. succeed (g x)))"
  unfolding atomic_def and_then_def succeed_def by (auto split: prod.splits sum.splits)

subsection \<open>Total triples\<close>

text \<open>
  \<open>delivers P m Q\<close>: while no statement fails for an outside reason, \<open>m\<close> does succeed on tables with
  \<open>P\<close>, and its result and the tables satisfy \<open>Q\<close>.
\<close>

definition delivers :: "('d \<Rightarrow> bool) \<Rightarrow> ('d, 'a) dbop \<Rightarrow> ('a \<Rightarrow> 'd \<Rightarrow> bool) \<Rightarrow> bool" where
  "delivers P m Q \<longleftrightarrow> (\<forall>c. cn_faults c = [] \<longrightarrow> P (cn_db c) \<longrightarrow>
     (\<exists>x c'. m c = (Inr x, c') \<and> cn_faults c' = [] \<and> Q x (cn_db c')))"

named_theorems total_triple \<open>rules for total triples\<close>

lemma deliversD:
  fixes c :: "'d connection"
  assumes "delivers P m Q" "cn_faults c = []" "P (cn_db c)"
  obtains x c' where "m c = (Inr x, c')" "cn_faults c' = []" "Q x (cn_db c')"
  using assms unfolding delivers_def by blast

lemma delivers_weaken:
  "delivers P m Q \<Longrightarrow> (\<And>d. P' d \<Longrightarrow> P d) \<Longrightarrow> (\<And>x d. Q x d \<Longrightarrow> Q' x d) \<Longrightarrow> delivers P' m Q'"
  unfolding delivers_def by blast

lemma delivers_and_then [total_triple]:
  assumes "delivers P m R" "\<And>x. delivers (R x) (f x) Q"
  shows "delivers P (and_then m f) Q"
  unfolding delivers_def
proof (intro allI impI)
  fix c :: "'a connection"
  assume "cn_faults c = []" "P (cn_db c)"
  then obtain x c1 where c1: "m c = (Inr x, c1)" "cn_faults c1 = []" "R x (cn_db c1)"
    using assms(1) by (auto elim: deliversD)
  then obtain y c2 where "f x c1 = (Inr y, c2)" "cn_faults c2 = []" "Q y (cn_db c2)"
    using assms(2)[of x] by (auto elim: deliversD)
  then show "\<exists>x c'. and_then m f c = (Inr x, c') \<and> cn_faults c' = [] \<and> Q x (cn_db c')"
    using c1(1) by (auto simp: and_then_def)
qed

lemma delivers_succeed: "(\<And>d. P d \<Longrightarrow> Q x d) \<Longrightarrow> delivers P (succeed x) Q"
  by (simp add: delivers_def succeed_def)

lemma delivers_exec: "(\<And>d. P d \<Longrightarrow> \<exists>x d'. q d = Some (x, d') \<and> Q x d') \<Longrightarrow> delivers P (exec q) Q"
  unfolding delivers_def exec_def exec_as_def Let_def by fastforce

lemma delivers_select: "(\<And>d. P d \<Longrightarrow> Q (f d) d) \<Longrightarrow> delivers P (select f) Q"
  unfolding select_def by (rule delivers_exec) simp

lemma delivers_basic [total_triple]:
  "delivers P clock (\<lambda>_. P)" "delivers P statement (\<lambda>_. P)" "delivers P connection (\<lambda>_. P)"
  unfolding delivers_def
  by (auto simp: clock_def statement_def select_def exec_def connection_def exec_as_def)

lemma delivers_if [total_triple]:
  "(b \<Longrightarrow> delivers P m Q) \<Longrightarrow> (\<not> b \<Longrightarrow> delivers P n Q) \<Longrightarrow> delivers P (if b then m else n) Q"
  by simp

lemma delivers_pure: "(A \<Longrightarrow> delivers P m Q) \<Longrightarrow> delivers (\<lambda>d. P d \<and> A) m Q"
  unfolding delivers_def by blast

lemma delivers_transaction [total_triple]:
  assumes "delivers P m Q"
  shows "delivers P (immediateTransaction m) Q"
proof -
  have "delivers P (and_then m (\<lambda>x. and_then statement (\<lambda>_. succeed x))) Q"
    by (intro delivers_and_then[OF assms] delivers_and_then[OF delivers_basic(2)] delivers_succeed)
  then have "delivers P (rolled_back (and_then m (\<lambda>x. and_then statement (\<lambda>_. succeed x)))) Q"
    by (simp add: delivers_def)
  then show ?thesis unfolding immediateTransaction_def
    by (intro delivers_and_then[OF delivers_basic(3)] delivers_and_then[OF delivers_basic(2)])
qed

end
