(* ===== verification/JobStore.thy ===== *)
theory JobStore
  imports Database JobStates Segments "HOL-Library.AList" "HOL-Library.Product_Lexorder"
    "HOL-Library.Option_ord" "HOL-Library.List_Lexorder" "HOL-Library.Char_ord"
begin

text \<open>
  \<^verbatim>\<open>jobs/SqliteJobRepository.cpp\<close>: the tables of the job queue and the operations on them. A
  table is the list of its rows in insertion order, a row is the record the code reads it
  into (its name columns as the enumerations, which \<open>job_names_roundtrip\<close> justifies), and a
  statement is a function on the tables that is \<open>None\<close> when a constraint of the schema
  (\<^verbatim>\<open>database/DatabaseManager.cpp\<close>, \<open>initialSchema\<close> and \<open>revisionHistorySchema\<close>) forbids it: primary and
  foreign keys, the checks, and the unique index that allows one executing job. Deleting a
  job deletes its chunks, segments, events and lease. The search index is not modelled;
  rebuilding it is a statement that may fail.

  Times are milliseconds, \<open>NULL\<close> and invalid times \<open>None\<close>; text that is only stored is \<open>string\<close>.
\<close>

subsection \<open>Rows and tables\<close>

datatype json =
  JNull | JBool bool | JNumber real | JString string | JArray "json list"
  | JObject "(string \<times> json) list"

type_synonym json_object = "(string \<times> json) list"

record transcription_job =
  tj_id :: string
  tj_recordingId :: string
  tj_state :: job_state
  tj_stage :: job_stage
  tj_progress :: real
  tj_modelId :: string
  tj_modelChecksum :: string
  tj_engineVersion :: string
  tj_workerVersion :: string
  tj_backend :: string
  tj_language :: string
  tj_preset :: string
  tj_glossaryProfileId :: string
  tj_meetingContext :: string
  tj_vadEnabled :: bool
  tj_errorCode :: string
  tj_errorMessage :: string
  tj_diagnostics :: json_object
  tj_parameters :: json_object
  tj_queuePosition :: int
  tj_retryCount :: int
  tj_createdAt :: "int option"
  tj_startedAt :: "int option"
  tj_completedAt :: "int option"
  tj_interruptedAt :: "int option"
  tj_lastCompletedChunk :: int
  tj_queueHidden :: bool

record job_event =
  je_id :: int
  je_jobId :: string
  je_eventType :: string
  je_severity :: string
  je_state :: "job_state option"
  je_stage :: "job_stage option"
  je_progress :: "real option"
  je_code :: string
  je_message :: string
  je_payload :: json_object
  je_createdAt :: "int option"

definition new_event :: "string \<Rightarrow> string \<Rightarrow> job_event" where
  "new_event jobId eventType =
     \<lparr>je_id = 0, je_jobId = jobId, je_eventType = eventType, je_severity = ''info'', je_state = None,
      je_stage = None, je_progress = None, je_code = [], je_message = [], je_payload = [],
      je_createdAt = None\<rparr>"

record execution_lease =
  el_ownerToken :: string
  el_jobId :: string
  el_acquiredAt :: "int option"
  el_heartbeatAt :: "int option"
  el_expiresAt :: "int option"

record job_claim =
  jk_claimed :: bool
  jk_job :: "transcription_job option"
  jk_lease :: "execution_lease option"
  jk_activeJobId :: string

definition no_claim :: job_claim where
  "no_claim = \<lparr>jk_claimed = False, jk_job = None, jk_lease = None, jk_activeJobId = []\<rparr>"

record recording_row =
  rr_id :: string
  rr_activeJobId :: "string option"
  rr_updatedAt :: int

record job_tables =
  db_recordings :: "recording_row list"
  db_jobs :: "transcription_job list"
  db_chunks :: "job_chunk list"
  db_segments :: "transcript_segment list"
  db_events :: "job_event list"
  db_nextEventId :: int
  db_lease :: "execution_lease option"

subsection \<open>Statements\<close>

definition executing :: "job_state list" where
  "executing = [Preparing, Normalizing, WaitingForModel, LoadingModel, AnalyzingSpeech,
     Transcribing, Finalizing, Cancelling]"

definition single_execution :: "transcription_job list \<Rightarrow> bool" where
  "single_execution jobs \<longleftrightarrow> length (filter (\<lambda>j. tj_state j \<in> set executing) jobs) \<le> 1"

definition job_row_ok :: "job_tables \<Rightarrow> transcription_job \<Rightarrow> bool" where
  "job_row_ok d j \<longleftrightarrow> tj_recordingId j \<in> rr_id ` set (db_recordings d)
     \<and> 0 \<le> tj_progress j \<and> tj_progress j \<le> 1"

definition insert_job :: "transcription_job \<Rightarrow> job_tables \<Rightarrow> (unit \<times> job_tables) option" where
  "insert_job j d =
     (if tj_id j \<notin> tj_id ` set (db_jobs d) \<and> job_row_ok d j \<and> single_execution (db_jobs d @ [j])
      then Some ((), d\<lparr>db_jobs := db_jobs d @ [j]\<rparr>) else None)"

text \<open>\<open>UPDATE transcription_jobs SET ... WHERE ...\<close>, with the number of rows affected.\<close>

definition update_jobs ::
  "(transcription_job \<Rightarrow> bool) \<Rightarrow> (transcription_job \<Rightarrow> transcription_job) \<Rightarrow> job_tables \<Rightarrow> (nat \<times> job_tables) option" where
  "update_jobs P f d =
     (let jobs = map (\<lambda>j. if P j then f j else j) (db_jobs d) in
      if single_execution jobs \<and> list_all (job_row_ok d) jobs
      then Some (length (filter P (db_jobs d)), d\<lparr>db_jobs := jobs\<rparr>) else None)"

definition delete_jobs :: "(transcription_job \<Rightarrow> bool) \<Rightarrow> job_tables \<Rightarrow> (nat \<times> job_tables) option" where
  "delete_jobs P d =
     (let gone = tj_id ` set (filter P (db_jobs d)) in
      Some (length (filter P (db_jobs d)),
        d\<lparr>db_jobs := filter (\<lambda>j. \<not> P j) (db_jobs d),
          db_chunks := filter (\<lambda>c. jc_jobId c \<notin> gone) (db_chunks d),
          db_segments := filter (\<lambda>s. ts_jobId s \<notin> gone) (db_segments d),
          db_events := filter (\<lambda>e. je_jobId e \<notin> gone) (db_events d),
          db_lease := (case db_lease d of
             Some l \<Rightarrow> if el_jobId l \<in> gone then None else Some l | None \<Rightarrow> None)\<rparr>))"

definition chunk_row_ok :: "job_tables \<Rightarrow> job_chunk \<Rightarrow> bool" where
  "chunk_row_ok d c \<longleftrightarrow> jc_jobId c \<in> tj_id ` set (db_jobs d) \<and> 0 \<le> jc_startMs c \<and> jc_startMs c < jc_endMs c"

definition insert_chunk :: "job_chunk \<Rightarrow> job_tables \<Rightarrow> (unit \<times> job_tables) option" where
  "insert_chunk c d =
     (if jc_id c \<notin> jc_id ` set (db_chunks d)
         \<and> (jc_jobId c, jc_ordinal c) \<notin> (\<lambda>c. (jc_jobId c, jc_ordinal c)) ` set (db_chunks d)
         \<and> chunk_row_ok d c
      then Some ((), d\<lparr>db_chunks := db_chunks d @ [c]\<rparr>) else None)"

definition update_chunks :: "(job_chunk \<Rightarrow> bool) \<Rightarrow> (job_chunk \<Rightarrow> job_chunk) \<Rightarrow> job_tables \<Rightarrow> job_tables" where
  "update_chunks P f d = d\<lparr>db_chunks := map (\<lambda>c. if P c then f c else c) (db_chunks d)\<rparr>"

text \<open>Deleting chunks sets the \<open>chunk_id\<close> of their segments to \<open>NULL\<close>.\<close>

definition delete_chunks :: "string \<Rightarrow> job_tables \<Rightarrow> job_tables" where
  "delete_chunks jobId d =
     (let gone = jc_id ` set (filter (\<lambda>c. jc_jobId c = jobId) (db_chunks d)) in
      d\<lparr>db_chunks := filter (\<lambda>c. jc_jobId c \<noteq> jobId) (db_chunks d),
        db_segments := map (\<lambda>s. if ts_chunkId s \<in> gone then s\<lparr>ts_chunkId := []\<rparr> else s) (db_segments d)\<rparr>)"

definition insert_event_row :: "job_event \<Rightarrow> job_tables \<Rightarrow> (int \<times> job_tables) option" where
  "insert_event_row e d =
     (if je_jobId e \<in> tj_id ` set (db_jobs d)
      then Some (db_nextEventId d,
        d\<lparr>db_events := db_events d @ [e\<lparr>je_id := db_nextEventId d\<rparr>], db_nextEventId := db_nextEventId d + 1\<rparr>)
      else None)"

definition insert_lease :: "execution_lease \<Rightarrow> job_tables \<Rightarrow> (unit \<times> job_tables) option" where
  "insert_lease l d =
     (if db_lease d = None \<and> el_jobId l \<in> tj_id ` set (db_jobs d)
      then Some ((), d\<lparr>db_lease := Some l\<rparr>) else None)"

definition delete_lease :: "(execution_lease \<Rightarrow> bool) \<Rightarrow> job_tables \<Rightarrow> (nat \<times> job_tables) option" where
  "delete_lease P d =
     (case db_lease d of
        Some l \<Rightarrow> if P l then Some (1, d\<lparr>db_lease := None\<rparr>) else Some (0, d)
      | None \<Rightarrow> Some (0, d))"

definition find_job :: "string \<Rightarrow> job_tables \<Rightarrow> transcription_job option" where
  "find_job jobId d = find (\<lambda>j. tj_id j = jobId) (db_jobs d)"

text \<open>The first row in an order, \<open>ORDER BY ... LIMIT 1\<close>.\<close>

definition first_by :: "('a \<Rightarrow> 'k::linorder) \<Rightarrow> 'a list \<Rightarrow> 'a option" where
  "first_by key rows = (case sort_key key rows of [] \<Rightarrow> None | r # rs \<Rightarrow> Some r)"

definition rebuildRecording :: "string \<Rightarrow> (job_tables, unit) dbop" where
  "rebuildRecording recordingId = statement"

subsection \<open>Helpers of the repository\<close>

definition validation :: "error_code \<Rightarrow> ('d, 'a) dbop" where
  "validation code = fail (validation_error code)"

definition findJob :: "string \<Rightarrow> (job_tables, transcription_job option) dbop" where
  "findJob jobId = select (find_job jobId)"

definition findRawLease :: "(job_tables, execution_lease option) dbop" where
  "findRawLease = select db_lease"

definition corrupt_lease :: user_error where
  "corrupt_lease = database_error DatabaseCorrupt False"

definition validateLeaseIdentity :: "execution_lease \<Rightarrow> (job_tables, unit) dbop" where
  "validateLeaseIdentity l =
     (if blank (el_ownerToken l) \<or> blank (el_jobId l) then fail corrupt_lease
      else and_then (select (\<lambda>d. el_jobId l \<in> tj_id ` set (db_jobs d))) (\<lambda>known.
        if known then succeed () else fail corrupt_lease))"

definition validateLeaseTimestamps :: "execution_lease \<Rightarrow> (job_tables, unit) dbop" where
  "validateLeaseTimestamps l =
     (if el_acquiredAt l = None \<or> el_heartbeatAt l = None \<or> el_expiresAt l = None
      then fail corrupt_lease else succeed ())"

definition findLease :: "(job_tables, execution_lease option) dbop" where
  "findLease =
     and_then findRawLease (\<lambda>lease.
       case lease of
         None \<Rightarrow> succeed None
       | Some l \<Rightarrow>
           and_then (validateLeaseIdentity l) (\<lambda>_.
           and_then (validateLeaseTimestamps l) (\<lambda>_. succeed (Some l))))"

text \<open>\<open>insertEvent\<close>; the result is the event with the id and time the code sets in place.\<close>

definition stored_event :: "job_event \<Rightarrow> job_event" where
  "stored_event e =
     e\<lparr>je_eventType := trim_string (je_eventType e),
       je_severity := (if blank (je_severity e) then ''info''
                       else map lower_char (trim_string (je_severity e))),
       je_progress := map_option (clamp 0 1) (je_progress e)\<rparr>"

definition insertEvent :: "job_event \<Rightarrow> (job_tables, job_event) dbop" where
  "insertEvent e =
     (if je_jobId e = [] \<or> blank (je_eventType e) then validation InvalidArgument
      else and_then (if je_createdAt e = None then and_then clock (\<lambda>now. succeed (e\<lparr>je_createdAt := Some now\<rparr>))
                     else succeed e) (\<lambda>e'.
           and_then (exec (insert_event_row (stored_event e'))) (\<lambda>i. succeed (e'\<lparr>je_id := i\<rparr>))))"

definition latestSegment :: "string \<Rightarrow> bool \<Rightarrow> (job_tables, transcript_segment option) dbop" where
  "latestSegment jobId includeProvisional =
     select (\<lambda>d. first_by (\<lambda>s. (- ts_endMs s, - ts_ordinal s))
       (filter (\<lambda>s. ts_jobId s = jobId \<and> (includeProvisional \<or> \<not> ts_provisional s)) (db_segments d)))"

text \<open>
  \<open>DatabaseManager::executionLeaseTransaction\<close>: the operation runs only while the caller holds
  the lease of the job and it has not expired. \<open>executionWrite\<close> lets a caller without a token
  through.
\<close>

definition executionLeaseTransaction ::
  "string \<Rightarrow> string \<Rightarrow> (job_tables, 'a) dbop \<Rightarrow> (job_tables, 'a) dbop" where
  "executionLeaseTransaction jobId ownerToken operation =
     (if blank jobId \<or> blank ownerToken then validation InvalidArgument
      else immediateTransaction (
        and_then (select (\<lambda>d. case db_lease d of
            Some l \<Rightarrow> if el_jobId l = jobId \<and> el_ownerToken l = ownerToken then Some (el_expiresAt l) else None
          | None \<Rightarrow> None)) (\<lambda>row.
        case row of
          None \<Rightarrow> validation ExecutionLeaseLost
        | Some None \<Rightarrow> validation ExecutionLeaseLost
        | Some (Some expiresAt) \<Rightarrow>
            and_then clock (\<lambda>now.
              if expiresAt \<le> now then validation ExecutionLeaseLost else operation))))"

definition executionWrite ::
  "string \<Rightarrow> string \<Rightarrow> (job_tables, 'a) dbop \<Rightarrow> (job_tables, 'a) dbop" where
  "executionWrite jobId ownerToken operation =
     (if ownerToken = [] then immediateTransaction operation
      else executionLeaseTransaction jobId ownerToken operation)"

subsection \<open>Claiming a job\<close>

text \<open>The lease is valid and not expired.\<close>

definition claim_held :: "string option \<Rightarrow> string \<Rightarrow> execution_lease \<Rightarrow> (job_tables, job_claim) dbop" where
  "claim_held requested ownerToken l =
     (let claim = no_claim\<lparr>jk_activeJobId := el_jobId l, jk_lease := Some l\<rparr> in
      if el_ownerToken l = ownerToken \<and> (requested = None \<or> requested = Some (el_jobId l))
      then and_then (findJob (el_jobId l)) (\<lambda>current.
             case current of
               Some j \<Rightarrow> succeed (claim\<lparr>jk_claimed := True, jk_job := Some j\<rparr>)
             | None \<Rightarrow> succeed claim)
      else succeed claim)"

text \<open>The lease has expired: its job is taken out of execution.\<close>

definition lease_expired_text :: "bool \<Rightarrow> string" where
  "lease_expired_text cancellationPending =
     (if cancellationPending then ''Cancellation completed after the ASR execution lease expired.''
      else ''The ASR execution lease expired.'')"

definition recovered_chunk :: "bool \<Rightarrow> string \<Rightarrow> job_tables \<Rightarrow> string \<Rightarrow> job_tables" where
  "recovered_chunk cancellationPending jobId d message =
     (if cancellationPending
      then update_chunks (\<lambda>c. jc_jobId c = jobId \<and> jc_state c \<in> {ChunkRunning, ChunkInterrupted, ChunkFailed})
             (\<lambda>c. c\<lparr>jc_state := ChunkCancelled, jc_error := message\<rparr>) d
      else update_chunks (\<lambda>c. jc_jobId c = jobId \<and> jc_state c = ChunkRunning)
             (\<lambda>c. c\<lparr>jc_state := ChunkInterrupted, jc_error := message\<rparr>) d)"

definition cancelled_job :: "string \<Rightarrow> transcription_job \<Rightarrow> transcription_job" where
  "cancelled_job message j =
     j\<lparr>tj_state := Cancelled, tj_errorCode := ''JobCancelled'', tj_errorMessage := message\<rparr>"

definition interrupted_job :: "int \<Rightarrow> string \<Rightarrow> transcription_job \<Rightarrow> transcription_job" where
  "interrupted_job now message j =
     j\<lparr>tj_state := Interrupted, tj_interruptedAt := Some now, tj_errorCode := ''WorkerCrashed'',
       tj_errorMessage := message\<rparr>"

definition recovery_event :: "bool \<Rightarrow> string \<Rightarrow> string \<Rightarrow> string \<Rightarrow> job_event" where
  "recovery_event cancellationPending jobId interruptedType message =
     (new_event jobId (if cancellationPending then ''cancelled'' else interruptedType))
       \<lparr>je_severity := ''warning'',
        je_state := Some (if cancellationPending then Cancelled else Interrupted),
        je_code := (if cancellationPending then ''JobCancelled'' else ''WorkerCrashed''),
        je_message := message\<rparr>"

definition recover_expired :: "int \<Rightarrow> execution_lease \<Rightarrow> (job_tables, unit) dbop" where
  "recover_expired now l =
     and_then (findJob (el_jobId l)) (\<lambda>expiredJob.
       let cancellationPending = (case expiredJob of Some j \<Rightarrow> tj_state j = Cancelling | None \<Rightarrow> False);
           message = lease_expired_text cancellationPending in
       and_then (exec (if cancellationPending
           then update_jobs (\<lambda>j. tj_id j = el_jobId l \<and> tj_state j = Cancelling) (cancelled_job message)
           else update_jobs (\<lambda>j. tj_id j = el_jobId l \<and> tj_state j \<in> {Preparing, Normalizing, WaitingForModel,
                  LoadingModel, AnalyzingSpeech, Transcribing, Finalizing}) (interrupted_job now message))) (\<lambda>rows.
       and_then (if rows > 0
                 then and_then (modify (\<lambda>d. recovered_chunk cancellationPending (el_jobId l) d message)) (\<lambda>_.
                      and_then (insertEvent (recovery_event cancellationPending (el_jobId l) ''lease_expired'' message)) (\<lambda>_.
                      succeed ()))
                 else succeed ()) (\<lambda>_.
       and_then (exec (delete_lease (\<lambda>_. True))) (\<lambda>_. succeed ()))))"

text \<open>No lease is left: a queued job may be taken.\<close>

definition take_job :: "transcription_job \<Rightarrow> string \<Rightarrow> int \<Rightarrow> int \<Rightarrow> (job_tables, job_claim) dbop" where
  "take_job selected ownerToken leaseDurationMs now =
     and_then (exec (update_jobs (\<lambda>j. tj_id j = tj_id selected \<and> tj_state j = Queued)
         (\<lambda>j. j\<lparr>tj_state := Preparing,
               tj_startedAt := (case tj_startedAt j of Some t \<Rightarrow> Some t | None \<Rightarrow> Some now)\<rparr>))) (\<lambda>rows.
     if rows = 0 then succeed no_claim
     else let acquired = \<lparr>el_ownerToken = ownerToken, el_jobId = tj_id selected, el_acquiredAt = Some now,
                el_heartbeatAt = Some now, el_expiresAt = Some (now + leaseDurationMs)\<rparr> in
       and_then (exec (insert_lease acquired)) (\<lambda>_.
       and_then (insertEvent ((new_event (tj_id selected) ''claimed'')
           \<lparr>je_state := Some Preparing, je_stage := Some (tj_stage selected),
            je_progress := Some (tj_progress selected)\<rparr>)) (\<lambda>_.
       and_then (findJob (tj_id selected)) (\<lambda>claimedJob.
       case claimedJob of
         None \<Rightarrow> fail (database_error NotFound False)
       | Some j \<Rightarrow> succeed \<lparr>jk_claimed = True, jk_job = Some j, jk_lease = Some acquired,
                    jk_activeJobId = tj_id selected\<rparr>))))"

definition claim_free :: "string option \<Rightarrow> string \<Rightarrow> int \<Rightarrow> int \<Rightarrow> (job_tables, job_claim) dbop" where
  "claim_free requested ownerToken leaseDurationMs now =
     and_then (select (\<lambda>d. first_by (\<lambda>j. (tj_startedAt j, tj_id j))
         (filter (\<lambda>j. tj_state j \<in> set executing) (db_jobs d)))) (\<lambda>active.
     case active of
       Some j \<Rightarrow> succeed (no_claim\<lparr>jk_activeJobId := tj_id j\<rparr>)
     | None \<Rightarrow>
         and_then (select (\<lambda>d. case requested of
             Some jobId \<Rightarrow> find_job jobId d
           | None \<Rightarrow> first_by (\<lambda>j. (tj_queuePosition j, tj_createdAt j, tj_id j))
                      (filter (\<lambda>j. tj_state j = Queued \<and> \<not> tj_queueHidden j) (db_jobs d)))) (\<lambda>queued.
         case queued of
           None \<Rightarrow> if requested \<noteq> None then validation NotFound else succeed no_claim
         | Some selected \<Rightarrow>
             if tj_state selected \<noteq> Queued then validation InvalidStateTransition
             else take_job selected ownerToken leaseDurationMs now))"

definition claimInDatabase :: "string option \<Rightarrow> string \<Rightarrow> int \<Rightarrow> (job_tables, job_claim) dbop" where
  "claimInDatabase requested ownerToken leaseDurationMs =
     and_then clock (\<lambda>now.
     and_then findLease (\<lambda>lease.
     case lease of
       None \<Rightarrow> claim_free requested ownerToken leaseDurationMs now
     | Some l \<Rightarrow>
         if (case el_expiresAt l of Some t \<Rightarrow> now < t | None \<Rightarrow> False)
         then claim_held requested ownerToken l
         else and_then (recover_expired now l) (\<lambda>_.
              claim_free requested ownerToken leaseDurationMs now)))"

definition claimNextQueued :: "string \<Rightarrow> int \<Rightarrow> (job_tables, job_claim) dbop" where
  "claimNextQueued ownerToken leaseDurationMs =
     (if blank ownerToken \<or> leaseDurationMs < 1000 then validation InvalidArgument
      else immediateTransaction (claimInDatabase None ownerToken leaseDurationMs))"

definition claimQueued :: "string \<Rightarrow> string \<Rightarrow> int \<Rightarrow> (job_tables, job_claim) dbop" where
  "claimQueued jobId ownerToken leaseDurationMs =
     (if jobId = [] \<or> blank ownerToken \<or> leaseDurationMs < 1000 then validation InvalidArgument
      else immediateTransaction (claimInDatabase (Some jobId) ownerToken leaseDurationMs))"

subsection \<open>Leases\<close>

definition renewLease :: "string \<Rightarrow> string \<Rightarrow> int \<Rightarrow> (job_tables, execution_lease) dbop" where
  "renewLease jobId ownerToken leaseDurationMs =
     (if jobId = [] \<or> blank ownerToken \<or> leaseDurationMs < 1000 then validation InvalidArgument
      else immediateTransaction (
        and_then findRawLease (\<lambda>current.
        and_then clock (\<lambda>now.
        case current of
          None \<Rightarrow> validation ExecutionLeaseLost
        | Some l \<Rightarrow>
            if el_jobId l \<noteq> jobId \<or> el_ownerToken l \<noteq> ownerToken then validation ExecutionLeaseLost
            else and_then (validateLeaseIdentity l) (\<lambda>_.
              if (case el_expiresAt l of Some t \<Rightarrow> t \<le> now | None \<Rightarrow> False) then validation ExecutionLeaseLost
              else let renewed = l\<lparr>el_acquiredAt := (case el_acquiredAt l of Some t \<Rightarrow> Some t | None \<Rightarrow> Some now),
                         el_heartbeatAt := Some now, el_expiresAt := Some (now + leaseDurationMs)\<rparr> in
                and_then (exec (\<lambda>d. case db_lease d of
                    Some r \<Rightarrow> if el_jobId r = jobId \<and> el_ownerToken r = ownerToken
                      then Some (1::nat, d\<lparr>db_lease := Some (r\<lparr>el_acquiredAt := el_acquiredAt renewed,
                          el_heartbeatAt := el_heartbeatAt renewed, el_expiresAt := el_expiresAt renewed\<rparr>)\<rparr>)
                      else Some (0, d)
                  | None \<Rightarrow> Some (0, d))) (\<lambda>rows.
                if rows = 0 then validation ExecutionLeaseLost else succeed renewed))))))"

definition releaseLease :: "string \<Rightarrow> string \<Rightarrow> (job_tables, unit) dbop" where
  "releaseLease jobId ownerToken =
     (if jobId = [] \<or> blank ownerToken then validation InvalidArgument
      else immediateTransaction (
        and_then (exec (delete_lease (\<lambda>l. el_jobId l = jobId \<and> el_ownerToken l = ownerToken))) (\<lambda>rows.
        if rows = 0 then validation InvalidStateTransition else succeed ())))"

definition activeLease :: "(job_tables, execution_lease option) dbop" where
  "activeLease = and_then connection (\<lambda>_. findLease)"

subsection \<open>Creating, finding and listing jobs\<close>

text \<open>\<open>SELECT COALESCE(MAX(queue_position),-1)+1 ... WHERE state='Queued'\<close>.\<close>

definition queue_end :: "job_tables \<Rightarrow> int" where
  "queue_end d =
     (case map tj_queuePosition (filter (\<lambda>j. tj_state j = Queued) (db_jobs d)) of
        [] \<Rightarrow> 0
      | p # ps \<Rightarrow> foldl max p ps + 1)"

definition createQueued :: "string \<Rightarrow> transcription_job \<Rightarrow> (job_tables, transcription_job) dbop" where
  "createQueued uuid job =
     (if tj_recordingId job = [] then validation InvalidArgument
      else
        let job1 = (if tj_id job = [] then job\<lparr>tj_id := uuid\<rparr> else job) in
        and_then (if tj_createdAt job1 = None then and_then clock (\<lambda>now. succeed (job1\<lparr>tj_createdAt := Some now\<rparr>))
                  else succeed job1) (\<lambda>job2.
        let job3 = job2\<lparr>tj_state := Queued, tj_stage := StagePreparing, tj_progress := 0, tj_startedAt := None,
                     tj_completedAt := None, tj_interruptedAt := None, tj_errorCode := [], tj_errorMessage := []\<rparr> in
        immediateTransaction (
          and_then (select queue_end) (\<lambda>position.
          let job4 = job3\<lparr>tj_queuePosition := position\<rparr> in
          and_then (exec (insert_job job4)) (\<lambda>_.
          and_then (insertEvent ((new_event (tj_id job4) ''enqueued'')
              \<lparr>je_state := Some (tj_state job4), je_stage := Some (tj_stage job4),
               je_progress := Some (tj_progress job4)\<rparr>)) (\<lambda>_.
          succeed job4))))))"

definition create_job :: "string \<Rightarrow> transcription_job \<Rightarrow> (job_tables, unit) dbop" where
  "create_job uuid job = and_then (createQueued uuid job) (\<lambda>_. succeed ())"

definition findById :: "string \<Rightarrow> (job_tables, transcription_job option) dbop" where
  "findById jobId = and_then connection (\<lambda>_. select (find_job jobId))"

definition list_jobs :: "bool \<Rightarrow> (job_tables, transcription_job list) dbop" where
  "list_jobs includeCompleted =
     and_then connection (\<lambda>_. select (\<lambda>d.
       if includeCompleted
       then sort_key (\<lambda>j. (if tj_state j = Queued then 0 else 1 :: nat, tj_queuePosition j,
              map_option uminus (tj_createdAt j))) (filter (\<lambda>j. \<not> tj_queueHidden j) (db_jobs d))
       else sort_key (\<lambda>j. (tj_queuePosition j, tj_createdAt j))
              (filter (\<lambda>j. \<not> tj_queueHidden j \<and> tj_state j \<notin> {Completed, Cancelled}) (db_jobs d))))"

definition latestSegmentForJob :: "string \<Rightarrow> bool \<Rightarrow> (job_tables, transcript_segment option) dbop" where
  "latestSegmentForJob jobId includeProvisional =
     (if jobId = [] then validation InvalidArgument
      else and_then connection (\<lambda>_. latestSegment jobId includeProvisional))"

definition appendEvent :: "job_event \<Rightarrow> string \<Rightarrow> (job_tables, job_event) dbop" where
  "appendEvent e ownerToken = executionLeaseTransaction (je_jobId e) ownerToken (insertEvent e)"

definition eventsForJob :: "string \<Rightarrow> int \<Rightarrow> int \<Rightarrow> (job_tables, job_event list) dbop" where
  "eventsForJob jobId afterId limit =
     (if jobId = [] then validation InvalidArgument
      else and_then connection (\<lambda>_. select (\<lambda>d.
        take (nat (clamp 1 1000 limit)) (sort_key je_id
          (filter (\<lambda>e. je_jobId e = jobId \<and> max 0 afterId < je_id e) (db_events d))))))"

subsection \<open>Completion and transitions\<close>

definition completeAndActivate :: "string \<Rightarrow> string \<Rightarrow> string \<Rightarrow> (job_tables, unit) dbop" where
  "completeAndActivate recordingId jobId ownerToken =
     (if recordingId = [] \<or> jobId = [] then validation InvalidArgument
      else executionLeaseTransaction jobId ownerToken (
        and_then (findJob jobId) (\<lambda>current.
        case current of
          None \<Rightarrow> validation NotFound
        | Some job \<Rightarrow>
          if tj_recordingId job \<noteq> recordingId then validation NotFound
          else if tj_state job \<noteq> Finalizing then validation InvalidStateTransition
          else
            and_then clock (\<lambda>now.
            and_then (exec (update_jobs
                (\<lambda>j. tj_id j = jobId \<and> tj_recordingId j = recordingId \<and> tj_state j = Finalizing)
                (\<lambda>j. j\<lparr>tj_state := Completed, tj_stage := StageCompleted, tj_progress := 1,
                      tj_completedAt := Some now, tj_errorCode := [], tj_errorMessage := []\<rparr>))) (\<lambda>completed.
            if completed = 0 then validation InvalidStateTransition
            else
            and_then (exec (\<lambda>d. Some (length (filter (\<lambda>r. rr_id r = recordingId) (db_recordings d)),
                d\<lparr>db_recordings := map (\<lambda>r. if rr_id r = recordingId
                    then r\<lparr>rr_activeJobId := Some jobId, rr_updatedAt := now\<rparr> else r) (db_recordings d)\<rparr>))) (\<lambda>activated.
            if activated = 0 then validation NotFound
            else
            and_then (modify (\<lambda>d. d\<lparr>db_segments := filter (\<lambda>s. \<not> (ts_recordingId s = recordingId
                \<and> ts_jobId s \<noteq> jobId \<and> ts_jobId s \<in> tj_id ` set (filter (\<lambda>j.
                    tj_recordingId j = recordingId \<and> tj_state j = Completed) (db_jobs d)))) (db_segments d)\<rparr>)) (\<lambda>_.
            and_then (exec (update_jobs
                (\<lambda>j. tj_recordingId j = recordingId \<and> tj_id j \<noteq> jobId \<and> tj_state j = Completed)
                (\<lambda>j. j\<lparr>tj_queueHidden := True\<rparr>))) (\<lambda>_.
            and_then (insertEvent ((new_event jobId ''completed'')
                \<lparr>je_state := Some Completed, je_stage := Some StageCompleted, je_progress := Some 1\<rparr>)) (\<lambda>_.
            and_then (exec (delete_lease (\<lambda>l. el_jobId l = jobId \<and> (ownerToken = [] \<or> el_ownerToken l = ownerToken)))) (\<lambda>_.
            rebuildRecording recordingId))))))))))"

definition unleased_transition_allowed :: "job_state \<Rightarrow> job_state \<Rightarrow> bool" where
  "unleased_transition_allowed current target \<longleftrightarrow>
     target = Cancelling \<and> isRunning current
     \<or> target = Cancelled \<and> (current = Queued \<or> current = Interrupted)
     \<or> target = Queued \<and> (current = Interrupted \<or> current = Failed \<or> current = Cancelled)"

definition transition_event_type :: "job_state \<Rightarrow> job_state \<Rightarrow> string" where
  "transition_event_type current target =
     (if isTerminal target \<or> target = Interrupted then
        (case target of Completed \<Rightarrow> ''completed'' | Cancelled \<Rightarrow> ''cancelled'' | Failed \<Rightarrow> ''failed''
         | Interrupted \<Rightarrow> ''interrupted'' | _ \<Rightarrow> [])
      else if target = Queued \<and> current = Interrupted then ''resume''
      else if target = Queued then ''retry''
      else ''state_changed'')"

definition transition_event :: "transcription_job \<Rightarrow> job_state \<Rightarrow> string \<Rightarrow> string \<Rightarrow> job_event" where
  "transition_event current target errorCode errorMessage =
     (new_event (tj_id current) (transition_event_type (tj_state current) target))
       \<lparr>je_severity := (if target = Failed then ''error''
                       else if target = Cancelled \<or> target = Interrupted then ''warning'' else ''info''),
        je_state := Some target,
        je_stage := Some (if target = Completed then StageCompleted
                          else if target = Queued then StagePreparing else tj_stage current),
        je_progress := Some (if target = Completed then 1 else if target = Queued then 0 else tj_progress current),
        je_code := errorCode, je_message := errorMessage\<rparr>"

text \<open>The \<open>SET\<close> list the code builds for the target state.\<close>

definition transition_row ::
  "job_state \<Rightarrow> string \<Rightarrow> string \<Rightarrow> int \<Rightarrow> int \<Rightarrow> transcription_job \<Rightarrow> transcription_job" where
  "transition_row target errorCode errorMessage now position j =
     (let j1 = j\<lparr>tj_state := target, tj_errorCode := errorCode, tj_errorMessage := errorMessage\<rparr>;
          j2 = (if target = Queued
                then j1\<lparr>tj_stage := StagePreparing, tj_progress := 0, tj_startedAt := None,
                        tj_completedAt := None, tj_interruptedAt := None,
                        tj_retryCount := tj_retryCount j + 1, tj_queuePosition := position\<rparr> else j1);
          j3 = (if target = Preparing \<and> tj_startedAt j = None then j2\<lparr>tj_startedAt := Some now\<rparr> else j2);
          j4 = (if target = Completed
                then j3\<lparr>tj_completedAt := Some now, tj_progress := 1, tj_stage := StageCompleted\<rparr> else j3)
      in if target = Interrupted then j4\<lparr>tj_interruptedAt := Some now\<rparr> else j4)"

definition transition_body ::
  "string \<Rightarrow> job_state \<Rightarrow> string \<Rightarrow> string \<Rightarrow> string \<Rightarrow> (job_tables, unit) dbop" where
  "transition_body jobId target errorCode errorMessage ownerToken =
     and_then (findJob jobId) (\<lambda>currentResult.
     case currentResult of
       None \<Rightarrow> fail (database_error NotFound False)
     | Some current \<Rightarrow>
       if ownerToken = [] \<and> \<not> unleased_transition_allowed (tj_state current) target
       then validation InvalidStateTransition
       else case validateTransition (tj_state current) target of
         Inl e \<Rightarrow> fail e
       | Inr _ \<Rightarrow>
         if tj_state current = target then succeed ()
         else
           and_then clock (\<lambda>now.
           and_then (if target = Queued then select queue_end else succeed 0) (\<lambda>position.
           and_then (exec (update_jobs (\<lambda>j. tj_id j = jobId \<and> tj_state j = tj_state current)
               (transition_row target errorCode errorMessage now position))) (\<lambda>rows.
           if rows = 0 then validation InvalidStateTransition
           else
           and_then (insertEvent ((transition_event current target errorCode errorMessage)\<lparr>je_jobId := jobId\<rparr>)) (\<lambda>_.
           if isTerminal target \<or> target = Interrupted
           then and_then (exec (delete_lease (\<lambda>l. el_jobId l = jobId
                    \<and> (ownerToken = [] \<or> el_ownerToken l = ownerToken)))) (\<lambda>_. succeed ())
           else succeed ())))))"

definition transition ::
  "string \<Rightarrow> job_state \<Rightarrow> string \<Rightarrow> string \<Rightarrow> string \<Rightarrow> (job_tables, unit) dbop" where
  "transition jobId target errorCode errorMessage ownerToken =
     (if jobId = [] then validation InvalidArgument
      else executionWrite jobId ownerToken (transition_body jobId target errorCode errorMessage ownerToken))"

subsection \<open>Progress, diagnostics and parameters\<close>

definition updateProgress ::
  "string \<Rightarrow> job_stage \<Rightarrow> real \<Rightarrow> int \<Rightarrow> string \<Rightarrow> (job_tables, unit) dbop" where
  "updateProgress jobId stage progress lastCompletedChunk ownerToken =
     executionLeaseTransaction jobId ownerToken (
       and_then (findJob jobId) (\<lambda>current.
       case current of
         None \<Rightarrow> validation NotFound
       | Some job \<Rightarrow>
           if stage_index stage < stage_index (tj_stage job) then validation InvalidStateTransition
           else let boundedProgress = clamp 0 1 progress in
             and_then (exec (update_jobs (\<lambda>j. tj_id j = jobId)
                 (\<lambda>j. j\<lparr>tj_stage := stage, tj_progress := max (tj_progress j) boundedProgress,
                       tj_lastCompletedChunk := max (tj_lastCompletedChunk j) lastCompletedChunk\<rparr>))) (\<lambda>_.
             if stage \<noteq> tj_stage job
             then and_then (insertEvent ((new_event jobId ''stage_changed'')
                      \<lparr>je_state := Some (tj_state job), je_stage := Some stage,
                       je_progress := Some (max (tj_progress job) boundedProgress)\<rparr>)) (\<lambda>_. succeed ())
             else succeed ())))"

definition merge_object :: "json_object \<Rightarrow> json_object \<Rightarrow> json_object" where
  "merge_object target source = foldl (\<lambda>o1 (key, v). AList.update key v o1) target source"

definition updateRuntimeInfo ::
  "string \<Rightarrow> string \<Rightarrow> string \<Rightarrow> string \<Rightarrow> json_object \<Rightarrow> string \<Rightarrow> (job_tables, unit) dbop" where
  "updateRuntimeInfo jobId actualBackend engineVersion workerVersion diagnostics ownerToken =
     executionLeaseTransaction jobId ownerToken (
       and_then (findJob jobId) (\<lambda>current.
       case current of
         None \<Rightarrow> validation NotFound
       | Some job \<Rightarrow>
           and_then (exec (update_jobs (\<lambda>j. tj_id j = jobId)
               (\<lambda>j. j\<lparr>tj_backend := actualBackend, tj_engineVersion := engineVersion,
                     tj_workerVersion := workerVersion,
                     tj_diagnostics := merge_object (tj_diagnostics job) diagnostics\<rparr>))) (\<lambda>rows.
           if rows = 0 then validation NotFound else succeed ())))"

definition updateParameters :: "string \<Rightarrow> json_object \<Rightarrow> string \<Rightarrow> (job_tables, unit) dbop" where
  "updateParameters jobId parameters ownerToken =
     executionLeaseTransaction jobId ownerToken (
       and_then (exec (update_jobs (\<lambda>j. tj_id j = jobId) (\<lambda>j. j\<lparr>tj_parameters := parameters\<rparr>))) (\<lambda>rows.
       if rows = 0 then validation NotFound else succeed ()))"

subsection \<open>Chunks\<close>

definition chunk_plan_valid :: "job_chunk list \<Rightarrow> bool" where
  "chunk_plan_valid chunks \<longleftrightarrow> list_all (\<lambda>(i, c). jc_ordinal c = int i \<and> 0 \<le> jc_startMs c
     \<and> jc_startMs c < jc_endMs c) (zip [0..<length chunks] chunks)"

fun insert_chunks :: "string \<Rightarrow> (int \<Rightarrow> string) \<Rightarrow> job_chunk list \<Rightarrow> (job_tables, unit) dbop" where
  "insert_chunks jobId uuid [] = succeed ()"
| "insert_chunks jobId uuid (c # cs) =
     and_then (exec (insert_chunk (c\<lparr>jc_id := (if jc_id c = [] then uuid (jc_ordinal c) else jc_id c),
        jc_jobId := jobId\<rparr>))) (\<lambda>_. insert_chunks jobId uuid cs)"

definition replaceChunks ::
  "(int \<Rightarrow> string) \<Rightarrow> string \<Rightarrow> job_chunk list \<Rightarrow> string \<Rightarrow> (job_tables, unit) dbop" where
  "replaceChunks uuid jobId chunks ownerToken =
     (if \<not> chunk_plan_valid chunks then validation InvalidArgument
      else executionWrite jobId ownerToken (
        and_then (if ownerToken = []
          then and_then (findJob jobId) (\<lambda>current.
               case current of
                 None \<Rightarrow> validation NotFound
               | Some job \<Rightarrow>
                   and_then (select (\<lambda>d. list_ex (\<lambda>c. jc_jobId c = jobId) (db_chunks d))) (\<lambda>existing.
                   if tj_state job \<noteq> Queued \<or> existing then validation InvalidStateTransition
                   else succeed ()))
          else succeed ()) (\<lambda>_.
        and_then (modify (delete_chunks jobId)) (\<lambda>_.
        insert_chunks jobId uuid chunks))))"

definition chunks_of_job :: "string \<Rightarrow> (job_tables, job_chunk list) dbop" where
  "chunks_of_job jobId =
     and_then connection (\<lambda>_. select (\<lambda>d. sort_key jc_ordinal (filter (\<lambda>c. jc_jobId c = jobId) (db_chunks d))))"

definition chunk_event :: "job_chunk \<Rightarrow> job_event" where
  "chunk_event chunk =
     (case jc_state chunk of
        ChunkRunning \<Rightarrow> new_event (jc_jobId chunk) ''chunk_started''
      | ChunkCompleted \<Rightarrow> new_event (jc_jobId chunk) ''chunk_completed''
      | ChunkCancelled \<Rightarrow> (new_event (jc_jobId chunk) ''chunk_cancelled'')\<lparr>je_severity := ''warning''\<rparr>
      | ChunkFailed \<Rightarrow> (new_event (jc_jobId chunk) ''chunk_failed'')\<lparr>je_severity := ''error''\<rparr>
      | ChunkInterrupted \<Rightarrow> (new_event (jc_jobId chunk) ''chunk_interrupted'')\<lparr>je_severity := ''warning''\<rparr>
      | ChunkPending \<Rightarrow> new_event (jc_jobId chunk) ''chunk_reset'')"

definition updateChunk :: "job_chunk \<Rightarrow> string \<Rightarrow> (job_tables, unit) dbop" where
  "updateChunk chunk ownerToken =
     (if jc_id chunk = [] \<or> jc_jobId chunk = [] then validation InvalidArgument
      else executionLeaseTransaction (jc_jobId chunk) ownerToken (
        and_then (select (\<lambda>d.
            case (find (\<lambda>c. jc_id c = jc_id chunk \<and> jc_jobId c = jc_jobId chunk) (db_chunks d),
                  find_job (jc_jobId chunk) d) of
              (Some c, Some j) \<Rightarrow>
                Some (c, j, length (filter (\<lambda>t. jc_jobId t = jc_jobId chunk) (db_chunks d)))
            | _ \<Rightarrow> None)) (\<lambda>row.
        case row of
          None \<Rightarrow> validation NotFound
        | Some (c, j, chunkCount) \<Rightarrow>
            and_then (modify (update_chunks (\<lambda>r. jc_id r = jc_id chunk \<and> jc_jobId r = jc_jobId chunk)
                (\<lambda>r. r\<lparr>jc_state := jc_state chunk, jc_attempts := jc_attempts chunk,
                      jc_startedAt := jc_startedAt chunk, jc_completedAt := jc_completedAt chunk,
                      jc_error := jc_error chunk, jc_resultHash := jc_resultHash chunk,
                      jc_diagnostics := jc_diagnostics chunk\<rparr>))) (\<lambda>_.
            if jc_state c = jc_state chunk then succeed ()
            else and_then (insertEvent ((chunk_event chunk)
                   \<lparr>je_state := Some (tj_state j), je_stage := Some (tj_stage j),
                    je_progress := Some (tj_progress j), je_message := jc_error chunk,
                    je_payload := [(''ordinal'', JNumber (of_int (jc_ordinal c))), (''total'', JNumber (of_nat chunkCount))]\<rparr>)) (\<lambda>_.
                 succeed ())))))"

subsection \<open>The queue as a whole\<close>

fun reorder_loop :: "int \<Rightarrow> string list \<Rightarrow> (job_tables, unit) dbop" where
  "reorder_loop i [] = succeed ()"
| "reorder_loop i (jobId # ids) =
     and_then (exec (update_jobs (\<lambda>j. tj_id j = jobId \<and> tj_state j = Queued)
         (\<lambda>j. j\<lparr>tj_queuePosition := i\<rparr>))) (\<lambda>rows.
     if rows = 0 then validation InvalidStateTransition else reorder_loop (i + 1) ids)"

definition reorder :: "string list \<Rightarrow> (job_tables, unit) dbop" where
  "reorder orderedJobIds =
     (if \<not> distinct orderedJobIds then validation InvalidArgument
      else db_transaction (reorder_loop 0 orderedJobIds))"

definition recovery_text :: "bool \<Rightarrow> string \<Rightarrow> string" where
  "recovery_text cancellationPending recoveryReason =
     (if cancellationPending then ''Cancellation completed after the previous worker stopped.'' else recoveryReason)"

fun recover_jobs ::
  "int \<Rightarrow> string \<Rightarrow> (string \<times> job_state) list \<Rightarrow> int \<Rightarrow> (job_tables, int) dbop" where
  "recover_jobs now recoveryReason [] affected = succeed affected"
| "recover_jobs now recoveryReason ((jobId, previousState) # rest) affected =
     (let cancellationPending = (previousState = Cancelling);
          message = recovery_text cancellationPending recoveryReason in
      and_then (exec (if cancellationPending
          then update_jobs (\<lambda>j. tj_id j = jobId \<and> tj_state j = Cancelling) (cancelled_job message)
          else update_jobs (\<lambda>j. tj_id j = jobId \<and> tj_state j = previousState) (interrupted_job now message))) (\<lambda>rows.
      if rows = 0 then recover_jobs now recoveryReason rest affected
      else
        and_then (modify (\<lambda>d. recovered_chunk cancellationPending jobId d message)) (\<lambda>_.
        and_then (insertEvent (recovery_event cancellationPending jobId ''recovered_as_interrupted'' message)) (\<lambda>_.
        recover_jobs now recoveryReason rest (affected + 1)))))"

definition markRunningJobsInterrupted :: "string \<Rightarrow> (job_tables, int) dbop" where
  "markRunningJobsInterrupted reason =
     immediateTransaction (
       and_then clock (\<lambda>now.
       and_then findLease (\<lambda>lease.
       let protectedJobId = (case lease of
             Some l \<Rightarrow> (case el_expiresAt l of Some t \<Rightarrow> if now < t then el_jobId l else [] | None \<Rightarrow> [])
           | None \<Rightarrow> []) in
       and_then (select (\<lambda>d. map (\<lambda>j. (tj_id j, tj_state j)) (sort_key tj_id (filter (\<lambda>j.
           tj_state j \<in> set executing \<and> (protectedJobId = [] \<or> tj_id j \<noteq> protectedJobId)) (db_jobs d))))) (\<lambda>recoverable.
       and_then (recover_jobs now
           (if blank reason then ''The previous transcription worker stopped unexpectedly.'' else reason)
           recoverable 0) (\<lambda>affected.
       and_then (if lease \<noteq> None \<and> protectedJobId = []
                 then and_then (exec (delete_lease (\<lambda>_. True))) (\<lambda>_. succeed ()) else succeed ()) (\<lambda>_.
       succeed affected))))))"

definition is_active :: "string \<Rightarrow> job_tables \<Rightarrow> bool" where
  "is_active jobId d \<longleftrightarrow> list_ex (\<lambda>r. rr_activeJobId r = Some jobId) (db_recordings d)"

definition deleteTerminalJob :: "string \<Rightarrow> (job_tables, unit) dbop" where
  "deleteTerminalJob jobId =
     immediateTransaction (
       and_then (findJob jobId) (\<lambda>current.
       case current of
         None \<Rightarrow> validation NotFound
       | Some job \<Rightarrow>
           if \<not> isTerminal (tj_state job) \<and> tj_state job \<noteq> Interrupted then validation InvalidStateTransition
           else
             and_then (exec (\<lambda>d. map_option (\<lambda>r. (rr_activeJobId r = Some jobId, d))
                 (find (\<lambda>r. rr_id r = tj_recordingId job) (db_recordings d)))) (\<lambda>active.
             and_then (exec (if active then update_jobs (\<lambda>j. tj_id j = jobId) (\<lambda>j. j\<lparr>tj_queueHidden := True\<rparr>)
                             else delete_jobs (\<lambda>j. tj_id j = jobId))) (\<lambda>rows.
             if rows = 0 then fail query_error
             else rebuildRecording (tj_recordingId job)))))"

fun rebuild_all :: "string list \<Rightarrow> (job_tables, unit) dbop" where
  "rebuild_all [] = succeed ()"
| "rebuild_all (r # rs) = and_then (rebuildRecording r) (\<lambda>_. rebuild_all rs)"

definition clearCompleted :: "(job_tables, nat) dbop" where
  "clearCompleted =
     immediateTransaction (
       and_then (select (\<lambda>d. remdups (map tj_recordingId (filter (\<lambda>j.
           \<not> tj_queueHidden j \<and> tj_state j \<in> {Completed, Cancelled}) (db_jobs d))))) (\<lambda>recordingIds.
       and_then (exec (\<lambda>d. update_jobs (\<lambda>j. \<not> tj_queueHidden j \<and> tj_state j = Completed \<and> is_active (tj_id j) d)
           (\<lambda>j. j\<lparr>tj_queueHidden := True\<rparr>) d)) (\<lambda>hidden.
       and_then (exec (\<lambda>d. delete_jobs (\<lambda>j. \<not> tj_queueHidden j \<and> tj_state j \<in> {Completed, Cancelled}
           \<and> \<not> is_active (tj_id j) d) d)) (\<lambda>removed.
       and_then (rebuild_all recordingIds) (\<lambda>_. succeed (hidden + removed))))))"

end
