(* ===== verification/JobInvariants.thy ===== *)
theory JobInvariants
  imports JobStore
begin

text \<open>
  The invariant of the job tables. \<open>base_ok\<close> is what every statement of every operation keeps:
  keys and references, at most one executing job, active transcripts belong to completed jobs,
  event numbers grow. \<open>db_ok\<close> adds that the job of the execution lease is executing, which
  holds only between transactions. The first part treats the statements, the second the
  operations, each as a triple over its body.
\<close>

definition job_ids :: "job_tables \<Rightarrow> string set" where
  "job_ids d = tj_id ` set (db_jobs d)"

definition keys_ok :: "job_tables \<Rightarrow> bool" where
  "keys_ok d \<longleftrightarrow> distinct (map rr_id (db_recordings d)) \<and> distinct (map tj_id (db_jobs d))
     \<and> list_all (job_row_ok d) (db_jobs d)
     \<and> (\<forall>c \<in> set (db_chunks d). jc_jobId c \<in> job_ids d)
     \<and> (\<forall>s \<in> set (db_segments d). ts_jobId s \<in> job_ids d)
     \<and> (\<forall>e \<in> set (db_events d). je_jobId e \<in> job_ids d)"

definition events_ok :: "job_tables \<Rightarrow> bool" where
  "events_ok d \<longleftrightarrow> sorted_wrt (<) (map je_id (db_events d)) \<and> (\<forall>e \<in> set (db_events d). je_id e < db_nextEventId d)"

definition active_ok :: "job_tables \<Rightarrow> bool" where
  "active_ok d \<longleftrightarrow> (\<forall>r \<in> set (db_recordings d). \<forall>a. rr_activeJobId r = Some a \<longrightarrow>
     (\<exists>j \<in> set (db_jobs d). tj_id j = a \<and> tj_recordingId j = rr_id r \<and> tj_state j = Completed))"

definition base_ok :: "job_tables \<Rightarrow> bool" where
  "base_ok d \<longleftrightarrow> keys_ok d \<and> events_ok d \<and> active_ok d \<and> single_execution (db_jobs d)"

definition job_executing :: "string \<Rightarrow> job_tables \<Rightarrow> bool" where
  "job_executing jobId d \<longleftrightarrow> (\<exists>j \<in> set (db_jobs d). tj_id j = jobId \<and> tj_state j \<in> set executing)"

text \<open>The lease clause, for leases other than those of the given jobs.\<close>

definition lease_ok_but :: "string set \<Rightarrow> job_tables \<Rightarrow> bool" where
  "lease_ok_but except d \<longleftrightarrow>
     (\<forall>l. db_lease d = Some l \<longrightarrow> el_jobId l \<in> except \<or> job_executing (el_jobId l) d)"

definition db_ok :: "job_tables \<Rightarrow> bool" where
  "db_ok d \<longleftrightarrow> base_ok d \<and> lease_ok_but {} d"

lemma executing_isRunning: "s \<in> set executing \<longleftrightarrow> isRunning s"
  by (cases s) (simp_all add: executing_def)

lemma job_row_ok_cong: "db_recordings d = db_recordings d' \<Longrightarrow> job_row_ok d = job_row_ok d'"
  by (intro ext) (simp add: job_row_ok_def)

subsection \<open>Statements\<close>

text \<open>What an update of jobs may change.\<close>

definition keeps_identity :: "(transcription_job \<Rightarrow> transcription_job) \<Rightarrow> bool" where
  "keeps_identity f \<longleftrightarrow> (\<forall>j. tj_id (f j) = tj_id j \<and> tj_recordingId (f j) = tj_recordingId j)"

lemma keeps_identityI:
  "(\<And>j. tj_id (f j) = tj_id j) \<Longrightarrow> (\<And>j. tj_recordingId (f j) = tj_recordingId j) \<Longrightarrow> keeps_identity f"
  by (simp add: keeps_identity_def)

lemma update_jobs_fields:
  assumes "update_jobs P f d = Some (n, d')"
  shows "db_jobs d' = map (\<lambda>j. if P j then f j else j) (db_jobs d)" "db_recordings d' = db_recordings d"
    "db_chunks d' = db_chunks d" "db_segments d' = db_segments d" "db_events d' = db_events d"
    "db_nextEventId d' = db_nextEventId d" "db_lease d' = db_lease d"
    "n = length (filter P (db_jobs d))" "single_execution (db_jobs d')" "list_all (job_row_ok d) (db_jobs d')"
  using assms by (auto simp: update_jobs_def Let_def split: if_splits)

lemma update_jobs_ids:
  assumes "update_jobs P f d = Some (n, d')" "keeps_identity f"
  shows "map tj_id (db_jobs d') = map tj_id (db_jobs d)"
  using assms(2) update_jobs_fields(1)[OF assms(1)] by (simp add: keeps_identity_def)

lemma update_jobs_base:
  assumes "update_jobs P f d = Some (n, d')" "keeps_identity f"
    and "\<And>j. P j \<Longrightarrow> tj_state j = Completed \<Longrightarrow> tj_state (f j) = Completed"
    and "base_ok d"
  shows "base_ok d'"
proof -
  note u = update_jobs_fields[OF assms(1)]
  have ids: "map tj_id (db_jobs d') = map tj_id (db_jobs d)" by (rule update_jobs_ids[OF assms(1,2)])
  then have "job_ids d' = job_ids d" unfolding job_ids_def by (metis set_map)
  moreover have "job_row_ok d' = job_row_ok d" using u(2) by (intro job_row_ok_cong) simp
  ultimately have "keys_ok d'" using assms(4) ids u(2-5,10) by (simp add: base_ok_def keys_ok_def)
  moreover have "active_ok d'"
    unfolding active_ok_def
  proof (intro ballI allI impI)
    fix r a assume "r \<in> set (db_recordings d')" "rr_activeJobId r = Some a"
    then obtain j where j: "j \<in> set (db_jobs d)" "tj_id j = a" "tj_recordingId j = rr_id r"
      "tj_state j = Completed"
      using assms(4) u(2) unfolding base_ok_def active_ok_def by metis
    let ?j = "if P j then f j else j"
    have "?j \<in> set (db_jobs d')" using j(1) u(1) by auto
    moreover have "tj_id ?j = a \<and> tj_recordingId ?j = rr_id r \<and> tj_state ?j = Completed"
      using j assms(2,3) by (simp add: keeps_identity_def)
    ultimately show "\<exists>j \<in> set (db_jobs d'). tj_id j = a \<and> tj_recordingId j = rr_id r \<and> tj_state j = Completed"
      by blast
  qed
  ultimately show ?thesis using assms(4) u(5,6,9) by (simp add: base_ok_def events_ok_def)
qed

lemma update_jobs_executing:
  assumes "update_jobs P f d = Some (n, d')" "keeps_identity f"
    and "\<And>j. P j \<Longrightarrow> tj_id j = jobId \<Longrightarrow> tj_state j \<in> set executing \<Longrightarrow> tj_state (f j) \<in> set executing"
    and "job_executing jobId d"
  shows "job_executing jobId d'"
proof -
  obtain j where j: "j \<in> set (db_jobs d)" "tj_id j = jobId" "tj_state j \<in> set executing"
    using assms(4) by (auto simp: job_executing_def)
  let ?j = "if P j then f j else j"
  have "?j \<in> set (db_jobs d')" using j(1) update_jobs_fields(1)[OF assms(1)] by auto
  moreover have "tj_id ?j = jobId \<and> tj_state ?j \<in> set executing"
    using j assms(2,3) by (simp add: keeps_identity_def)
  ultimately show ?thesis unfolding job_executing_def by blast
qed

lemma update_jobs_lease:
  assumes "update_jobs P f d = Some (n, d')" "keeps_identity f"
    and "\<And>j. P j \<Longrightarrow> tj_id j \<notin> X \<Longrightarrow> tj_state j \<in> set executing \<Longrightarrow> tj_state (f j) \<in> set executing"
    and "lease_ok_but X d"
  shows "lease_ok_but X d'"
  unfolding lease_ok_but_def
proof (intro allI impI)
  fix l assume "db_lease d' = Some l"
  then have "el_jobId l \<in> X \<or> job_executing (el_jobId l) d"
    using assms(4) update_jobs_fields(7)[OF assms(1)] by (simp add: lease_ok_but_def)
  moreover have "job_executing (el_jobId l) d'" if "el_jobId l \<notin> X" "job_executing (el_jobId l) d"
    by (rule update_jobs_executing[OF assms(1,2) _ \<open>job_executing (el_jobId l) d\<close>])
      (rule assms(3), simp_all add: \<open>el_jobId l \<notin> X\<close>)
  ultimately show "el_jobId l \<in> X \<or> job_executing (el_jobId l) d'" by argo
qed

lemma lease_weaken: "lease_ok_but X d \<Longrightarrow> X \<subseteq> Y \<Longrightarrow> lease_ok_but Y d"
  by (auto simp: lease_ok_but_def)

text \<open>Statements on the other tables, with every property of the job rows unchanged.\<close>

definition same_jobs :: "job_tables \<Rightarrow> job_tables \<Rightarrow> bool" where
  "same_jobs d d' \<longleftrightarrow> db_jobs d' = db_jobs d \<and> db_recordings d' = db_recordings d"

lemma insert_event_base:
  assumes "insert_event_row e d = Some (i, d')" "base_ok d"
  shows "base_ok d' \<and> db_lease d' = db_lease d \<and> same_jobs d d'"
proof -
  have d': "d' = d\<lparr>db_events := db_events d @ [e\<lparr>je_id := db_nextEventId d\<rparr>], db_nextEventId := db_nextEventId d + 1\<rparr>"
    and j: "je_jobId e \<in> job_ids d"
    using assms(1) by (auto simp: insert_event_row_def job_ids_def split: if_splits)
  have "job_row_ok d' = job_row_ok d" by (rule job_row_ok_cong) (simp add: d')
  then have "keys_ok d'" using assms(2) j by (auto simp: base_ok_def keys_ok_def d' job_ids_def)
  moreover have "events_ok d'" using assms(2)
    unfolding base_ok_def events_ok_def d' by (auto simp: sorted_wrt_append)
  moreover have "active_ok d'" using assms(2) by (simp add: base_ok_def active_ok_def d')
  ultimately show ?thesis using assms(2) by (simp add: base_ok_def d' same_jobs_def)
qed

lemma chunks_base:
  assumes "base_ok d" "\<forall>c \<in> set cs. jc_jobId c \<in> job_ids d" "map ts_jobId ss = map ts_jobId (db_segments d)"
  shows "base_ok (d\<lparr>db_chunks := cs, db_segments := ss\<rparr>)"
proof -
  let ?d = "d\<lparr>db_chunks := cs, db_segments := ss\<rparr>"
  have "job_row_ok ?d = job_row_ok d" by (rule job_row_ok_cong) simp
  moreover have "ts_jobId ` set ss = ts_jobId ` set (db_segments d)" using assms(3) by (metis set_map)
  then have "\<forall>s \<in> set ss. ts_jobId s \<in> job_ids d"
    using assms(1) unfolding base_ok_def keys_ok_def by (metis image_iff)
  ultimately show ?thesis
    using assms by (auto simp: base_ok_def keys_ok_def events_ok_def active_ok_def job_ids_def)
qed

lemma update_chunks_base:
  assumes "base_ok d" "\<And>c. jc_jobId (f c) = jc_jobId c"
  shows "base_ok (update_chunks P f d)"
proof -
  have "base_ok (d\<lparr>db_chunks := map (\<lambda>c. if P c then f c else c) (db_chunks d), db_segments := db_segments d\<rparr>)"
    using assms by (intro chunks_base) (auto simp: base_ok_def keys_ok_def)
  then show ?thesis by (simp add: update_chunks_def)
qed

lemma delete_chunks_base: "base_ok d \<Longrightarrow> base_ok (delete_chunks jobId d)"
  unfolding delete_chunks_def Let_def
  by (rule chunks_base) (auto simp: base_ok_def keys_ok_def)

lemma insert_chunk_base:
  assumes "insert_chunk c d = Some (u, d')" "base_ok d"
  shows "base_ok d' \<and> db_lease d' = db_lease d \<and> same_jobs d d'"
proof -
  have d': "d' = d\<lparr>db_chunks := db_chunks d @ [c], db_segments := db_segments d\<rparr>" "jc_jobId c \<in> job_ids d"
    using assms(1) by (auto simp: insert_chunk_def chunk_row_ok_def job_ids_def split: if_splits)
  moreover have "\<forall>c \<in> set (db_chunks d). jc_jobId c \<in> job_ids d"
    using assms(2) by (simp add: base_ok_def keys_ok_def)
  ultimately have "base_ok (d\<lparr>db_chunks := db_chunks d @ [c], db_segments := db_segments d\<rparr>)"
    by (intro chunks_base assms(2)) auto
  then show ?thesis by (simp add: d' same_jobs_def)
qed

lemma lease_same_jobs:
  "same_jobs d d' \<Longrightarrow> db_lease d' = db_lease d \<Longrightarrow> lease_ok_but X d' = lease_ok_but X d"
  by (simp add: same_jobs_def lease_ok_but_def job_executing_def)

lemma base_lease_irrelevant [simp]: "base_ok (d\<lparr>db_lease := l\<rparr>) = base_ok d"
proof -
  have "job_row_ok (d\<lparr>db_lease := l\<rparr>) = job_row_ok d" by (rule job_row_ok_cong) simp
  then show ?thesis
    by (simp add: base_ok_def keys_ok_def events_ok_def active_ok_def job_ids_def)
qed

lemma insert_job_base:
  assumes "insert_job j d = Some (u, d')" "base_ok d"
  shows "base_ok d' \<and> (lease_ok_but X d \<longrightarrow> lease_ok_but X d')"
proof -
  have d': "d' = d\<lparr>db_jobs := db_jobs d @ [j]\<rparr>" and n: "tj_id j \<notin> job_ids d" "job_row_ok d j"
    "single_execution (db_jobs d @ [j])"
    using assms(1) by (auto simp: insert_job_def job_ids_def split: if_splits)
  have "job_row_ok d' = job_row_ok d" by (rule job_row_ok_cong) (simp add: d')
  then have "keys_ok d'" using assms(2) n(1,2) by (auto simp: base_ok_def keys_ok_def d' job_ids_def)
  moreover have "events_ok d'" "active_ok d'"
    using assms(2) by (auto simp: base_ok_def events_ok_def active_ok_def d')
  moreover have "lease_ok_but X d \<longrightarrow> lease_ok_but X d'"
    by (auto simp: lease_ok_but_def job_executing_def d')
  ultimately show ?thesis using n(3) by (simp add: base_ok_def d')
qed

lemma delete_lease_base:
  assumes "delete_lease P d = Some (n, d')" "base_ok d"
  shows "base_ok d' \<and> same_jobs d d' \<and> (db_lease d' = None \<or> db_lease d' = db_lease d)"
  using assms by (auto simp: delete_lease_def same_jobs_def split: option.splits if_splits)

lemma delete_jobs_base:
  assumes "delete_jobs P d = Some (n, d')" "base_ok d"
    and "\<And>j r. P j \<Longrightarrow> r \<in> set (db_recordings d) \<Longrightarrow> rr_activeJobId r \<noteq> Some (tj_id j)"
  shows "base_ok d' \<and> (lease_ok_but X d \<longrightarrow> lease_ok_but X d')"
proof -
  let ?gone = "tj_id ` set (filter P (db_jobs d))"
  have f: "db_jobs d' = filter (\<lambda>j. \<not> P j) (db_jobs d)" "db_recordings d' = db_recordings d"
    "db_chunks d' = filter (\<lambda>c. jc_jobId c \<notin> ?gone) (db_chunks d)"
    "db_segments d' = filter (\<lambda>s. ts_jobId s \<notin> ?gone) (db_segments d)"
    "db_events d' = filter (\<lambda>e. je_jobId e \<notin> ?gone) (db_events d)"
    "db_nextEventId d' = db_nextEventId d"
    "db_lease d' = (case db_lease d of Some l \<Rightarrow> if el_jobId l \<in> ?gone then None else Some l | None \<Rightarrow> None)"
    using assms(1) unfolding delete_jobs_def Let_def by auto
  have ids: "job_ids d - ?gone \<subseteq> job_ids d'" by (auto simp: job_ids_def f(1))
  have "job_row_ok d' = job_row_ok d" using f(2) by (rule job_row_ok_cong)
  then have "keys_ok d'" using assms(2) ids f(1-5)
    by (auto simp: base_ok_def keys_ok_def list_all_iff distinct_map inj_on_def)
  moreover have "events_ok d'" using assms(2) f(5,6)
    by (auto simp: base_ok_def events_ok_def sorted_wrt_map sorted_wrt_filter)
  moreover have "active_ok d'"
    unfolding active_ok_def
  proof (intro ballI allI impI)
    fix r a assume r: "r \<in> set (db_recordings d')" "rr_activeJobId r = Some a"
    then obtain j where j: "j \<in> set (db_jobs d)" "tj_id j = a" "tj_recordingId j = rr_id r" "tj_state j = Completed"
      using assms(2) f(2) unfolding base_ok_def active_ok_def by metis
    have "\<not> P j" using assms(3)[of j r] r j(2) f(2) by auto
    then show "\<exists>j \<in> set (db_jobs d'). tj_id j = a \<and> tj_recordingId j = rr_id r \<and> tj_state j = Completed"
      using j f(1) by auto
  qed
  moreover have "single_execution (db_jobs d')"
  proof -
    have "length (filter Q (filter R xs)) \<le> length (filter Q xs)" for Q R and xs :: "transcription_job list"
      by (induction xs) auto
    then show ?thesis using assms(2) f(1) unfolding base_ok_def single_execution_def by (metis le_trans)
  qed
  moreover have "lease_ok_but X d \<longrightarrow> lease_ok_but X d'"
  proof (intro impI)
    assume ok: "lease_ok_but X d"
    show "lease_ok_but X d'" unfolding lease_ok_but_def
    proof (intro allI impI)
      fix l assume "db_lease d' = Some l"
      then have l: "db_lease d = Some l" "el_jobId l \<notin> ?gone"
        unfolding f(7) by (auto split: option.splits if_splits)
      have "job_executing (el_jobId l) d'" if ex: "job_executing (el_jobId l) d"
      proof -
        obtain j where j: "j \<in> set (db_jobs d)" "tj_id j = el_jobId l" "tj_state j \<in> set executing"
          using ex by (auto simp: job_executing_def)
        then have "\<not> P j" using l(2) by force
        then show ?thesis using j f(1) by (auto simp: job_executing_def)
      qed
      then show "el_jobId l \<in> X \<or> job_executing (el_jobId l) d'" using ok l(1) by (auto simp: lease_ok_but_def)
    qed
  qed
  ultimately show ?thesis by (simp add: base_ok_def)
qed

end
