(* ===== verification/JobLeases.thy ===== *)
theory JobLeases
  imports JobInvariants
begin

text \<open>
  Every operation of the job repository keeps the invariant of the tables. Operations that do
  not change the state of a job keep it statement by statement; claims, recovery, transitions
  and completion break the lease clause on the way and restore it before they commit.
\<close>

definition inv_but :: "string set \<Rightarrow> job_tables \<Rightarrow> bool" where
  "inv_but X d \<longleftrightarrow> base_ok d \<and> lease_ok_but X d"

lemma db_ok_inv: "db_ok = inv_but {}"
  by (intro ext) (simp add: db_ok_def inv_but_def)

definition held :: "string \<Rightarrow> string \<Rightarrow> job_tables \<Rightarrow> bool" where
  "held jobId ownerToken d \<longleftrightarrow>
     (\<exists>l. db_lease d = Some l \<and> el_jobId l = jobId \<and> el_ownerToken l = ownerToken)"

named_theorems keep \<open>statements and operations that keep a property of the tables\<close>

lemmas [keep] = achieves_fail achieves_clock achieves_statement achieves_connection achieves_if
  achieves_option achieves_sum achieves_transaction

lemma keep_and_then [keep]:
  "achieves P m (\<lambda>_. P) \<Longrightarrow> (\<And>x. achieves P (f x) (\<lambda>_. P)) \<Longrightarrow> achieves P (and_then m f) (\<lambda>_. P)"
  by (rule achieves_and_then)

lemma keep_basic [keep]:
  "achieves P (succeed x) (\<lambda>_. P)" "achieves P (select f) (\<lambda>_. P)" "achieves P (validation e) Q"
  "achieves P (findJob i) (\<lambda>_. P)" "achieves P findRawLease (\<lambda>_. P)" "achieves P (rebuildRecording r) (\<lambda>_. P)"
  by (auto simp: validation_def findJob_def findRawLease_def rebuildRecording_def
      intro: achieves_succeed achieves_select achieves_fail achieves_statement)

lemma select_value: "achieves P (select f) (\<lambda>x d. P d \<and> x = f d)"
  by (rule achieves_select) simp

lemma reads_findLease: "reads_only findLease"
  unfolding findLease_def validateLeaseIdentity_def validateLeaseTimestamps_def findRawLease_def
  by (intro atomics)

lemma findLease_value: "achieves P findLease (\<lambda>x d. P d \<and> x = db_lease d)"
  unfolding findLease_def findRawLease_def validateLeaseIdentity_def validateLeaseTimestamps_def
  by (auto simp: achieves_def dest!: selectD split: option.splits if_splits)

lemma keep_findLease [keep]: "achieves P findLease (\<lambda>_. P)"
  by (rule reads_only_achieves[OF reads_findLease])

lemma keep_update [keep]:
  assumes "keeps_identity f" "\<And>j. tj_state (f j) = tj_state j"
  shows "achieves (inv_but X) (exec (update_jobs P f)) (\<lambda>_. inv_but X)"
  unfolding inv_but_def
  using update_jobs_base[OF _ assms(1)] update_jobs_lease[OF _ assms(1)] assms(2)
  by (intro achieves_exec) metis

lemma keep_event: "achieves (\<lambda>d. base_ok d \<and> P (db_lease d) (db_jobs d) (db_recordings d)) (exec (insert_event_row e))
    (\<lambda>_ d. base_ok d \<and> P (db_lease d) (db_jobs d) (db_recordings d))"
  using insert_event_base by (intro achieves_exec) (metis same_jobs_def)

lemma insertEvent_keeps: "achieves (\<lambda>d. base_ok d \<and> P (db_lease d) (db_jobs d) (db_recordings d)) (insertEvent e)
    (\<lambda>_ d. base_ok d \<and> P (db_lease d) (db_jobs d) (db_recordings d))"
  unfolding insertEvent_def
  by (intro keep keep_event[THEN achieves_weaken] ) auto

lemma inv_but_alt: "inv_but X = (\<lambda>d. base_ok d \<and> (\<forall>l. db_lease d = Some l \<longrightarrow>
    el_jobId l \<in> X \<or> (\<exists>j \<in> set (db_jobs d). tj_id j = el_jobId l \<and> tj_state j \<in> set executing)))"
  by (intro ext) (simp add: inv_but_def lease_ok_but_def job_executing_def)

lemma keep_insertEvent [keep]: "achieves (inv_but X) (insertEvent e) (\<lambda>_. inv_but X)"
  unfolding inv_but_alt by (rule insertEvent_keeps)

lemma lease_transaction:
  assumes "achieves (\<lambda>d. P d \<and> held jobId ownerToken d) m Q"
  shows "achieves P (executionLeaseTransaction jobId ownerToken m) Q"
proof -
  let ?row = "\<lambda>d. case db_lease d of
      Some l \<Rightarrow> if el_jobId l = jobId \<and> el_ownerToken l = ownerToken then Some (el_expiresAt l) else None
    | None \<Rightarrow> None"
  have body: "achieves (\<lambda>d. P d \<and> Some v = ?row d) m Q" for v
    by (rule achieves_weaken[OF assms]) (auto simp: held_def split: option.splits if_splits)
  have "achieves (\<lambda>d. P d \<and> x = ?row d)
     (case x of None \<Rightarrow> validation ExecutionLeaseLost | Some None \<Rightarrow> validation ExecutionLeaseLost
      | Some (Some expiresAt) \<Rightarrow> and_then clock (\<lambda>now.
          if expiresAt \<le> now then validation ExecutionLeaseLost else m)) Q" for x
  proof (cases x)
    case (Some v)
    then show ?thesis
      by (cases v) (auto intro!: keep_basic achieves_and_then[OF achieves_clock] achieves_if body)
  qed (simp add: keep_basic)
  then show ?thesis unfolding executionLeaseTransaction_def
    by (intro achieves_if keep_basic achieves_transaction achieves_and_then[OF select_value])
qed

lemma keep_lease_transaction [keep]:
  "achieves P m Q \<Longrightarrow> achieves P (executionLeaseTransaction jobId ownerToken m) Q"
  by (rule lease_transaction, erule achieves_weaken) auto

lemma keep_executionWrite [keep]:
  "achieves P m Q \<Longrightarrow> achieves P (executionWrite jobId ownerToken m) Q"
  unfolding executionWrite_def by (intro keep)

subsection \<open>Operations that leave the states of jobs alone\<close>

lemma keep_let [keep]: "achieves P (f v) Q \<Longrightarrow> achieves P (let x = v in f x) Q"
  by simp

lemma keep_prod [keep]: "(\<And>a b. achieves P (f a b) Q) \<Longrightarrow> achieves P (case v of (a, b) \<Rightarrow> f a b) Q"
  by (cases v) simp

lemma updateProgress_keeps: "achieves (inv_but X) (updateProgress i st p n ow) (\<lambda>_. inv_but X)"
  unfolding updateProgress_def by (intro keep) (simp_all add: keeps_identity_def)

lemma updateRuntimeInfo_keeps: "achieves (inv_but X) (updateRuntimeInfo i b e w ds ow) (\<lambda>_. inv_but X)"
  unfolding updateRuntimeInfo_def by (intro keep) (simp_all add: keeps_identity_def)

lemma updateParameters_keeps: "achieves (inv_but X) (updateParameters i ps ow) (\<lambda>_. inv_but X)"
  unfolding updateParameters_def by (intro keep) (simp_all add: keeps_identity_def)

lemma appendEvent_keeps: "achieves (inv_but X) (appendEvent e ow) (\<lambda>_. inv_but X)"
  unfolding appendEvent_def by (intro keep)

lemma keep_chunk_update [keep]:
  assumes "\<And>c. jc_jobId (f c) = jc_jobId c"
  shows "achieves (inv_but X) (modify (update_chunks P f)) (\<lambda>_. inv_but X)"
  unfolding inv_but_def
  by (rule achieves_modify)
    (auto simp: update_chunks_base[OF _ assms] lease_ok_but_def job_executing_def update_chunks_def
      intro: update_chunks_base[OF _ assms, unfolded update_chunks_def])

lemma updateChunk_keeps: "achieves (inv_but X) (updateChunk c ow) (\<lambda>_. inv_but X)"
  unfolding updateChunk_def by (intro keep) simp_all

lemma keep_insert_chunks [keep]: "achieves (inv_but X) (insert_chunks i u cs) (\<lambda>_. inv_but X)"
proof (induction cs)
  case (Cons c cs)
  have "achieves (inv_but X) (exec (insert_chunk c')) (\<lambda>_. inv_but X)" for c'
    unfolding inv_but_def by (rule achieves_exec) (metis insert_chunk_base lease_same_jobs)
  then show ?case using Cons by (auto intro: keep)
qed (simp add: keep)

lemma replaceChunks_keeps: "achieves (inv_but X) (replaceChunks u i cs ow) (\<lambda>_. inv_but X)"
proof -
  have "lease_ok_but X (delete_chunks i d) = lease_ok_but X d" for d
    by (rule lease_same_jobs) (simp_all add: delete_chunks_def Let_def same_jobs_def)
  then have "achieves (inv_but X) (modify (delete_chunks i)) (\<lambda>_. inv_but X)"
    unfolding inv_but_def by (intro achieves_modify) (simp add: delete_chunks_base)
  then show ?thesis unfolding replaceChunks_def by (intro keep)
qed

lemma reorder_keeps: "achieves (inv_but X) (reorder ids) (\<lambda>_. inv_but X)"
proof -
  have "achieves (inv_but X) (reorder_loop n is) (\<lambda>_. inv_but X)" for n "is"
    by (induction "is" arbitrary: n) (auto intro!: keep simp: keeps_identity_def)
  then show ?thesis unfolding reorder_def db_transaction_immediate by (intro keep)
qed

lemma createQueued_keeps: "achieves (inv_but X) (createQueued u j) (\<lambda>_. inv_but X)"
proof -
  have "achieves (inv_but X) (exec (insert_job j')) (\<lambda>_. inv_but X)" for j'
    unfolding inv_but_def by (rule achieves_exec) (metis insert_job_base)
  then show ?thesis unfolding createQueued_def by (intro keep)
qed

lemma renewLease_keeps: "achieves (inv_but X) (renewLease i ow n) (\<lambda>_. inv_but X)"
proof -
  have "achieves (inv_but X) (exec (\<lambda>d. case db_lease d of
      Some r \<Rightarrow> if el_jobId r = i \<and> el_ownerToken r = ow
        then Some (k, d\<lparr>db_lease := Some (r\<lparr>el_acquiredAt := a, el_heartbeatAt := b, el_expiresAt := e\<rparr>)\<rparr>)
        else Some (k', d)
    | None \<Rightarrow> Some (k', d))) (\<lambda>_. inv_but X)" for a b e and k k' :: nat
    by (rule achieves_exec)
      (auto simp: inv_but_def lease_ok_but_def job_executing_def split: option.splits if_splits)
  moreover have "achieves (inv_but X) (validateLeaseIdentity l) (\<lambda>_. inv_but X)" for l
    unfolding validateLeaseIdentity_def by (intro keep)
  ultimately show ?thesis unfolding renewLease_def by (intro keep)
qed

lemma keep_delete_lease [keep]: "achieves (inv_but X) (exec (delete_lease P)) (\<lambda>_. inv_but X)"
  by (rule achieves_exec)
    (auto simp: inv_but_def lease_ok_but_def job_executing_def delete_lease_def split: option.splits if_splits)

lemma releaseLease_keeps: "achieves (inv_but X) (releaseLease i ow) (\<lambda>_. inv_but X)"
  unfolding releaseLease_def by (intro keep)

subsection \<open>Recovery and claims\<close>

lemma keep_base [keep]:
  "achieves base_ok (insertEvent e) (\<lambda>_. base_ok)"
  "(\<And>c. jc_jobId (g c) = jc_jobId c) \<Longrightarrow> achieves base_ok (modify (update_chunks Q g)) (\<lambda>_. base_ok)"
  using insertEvent_keeps[of "\<lambda>_ _ _. True" e] by (auto intro: achieves_modify update_chunks_base)

lemma recovery_identity [simp]:
  "keeps_identity (cancelled_job m)" "keeps_identity (interrupted_job n m)"
  by (simp_all add: keeps_identity_def cancelled_job_def interrupted_job_def)

lemma recovered_chunk_effect:
  "base_ok d \<Longrightarrow> base_ok (recovered_chunk b i d m) \<and> db_lease (recovered_chunk b i d m) = db_lease d
     \<and> same_jobs d (recovered_chunk b i d m)"
  unfolding recovered_chunk_def
  by (auto intro: update_chunks_base simp: same_jobs_def) (simp_all add: update_chunks_def)

lemma recover_expired_clears:
  "achieves base_ok (recover_expired now l) (\<lambda>_ d. base_ok d \<and> db_lease d = None)"
proof -
  have upd: "achieves base_ok (exec (if b
      then update_jobs (\<lambda>j. tj_id j = i \<and> tj_state j = Cancelling) (cancelled_job m)
      else update_jobs (\<lambda>j. tj_id j = i \<and> tj_state j \<in> {Preparing, Normalizing, WaitingForModel,
             LoadingModel, AnalyzingSpeech, Transcribing, Finalizing}) (interrupted_job now m))) (\<lambda>_. base_ok)"
    for b i m
    by (rule achieves_exec) (auto elim!: update_jobs_base split: if_splits)
  have chunks: "achieves base_ok (modify (\<lambda>d. recovered_chunk b i d m)) (\<lambda>_. base_ok)" for b i m
    by (rule achieves_modify) (simp add: recovered_chunk_effect)
  have clear: "achieves base_ok (exec (delete_lease (\<lambda>_. True))) (\<lambda>_ d. base_ok d \<and> db_lease d = None)"
    by (rule achieves_exec) (auto simp: delete_lease_def split: option.splits)
  show ?thesis unfolding recover_expired_def Let_def
    by (rule achieves_and_then[OF keep_basic(4)] achieves_and_then[OF upd] achieves_and_then[OF clear]
        achieves_and_then[where R = "\<lambda>_. base_ok"] keep chunks achieves_succeed | simp)+
qed

lemma first_by_set: "first_by k rows = Some r \<Longrightarrow> r \<in> set rows"
  unfolding first_by_def by (metis list.case_eq_if list.set_sel(1) option.distinct(1) option.inject set_sort)

lemma first_by_None: "first_by k rows = None \<longleftrightarrow> rows = []"
  unfolding first_by_def by (auto split: list.splits) (metis set_empty set_sort)

text \<open>With no lease in the tables, claiming a queued job leaves a lease on an executing job.\<close>

lemma take_job_ok:
  "achieves (\<lambda>d. base_ok d \<and> db_lease d = None) (take_job s ow n now) (\<lambda>_. inv_but {})"
proof -
  let ?f = "\<lambda>j. j\<lparr>tj_state := Preparing,
      tj_startedAt := (case tj_startedAt j of Some t \<Rightarrow> Some t | None \<Rightarrow> Some now)\<rparr>"
  let ?P = "\<lambda>j. tj_id j = tj_id s \<and> tj_state j = Queued"
  have upd: "achieves (\<lambda>d. base_ok d \<and> db_lease d = None) (exec (update_jobs ?P ?f))
      (\<lambda>rows d. base_ok d \<and> db_lease d = None \<and> (rows \<noteq> 0 \<longrightarrow> job_executing (tj_id s) d))"
  proof (rule achieves_exec)
    fix d rows d' assume d: "base_ok d \<and> db_lease d = None" and u: "update_jobs ?P ?f d = Some (rows, d')"
    have "base_ok d'" by (rule update_jobs_base[OF u]) (use d in \<open>simp_all add: keeps_identity_def\<close>)
    moreover have "job_executing (tj_id s) d'" if "rows \<noteq> 0"
    proof -
      have "filter ?P (db_jobs d) \<noteq> []" using that update_jobs_fields(8)[OF u] by auto
      then obtain j where "j \<in> set (db_jobs d)" "?P j" by (auto simp: filter_empty_conv)
      then have "?f j \<in> set (db_jobs d')" using update_jobs_fields(1)[OF u] by force
      moreover have "tj_id (?f j) = tj_id s" "tj_state (?f j) \<in> set executing"
        using \<open>?P j\<close> by (simp_all add: executing_def)
      ultimately show ?thesis unfolding job_executing_def by blast
    qed
    ultimately show "base_ok d' \<and> db_lease d' = None \<and> (rows \<noteq> 0 \<longrightarrow> job_executing (tj_id s) d')"
      using d update_jobs_fields(7)[OF u] by simp
  qed
  have ins: "achieves (\<lambda>d. base_ok d \<and> db_lease d = None \<and> job_executing (tj_id s) d) (exec (insert_lease l))
      (\<lambda>_. inv_but {})" if "el_jobId l = tj_id s" for l
    by (rule achieves_exec)
      (use that in \<open>auto simp: insert_lease_def inv_but_def lease_ok_but_def job_executing_def split: if_splits\<close>)
  show ?thesis unfolding take_job_def Let_def
  proof (intro achieves_and_then[OF upd] achieves_if)
    fix rows :: nat
    show "achieves (\<lambda>d. base_ok d \<and> db_lease d = None \<and> (rows \<noteq> 0 \<longrightarrow> job_executing (tj_id s) d))
        (succeed no_claim) (\<lambda>_. inv_but {})"
      by (rule achieves_succeed) (simp add: inv_but_def lease_ok_but_def)
  qed (rule achieves_and_then, rule achieves_weaken[OF ins], simp, simp, assumption, intro keep)
qed

lemma no_lease_ok: "base_ok d \<and> db_lease d = None \<Longrightarrow> inv_but X d"
  by (simp add: inv_but_def lease_ok_but_def)

lemma claim_free_ok:
  "achieves (\<lambda>d. base_ok d \<and> db_lease d = None) (claim_free r ow n now) (\<lambda>_. inv_but {})"
  unfolding claim_free_def
  by (intro achieves_and_then[OF keep_basic(2)] achieves_option achieves_if take_job_ok keep_basic(3))
    (auto intro!: achieves_succeed no_lease_ok)

lemma claimInDatabase_ok: "achieves (inv_but {}) (claimInDatabase r ow n) (\<lambda>_. inv_but {})"
proof -
  have rec: "achieves (inv_but {}) (and_then (recover_expired now l) (\<lambda>_. claim_free r ow n now)) (\<lambda>_. inv_but {})"
    for now l
    by (rule achieves_and_then[where R = "\<lambda>_ d. base_ok d \<and> db_lease d = None", OF _ claim_free_ok],
        rule achieves_weaken[OF recover_expired_clears]) (simp_all add: inv_but_def)
  have held: "achieves (inv_but {}) (claim_held r ow l) (\<lambda>_. inv_but {})" for l
    unfolding claim_held_def Let_def by (intro keep)
  have free: "achieves (\<lambda>d. inv_but {} d \<and> None = db_lease d) (claim_free r ow n now) (\<lambda>_. inv_but {})" for now
    by (rule achieves_weaken[OF claim_free_ok]) (auto simp: inv_but_def)
  have "achieves (\<lambda>d. inv_but {} d \<and> lease = db_lease d) (case lease of
       None \<Rightarrow> claim_free r ow n now
     | Some l \<Rightarrow> if (case el_expiresAt l of Some t \<Rightarrow> now < t | None \<Rightarrow> False)
         then claim_held r ow l
         else and_then (recover_expired now l) (\<lambda>_. claim_free r ow n now)) (\<lambda>_. inv_but {})" for lease now
    by (cases lease) (auto intro: free achieves_weaken[OF held] achieves_weaken[OF rec])
  then show ?thesis unfolding claimInDatabase_def
    by (intro achieves_and_then[OF achieves_clock] achieves_and_then[OF findLease_value])
qed

lemma claim_keeps:
  "achieves (inv_but {}) (claimNextQueued ow n) (\<lambda>_. inv_but {})"
  "achieves (inv_but {}) (claimQueued i ow n) (\<lambda>_. inv_but {})"
  unfolding claimNextQueued_def claimQueued_def by (intro keep claimInDatabase_ok)+

subsection \<open>Recovery after a crash\<close>

lemma achieves_pure: "(A \<Longrightarrow> achieves P m Q) \<Longrightarrow> achieves (\<lambda>d. P d \<and> A) m Q"
  unfolding achieves_def by blast

definition recovering :: "string set \<Rightarrow> execution_lease option \<Rightarrow> job_tables \<Rightarrow> bool" where
  "recovering X lease d \<longleftrightarrow> inv_but X d \<and> db_lease d = lease"

lemma recovering_alt: "recovering X lease = (\<lambda>d. base_ok d \<and> (db_lease d = lease \<and> (\<forall>l. lease = Some l \<longrightarrow>
    el_jobId l \<in> X \<or> (\<exists>j \<in> set (db_jobs d). tj_id j = el_jobId l \<and> tj_state j \<in> set executing))))"
  by (intro ext) (auto simp: recovering_def inv_but_def lease_ok_but_def job_executing_def)

lemma keep_recovering [keep]: "achieves (recovering X lease) (insertEvent e) (\<lambda>_. recovering X lease)"
  unfolding recovering_alt
  by (rule insertEvent_keeps[where P = "\<lambda>l js rs. l = lease \<and> (\<forall>l. lease = Some l \<longrightarrow>
    el_jobId l \<in> X \<or> (\<exists>j \<in> set js. tj_id j = el_jobId l \<and> tj_state j \<in> set executing))"])

lemma recover_jobs_keeps:
  "list_all (\<lambda>(i, s). i \<in> X \<and> s \<noteq> Completed) rest
   \<Longrightarrow> achieves (recovering X lease) (recover_jobs now reason rest n) (\<lambda>_. recovering X lease)"
proof (induction rest arbitrary: n)
  case (Cons r rest)
  obtain i s where r: "r = (i, s)" "i \<in> X" "s \<noteq> Completed" using Cons.prems by (cases r) auto
  have upd: "achieves (recovering X lease) (exec (if b
      then update_jobs (\<lambda>j. tj_id j = i \<and> tj_state j = Cancelling) (cancelled_job m)
      else update_jobs (\<lambda>j. tj_id j = i \<and> tj_state j = s) (interrupted_job now m))) (\<lambda>_. recovering X lease)" for b m
  proof (rule achieves_exec)
    fix d n d'
    assume d: "recovering X lease d" and u: "(if b
      then update_jobs (\<lambda>j. tj_id j = i \<and> tj_state j = Cancelling) (cancelled_job m)
      else update_jobs (\<lambda>j. tj_id j = i \<and> tj_state j = s) (interrupted_job now m)) d = Some (n, d')"
    obtain P f where u: "update_jobs P f d = Some (n, d')" "keeps_identity f"
      "\<And>j. P j \<Longrightarrow> tj_id j = i \<and> tj_state j \<noteq> Completed"
      using u r(3) by (cases b) (auto intro: that)
    have "base_ok d'" by (rule update_jobs_base[OF u(1,2)]) (use u(3) d in \<open>auto simp: recovering_def inv_but_def\<close>)
    moreover have "lease_ok_but X d'"
      by (rule update_jobs_lease[OF u(1,2)]) (use u(3) r(2) d in \<open>auto simp: recovering_def inv_but_def\<close>)
    ultimately show "recovering X lease d'"
      using update_jobs_fields(7)[OF u(1)] d by (simp add: recovering_def inv_but_def)
  qed
  have chunks: "achieves (recovering X lease) (modify (\<lambda>d. recovered_chunk b i d m)) (\<lambda>_. recovering X lease)" for b m
    by (rule achieves_modify)
      (metis recovering_def inv_but_def recovered_chunk_effect lease_same_jobs)
  show ?case unfolding r(1) recover_jobs.simps Let_def
    using Cons by (intro keep_and_then[OF upd] keep_and_then[OF chunks] keep) simp_all
qed (simp add: keep)

lemma markRunning_keeps: "achieves (inv_but {}) (markRunningJobsInterrupted reason) (\<lambda>_. inv_but {})"
proof -
  let ?sel = "\<lambda>p d. map (\<lambda>j. (tj_id j, tj_state j)) (sort_key tj_id (filter (\<lambda>j.
      tj_state j \<in> set executing \<and> (p = [] \<or> tj_id j \<noteq> p)) (db_jobs d)))"
  have body: "achieves (\<lambda>d. inv_but {} d \<and> lease = db_lease d)
     (and_then (select (?sel p)) (\<lambda>recoverable.
      and_then (recover_jobs now why recoverable 0) (\<lambda>affected.
      and_then (if lease \<noteq> None \<and> p = []
                then and_then (exec (delete_lease (\<lambda>_. True))) (\<lambda>_. succeed ()) else succeed ()) (\<lambda>_.
      succeed affected)))) (\<lambda>_. inv_but {})"
    if p: "p \<noteq> [] \<Longrightarrow> \<exists>l. lease = Some l \<and> el_jobId l = p" for lease p now why
  proof -
    let ?X = "{i. p = [] \<or> i \<noteq> p}"
    have sel: "achieves (\<lambda>d. inv_but {} d \<and> lease = db_lease d) (select (?sel p))
        (\<lambda>x d. recovering ?X lease d \<and> list_all (\<lambda>(i, s). i \<in> ?X \<and> s \<noteq> Completed) x)"
      by (rule achieves_select)
        (auto simp: recovering_def inv_but_def list_all_iff executing_def intro: lease_weaken)
    have clear: "achieves (recovering ?X lease) (exec (delete_lease (\<lambda>_. True))) (\<lambda>_. inv_but {})"
      by (rule achieves_exec)
        (auto simp: recovering_def inv_but_def lease_ok_but_def delete_lease_def split: option.splits)
    have stay: "recovering ?X lease d \<Longrightarrow> \<not> (lease \<noteq> None \<and> p = []) \<Longrightarrow> inv_but {} d" for d
      using p by (auto simp: recovering_def inv_but_def lease_ok_but_def)
    have fin: "achieves (recovering ?X lease) (if lease \<noteq> None \<and> p = []
        then and_then (exec (delete_lease (\<lambda>_. True))) (\<lambda>_. succeed ()) else succeed ()) (\<lambda>_. inv_but {})"
      by (intro achieves_if achieves_and_then[OF clear] keep_basic achieves_succeed stay)
    show ?thesis
      by (intro achieves_and_then[OF sel] achieves_pure achieves_and_then[OF recover_jobs_keeps]
          achieves_and_then[OF fin] keep_basic)
  qed
  show ?thesis unfolding markRunningJobsInterrupted_def Let_def
    by (intro achieves_transaction achieves_and_then[OF achieves_clock] achieves_and_then[OF findLease_value] body)
      (auto split: option.splits if_splits)
qed

subsection \<open>Removing jobs\<close>

lemma find_SomeD: "find P xs = Some x \<Longrightarrow> x \<in> set xs \<and> P x"
  by (auto simp: find_Some_iff)

lemma active_recording:
  assumes "base_ok d" "find_job i d = Some j" "r \<in> set (db_recordings d)" "rr_activeJobId r = Some i"
  shows "tj_recordingId j = rr_id r \<and> tj_state j = Completed"
proof -
  obtain j' where j': "j' \<in> set (db_jobs d)" "tj_id j' = i" "tj_recordingId j' = rr_id r" "tj_state j' = Completed"
    using assms(1,3,4) unfolding base_ok_def active_ok_def by metis
  have "j \<in> set (db_jobs d)" "tj_id j = i"
    using assms(2) by (auto simp: find_job_def find_Some_iff)
  then have "j = j'" using j' assms(1) unfolding base_ok_def keys_ok_def by (metis distinct_map inj_onD)
  then show ?thesis using j' by simp
qed

lemma keep_delete_jobs:
  assumes "\<And>d j r. P d \<Longrightarrow> D d j \<Longrightarrow> r \<in> set (db_recordings d) \<Longrightarrow> rr_activeJobId r \<noteq> Some (tj_id j)"
    "\<And>d. P d \<Longrightarrow> inv_but X d"
  shows "achieves P (exec (\<lambda>d. delete_jobs (D d) d)) (\<lambda>_. inv_but X)"
proof (rule achieves_exec)
  fix d n d' assume "P d" "delete_jobs (D d) d = Some (n, d')"
  then show "inv_but X d'"
    using delete_jobs_base[of "D d" d n d' X] assms by (auto simp: inv_but_def)
qed

lemma deleteTerminalJob_keeps: "achieves (inv_but {}) (deleteTerminalJob i) (\<lambda>_. inv_but {})"
proof -
  let ?act = "\<lambda>job d. map_option (\<lambda>r. (rr_activeJobId r = Some i, d))
      (find (\<lambda>r. rr_id r = tj_recordingId job) (db_recordings d))"
  let ?idle = "\<lambda>d. \<forall>r \<in> set (db_recordings d). rr_activeJobId r \<noteq> Some i"
  have act: "achieves (\<lambda>d. inv_but {} d \<and> x = find_job i d) (exec (?act job))
      (\<lambda>active d. inv_but {} d \<and> (\<not> active \<longrightarrow> ?idle d))" if x: "x = Some job" for x job
  proof (rule achieves_exec)
    fix d active d'
    assume d: "inv_but {} d \<and> x = find_job i d" and a: "?act job d = Some (active, d')"
    then obtain r where r: "r \<in> set (db_recordings d)" "rr_id r = tj_recordingId job"
      "active = (rr_activeJobId r = Some i)" "d' = d" by (auto dest: find_SomeD)
    have "rr_activeJobId r' \<noteq> Some i" if "\<not> active" "r' \<in> set (db_recordings d)" for r'
    proof
      assume a': "rr_activeJobId r' = Some i"
      then have "tj_recordingId job = rr_id r'"
        using active_recording[of d i job r'] d x \<open>r' \<in> _\<close> by (simp add: inv_but_def)
      moreover have "distinct (map rr_id (db_recordings d))"
        using d by (simp add: inv_but_def base_ok_def keys_ok_def)
      ultimately have "r' = r" using r(1,2) \<open>r' \<in> _\<close> by (metis distinct_map inj_onD)
      then show False using \<open>\<not> active\<close> r(3) a' by simp
    qed
    then show "inv_but {} d' \<and> (\<not> active \<longrightarrow> ?idle d')" using d r(4) by blast
  qed
  have rem: "achieves (\<lambda>d. inv_but {} d \<and> (\<not> active \<longrightarrow> ?idle d))
      (exec (if active then update_jobs (\<lambda>j. tj_id j = i) (\<lambda>j. j\<lparr>tj_queueHidden := True\<rparr>)
             else delete_jobs (\<lambda>j. tj_id j = i))) (\<lambda>_. inv_but {})" for active
  proof (cases active)
    case True
    then show ?thesis
      by (simp add: achieves_weaken[OF keep_update[of "\<lambda>j. j\<lparr>tj_queueHidden := True\<rparr>"]] keeps_identity_def)
  next
    case False
    have "achieves (\<lambda>d. inv_but {} d \<and> ?idle d) (exec (\<lambda>d. delete_jobs (\<lambda>j. tj_id j = i) d)) (\<lambda>_. inv_but {})"
      by (rule keep_delete_jobs) auto
    then show ?thesis using False by simp
  qed
  show ?thesis unfolding deleteTerminalJob_def findJob_def
    by (intro achieves_transaction achieves_and_then[OF select_value] achieves_option achieves_if
        keep_basic achieves_fail achieves_and_then[OF act] achieves_and_then[OF rem])
qed

lemma clearCompleted_keeps: "achieves (inv_but {}) clearCompleted (\<lambda>_. inv_but {})"
proof -
  have hide: "achieves (inv_but {}) (exec (\<lambda>d. update_jobs (\<lambda>j. \<not> tj_queueHidden j \<and> tj_state j = Completed
      \<and> is_active (tj_id j) d) (\<lambda>j. j\<lparr>tj_queueHidden := True\<rparr>) d)) (\<lambda>_. inv_but {})"
  proof (rule achieves_exec)
    let ?f = "\<lambda>j. j\<lparr>tj_queueHidden := True\<rparr>"
    have id: "keeps_identity ?f" by (simp add: keeps_identity_def)
    fix d n d' assume "inv_but {} d" and u: "update_jobs (\<lambda>j. \<not> tj_queueHidden j \<and> tj_state j = Completed
      \<and> is_active (tj_id j) d) ?f d = Some (n, d')"
    then show "inv_but {} d'"
      using update_jobs_base[OF u id] update_jobs_lease[OF u id] by (simp add: inv_but_def)
  qed
  have del: "achieves (inv_but {}) (exec (\<lambda>d. delete_jobs (\<lambda>j. \<not> tj_queueHidden j
      \<and> tj_state j \<in> {Completed, Cancelled} \<and> \<not> is_active (tj_id j) d) d)) (\<lambda>_. inv_but {})"
    by (rule keep_delete_jobs) (auto simp: is_active_def list_ex_iff)
  have "achieves (inv_but {}) (rebuild_all rs) (\<lambda>_. inv_but {})" for rs
    by (induction rs) (auto intro: keep)
  then show ?thesis unfolding clearCompleted_def
    by (intro keep hide del)
qed

subsection \<open>Completion\<close>

text \<open>
  Within the transaction the lease is the caller's (\<open>lease_is\<close>); at its end it is gone, so the
  lease clause holds whatever the state of the job.
\<close>

definition lease_is :: "string \<Rightarrow> string \<Rightarrow> execution_lease option \<Rightarrow> bool" where
  "lease_is i ow lease \<longleftrightarrow> (\<forall>l. lease = Some l \<longrightarrow> el_jobId l = i \<and> el_ownerToken l = ow)"

definition completing :: "string \<Rightarrow> string \<Rightarrow> job_tables \<Rightarrow> bool" where
  "completing i ow d \<longleftrightarrow> base_ok d \<and> lease_is i ow (db_lease d)"

lemma completing_event: "achieves (completing i ow) (insertEvent e) (\<lambda>_. completing i ow)"
  unfolding completing_def by (rule insertEvent_keeps[where P = "\<lambda>l _ _. lease_is i ow l"])

lemma completing_update:
  assumes "keeps_identity f" "\<And>j. P j \<Longrightarrow> tj_state j = Completed \<Longrightarrow> tj_state (f j) = Completed"
  shows "achieves (completing i ow) (exec (update_jobs P f)) (\<lambda>_. completing i ow)"
  unfolding completing_def
  by (rule achieves_exec) (use assms update_jobs_base update_jobs_fields(7) in metis)

lemma completing_release:
  "achieves (completing i ow) (exec (delete_lease (\<lambda>l. el_jobId l = i \<and> (ow = [] \<or> el_ownerToken l = ow)))) (\<lambda>_. inv_but {})"
  by (rule achieves_exec)
    (auto simp: completing_def lease_is_def inv_but_def lease_ok_but_def delete_lease_def
      split: option.splits if_splits)

definition completed_job :: "string \<Rightarrow> string \<Rightarrow> job_tables \<Rightarrow> bool" where
  "completed_job i r d \<longleftrightarrow> (\<exists>j \<in> set (db_jobs d). tj_id j = i \<and> tj_recordingId j = r \<and> tj_state j = Completed)"

lemma activate_keeps:
  fixes n :: "job_tables \<Rightarrow> nat"
  shows "achieves (\<lambda>d. completing i ow d \<and> completed_job i r d)
     (exec (\<lambda>d. Some (n d, d\<lparr>db_recordings := map (\<lambda>q. if rr_id q = r
        then q\<lparr>rr_activeJobId := Some i, rr_updatedAt := now\<rparr> else q) (db_recordings d)\<rparr>))) (\<lambda>_. completing i ow)"
proof (rule achieves_exec)
  fix d :: job_tables and n' d'
  let ?rs = "map (\<lambda>q. if rr_id q = r then q\<lparr>rr_activeJobId := Some i, rr_updatedAt := now\<rparr> else q) (db_recordings d)"
  assume d: "completing i ow d \<and> completed_job i r d"
    and "Some (n d, d\<lparr>db_recordings := ?rs\<rparr>) = Some (n', d')"
  then have d': "d' = d\<lparr>db_recordings := ?rs\<rparr>" by simp
  have ids: "map rr_id ?rs = map rr_id (db_recordings d)" by simp
  then have "rr_id ` set ?rs = rr_id ` set (db_recordings d)" by (metis set_map)
  then have "job_row_ok d' = job_row_ok d" by (intro ext) (simp add: job_row_ok_def d')
  moreover have "map rr_id (db_recordings d') = map rr_id (db_recordings d)" "db_jobs d' = db_jobs d"
    "db_chunks d' = db_chunks d" "db_segments d' = db_segments d" "db_events d' = db_events d"
    by (simp_all add: d')
  ultimately have "keys_ok d'" using d by (simp add: completing_def base_ok_def keys_ok_def job_ids_def)
  moreover have "active_ok d'"
    using d unfolding completing_def completed_job_def base_ok_def active_ok_def d' by auto
  ultimately show "completing i ow d'" using d by (simp add: completing_def base_ok_def events_ok_def d')
qed

lemma activate_step:
  fixes n :: "job_tables \<Rightarrow> nat"
  assumes "(k::nat) \<noteq> 0"
  shows "achieves (\<lambda>d. completing i ow d \<and> (k \<noteq> 0 \<longrightarrow> completed_job i r d))
     (exec (\<lambda>d. Some (n d, d\<lparr>db_recordings := map (\<lambda>q. if rr_id q = r
        then q\<lparr>rr_activeJobId := Some i, rr_updatedAt := now\<rparr> else q) (db_recordings d)\<rparr>))) (\<lambda>_. completing i ow)"
  by (rule achieves_weaken[OF activate_keeps]) (use assms in auto)

lemma segments_keep: "achieves (completing i ow) (modify (\<lambda>d. d\<lparr>db_segments := filter (Q d) (db_segments d)\<rparr>)) (\<lambda>_. completing i ow)"
proof (rule achieves_modify)
  fix d assume d: "completing i ow d"
  have "job_row_ok (d\<lparr>db_segments := filter (Q d) (db_segments d)\<rparr>) = job_row_ok d" by (rule job_row_ok_cong) simp
  then show "completing i ow (d\<lparr>db_segments := filter (Q d) (db_segments d)\<rparr>)"
    using d by (auto simp: completing_def base_ok_def keys_ok_def events_ok_def active_ok_def job_ids_def)
qed

lemma finish_update:
  assumes "keeps_identity f" "\<And>j. tj_state (f j) = Completed"
  shows "achieves (\<lambda>d. inv_but {} d \<and> held i ow d)
    (exec (update_jobs (\<lambda>j. tj_id j = i \<and> tj_recordingId j = r \<and> tj_state j = Finalizing) f))
    (\<lambda>n d. completing i ow d \<and> (n \<noteq> 0 \<longrightarrow> completed_job i r d))"
proof (rule achieves_exec)
  let ?P = "\<lambda>j. tj_id j = i \<and> tj_recordingId j = r \<and> tj_state j = Finalizing"
  fix d n d' assume d: "inv_but {} d \<and> held i ow d" and u: "update_jobs ?P f d = Some (n, d')"
  have "base_ok d'" by (rule update_jobs_base[OF u assms(1)]) (use d in \<open>simp_all add: inv_but_def\<close>)
  moreover have "lease_is i ow (db_lease d')"
    using d update_jobs_fields(7)[OF u] by (auto simp: held_def lease_is_def)
  moreover have "completed_job i r d'" if "n \<noteq> 0"
  proof -
    have "filter ?P (db_jobs d) \<noteq> []" using that update_jobs_fields(8)[OF u] by auto
    then obtain j where "j \<in> set (db_jobs d)" "?P j" by (auto simp: filter_empty_conv)
    then have "f j \<in> set (db_jobs d')" using update_jobs_fields(1)[OF u] by force
    then show ?thesis using \<open>?P j\<close> assms unfolding completed_job_def keeps_identity_def by metis
  qed
  ultimately show "completing i ow d' \<and> (n \<noteq> 0 \<longrightarrow> completed_job i r d')" by (simp add: completing_def)
qed

lemma completeAndActivate_keeps: "achieves (inv_but {}) (completeAndActivate r i ow) (\<lambda>_. inv_but {})"
  unfolding completeAndActivate_def findJob_def
  by (intro lease_transaction achieves_if keep_basic achieves_and_then[OF keep_basic(2)] achieves_option
      achieves_and_then[OF achieves_clock] achieves_and_then[OF finish_update]
      achieves_and_then[OF activate_step] achieves_and_then[OF segments_keep]
      achieves_and_then[OF completing_update] achieves_and_then[OF completing_event]
      achieves_and_then[OF completing_release])
    (simp_all add: keeps_identity_def)

subsection \<open>Transitions\<close>

lemma transition_row_fields [simp]:
  "tj_id (transition_row t e m now p j) = tj_id j"
  "tj_recordingId (transition_row t e m now p j) = tj_recordingId j"
  "tj_state (transition_row t e m now p j) = t"
  by (simp_all add: transition_row_def Let_def)

lemma running_stays:
  "canTransition s t \<Longrightarrow> s \<noteq> t \<Longrightarrow> isRunning s \<Longrightarrow> \<not> isTerminal t \<Longrightarrow> t \<noteq> Interrupted \<Longrightarrow> isRunning t"
  by (cases s; cases t) (simp_all add: canTransition_def)

lemma completed_stays: "canTransition Completed t \<Longrightarrow> t = Completed"
  by (simp add: canTransition_def)

text \<open>Between the update and the release, the lease of the job itself may be stale.\<close>

definition leaving :: "string \<Rightarrow> string \<Rightarrow> job_tables \<Rightarrow> bool" where
  "leaving i ow d \<longleftrightarrow> inv_but {i} d \<and> (\<forall>l. db_lease d = Some l \<longrightarrow> el_jobId l = i \<longrightarrow> ow = [] \<or> el_ownerToken l = ow)"

lemma leaving_alt: "leaving i ow = (\<lambda>d. base_ok d \<and> ((\<forall>l. db_lease d = Some l \<longrightarrow>
    el_jobId l \<in> {i} \<or> (\<exists>j \<in> set (db_jobs d). tj_id j = el_jobId l \<and> tj_state j \<in> set executing))
    \<and> (\<forall>l. db_lease d = Some l \<longrightarrow> el_jobId l = i \<longrightarrow> ow = [] \<or> el_ownerToken l = ow)))"
  unfolding leaving_def inv_but_alt by (intro ext) blast

lemma leaving_event: "achieves (leaving i ow) (insertEvent e) (\<lambda>_. leaving i ow)"
  unfolding leaving_alt
  by (rule insertEvent_keeps[where P = "\<lambda>le js rs. (\<forall>l. le = Some l \<longrightarrow>
    el_jobId l \<in> {i} \<or> (\<exists>j \<in> set js. tj_id j = el_jobId l \<and> tj_state j \<in> set executing))
    \<and> (\<forall>l. le = Some l \<longrightarrow> el_jobId l = i \<longrightarrow> ow = [] \<or> el_ownerToken l = ow)"])

lemma leaving_release:
  "achieves (leaving i ow) (exec (delete_lease (\<lambda>l. el_jobId l = i \<and> (ow = [] \<or> el_ownerToken l = ow)))) (\<lambda>_. inv_but {})"
  by (rule achieves_exec)
    (auto simp: leaving_def inv_but_def lease_ok_but_def job_executing_def delete_lease_def
      split: option.splits if_splits)

definition entitled :: "string \<Rightarrow> string \<Rightarrow> job_tables \<Rightarrow> bool" where
  "entitled i ow d \<longleftrightarrow> ow = [] \<or> held i ow d"

lemma write_transaction:
  assumes "achieves (\<lambda>d. P d \<and> entitled i ow d) m Q"
  shows "achieves P (executionWrite i ow m) Q"
  unfolding executionWrite_def
proof (rule achieves_if)
  assume "ow = []"
  then show "achieves P (immediateTransaction m) Q"
    by (intro achieves_transaction achieves_weaken[OF assms]) (auto simp: entitled_def)
next
  show "achieves P (executionLeaseTransaction i ow m) Q"
    by (intro lease_transaction achieves_weaken[OF assms]) (auto simp: entitled_def)
qed

lemma transition_update:
  assumes "canTransition s t" "s \<noteq> t"
  shows "achieves (\<lambda>d. inv_but {} d \<and> entitled i ow d)
      (exec (update_jobs (\<lambda>j. tj_id j = i \<and> tj_state j = s) (transition_row t e m now p)))
      (\<lambda>_ d. leaving i ow d \<and> (\<not> isTerminal t \<and> t \<noteq> Interrupted \<longrightarrow> inv_but {} d))"
proof (rule achieves_exec)
  let ?P = "\<lambda>j. tj_id j = i \<and> tj_state j = s" and ?f = "transition_row t e m now p"
  fix d n d' assume d: "inv_but {} d \<and> entitled i ow d" and u: "update_jobs ?P ?f d = Some (n, d')"
  have id: "keeps_identity ?f" by (simp add: keeps_identity_def)
  have "base_ok d'"
    by (rule update_jobs_base[OF u id])
      (use d assms completed_stays in \<open>auto simp: inv_but_def\<close>)
  moreover have "lease_ok_but {i} d'"
    by (rule update_jobs_lease[OF u id]) (use d in \<open>auto simp: inv_but_def intro: lease_weaken\<close>)
  moreover have "lease_ok_but {} d'" if "\<not> isTerminal t \<and> t \<noteq> Interrupted"
    by (rule update_jobs_lease[OF u id])
      (use d that assms running_stays in \<open>auto simp: inv_but_def executing_isRunning\<close>)
  moreover have "\<forall>l. db_lease d' = Some l \<longrightarrow> el_jobId l = i \<longrightarrow> ow = [] \<or> el_ownerToken l = ow"
    using d update_jobs_fields(7)[OF u] by (auto simp: entitled_def held_def)
  ultimately show "leaving i ow d' \<and> (\<not> isTerminal t \<and> t \<noteq> Interrupted \<longrightarrow> inv_but {} d')"
    by (simp add: leaving_def inv_but_def)
qed

lemma transition_finish:
  "achieves (\<lambda>d. leaving i ow d \<and> (\<not> isTerminal t \<and> t \<noteq> Interrupted \<longrightarrow> inv_but {} d))
     (and_then (insertEvent ev) (\<lambda>_.
        if isTerminal t \<or> t = Interrupted
        then and_then (exec (delete_lease (\<lambda>l. el_jobId l = i \<and> (ow = [] \<or> el_ownerToken l = ow)))) (\<lambda>_. succeed ())
        else succeed ())) (\<lambda>_. inv_but {})"
proof (cases "isTerminal t \<or> t = Interrupted")
  case True
  then show ?thesis
    by (auto intro!: achieves_and_then[OF achieves_weaken[OF leaving_event, where Q' = "\<lambda>_. leaving i ow"]]
        achieves_and_then[OF leaving_release] keep_basic)
next
  case False
  then show ?thesis
    by (auto intro!: achieves_weaken[OF keep_and_then[OF keep_insertEvent keep_basic(1), of "{}"]])
qed

lemma transition_keeps: "achieves (inv_but {}) (transition i t e m ow) (\<lambda>_. inv_but {})"
proof -
  have "achieves (\<lambda>d. inv_but {} d \<and> entitled i ow d) (transition_body i t e m ow) (\<lambda>_. inv_but {})"
    unfolding transition_body_def
    by (intro achieves_and_then[OF keep_basic(4)] achieves_option achieves_fail achieves_if keep_basic
        achieves_sum achieves_and_then[OF achieves_clock]
        achieves_and_then[where m = "if _ then _ else _", OF achieves_if[OF keep_basic(2) keep_basic(1)]]
        achieves_and_then[OF transition_update] transition_finish)
      (auto intro: achieves_succeed)
  then show ?thesis unfolding transition_def by (intro achieves_if keep_basic write_transaction)
qed

end
