(* ===== verification/JobRepository.thy ===== *)
theory JobRepository
  imports JobLeases
begin

text \<open>
  The job repository as its users see it: all operations as the constructors of \<open>job_op\<close>, run
  one after the other by any number of processes, and what holds whatever they do. The
  operations of a process that executes a job carry its lease token (\<open>leased\<close>).
\<close>

datatype job_op =
  CreateJob string transcription_job
  | ClaimNext string int
  | ClaimJob string string int
  | RenewLease string string int
  | ReleaseLease string string
  | CompleteJob string string string
  | Transition string job_state string string string
  | UpdateProgress string job_stage real int string
  | UpdateRuntimeInfo string string string string json_object string
  | UpdateParameters string json_object string
  | ReplaceChunks "int \<Rightarrow> string" string "job_chunk list" string
  | UpdateChunk job_chunk string
  | AppendEvent job_event string
  | Reorder "string list"
  | MarkInterrupted string
  | DeleteJob string
  | ClearCompleted

definition ignore_result :: "('d, 'a) dbop \<Rightarrow> ('d, unit) dbop" where
  "ignore_result m = and_then m (\<lambda>_. succeed ())"

fun apply_op :: "job_op \<Rightarrow> (job_tables, unit) dbop" where
  "apply_op (CreateJob uuid job) = ignore_result (createQueued uuid job)"
| "apply_op (ClaimNext ow n) = ignore_result (claimNextQueued ow n)"
| "apply_op (ClaimJob i ow n) = ignore_result (claimQueued i ow n)"
| "apply_op (RenewLease i ow n) = ignore_result (renewLease i ow n)"
| "apply_op (ReleaseLease i ow) = releaseLease i ow"
| "apply_op (CompleteJob r i ow) = completeAndActivate r i ow"
| "apply_op (Transition i s code msg ow) = transition i s code msg ow"
| "apply_op (UpdateProgress i st p n ow) = updateProgress i st p n ow"
| "apply_op (UpdateRuntimeInfo i b e w ds ow) = updateRuntimeInfo i b e w ds ow"
| "apply_op (UpdateParameters i ps ow) = updateParameters i ps ow"
| "apply_op (ReplaceChunks uuid i cs ow) = replaceChunks uuid i cs ow"
| "apply_op (UpdateChunk c ow) = updateChunk c ow"
| "apply_op (AppendEvent e ow) = ignore_result (appendEvent e ow)"
| "apply_op (Reorder ids) = reorder ids"
| "apply_op (MarkInterrupted why) = ignore_result (markRunningJobsInterrupted why)"
| "apply_op (DeleteJob i) = deleteTerminalJob i"
| "apply_op ClearCompleted = ignore_result clearCompleted"

definition run_ops :: "job_tables connection \<Rightarrow> job_op list \<Rightarrow> job_tables connection" where
  "run_ops = foldl (\<lambda>c op. snd (apply_op op c))"

subsection \<open>Atomicity\<close>

lemma atomic_validation [atomics]: "atomic (validation e)"
  by (simp add: validation_def atomics)

lemma atomic_leased [atomics]: "atomic (executionLeaseTransaction i ow m)"
  unfolding executionLeaseTransaction_def by (intro atomics)

lemma atomic_write [atomics]: "atomic (executionWrite i ow m)"
  unfolding executionWrite_def by (intro atomics)

lemma atomic_ignore [atomics]: "atomic m \<Longrightarrow> atomic (ignore_result m)"
  unfolding ignore_result_def by (rule atomic_then_succeed)

lemma atomic_let [atomics]: "atomic (f v) \<Longrightarrow> atomic (let x = v in f x)"
  by simp

lemma apply_op_atomic: "atomic (apply_op op)"
  by (cases op)
    (simp_all add: createQueued_def claimNextQueued_def claimQueued_def renewLease_def releaseLease_def
      completeAndActivate_def transition_def updateProgress_def updateRuntimeInfo_def updateParameters_def
      replaceChunks_def updateChunk_def appendEvent_def reorder_def markRunningJobsInterrupted_def
      deleteTerminalJob_def clearCompleted_def db_transaction_immediate atomics)

subsection \<open>The invariant of a run\<close>

lemma keep_ignore [keep]: "achieves P m (\<lambda>_. Q) \<Longrightarrow> achieves P (ignore_result m) (\<lambda>_. Q)"
  unfolding ignore_result_def by (rule achieves_and_then) (auto intro: achieves_succeed)

lemmas operation_keeps = createQueued_keeps claim_keeps renewLease_keeps releaseLease_keeps
  completeAndActivate_keeps transition_keeps updateProgress_keeps updateRuntimeInfo_keeps
  updateParameters_keeps replaceChunks_keeps updateChunk_keeps appendEvent_keeps reorder_keeps
  markRunning_keeps deleteTerminalJob_keeps clearCompleted_keeps

lemma apply_op_keeps: "achieves (inv_but {}) (apply_op op) (\<lambda>_. inv_but {})"
  by (cases op) (simp_all add: operation_keeps keep_ignore)

interpretation repository: machine "\<lambda>c op. snd (apply_op op c)" "\<lambda>c. db_ok (cn_db c)"
proof
  fix c :: "job_tables connection" and op
  assume "db_ok (cn_db c)"
  obtain r c' where r: "apply_op op c = (r, c')" by fastforce
  show "db_ok (cn_db (snd (apply_op op c)))"
  proof (cases r)
    case (Inl e)
    then show ?thesis using apply_op_atomic[of op] r \<open>db_ok (cn_db c)\<close> by (auto simp: atomic_def)
  next
    case (Inr u)
    then show ?thesis
      using achievesD[OF apply_op_keeps, of op c u c'] r \<open>db_ok (cn_db c)\<close> by (simp add: db_ok_inv)
  qed
qed

subsection \<open>Fencing\<close>

text \<open>The job and the token of an operation that needs the lease of the job.\<close>

fun leased :: "job_op \<Rightarrow> (string \<times> string) option" where
  "leased (CompleteJob r i ow) = Some (i, ow)"
| "leased (Transition i s code msg ow) = (if ow = [] then None else Some (i, ow))"
| "leased (UpdateProgress i st p n ow) = Some (i, ow)"
| "leased (UpdateRuntimeInfo i b e w ds ow) = Some (i, ow)"
| "leased (UpdateParameters i ps ow) = Some (i, ow)"
| "leased (ReplaceChunks uuid i cs ow) = (if ow = [] then None else Some (i, ow))"
| "leased (UpdateChunk c ow) = Some (jc_jobId c, ow)"
| "leased (AppendEvent e ow) = Some (je_jobId e, ow)"
| "leased _ = None"

definition holds_lease :: "string \<Rightarrow> string \<Rightarrow> int \<Rightarrow> job_tables \<Rightarrow> bool" where
  "holds_lease i ow now d \<longleftrightarrow> \<not> blank ow \<and> (\<exists>l t. db_lease d = Some l \<and> el_jobId l = i
     \<and> el_ownerToken l = ow \<and> el_expiresAt l = Some t \<and> now < t)"

lemma leased_success:
  assumes "executionLeaseTransaction i ow m c = (Inr x, c')"
  shows "holds_lease i ow (cn_time c) (cn_db c)"
proof -
  have nb: "\<not> blank i" "\<not> blank ow"
    using assms by (auto simp: executionLeaseTransaction_def validation_def split: if_splits)
  let ?row = "\<lambda>d. case db_lease d of
      Some l \<Rightarrow> if el_jobId l = i \<and> el_ownerToken l = ow then Some (el_expiresAt l) else None
    | None \<Rightarrow> None"
  obtain c1 c2 row c3 where c: "cn_db c1 = cn_db c" "cn_time c1 = cn_time c" "select ?row c1 = (Inr row, c3)"
    and body: "(case row of None \<Rightarrow> validation ExecutionLeaseLost | Some None \<Rightarrow> validation ExecutionLeaseLost
      | Some (Some expiresAt) \<Rightarrow> and_then clock (\<lambda>now.
          if expiresAt \<le> now then validation ExecutionLeaseLost else m)) c3 = (Inr x, c2)"
    using assms nb unfolding executionLeaseTransaction_def by (auto elim!: transaction_success)
  from selectD[OF c(3)] have r: "row = ?row (cn_db c)" "cn_time c3 = cn_time c" using c by simp_all
  obtain t where t: "row = Some (Some t)" "cn_time c < t"
    using body r(2) by (auto simp: validation_def dest!: clockD split: option.splits if_splits)
  then show ?thesis using r(1) nb by (auto simp: holds_lease_def split: option.splits if_splits)
qed

lemma ignore_success [simp]: "ignore_result m c = (Inr u, c') \<longleftrightarrow> (\<exists>x. m c = (Inr x, c'))"
  by (auto simp: ignore_result_def)

lemma leased_op_success:
  assumes "leased op = Some (i, ow)" "apply_op op c = (Inr u, c')"
  shows "holds_lease i ow (cn_time c) (cn_db c)"
  using assms
  by (cases op)
    (auto simp: completeAndActivate_def transition_def executionWrite_def updateProgress_def
      updateRuntimeInfo_def updateParameters_def replaceChunks_def updateChunk_def appendEvent_def
      validation_def split: if_splits dest!: leased_success)

subsection \<open>Properties\<close>

text \<open>
  C1: Whatever the processes that share the database do, in whatever order, and whichever
  statements fail: at most one job executes at a time; the holder of the execution lease is an
  executing job; the active transcript of every recording belongs to a completed job of that
  recording; job ids are unique; every chunk, segment and event belongs to an existing job; and
  the event log keeps its order.
\<close>

theorem job_tables_invariant:
  assumes "db_ok (cn_db c)" and "d = cn_db (run_ops c ops)"
  shows "length (filter (\<lambda>j. isRunning (tj_state j)) (db_jobs d)) \<le> 1
    \<and> (\<forall>l. db_lease d = Some l \<longrightarrow> (\<exists>j \<in> set (db_jobs d). tj_id j = el_jobId l \<and> isRunning (tj_state j)))
    \<and> (\<forall>r \<in> set (db_recordings d). \<forall>a. rr_activeJobId r = Some a \<longrightarrow>
         (\<exists>j \<in> set (db_jobs d). tj_id j = a \<and> tj_recordingId j = rr_id r \<and> tj_state j = Completed))
    \<and> distinct (map tj_id (db_jobs d))
    \<and> jc_jobId ` set (db_chunks d) \<union> ts_jobId ` set (db_segments d) \<union> je_jobId ` set (db_events d)
        \<subseteq> tj_id ` set (db_jobs d)
    \<and> sorted_wrt (<) (map je_id (db_events d))"
proof -
  have "db_ok d" using repository.run_inv[OF assms(1), of ops] assms(2) by (simp add: run_ops_def)
  then show ?thesis
    unfolding db_ok_def base_ok_def keys_ok_def events_ok_def active_ok_def single_execution_def
      lease_ok_but_def job_executing_def job_ids_def executing_isRunning by auto
qed

definition sample_tables :: job_tables where
  "sample_tables = \<lparr>db_recordings = [\<lparr>rr_id = ''r'', rr_activeJobId = None, rr_updatedAt = 0\<rparr>],
     db_jobs = [], db_chunks = [], db_segments = [], db_events = [], db_nextEventId = 1, db_lease = None\<rparr>"

definition sample_job :: transcription_job where
  "sample_job = \<lparr>tj_id = ''j'', tj_recordingId = ''r'', tj_state = Failed, tj_stage = StagePreparing,
     tj_progress = 0, tj_modelId = [], tj_modelChecksum = [], tj_engineVersion = [], tj_workerVersion = [],
     tj_backend = [], tj_language = ''zh'', tj_preset = ''balanced'', tj_glossaryProfileId = [],
     tj_meetingContext = [], tj_vadEnabled = True, tj_errorCode = [], tj_errorMessage = [],
     tj_diagnostics = [], tj_parameters = [], tj_queuePosition = 0, tj_retryCount = 0,
     tj_createdAt = None, tj_startedAt = None, tj_completedAt = None, tj_interruptedAt = None,
     tj_lastCompletedChunk = -1, tj_queueHidden = False\<rparr>"

definition at_time :: "int \<Rightarrow> 'd \<Rightarrow> 'd connection" where
  "at_time t d = \<lparr>cn_db = d, cn_time = t, cn_ticks = [], cn_faults = []\<rparr>"

lemma sample_ok: "db_ok sample_tables"
  by (simp add: db_ok_def base_ok_def keys_ok_def events_ok_def active_ok_def single_execution_def
    lease_ok_but_def sample_tables_def)

lemma job_tables_invariant_witness:
  "length (filter (\<lambda>j. isRunning (tj_state j)) (db_jobs (cn_db (run_ops (at_time 5 sample_tables)
     [CreateJob ''u'' sample_job, ClaimNext ''worker'' 1000, Reorder [''j'']])))) \<le> 1"
  by (rule conjunct1[OF job_tables_invariant[OF _ refl]]) (simp add: at_time_def sample_ok)

text \<open>
  Operations are atomic: one that reports an error, for any reason from an invalid argument
  to a failed commit, has changed nothing.
\<close>

theorem failed_operation_changes_nothing:
  assumes "apply_op op c = (Inl e, c')"
  shows "cn_db c' = cn_db c"
  using assms apply_op_atomic[of op] unfolding atomic_def by blast

lemma failed_operation_changes_nothing_witness:
  "cn_db (snd (apply_op (UpdateProgress ''j'' StagePreparing 1 0 []) (at_time 5 sample_tables))) = sample_tables"
proof -
  have "apply_op (UpdateProgress ''j'' StagePreparing 1 0 []) (at_time 5 sample_tables)
      = (Inl (validation_error InvalidArgument), at_time 5 sample_tables)"
    by (simp add: updateProgress_def executionLeaseTransaction_def blank_def validation_def fail_def)
  from failed_operation_changes_nothing[OF this] show ?thesis
    by (simp add: updateProgress_def executionLeaseTransaction_def blank_def validation_def fail_def at_time_def)
qed

text \<open>
  C2: Execution is fenced: an operation that a worker makes with its token succeeds only if,
  when it ran, the lease in the database was for that job, carried that token and had not
  expired. A process that lost its lease can no longer change the job.
\<close>

theorem leased_operations_fenced:
  assumes "leased op = Some (i, ow)" and "apply_op op c = (Inr u, c')"
  shows "\<exists>l t. db_lease (cn_db c) = Some l \<and> el_jobId l = i \<and> el_ownerToken l = ow
    \<and> el_expiresAt l = Some t \<and> cn_time c < t"
  using leased_op_success[OF assms] by (auto simp: holds_lease_def)

lemmas evaluation = immediateTransaction_def and_then_def connection_def statement_def select_def
  modify_def exec_def exec_as_def rolled_back_def succeed_def fail_def clock_def validation_def

definition sample_running :: job_tables where
  "sample_running = sample_tables\<lparr>db_jobs := [sample_job\<lparr>tj_state := Preparing\<rparr>],
     db_lease := Some \<lparr>el_ownerToken = ''w'', el_jobId = ''j'', el_acquiredAt = Some 0,
       el_heartbeatAt = Some 0, el_expiresAt = Some 9\<rparr>\<rparr>"

lemma sample_update:
  "apply_op (UpdateParameters ''j'' [] ''w'') (at_time 5 sample_running)
     = (Inr (), at_time 5 (sample_running\<lparr>db_jobs := [sample_job\<lparr>tj_state := Preparing, tj_parameters := []\<rparr>]\<rparr>))"
  by (simp add: updateParameters_def executionLeaseTransaction_def evaluation at_time_def sample_running_def
    blank_def white_char_def update_jobs_def single_execution_def job_row_ok_def sample_tables_def sample_job_def)

lemma leased_operations_fenced_witness:
  "\<exists>l t. db_lease (cn_db (at_time 5 sample_running)) = Some l \<and> el_jobId l = ''j'' \<and> el_ownerToken l = ''w''
    \<and> el_expiresAt l = Some t \<and> cn_time (at_time 5 sample_running) < t"
  by (rule leased_operations_fenced[OF _ sample_update]) simp

subsection \<open>Claims\<close>

definition claim_granted :: "string \<Rightarrow> job_claim \<Rightarrow> job_tables \<Rightarrow> bool" where
  "claim_granted ow jk d \<longleftrightarrow> (jk_claimed jk \<longrightarrow>
     (\<exists>l j. db_lease d = Some l \<and> el_ownerToken l = ow \<and> jk_lease jk = Some l
        \<and> jk_job jk = Some j \<and> find_job (el_jobId l) d = Some j))"

lemma insertEvent_same: "achieves (\<lambda>d. db_lease d = l \<and> db_jobs d = js \<and> db_recordings d = rs) (insertEvent e)
    (\<lambda>_ d. db_lease d = l \<and> db_jobs d = js \<and> db_recordings d = rs)"
  unfolding insertEvent_def
  by (intro keep achieves_exec) (auto simp: insert_event_row_def split: if_splits)

lemma insertEvent_lease: "achieves (\<lambda>d. db_lease d = l) (insertEvent e) (\<lambda>_ d. db_lease d = l)"
  unfolding insertEvent_def
  by (intro keep achieves_exec) (auto simp: insert_event_row_def split: if_splits)

lemma take_job_granted: "achieves (\<lambda>_. True) (take_job s ow n now) (claim_granted ow)"
proof -
  have ins: "achieves (\<lambda>_. True) (exec (insert_lease l)) (\<lambda>_ d. db_lease d = Some l)" for l
    by (rule achieves_exec) (auto simp: insert_lease_def split: if_splits)
  show ?thesis unfolding take_job_def Let_def findJob_def
    by (intro achieves_and_then[where R = "\<lambda>_ _. True" and m = "exec (update_jobs _ _)"] achieves_if
        achieves_and_then[OF ins] achieves_and_then[OF insertEvent_lease] achieves_and_then[OF select_value]
        achieves_option achieves_fail achieves_succeed)
      (auto simp: claim_granted_def no_claim_def achieves_def)
qed

lemma claim_free_granted: "achieves (\<lambda>_. True) (claim_free r ow n now) (claim_granted ow)"
  unfolding claim_free_def
  by (intro achieves_and_then[where R = "\<lambda>_ _. True"] achieves_option achieves_if take_job_granted
      keep_basic(3) achieves_succeed)
    (auto simp: claim_granted_def no_claim_def achieves_def)

lemma claim_granted_any: "achieves (\<lambda>_. True) (claimInDatabase r ow n) (claim_granted ow)"
proof -
  have held: "achieves (\<lambda>d. db_lease d = Some l) (claim_held r ow l) (claim_granted ow)" for l
    unfolding claim_held_def Let_def findJob_def
    by (intro achieves_if achieves_and_then[OF select_value] achieves_option achieves_succeed)
      (auto simp: claim_granted_def no_claim_def)
  have "achieves (\<lambda>d. True \<and> lease = db_lease d) (case lease of
       None \<Rightarrow> claim_free r ow n now
     | Some l \<Rightarrow> if (case el_expiresAt l of Some t \<Rightarrow> now < t | None \<Rightarrow> False)
         then claim_held r ow l
         else and_then (recover_expired now l) (\<lambda>_. claim_free r ow n now)) (claim_granted ow)" for lease now
  proof (cases lease)
    case None
    then show ?thesis by (simp add: achieves_weaken[OF claim_free_granted])
  next
    case (Some l)
    have "achieves (\<lambda>d. True \<and> lease = db_lease d) (and_then (recover_expired now l) (\<lambda>_. claim_free r ow n now)) (claim_granted ow)"
      by (rule achieves_and_then[OF _ claim_free_granted]) (simp add: achieves_def)
    moreover have "achieves (\<lambda>d. True \<and> lease = db_lease d) (claim_held r ow l) (claim_granted ow)"
      by (rule achieves_weaken[OF held]) (simp_all add: Some)
    ultimately show ?thesis using Some by simp
  qed
  then show ?thesis unfolding claimInDatabase_def
    by (intro achieves_and_then[OF achieves_clock] achieves_and_then[OF findLease_value])
qed

text \<open>While another process holds an unexpired lease, a claim reads and changes nothing.\<close>

lemma claim_refused:
  assumes "claimInDatabase r ow n c = (Inr jk, c')"
    and "db_lease (cn_db c) = Some l" "el_ownerToken l \<noteq> ow" "el_expiresAt l = Some t" "cn_time c < t"
  shows "\<not> jk_claimed jk \<and> jk_activeJobId jk = el_jobId l \<and> cn_db c' = cn_db c"
proof -
  obtain now c1 lease c2 where c1: "clock c = (Inr now, c1)" and f: "findLease c1 = (Inr lease, c2)"
    and body: "(case lease of
       None \<Rightarrow> claim_free r ow n now
     | Some l \<Rightarrow> if (case el_expiresAt l of Some t \<Rightarrow> now < t | None \<Rightarrow> False)
         then claim_held r ow l
         else and_then (recover_expired now l) (\<lambda>_. claim_free r ow n now)) c2 = (Inr jk, c')"
    using assms(1) unfolding claimInDatabase_def by auto
  have "cn_db c1 = cn_db c" "now = cn_time c" using clockD[OF c1] by simp_all
  moreover have "cn_db c2 = cn_db c1 \<and> lease = db_lease (cn_db c2)"
    using achievesD[OF findLease_value[of "\<lambda>d. d = cn_db c1"] f] by simp
  ultimately have "claim_held r ow l c2 = (Inr jk, c')" "cn_db c2 = cn_db c"
    using body assms by simp_all
  then show ?thesis using assms(3) by (simp add: claim_held_def Let_def no_claim_def)
qed

definition claim_job :: "string option \<Rightarrow> string \<Rightarrow> int \<Rightarrow> (job_tables, job_claim) dbop" where
  "claim_job r ow n = (case r of None \<Rightarrow> claimNextQueued ow n | Some i \<Rightarrow> claimQueued i ow n)"

lemma claim_job_inside:
  assumes "claim_job r ow n c = (Inr jk, c')"
  obtains c1 c2 where "cn_db c1 = cn_db c" "cn_time c1 = cn_time c" "claimInDatabase r ow n c1 = (Inr jk, c2)"
    "cn_db c' = cn_db c2"
  using assms unfolding claim_job_def claimNextQueued_def claimQueued_def validation_def
  by (auto elim!: transaction_success split: option.splits if_splits)

lemma find_job_unique:
  assumes "base_ok d" "find_job i d = Some j" "j' \<in> set (db_jobs d)" "tj_id j' = i"
  shows "j' = j"
proof (rule inj_onD)
  show "inj_on tj_id (set (db_jobs d))" using assms(1) by (simp add: base_ok_def keys_ok_def distinct_map)
  show "tj_id j' = tj_id j" "j' \<in> set (db_jobs d)" "j \<in> set (db_jobs d)"
    using find_SomeD[OF assms(2)[unfolded find_job_def]] assms(3,4) by simp_all
qed

text \<open>
  C5: Claims are exclusive. A claim that is granted leaves the execution lease with the
  claimant, on the job it was given, which is executing; and while another process holds an
  unexpired lease, a claim is refused, names the active job and changes nothing.
\<close>

theorem claims_are_exclusive:
  assumes "db_ok (cn_db c)" and "claim_job r ow n c = (Inr jk, c')"
  shows "(jk_claimed jk \<longrightarrow> (\<exists>l j. db_lease (cn_db c') = Some l \<and> el_ownerToken l = ow \<and> jk_lease jk = Some l
        \<and> jk_job jk = Some j \<and> j \<in> set (db_jobs (cn_db c')) \<and> tj_id j = el_jobId l \<and> isRunning (tj_state j)))
    \<and> (\<forall>l t. db_lease (cn_db c) = Some l \<and> el_ownerToken l \<noteq> ow \<and> el_expiresAt l = Some t \<and> cn_time c < t
        \<longrightarrow> \<not> jk_claimed jk \<and> jk_activeJobId jk = el_jobId l \<and> cn_db c' = cn_db c)"
proof -
  obtain c1 c2 where c: "cn_db c1 = cn_db c" "cn_time c1 = cn_time c"
    and cl: "claimInDatabase r ow n c1 = (Inr jk, c2)" and c': "cn_db c' = cn_db c2"
    using assms(2) by (rule claim_job_inside)
  have ok: "db_ok (cn_db c')"
    using achievesD[OF claimInDatabase_ok cl] assms(1) c(1) c' by (simp add: db_ok_inv)
  have "\<exists>l j. db_lease (cn_db c') = Some l \<and> el_ownerToken l = ow \<and> jk_lease jk = Some l
        \<and> jk_job jk = Some j \<and> j \<in> set (db_jobs (cn_db c')) \<and> tj_id j = el_jobId l \<and> isRunning (tj_state j)"
    if granted: "jk_claimed jk"
  proof -
    obtain l j where l: "db_lease (cn_db c') = Some l" "el_ownerToken l = ow" "jk_lease jk = Some l"
      "jk_job jk = Some j" "find_job (el_jobId l) (cn_db c') = Some j"
      using achievesD[OF claim_granted_any cl] granted c' by (auto simp: claim_granted_def)
    obtain j' where "j' \<in> set (db_jobs (cn_db c'))" "tj_id j' = el_jobId l" "isRunning (tj_state j')"
      using ok l(1) by (auto simp: db_ok_def lease_ok_but_def job_executing_def executing_isRunning)
    moreover from this have "j' = j" by (metis find_job_unique l(5) ok db_ok_def)
    ultimately show ?thesis using l by blast
  qed
  moreover have "\<not> jk_claimed jk \<and> jk_activeJobId jk = el_jobId l \<and> cn_db c' = cn_db c"
    if "db_lease (cn_db c) = Some l \<and> el_ownerToken l \<noteq> ow \<and> el_expiresAt l = Some t \<and> cn_time c < t" for l t
    using claim_refused[OF cl, of l t] that c c' by simp
  ultimately show ?thesis by blast
qed

lemma sample_claim:
  "claim_job (Some ''k'') ''other'' 1000 (at_time 5 sample_running)
     = (Inr (no_claim\<lparr>jk_activeJobId := ''j'', jk_lease := db_lease sample_running\<rparr>), at_time 5 sample_running)"
  by (simp add: claim_job_def claimQueued_def claimInDatabase_def findLease_def findRawLease_def evaluation
    validateLeaseIdentity_def validateLeaseTimestamps_def claim_held_def at_time_def sample_running_def
    blank_def white_char_def sample_tables_def sample_job_def)

lemma claims_are_exclusive_witness:
  "cn_db (snd (claim_job (Some ''k'') ''other'' 1000 (at_time 5 sample_running))) = sample_running"
proof -
  have "db_ok sample_running"
    by (simp add: db_ok_def base_ok_def keys_ok_def events_ok_def active_ok_def single_execution_def
      lease_ok_but_def sample_tables_def sample_running_def sample_job_def job_row_ok_def job_executing_def
      executing_def)
  then show ?thesis
    using claims_are_exclusive[OF _ sample_claim] by (simp add: at_time_def sample_claim[unfolded at_time_def])
qed

lemma first_by_least:
  assumes "first_by k rows = Some r" "x \<in> set rows"
  shows "k r \<le> k x"
proof -
  obtain rs where rs: "sort_key k rows = r # rs"
    using assms(1) by (auto simp: first_by_def split: list.splits)
  have "sorted (map k (r # rs))" using sorted_sort_key[of k rows] by (simp only: rs)
  moreover have "x \<in> set (r # rs)" using assms(2) rs by (metis set_sort)
  ultimately show ?thesis by auto
qed

definition queue_key :: "transcription_job \<Rightarrow> int \<times> int option \<times> string" where
  "queue_key j = (tj_queuePosition j, tj_createdAt j, tj_id j)"

lemma take_job_active: "achieves (\<lambda>_. True) (take_job s ow n now)
    (\<lambda>jk _. jk_claimed jk \<longrightarrow> jk_activeJobId jk = tj_id s)"
  unfolding take_job_def Let_def
  by (intro achieves_and_then[where R = "\<lambda>_ _. True"] achieves_if achieves_option achieves_fail achieves_succeed)
    (auto simp: no_claim_def achieves_def)

lemma claim_free_first:
  "achieves (\<lambda>d. d = d0) (claim_free None ow n now) (\<lambda>jk _. jk_claimed jk \<longrightarrow>
     (\<exists>s. first_by queue_key (filter (\<lambda>j. tj_state j = Queued \<and> \<not> tj_queueHidden j) (db_jobs d0)) = Some s
        \<and> jk_activeJobId jk = tj_id s))"
proof -
  let ?sel = "\<lambda>d. first_by queue_key (filter (\<lambda>j. tj_state j = Queued \<and> \<not> tj_queueHidden j) (db_jobs d))"
  let ?Q = "\<lambda>jk (_::job_tables). jk_claimed jk \<longrightarrow> (\<exists>s. ?sel d0 = Some s \<and> jk_activeJobId jk = tj_id s)"
  have take: "achieves (\<lambda>d. d = d0 \<and> q = ?sel d) (take_job s ow n now) ?Q" if "q = Some s" for q s
    using take_job_active[of s ow n now] that unfolding achieves_def by metis
  let ?rest = "and_then (select ?sel) (\<lambda>queued.
      case queued of None \<Rightarrow> succeed no_claim
      | Some selected \<Rightarrow> if tj_state selected \<noteq> Queued then validation InvalidStateTransition
          else take_job selected ow n now)"
  have rest: "achieves (\<lambda>d. d = d0) ?rest ?Q"
    by (intro achieves_and_then[OF select_value] achieves_option achieves_if keep_basic(3) take achieves_succeed)
      (simp_all add: no_claim_def)
  have "claim_free None ow n now = and_then (select (\<lambda>d. first_by (\<lambda>j. (tj_startedAt j, tj_id j))
      (filter (\<lambda>j. tj_state j \<in> set executing) (db_jobs d)))) (\<lambda>active.
     case active of Some j \<Rightarrow> succeed (no_claim\<lparr>jk_activeJobId := tj_id j\<rparr>) | None \<Rightarrow> ?rest)"
    unfolding claim_free_def queue_key_def[abs_def] option.case by simp
  then show ?thesis
    by (auto simp: no_claim_def intro!: achieves_and_then[OF keep_basic(2)] achieves_option rest achieves_succeed)
qed

text \<open>
  The queue is served in order. When no process holds the lease and the next job is claimed,
  it is a visible queued job, and no other visible queued job comes before it by queue position,
  then creation time, then id.
\<close>

theorem next_job_in_queue_order:
  assumes "claimNextQueued ow n c = (Inr jk, c')" and "jk_claimed jk" and "db_lease (cn_db c) = None"
  shows "\<exists>s \<in> set (db_jobs (cn_db c)). jk_activeJobId jk = tj_id s \<and> tj_state s = Queued \<and> \<not> tj_queueHidden s
    \<and> (\<forall>j \<in> set (db_jobs (cn_db c)). tj_state j = Queued \<and> \<not> tj_queueHidden j \<longrightarrow> queue_key s \<le> queue_key j)"
proof -
  let ?rows = "filter (\<lambda>j. tj_state j = Queued \<and> \<not> tj_queueHidden j) (db_jobs (cn_db c))"
  obtain c1 c2 where c: "cn_db c1 = cn_db c" and cl: "claimInDatabase None ow n c1 = (Inr jk, c2)"
  proof -
    have "claim_job None ow n c = (Inr jk, c')" using assms(1) by (simp add: claim_job_def)
    then show thesis by (rule claim_job_inside) (rule that)
  qed
  obtain now d1 lease d2 where "clock c1 = (Inr now, d1)" "findLease d1 = (Inr lease, d2)"
    and body: "(case lease of
       None \<Rightarrow> claim_free None ow n now
     | Some l \<Rightarrow> if (case el_expiresAt l of Some t \<Rightarrow> now < t | None \<Rightarrow> False)
         then claim_held None ow l
         else and_then (recover_expired now l) (\<lambda>_. claim_free None ow n now)) d2 = (Inr jk, c2)"
    using cl unfolding claimInDatabase_def by auto
  then have "cn_db d2 = cn_db c" "lease = None"
    using achievesD[OF findLease_value[of "\<lambda>d. d = cn_db c"]] clockD c assms(3) by metis+
  then have "claim_free None ow n now d2 = (Inr jk, c2)" using body by simp
  from achievesD[OF claim_free_first[of "cn_db c"] this] obtain s where
    s: "first_by queue_key ?rows = Some s" "jk_activeJobId jk = tj_id s"
    using assms(2) \<open>cn_db d2 = cn_db c\<close> by auto
  have "s \<in> set ?rows" by (rule first_by_set[OF s(1)])
  moreover have "queue_key s \<le> queue_key j" if "j \<in> set ?rows" for j
    using first_by_least[OF s(1) that] .
  ultimately show ?thesis using s(2) by (intro bexI[of _ s]) auto
qed

definition sample_queued :: job_tables where
  "sample_queued = sample_tables\<lparr>db_jobs := [sample_job\<lparr>tj_state := Queued\<rparr>]\<rparr>"

lemma sample_next:
  "\<exists>jk c'. claimNextQueued ''w'' 1000 (at_time 5 sample_queued) = (Inr jk, c') \<and> jk_claimed jk"
  by (simp add: claimNextQueued_def claimInDatabase_def findLease_def findRawLease_def evaluation
    claim_free_def take_job_def insertEvent_def insert_event_row_def stored_event_def findJob_def find_job_def first_by_def
    insert_lease_def update_jobs_def single_execution_def job_row_ok_def at_time_def sample_queued_def
    sample_tables_def sample_job_def blank_def white_char_def new_event_def executing_def Let_def)

lemma next_job_in_queue_order_witness:
  "\<exists>jk c'. claimNextQueued ''w'' 1000 (at_time 5 sample_queued) = (Inr jk, c')
    \<and> (\<exists>s \<in> set (db_jobs (cn_db (at_time 5 sample_queued))). jk_activeJobId jk = tj_id s \<and> tj_state s = Queued)"
proof -
  obtain jk c' where c: "claimNextQueued ''w'' 1000 (at_time 5 sample_queued) = (Inr jk, c')" "jk_claimed jk"
    using sample_next by blast
  have "db_lease (cn_db (at_time 5 sample_queued)) = None"
    by (simp add: at_time_def sample_queued_def sample_tables_def)
  from next_job_in_queue_order[OF c this] c(1) show ?thesis by blast
qed

end
