(* ===== verification/JobOutcomes.thy ===== *)
theory JobOutcomes
  imports JobRepository
begin

text \<open>
  What the operations of the job repository achieve when they succeed: completing a job makes
  its transcript the only one, progress never goes back, and the recovery after a crash leaves
  nothing running that nobody runs.
\<close>

subsection \<open>Completion\<close>

definition done_job :: "string \<Rightarrow> string \<Rightarrow> transcription_job list \<Rightarrow> bool" where
  "done_job i r jobs \<longleftrightarrow> (\<exists>j \<in> set jobs. tj_id j = i \<and> tj_recordingId j = r \<and> tj_state j = Completed
     \<and> tj_stage j = StageCompleted \<and> tj_progress j = 1)"

definition replaced :: "string \<Rightarrow> string \<Rightarrow> job_tables \<Rightarrow> bool" where
  "replaced i r d \<longleftrightarrow> (\<forall>s \<in> set (db_segments d). \<forall>j \<in> set (db_jobs d).
     ts_recordingId s = r \<and> ts_jobId s \<noteq> i \<and> tj_id j = ts_jobId s \<and> tj_recordingId j = r \<longrightarrow> tj_state j \<noteq> Completed)"

definition own_segments :: "string \<Rightarrow> job_tables \<Rightarrow> transcript_segment list" where
  "own_segments i d = filter (\<lambda>s. ts_jobId s = i) (db_segments d)"

definition activated :: "string \<Rightarrow> string \<Rightarrow> job_tables \<Rightarrow> bool" where
  "activated i r d \<longleftrightarrow> (\<forall>q \<in> set (db_recordings d). rr_id q = r \<longrightarrow> rr_activeJobId q = Some i)"

definition finishing :: "string \<Rightarrow> string \<Rightarrow> string \<Rightarrow> transcript_segment list \<Rightarrow> job_tables \<Rightarrow> bool" where
  "finishing i r ow ss d \<longleftrightarrow> done_job i r (db_jobs d) \<and> lease_is i ow (db_lease d) \<and> own_segments i d = ss"

definition completion_done :: "string \<Rightarrow> string \<Rightarrow> string \<Rightarrow> transcript_segment list \<Rightarrow> job_tables \<Rightarrow> bool" where
  "completion_done i r ow ss d \<longleftrightarrow> finishing i r ow ss d \<and> activated i r d \<and> replaced i r d"

lemma finish_step:
  "achieves (\<lambda>d. held i ow d \<and> own_segments i d = ss)
    (exec (update_jobs (\<lambda>j. tj_id j = i \<and> tj_recordingId j = r \<and> tj_state j = Finalizing)
       (\<lambda>j. j\<lparr>tj_state := Completed, tj_stage := StageCompleted, tj_progress := 1,
             tj_completedAt := Some now, tj_errorCode := [], tj_errorMessage := []\<rparr>)))
    (\<lambda>n d. n \<noteq> 0 \<longrightarrow> finishing i r ow ss d)"
proof (rule achieves_exec, rule impI)
  let ?P = "\<lambda>j. tj_id j = i \<and> tj_recordingId j = r \<and> tj_state j = Finalizing"
  let ?f = "\<lambda>j. j\<lparr>tj_state := Completed, tj_stage := StageCompleted, tj_progress := 1,
             tj_completedAt := Some now, tj_errorCode := [], tj_errorMessage := []\<rparr>"
  fix d n d' assume d: "held i ow d \<and> own_segments i d = ss" and u: "update_jobs ?P ?f d = Some (n, d')" and "n \<noteq> 0"
  note f = update_jobs_fields[OF u]
  have "filter ?P (db_jobs d) \<noteq> []" using \<open>n \<noteq> 0\<close> f(8) by auto
  then obtain j where "j \<in> set (db_jobs d)" "?P j" by (auto simp: filter_empty_conv)
  then have "?f j \<in> set (db_jobs d')" using f(1) by force
  moreover have "tj_id (?f j) = i" "tj_recordingId (?f j) = r" "tj_state (?f j) = Completed"
    "tj_stage (?f j) = StageCompleted" "tj_progress (?f j) = 1" using \<open>?P j\<close> by simp_all
  ultimately have "done_job i r (db_jobs d')" unfolding done_job_def by blast
  then show "finishing i r ow ss d'"
    using d f(4,7) by (auto simp: finishing_def own_segments_def held_def lease_is_def)
qed

lemma activation_step:
  fixes n :: "job_tables \<Rightarrow> nat"
  assumes "(k::nat) \<noteq> 0"
  shows "achieves (\<lambda>d. k \<noteq> 0 \<longrightarrow> finishing i r ow ss d)
     (exec (\<lambda>d. Some (n d, d\<lparr>db_recordings := map (\<lambda>q. if rr_id q = r
        then q\<lparr>rr_activeJobId := Some i, rr_updatedAt := now\<rparr> else q) (db_recordings d)\<rparr>)))
     (\<lambda>_ d. finishing i r ow ss d \<and> activated i r d)"
proof (rule achieves_exec)
  fix d :: job_tables and x d'
  let ?d = "d\<lparr>db_recordings := map (\<lambda>q. if rr_id q = r
        then q\<lparr>rr_activeJobId := Some i, rr_updatedAt := now\<rparr> else q) (db_recordings d)\<rparr>"
  assume "k \<noteq> 0 \<longrightarrow> finishing i r ow ss d" and "Some (n d, ?d) = Some (x, d')"
  then have "finishing i r ow ss d" "d' = ?d" using assms by simp_all
  have "activated i r ?d" unfolding activated_def
  proof (intro ballI impI)
    let ?h = "\<lambda>q. if rr_id q = r then q\<lparr>rr_activeJobId := Some i, rr_updatedAt := now\<rparr> else q"
    fix q assume q: "q \<in> set (db_recordings ?d)" and "rr_id q = r"
    have "db_recordings ?d = map ?h (db_recordings d)" by simp
    then have "q \<in> ?h ` set (db_recordings d)" using q by (simp only: set_map)
    then obtain q' where "q = ?h q'" by (rule imageE)
    then show "rr_activeJobId q = Some i" using \<open>rr_id q = r\<close> by (cases "rr_id q' = r") simp_all
  qed
  moreover have "finishing i r ow ss ?d"
    using \<open>finishing i r ow ss d\<close> by (simp add: finishing_def own_segments_def)
  ultimately show "finishing i r ow ss d' \<and> activated i r d'" using \<open>d' = ?d\<close> by simp
qed

lemma discard_step:
  "achieves (\<lambda>d. finishing i r ow ss d \<and> activated i r d)
     (modify (\<lambda>d. d\<lparr>db_segments := filter (\<lambda>s. \<not> (ts_recordingId s = r \<and> ts_jobId s \<noteq> i
        \<and> ts_jobId s \<in> tj_id ` set (filter (\<lambda>j. tj_recordingId j = r \<and> tj_state j = Completed) (db_jobs d))))
        (db_segments d)\<rparr>))
     (\<lambda>_. completion_done i r ow ss)"
proof (rule achieves_modify)
  fix d :: job_tables
  let ?Q = "\<lambda>s. \<not> (ts_recordingId s = r \<and> ts_jobId s \<noteq> i
        \<and> ts_jobId s \<in> tj_id ` set (filter (\<lambda>j. tj_recordingId j = r \<and> tj_state j = Completed) (db_jobs d)))"
  let ?d = "d\<lparr>db_segments := filter ?Q (db_segments d)\<rparr>"
  assume d: "finishing i r ow ss d \<and> activated i r d"
  have "own_segments i ?d = own_segments i d"
    by (simp add: own_segments_def) (rule filter_cong, auto)
  then have "finishing i r ow ss ?d" "activated i r ?d" using d by (simp_all add: finishing_def activated_def)
  moreover have "replaced i r ?d" unfolding replaced_def
  proof (intro ballI impI)
    fix s j assume "s \<in> set (db_segments ?d)" "j \<in> set (db_jobs ?d)"
      "ts_recordingId s = r \<and> ts_jobId s \<noteq> i \<and> tj_id j = ts_jobId s \<and> tj_recordingId j = r"
    then have "?Q s" "j \<in> set (db_jobs d)" by simp_all
    then show "tj_state j \<noteq> Completed"
      using \<open>ts_recordingId s = r \<and> ts_jobId s \<noteq> i \<and> tj_id j = ts_jobId s \<and> tj_recordingId j = r\<close> by force
  qed
  ultimately show "completion_done i r ow ss ?d" by (simp add: completion_done_def)
qed

lemma hide_step:
  "achieves (completion_done i r ow ss) (exec (update_jobs P (\<lambda>j. j\<lparr>tj_queueHidden := True\<rparr>)))
     (\<lambda>_. completion_done i r ow ss)"
proof (rule achieves_exec)
  fix d n d' assume d: "completion_done i r ow ss d"
    and u: "update_jobs P (\<lambda>j. j\<lparr>tj_queueHidden := True\<rparr>) d = Some (n, d')"
  note f = update_jobs_fields[OF u]
  let ?g = "\<lambda>j. if P j then j\<lparr>tj_queueHidden := True\<rparr> else j"
  have g: "tj_id (?g j) = tj_id j" "tj_recordingId (?g j) = tj_recordingId j" "tj_state (?g j) = tj_state j"
    "tj_stage (?g j) = tj_stage j" "tj_progress (?g j) = tj_progress j" for j by simp_all
  obtain j where j: "j \<in> set (db_jobs d)" "tj_id j = i" "tj_recordingId j = r" "tj_state j = Completed"
    "tj_stage j = StageCompleted" "tj_progress j = 1"
    using d unfolding completion_done_def finishing_def done_job_def by blast
  have "?g j \<in> set (db_jobs d')" using j(1) f(1) by auto
  then have "done_job i r (db_jobs d')" unfolding done_job_def by (rule bexI[rotated]) (simp add: j(2-6))
  moreover have "replaced i r d'"
    unfolding replaced_def f(4)
  proof (intro ballI impI)
    fix s j' assume s: "s \<in> set (db_segments d)" "j' \<in> set (db_jobs d')"
      "ts_recordingId s = r \<and> ts_jobId s \<noteq> i \<and> tj_id j' = ts_jobId s \<and> tj_recordingId j' = r"
    then obtain j where j: "j \<in> set (db_jobs d)" "j' = ?g j" using f(1) by auto
    then have "ts_recordingId s = r \<and> ts_jobId s \<noteq> i \<and> tj_id j = ts_jobId s \<and> tj_recordingId j = r"
      using s(3) g by simp
    then have "tj_state j \<noteq> Completed" using d s(1) j(1) unfolding completion_done_def replaced_def by blast
    then show "tj_state j' \<noteq> Completed" using j(2) g by simp
  qed
  ultimately show "completion_done i r ow ss d'"
    using d f(2,4,7) by (simp add: completion_done_def finishing_def activated_def own_segments_def)
qed

lemma insertEvent_frame:
  assumes "\<And>d es n. P d \<Longrightarrow> P (d\<lparr>db_events := es, db_nextEventId := n\<rparr>)"
  shows "achieves P (insertEvent e)
    (\<lambda>_ d. P d \<and> je_jobId (last (db_events d)) = je_jobId e \<and> je_state (last (db_events d)) = je_state e)"
proof -
  let ?same = "\<lambda>x. je_jobId x = je_jobId e \<and> je_state x = je_state e"
  have stamp: "achieves P (if je_createdAt e = None then and_then clock (\<lambda>now. succeed (e\<lparr>je_createdAt := Some now\<rparr>))
      else succeed e) (\<lambda>x d. P d \<and> ?same x)"
    by (intro achieves_if achieves_and_then[OF achieves_clock] achieves_succeed) simp_all
  have store: "achieves (\<lambda>d. P d \<and> ?same x) (exec (insert_event_row (stored_event x)))
      (\<lambda>_ d. P d \<and> ?same (last (db_events d)))" for x
    by (rule achieves_exec) (auto simp: insert_event_row_def stored_event_def assms split: if_splits)
  show ?thesis unfolding insertEvent_def
    by (intro achieves_if keep_basic(3) achieves_and_then[OF stamp] achieves_and_then[OF store] achieves_succeed)
qed

lemma completion_event: "completion_done i r ow ss d \<Longrightarrow> completion_done i r ow ss (d\<lparr>db_events := es, db_nextEventId := n\<rparr>)"
  by (simp add: completion_done_def finishing_def activated_def replaced_def own_segments_def)

lemma release_step:
  "achieves (\<lambda>d. completion_done i r ow ss d \<and> Q (last (db_events d)))
     (exec (delete_lease (\<lambda>l. el_jobId l = i \<and> (ow = [] \<or> el_ownerToken l = ow))))
     (\<lambda>_ d. completion_done i r ow ss d \<and> Q (last (db_events d)) \<and> db_lease d = None)"
  by (rule achieves_exec)
    (auto simp: completion_done_def finishing_def activated_def replaced_def own_segments_def lease_is_def
      delete_lease_def split: option.splits if_splits)

lemma completeAndActivate_outcome:
  "achieves (\<lambda>d. own_segments i d = ss) (completeAndActivate r i ow)
     (\<lambda>_ d. completion_done i r ow ss d
       \<and> (je_jobId (last (db_events d)) = i \<and> je_state (last (db_events d)) = Some Completed) \<and> db_lease d = None)"
proof -
  let ?e = "(new_event i ''completed'')\<lparr>je_state := Some Completed, je_stage := Some StageCompleted, je_progress := Some 1\<rparr>"
  have event: "achieves (completion_done i r ow ss) (insertEvent ?e) (\<lambda>_ d. completion_done i r ow ss d
       \<and> (je_jobId (last (db_events d)) = i \<and> je_state (last (db_events d)) = Some Completed))"
    by (rule achieves_weaken[OF insertEvent_frame[where P = "completion_done i r ow ss", OF completion_event]])
      (simp_all add: new_event_def)
  have finish: "achieves (\<lambda>d. own_segments i d = ss \<and> held i ow d)
    (exec (update_jobs (\<lambda>j. tj_id j = i \<and> tj_recordingId j = r \<and> tj_state j = Finalizing)
       (\<lambda>j. j\<lparr>tj_state := Completed, tj_stage := StageCompleted, tj_progress := 1,
             tj_completedAt := Some now, tj_errorCode := [], tj_errorMessage := []\<rparr>)))
    (\<lambda>n d. n \<noteq> 0 \<longrightarrow> finishing i r ow ss d)" for now
    by (rule achieves_weaken[OF finish_step]) auto
  note release = release_step[where Q = "\<lambda>x. je_jobId x = i \<and> je_state x = Some Completed"]
  show ?thesis unfolding completeAndActivate_def findJob_def
    by (intro achieves_if keep_basic(3) lease_transaction achieves_and_then[OF keep_basic(2)] achieves_option
      achieves_and_then[OF achieves_clock] achieves_and_then[OF finish] achieves_and_then[OF activation_step]
      achieves_and_then[OF discard_step] achieves_and_then[OF hide_step] achieves_and_then[OF event]
      achieves_and_then[OF release] keep_basic)
qed

text \<open>
  C3: Completing a job makes its transcript the only one. After a successful completion the job
  is completed with full progress, it is the active one of its recording, the segments of every
  other completed job of the recording are gone while its own are untouched, the lease is
  released, and the last event reports the completion.
\<close>

theorem completion_replaces_transcript:
  assumes "completeAndActivate r i ow c = (Inr u, c')" and "d = cn_db c'"
  shows "(\<exists>j \<in> set (db_jobs d). tj_id j = i \<and> tj_recordingId j = r \<and> tj_state j = Completed \<and> tj_progress j = 1)
    \<and> (\<forall>q \<in> set (db_recordings d). rr_id q = r \<longrightarrow> rr_activeJobId q = Some i)
    \<and> (\<forall>s \<in> set (db_segments d). \<forall>j \<in> set (db_jobs d). ts_recordingId s = r \<and> tj_id j = ts_jobId s
         \<and> tj_recordingId j = r \<and> tj_state j = Completed \<longrightarrow> ts_jobId s = i)
    \<and> filter (\<lambda>s. ts_jobId s = i) (db_segments d) = filter (\<lambda>s. ts_jobId s = i) (db_segments (cn_db c))
    \<and> db_lease d = None
    \<and> je_jobId (last (db_events d)) = i \<and> je_state (last (db_events d)) = Some Completed"
proof -
  have "completion_done i r ow (own_segments i (cn_db c)) d
       \<and> (je_jobId (last (db_events d)) = i \<and> je_state (last (db_events d)) = Some Completed) \<and> db_lease d = None"
    using achievesD[OF completeAndActivate_outcome assms(1) refl] assms(2) by simp
  then show ?thesis
    unfolding completion_done_def finishing_def done_job_def activated_def replaced_def own_segments_def by blast
qed

definition sample_finalizing :: job_tables where
  "sample_finalizing = sample_running\<lparr>db_jobs := [sample_job\<lparr>tj_state := Finalizing\<rparr>]\<rparr>"

lemma sample_completion: "\<exists>c'. completeAndActivate ''r'' ''j'' ''w'' (at_time 5 sample_finalizing) = (Inr (), c')"
  by (simp add: completeAndActivate_def executionLeaseTransaction_def evaluation findJob_def find_job_def
    update_jobs_def single_execution_def job_row_ok_def insertEvent_def insert_event_row_def stored_event_def
    delete_lease_def rebuildRecording_def at_time_def sample_finalizing_def sample_running_def sample_tables_def
    sample_job_def blank_def white_char_def new_event_def executing_def Let_def)

lemma completion_replaces_transcript_witness:
  "\<exists>c'. completeAndActivate ''r'' ''j'' ''w'' (at_time 5 sample_finalizing) = (Inr (), c')
    \<and> (\<exists>j \<in> set (db_jobs (cn_db c')). tj_id j = ''j'' \<and> tj_recordingId j = ''r'' \<and> tj_state j = Completed
         \<and> tj_progress j = 1)"
  using sample_completion completion_replaces_transcript[OF _ refl, of "''r''" "''j''" "''w''" "at_time 5 sample_finalizing"]
  by blast

subsection \<open>Progress\<close>

definition progressed :: "string \<Rightarrow> job_stage \<Rightarrow> real \<Rightarrow> int \<Rightarrow> transcription_job \<Rightarrow> transcription_job" where
  "progressed i st p n j = (if tj_id j = i
     then j\<lparr>tj_stage := st, tj_progress := max (tj_progress j) (clamp 0 1 p),
            tj_lastCompletedChunk := max (tj_lastCompletedChunk j) n\<rparr> else j)"

lemma updateProgress_outcome:
  "achieves (\<lambda>d. d = d0) (updateProgress i st p n ow) (\<lambda>_ d.
     (\<exists>j. find_job i d0 = Some j \<and> stage_index (tj_stage j) \<le> stage_index st)
     \<and> db_jobs d = map (progressed i st p n) (db_jobs d0))"
proof -
  let ?post = "\<lambda>d. (\<exists>j. find_job i d0 = Some j \<and> stage_index (tj_stage j) \<le> stage_index st)
     \<and> db_jobs d = map (progressed i st p n) (db_jobs d0)"
  let ?f = "\<lambda>j. j\<lparr>tj_stage := st, tj_progress := max (tj_progress j) (clamp 0 1 p),
      tj_lastCompletedChunk := max (tj_lastCompletedChunk j) n\<rparr>"
  have upd: "achieves (\<lambda>d. d = d0 \<and> x = find_job i d) (exec (update_jobs (\<lambda>j. tj_id j = i) ?f)) (\<lambda>_. ?post)"
    if "x = Some j" "\<not> stage_index st < stage_index (tj_stage j)" for x j
  proof (rule achieves_exec)
    fix d k d' assume d: "d = d0 \<and> x = find_job i d" and u: "update_jobs (\<lambda>j. tj_id j = i) ?f d = Some (k, d')"
    have "db_jobs d' = map (progressed i st p n) (db_jobs d0)"
      using update_jobs_fields(1)[OF u] d by (simp add: progressed_def)
    moreover have "find_job i d0 = Some j" using d that(1) by metis
    moreover have "stage_index (tj_stage j) \<le> stage_index st" using that(2) by simp
    ultimately show "?post d'" by blast
  qed
  have event: "achieves ?post (insertEvent e) (\<lambda>_. ?post)" for e
    by (rule achieves_weaken[OF insertEvent_frame[where P = ?post]]) auto
  have unchanged: "achieves ?post (succeed ()) (\<lambda>_. ?post)" by (rule achieves_succeed)
  show ?thesis unfolding updateProgress_def findJob_def Let_def
    by (intro keep_lease_transaction achieves_and_then[OF select_value] achieves_option achieves_if
        keep_basic(3) achieves_and_then[OF upd] achieves_and_then[OF event] unchanged)
qed

text \<open>
  Reported progress never goes back. A successful progress report leaves every other job
  alone and does not change the state of its job; stage, progress and last completed chunk of
  the job stay or grow, and the progress stays within 0 and 1.
\<close>

theorem progress_reports_monotone:
  assumes "updateProgress i st p n ow c = (Inr u, c')" and "j \<in> set (db_jobs (cn_db c))"
    and "base_ok (cn_db c)"
  shows "\<exists>j' \<in> set (db_jobs (cn_db c')). tj_id j' = tj_id j \<and> tj_state j' = tj_state j
    \<and> stage_index (tj_stage j) \<le> stage_index (tj_stage j') \<and> tj_progress j \<le> tj_progress j' \<and> tj_progress j' \<le> 1
    \<and> tj_lastCompletedChunk j \<le> tj_lastCompletedChunk j' \<and> (tj_id j \<noteq> i \<longrightarrow> j' = j)"
proof -
  obtain j0 where j0: "find_job i (cn_db c) = Some j0" "stage_index (tj_stage j0) \<le> stage_index st"
    and jobs: "db_jobs (cn_db c') = map (progressed i st p n) (db_jobs (cn_db c))"
    using achievesD[OF updateProgress_outcome assms(1) refl] by blast
  have "progressed i st p n j \<in> set (db_jobs (cn_db c'))" using assms(2) jobs by simp
  moreover have "tj_progress j \<le> 1" using assms(2,3) by (auto simp: base_ok_def keys_ok_def list_all_iff job_row_ok_def)
  moreover have "clamp 0 1 p \<le> (1::real)" by (simp add: clamp_def)
  moreover have "j = j0" if "tj_id j = i" using find_job_unique[OF assms(3) j0(1) assms(2) that] .
  ultimately show ?thesis using j0(2)
    by (intro bexI[of _ "progressed i st p n j"]) (auto simp: progressed_def)
qed

lemma sample_progress: "\<exists>c'. updateProgress ''j'' StageTranscribing (1/2) 0 ''w'' (at_time 5 sample_running) = (Inr (), c')"
  by (simp add: updateProgress_def executionLeaseTransaction_def evaluation findJob_def find_job_def
    update_jobs_def single_execution_def job_row_ok_def insertEvent_def insert_event_row_def stored_event_def
    at_time_def sample_running_def sample_tables_def sample_job_def blank_def white_char_def new_event_def
    clamp_def Let_def)

lemma sample_running_base: "base_ok sample_running"
  by (simp add: base_ok_def keys_ok_def events_ok_def active_ok_def single_execution_def sample_tables_def
    sample_running_def sample_job_def job_row_ok_def)

lemma progress_reports_monotone_witness:
  "\<exists>c' j'. updateProgress ''j'' StageTranscribing (1/2) 0 ''w'' (at_time 5 sample_running) = (Inr (), c')
     \<and> j' \<in> set (db_jobs (cn_db c')) \<and> tj_id j' = ''j'' \<and> tj_state j' = Preparing"
proof -
  obtain c' where c: "updateProgress ''j'' StageTranscribing (1/2) 0 ''w'' (at_time 5 sample_running) = (Inr (), c')"
    using sample_progress by blast
  from progress_reports_monotone[OF this, of "sample_job\<lparr>tj_state := Preparing\<rparr>"] c show ?thesis
    using sample_running_base by (auto simp: at_time_def sample_running_def sample_job_def)
qed

end
