(* ===== verification/JobRecovery.thy ===== *)
theory JobRecovery
  imports JobOutcomes
begin

text \<open>
  Starting again after a crash: what \<open>markRunningJobsInterrupted\<close> of the job repository does to
  the jobs, their chunks and the lease.
\<close>

fun recovered_state :: "job_state \<Rightarrow> job_state" where
  "recovered_state s = (if s = Cancelling then Cancelled else Interrupted)"

definition job_view :: "job_tables \<Rightarrow> (string \<times> job_state) list" where
  "job_view d = map (\<lambda>j. (tj_id j, tj_state j)) (db_jobs d)"

definition finished_chunks :: "job_tables \<Rightarrow> job_chunk list" where
  "finished_chunks d = filter (\<lambda>c. jc_state c = ChunkCompleted) (db_chunks d)"

definition recovered_in :: "string set \<Rightarrow> job_tables \<Rightarrow> job_tables \<Rightarrow> bool" where
  "recovered_in X d0 d \<longleftrightarrow> db_lease d = db_lease d0 \<and> finished_chunks d = finished_chunks d0
     \<and> job_view d = map (\<lambda>(i, s). (i, if i \<in> X then recovered_state s else s)) (job_view d0)"

lemma filter_map_disjoint:
  "(\<And>x. Q x \<Longrightarrow> \<not> C x \<and> \<not> C (f x)) \<Longrightarrow> filter C (map (\<lambda>x. if Q x then f x else x) xs) = filter C xs"
  by (induction xs) auto

lemma finished_chunks_recovered [simp]: "finished_chunks (recovered_chunk b i d m) = finished_chunks d"
  unfolding finished_chunks_def recovered_chunk_def update_chunks_def
  by (auto intro: filter_map_disjoint)

lemma recovered_chunk_fields [simp]:
  "db_lease (recovered_chunk b i d m) = db_lease d" "job_view (recovered_chunk b i d m) = job_view d"
  by (simp_all add: recovered_chunk_def update_chunks_def job_view_def)

lemma recover_update:
  assumes "recovered_in X d0 d" "i \<notin> X" "\<forall>t. (i, t) \<in> set (job_view d0) \<longrightarrow> t = s"
    and "update_jobs (\<lambda>j. tj_id j = i \<and> tj_state j = s) f d = Some (n, d')"
    and "\<And>j. tj_id (f j) = tj_id j" "\<And>j. tj_state (f j) = recovered_state s"
  shows "recovered_in (insert i X) d0 d'"
proof -
  note f = update_jobs_fields[OF assms(4)]
  let ?h = "\<lambda>(k, t). (k, if k = i \<and> t = s then recovered_state s else t)"
  let ?g = "\<lambda>X (i, s). (i, if i \<in> X then recovered_state s else s)"
  have "job_view d' = map ?h (job_view d)" unfolding job_view_def f(1) using assms(5,6) by simp
  also have "\<dots> = map (?h \<circ> ?g X) (job_view d0)" using assms(1) by (simp add: recovered_in_def)
  also have "\<dots> = map (?g (insert i X)) (job_view d0)"
  proof (rule map_cong[OF refl])
    fix p assume p: "p \<in> set (job_view d0)"
    obtain k t where kt: "p = (k, t)" by fastforce
    have "k = i \<Longrightarrow> t = s" using p kt assms(3) by blast
    then show "(?h \<circ> ?g X) p = ?g (insert i X) p" using assms(2) by (simp add: kt)
  qed
  finally show ?thesis using assms(1) f(3,7) by (simp add: recovered_in_def finished_chunks_def)
qed

lemma recover_rows:
  assumes "recovered_in X d0 d" "i \<notin> X" "(i, s) \<in> set (job_view d0)"
  shows "filter (\<lambda>j. tj_id j = i \<and> tj_state j = s) (db_jobs d) \<noteq> []"
proof -
  have "(i, s) \<in> set (job_view d)" using assms by (force simp: recovered_in_def)
  then show ?thesis by (auto simp: job_view_def filter_empty_conv)
qed

lemma recover_loop:
  assumes "distinct (map fst rest)"
    "\<forall>(i, s) \<in> set rest. i \<notin> X \<and> (i, s) \<in> set (job_view d0) \<and> (\<forall>t. (i, t) \<in> set (job_view d0) \<longrightarrow> t = s)"
  shows "achieves (recovered_in X d0) (recover_jobs now reason rest n)
    (\<lambda>m d. recovered_in (X \<union> fst ` set rest) d0 d \<and> m = n + int (length rest))"
  using assms
proof (induction rest arbitrary: n X)
  case (Cons r rest)
  obtain i s where r: "r = (i, s)" by (cases r)
  have upd: "achieves (recovered_in X d0) (exec (if s = Cancelling
      then update_jobs (\<lambda>j. tj_id j = i \<and> tj_state j = Cancelling) (cancelled_job m)
      else update_jobs (\<lambda>j. tj_id j = i \<and> tj_state j = s) (interrupted_job now m)))
      (\<lambda>k d. recovered_in (insert i X) d0 d \<and> k \<noteq> 0)" for m
  proof (rule achieves_exec)
    fix d k d' assume d: "recovered_in X d0 d" and u: "(if s = Cancelling
      then update_jobs (\<lambda>j. tj_id j = i \<and> tj_state j = Cancelling) (cancelled_job m)
      else update_jobs (\<lambda>j. tj_id j = i \<and> tj_state j = s) (interrupted_job now m)) d = Some (k, d')"
    have rows: "filter (\<lambda>j. tj_id j = i \<and> tj_state j = s) (db_jobs d) \<noteq> []"
      using recover_rows[OF d, of i s] Cons.prems r by simp
    have k: "k = length (filter P (db_jobs d))" if "update_jobs P f d = Some (k, d')" for P f
      by (rule update_jobs_fields(8)[OF that])
    have i: "i \<notin> X" "\<forall>t. (i, t) \<in> set (job_view d0) \<longrightarrow> t = s" using Cons.prems(2) r by simp_all
    show "recovered_in (insert i X) d0 d' \<and> k \<noteq> 0"
    proof (cases "s = Cancelling")
      case True
      then have u: "update_jobs (\<lambda>j. tj_id j = i \<and> tj_state j = s) (cancelled_job m) d = Some (k, d')"
        using u by simp
      show ?thesis using k[OF u] rows True
        by (intro conjI recover_update[OF d i u]) (simp_all add: cancelled_job_def)
    next
      case False
      then have u: "update_jobs (\<lambda>j. tj_id j = i \<and> tj_state j = s) (interrupted_job now m) d = Some (k, d')"
        using u by simp
      show ?thesis using k[OF u] rows False
        by (intro conjI recover_update[OF d i u]) (simp_all add: interrupted_job_def)
    qed
  qed
  have chunks: "achieves (recovered_in Y d0) (modify (\<lambda>d. recovered_chunk b i d m)) (\<lambda>_. recovered_in Y d0)" for b m Y
    by (rule achieves_modify) (simp add: recovered_in_def)
  have event: "achieves (recovered_in Y d0) (insertEvent e) (\<lambda>_. recovered_in Y d0)" for e Y
    by (rule achieves_weaken[OF insertEvent_frame[where P = "recovered_in Y d0"]])
      (auto simp: recovered_in_def finished_chunks_def job_view_def)
  have "achieves (recovered_in (insert i X) d0) (recover_jobs now reason rest (n + 1))
      (\<lambda>m d. recovered_in (insert i X \<union> fst ` set rest) d0 d \<and> m = n + 1 + int (length rest))"
  proof (rule Cons.IH)
    show "distinct (map fst rest)" using Cons.prems(1) by simp
    have other: "fst q \<noteq> i" if "q \<in> set rest" for q using Cons.prems(1) r that by (metis distinct.simps(2)
        fst_conv image_eqI list.simps(9) set_map)
    show "\<forall>(a, b) \<in> set rest. a \<notin> insert i X \<and> (a, b) \<in> set (job_view d0)
        \<and> (\<forall>t. (a, t) \<in> set (job_view d0) \<longrightarrow> t = b)"
    proof (rule ballI, rule case_prodI2)
      fix q a b assume q: "q \<in> set rest" "q = (a, b)"
      then have "a \<noteq> i" using other by force
      moreover have "a \<notin> X \<and> (a, b) \<in> set (job_view d0) \<and> (\<forall>t. (a, t) \<in> set (job_view d0) \<longrightarrow> t = b)"
        using bspec[OF Cons.prems(2), of q] q by simp
      ultimately show "a \<notin> insert i X \<and> (a, b) \<in> set (job_view d0) \<and> (\<forall>t. (a, t) \<in> set (job_view d0) \<longrightarrow> t = b)"
        by blast
    qed
  qed
  then have tail: "achieves (recovered_in (insert i X) d0) (recover_jobs now reason rest (n + 1))
      (\<lambda>m d. recovered_in (X \<union> fst ` set ((i, s) # rest)) d0 d \<and> m = n + int (length ((i, s) # rest)))"
    by (simp add: insert_commute algebra_simps)
  show ?case unfolding r recover_jobs.simps Let_def
    by (intro achieves_and_then[OF upd] achieves_pure achieves_if achieves_and_then[OF chunks]
        achieves_and_then[OF event] tail) simp
qed (simp add: achieves_succeed)

text \<open>The job a valid lease protects at a time.\<close>

definition protected_job :: "int \<Rightarrow> job_tables \<Rightarrow> string option" where
  "protected_job now d =
     (case db_lease d of
        Some l \<Rightarrow> (case el_expiresAt l of Some t \<Rightarrow> if now < t then Some (el_jobId l) else None | None \<Rightarrow> None)
      | None \<Rightarrow> None)"

lemma findLease_checked:
  assumes "findLease c = (Inr x, c')"
  shows "x = db_lease (cn_db c) \<and> cn_db c' = cn_db c \<and> (\<forall>l. x = Some l \<longrightarrow> el_jobId l \<noteq> [])"
proof -
  obtain l c1 where l: "select db_lease c = (Inr l, c1)" and x: "(case l of None \<Rightarrow> succeed None
      | Some l \<Rightarrow> and_then (validateLeaseIdentity l) (\<lambda>_. and_then (validateLeaseTimestamps l) (\<lambda>_. succeed (Some l)))) c1
      = (Inr x, c')"
    using assms unfolding findLease_def findRawLease_def by auto
  show ?thesis
  proof (cases l)
    case None
    then show ?thesis using selectD[OF l] x by simp
  next
    case (Some k)
    then have "x = Some k" "validateLeaseIdentity k c1 = (Inr (), c')"
      using x by (auto simp: validateLeaseTimestamps_def split: if_splits)
    moreover from this(2) have "el_jobId k \<noteq> []" "cn_db c' = cn_db c1"
      by (auto simp: validateLeaseIdentity_def blank_def dest!: selectD split: if_splits)
    ultimately show ?thesis using selectD[OF l] Some by auto
  qed
qed

lemma job_view_unique:
  assumes "distinct (map tj_id (db_jobs d))" "(i, s) \<in> set (job_view d)" "(i, t) \<in> set (job_view d)"
  shows "t = s"
proof -
  have "distinct (map fst (job_view d))" using assms(1) by (simp add: job_view_def comp_def)
  then show ?thesis using assms(2,3) by (metis map_of_eq_Some_iff option.inject)
qed

text \<open>The jobs selected for recovery, and the body after that.\<close>

definition lost_jobs :: "string \<Rightarrow> job_tables \<Rightarrow> (string \<times> job_state) list" where
  "lost_jobs p d = map (\<lambda>j. (tj_id j, tj_state j)) (sort_key tj_id (filter (\<lambda>j.
     tj_state j \<in> set executing \<and> (p = [] \<or> tj_id j \<noteq> p)) (db_jobs d)))"

lemma lost_jobs_view:
  "mset (lost_jobs p d) = mset (filter (\<lambda>(i, s). isRunning s \<and> (p = [] \<or> i \<noteq> p)) (job_view d))"
  by (simp add: lost_jobs_def job_view_def filter_map comp_def executing_isRunning flip: mset_filter)

lemma release_unprotected:
  assumes "\<And>d d'. S d \<Longrightarrow> db_jobs d' = db_jobs d \<Longrightarrow> db_chunks d' = db_chunks d \<Longrightarrow> S d'"
  shows "achieves (\<lambda>d. S d \<and> db_lease d = l) (if l \<noteq> None \<and> b
      then and_then (exec (delete_lease (\<lambda>_. True))) (\<lambda>_. succeed ()) else succeed ())
    (\<lambda>_ d. S d \<and> db_lease d = (if b then None else l))"
proof -
  have clear: "achieves (\<lambda>d. S d \<and> db_lease d = l) (exec (delete_lease (\<lambda>_. True))) (\<lambda>_ d. S d \<and> db_lease d = None)"
  proof (rule achieves_exec)
    fix d k d' assume d: "S d \<and> db_lease d = l" and u: "delete_lease (\<lambda>_. True) d = Some (k, d')"
    have "db_jobs d' = db_jobs d" "db_chunks d' = db_chunks d" "db_lease d' = None"
      using u by (auto simp: delete_lease_def split: option.splits)
    then show "S d' \<and> db_lease d' = None" using d assms by blast
  qed
  show ?thesis by (intro achieves_if achieves_and_then[OF clear] achieves_succeed) auto
qed

lemma recover_body:
  assumes "distinct (map tj_id (db_jobs d0))"
  shows "achieves (\<lambda>d. d = d0) (and_then (select (lost_jobs p)) (\<lambda>recoverable.
      and_then (recover_jobs now reason recoverable 0) (\<lambda>affected.
      and_then (if db_lease d0 \<noteq> None \<and> p = []
                then and_then (exec (delete_lease (\<lambda>_. True))) (\<lambda>_. succeed ()) else succeed ()) (\<lambda>_.
      succeed affected))))
    (\<lambda>m d. job_view d = map (\<lambda>(i, s). (i, if isRunning s \<and> (p = [] \<or> i \<noteq> p) then recovered_state s else s)) (job_view d0)
       \<and> m = int (length (filter (\<lambda>(i, s). isRunning s \<and> (p = [] \<or> i \<noteq> p)) (job_view d0)))
       \<and> db_lease d = (if p = [] then None else db_lease d0) \<and> finished_chunks d = finished_chunks d0)"
proof -
  let ?L = "lost_jobs p d0"
  let ?lost = "\<lambda>(i, s). isRunning s \<and> (p = [] \<or> i \<noteq> p)"
  let ?g = "\<lambda>(i, s). (i, if isRunning s \<and> (p = [] \<or> i \<noteq> p) then recovered_state s else s)"
  let ?R = "recovered_in (fst ` set ?L) d0"
  have L: "set ?L = set (filter ?lost (job_view d0))" "length ?L = length (filter ?lost (job_view d0))"
    using lost_jobs_view[of p d0] mset_eq_setD mset_eq_length by blast+
  have "distinct (map tj_id (sort_key tj_id (filter Q (db_jobs d0))))" for Q
    using assms by (simp add: distinct_map inj_on_def)
  then have "distinct (map fst ?L)" by (simp add: lost_jobs_def comp_def)
  moreover have "\<forall>(i, s) \<in> set ?L. i \<notin> {} \<and> (i, s) \<in> set (job_view d0) \<and> (\<forall>t. (i, t) \<in> set (job_view d0) \<longrightarrow> t = s)"
    using L(1) job_view_unique[OF assms] by auto
  ultimately have loop: "achieves (recovered_in {} d0) (recover_jobs now reason ?L 0)
      (\<lambda>m d. ?R d \<and> m = int (length (filter ?lost (job_view d0))))"
    using recover_loop[of ?L "{}" d0 now reason 0] L(2) by simp
  have ids: "i \<in> fst ` set ?L \<longleftrightarrow> ?lost (i, s)" if "(i, s) \<in> set (job_view d0)" for i s
  proof -
    have "i \<in> fst ` set ?L \<longleftrightarrow> (\<exists>t. (i, t) \<in> set (job_view d0) \<and> ?lost (i, t))" unfolding L(1) by force
    then show ?thesis using that job_view_unique[OF assms that] by metis
  qed
  have "map (\<lambda>(i, s). (i, if i \<in> fst ` set ?L then recovered_state s else s)) (job_view d0) = map ?g (job_view d0)"
    by (rule map_cong[OF refl]) (use ids in auto)
  then have view: "?R d \<Longrightarrow> job_view d = map ?g (job_view d0)" for d by (simp add: recovered_in_def)
  have sel: "achieves (\<lambda>d. d = d0) (select (lost_jobs p)) (\<lambda>x d. recovered_in {} d0 d \<and> x = ?L)"
    by (rule achieves_select) (simp add: recovered_in_def)
  let ?S = "\<lambda>d. job_view d = map ?g (job_view d0) \<and> finished_chunks d = finished_chunks d0"
  let ?Q = "\<lambda>d. ?S d \<and> db_lease d = (if p = [] then None else db_lease d0)"
  have frame: "?S d'" if "?S d" "db_jobs d' = db_jobs d" "db_chunks d' = db_chunks d" for d d'
    using that by (simp add: job_view_def finished_chunks_def)
  note keep = release_unprotected[where S = ?S and l = "db_lease d0" and b = "p = []", OF frame]
  have fin: "achieves ?R (if db_lease d0 \<noteq> None \<and> p = []
        then and_then (exec (delete_lease (\<lambda>_. True))) (\<lambda>_. succeed ()) else succeed ()) (\<lambda>_. ?Q)"
  proof (rule achieves_weaken[OF keep])
    fix d assume R: "?R d"
    then have "db_lease d = db_lease d0 \<and> finished_chunks d = finished_chunks d0" unfolding recovered_in_def by blast
    then show "?S d \<and> db_lease d = db_lease d0" using view[OF R] by blast
  qed
  show ?thesis
  proof (rule achieves_and_then[OF sel], rule achieves_pure)
    fix x assume x: "x = ?L"
    have loop: "achieves (recovered_in {} d0) (recover_jobs now reason x 0)
      (\<lambda>m d. ?R d \<and> m = int (length (filter ?lost (job_view d0))))" unfolding x by (rule loop)
    show "achieves (recovered_in {} d0) (and_then (recover_jobs now reason x 0) (\<lambda>affected.
        and_then (if db_lease d0 \<noteq> None \<and> p = []
          then and_then (exec (delete_lease (\<lambda>_. True))) (\<lambda>_. succeed ()) else succeed ()) (\<lambda>_. succeed affected)))
      (\<lambda>m d. job_view d = map ?g (job_view d0) \<and> m = int (length (filter ?lost (job_view d0)))
         \<and> db_lease d = (if p = [] then None else db_lease d0) \<and> finished_chunks d = finished_chunks d0)"
      by (rule achieves_and_then[OF loop], rule achieves_pure, rule achieves_and_then[OF fin],
          rule achieves_succeed) blast
  qed
qed

text \<open>
  C4: Recovery after a crash. A successful recovery takes exactly the jobs out of execution
  that no unexpired lease protects: those being cancelled become cancelled, the others
  interrupted, and every other job keeps its state. It reports how many they were, removes a
  lease that protects nothing, and loses no completed chunk.
\<close>

theorem crash_recovery:
  assumes "db_ok (cn_db c)" and "markRunningJobsInterrupted reason c = (Inr n, c')"
    and "lost = (\<lambda>(i, s). isRunning s \<and> protected_job (cn_time c) (cn_db c) \<noteq> Some i)"
  shows "job_view (cn_db c') = map (\<lambda>(i, s). (i, if lost (i, s) then recovered_state s else s)) (job_view (cn_db c))
    \<and> n = int (length (filter lost (job_view (cn_db c))))
    \<and> db_lease (cn_db c') = (if protected_job (cn_time c) (cn_db c) = None then None else db_lease (cn_db c))
    \<and> finished_chunks (cn_db c') = finished_chunks (cn_db c)"
proof -
  obtain c1 c2 where c: "cn_db c1 = cn_db c" "cn_time c1 = cn_time c" "cn_db c' = cn_db c2" and
    op: "and_then clock (\<lambda>now. and_then findLease (\<lambda>lease.
       let protectedJobId = (case lease of
             Some l \<Rightarrow> (case el_expiresAt l of Some t \<Rightarrow> if now < t then el_jobId l else [] | None \<Rightarrow> [])
           | None \<Rightarrow> []) in
       and_then (select (lost_jobs protectedJobId)) (\<lambda>recoverable.
       and_then (recover_jobs now
           (if blank reason then ''The previous transcription worker stopped unexpectedly.'' else reason)
           recoverable 0) (\<lambda>affected.
       and_then (if lease \<noteq> None \<and> protectedJobId = []
                 then and_then (exec (delete_lease (\<lambda>_. True))) (\<lambda>_. succeed ()) else succeed ()) (\<lambda>_.
       succeed affected))))) c1 = (Inr n, c2)"
      (is "and_then clock (\<lambda>now. and_then findLease (?rest now)) c1 = _")
    using assms(2) unfolding markRunningJobsInterrupted_def lost_jobs_def[abs_def] by (rule transaction_success)
  define p where "p = (case db_lease (cn_db c) of
      Some l \<Rightarrow> (case el_expiresAt l of Some t \<Rightarrow> if cn_time c < t then el_jobId l else [] | None \<Rightarrow> [])
    | None \<Rightarrow> [])"
  obtain now c3 where clk: "clock c1 = (Inr now, c3)" and op3: "and_then findLease (\<lambda>lease. ?rest now lease) c3 = (Inr n, c2)"
    by (rule and_then_elim[OF op])
  have now: "now = cn_time c" "cn_db c3 = cn_db c" using clockD[OF clk] c by simp_all
  obtain lease c4 where l: "findLease c3 = (Inr lease, c4)" and body: "?rest (cn_time c) lease c4 = (Inr n, c2)"
    by (rule and_then_elim[OF op3[unfolded now(1)]])
  note lease = findLease_checked[OF l]
  have start: "cn_db c4 = cn_db c" "lease = db_lease (cn_db c)" using lease now(2) by simp_all
  have p: "p = [] \<longleftrightarrow> protected_job (cn_time c) (cn_db c) = None" "p \<noteq> [] \<Longrightarrow> protected_job (cn_time c) (cn_db c) = Some p"
    using lease start(2) unfolding p_def protected_job_def by (auto split: option.splits)
  have "distinct (map tj_id (db_jobs (cn_db c)))" using assms(1) by (simp add: db_ok_def base_ok_def keys_ok_def)
  note out = achievesD[OF recover_body[OF this] body[unfolded start(2) Let_def, folded p_def] start(1)]
  have lost: "lost = (\<lambda>(i, s). isRunning s \<and> (p = [] \<or> i \<noteq> p))"
    unfolding assms(3) using p by (cases "p = []") auto
  show ?thesis using out p(1) unfolding lost c(3) by simp
qed

lemma sample_recovery: "\<exists>c'. markRunningJobsInterrupted [] (at_time 20 sample_running) = (Inr 1, c')"
  by (simp add: markRunningJobsInterrupted_def findLease_def findRawLease_def validateLeaseIdentity_def
    validateLeaseTimestamps_def evaluation at_time_def sample_running_def sample_tables_def sample_job_def
    blank_def white_char_def executing_def update_jobs_def single_execution_def job_row_ok_def
    interrupted_job_def recovered_chunk_def update_chunks_def insertEvent_def insert_event_row_def
    stored_event_def recovery_event_def new_event_def delete_lease_def Let_def)

lemma crash_recovery_witness:
  "\<exists>c'. markRunningJobsInterrupted [] (at_time 20 sample_running) = (Inr 1, c')
     \<and> job_view (cn_db c') = [(''j'', Interrupted)] \<and> db_lease (cn_db c') = None"
proof -
  obtain c' where c: "markRunningJobsInterrupted [] (at_time 20 sample_running) = (Inr 1, c')"
    using sample_recovery by blast
  have "db_ok (cn_db (at_time 20 sample_running))"
    by (simp add: at_time_def db_ok_def sample_running_base lease_ok_but_def job_executing_def)
      (simp add: sample_running_def sample_job_def executing_def)
  from crash_recovery[OF this c refl] show ?thesis using c
    by (simp add: job_view_def protected_job_def at_time_def sample_running_def sample_job_def)
qed

end
