(* ===== verification/JobQueue.thy ===== *)
theory JobQueue
  imports JobRecovery
begin

text \<open>
  \<^verbatim>\<open>jobs/JobQueue.cpp\<close> and \<^verbatim>\<open>jobs/JobRecoveryService.cpp\<close>: the commands of the user, written
  against the interface \<^verbatim>\<open>jobs/IJobRepository.h\<close>. The interface is a record of operations, its
  contract the locale \<open>job_repository\<close>: what the commands rely on, and what then holds of them.
  The interpretation shows that the repository over SQLite keeps the contract.
\<close>

record 'd repository_ops =
  rp_createQueued :: "transcription_job \<Rightarrow> ('d, transcription_job) dbop"
  rp_findById :: "string \<Rightarrow> ('d, transcription_job option) dbop"
  rp_transition :: "string \<Rightarrow> job_state \<Rightarrow> string \<Rightarrow> string \<Rightarrow> string \<Rightarrow> ('d, unit) dbop"
  rp_reorder :: "string list \<Rightarrow> ('d, unit) dbop"
  rp_markRunningJobsInterrupted :: "string \<Rightarrow> ('d, int) dbop"
  rp_deleteTerminalJob :: "string \<Rightarrow> ('d, unit) dbop"
  rp_clearCompleted :: "('d, nat) dbop"

subsection \<open>The commands\<close>

definition enqueue :: "'d repository_ops \<Rightarrow> string \<Rightarrow> transcription_job \<Rightarrow> ('d, string) dbop" where
  "enqueue repo uuid job =
     (let job1 = (if tj_id job = [] then job\<lparr>tj_id := uuid\<rparr> else job) in
      and_then (rp_createQueued repo (job1\<lparr>tj_state := Queued, tj_stage := StagePreparing, tj_progress := 0\<rparr>))
        (\<lambda>created. succeed (tj_id created)))"

definition cancel :: "'d repository_ops \<Rightarrow> string \<Rightarrow> ('d, unit) dbop" where
  "cancel repo jobId =
     and_then (rp_findById repo jobId) (\<lambda>result.
     case result of
       None \<Rightarrow> validation NotFound
     | Some job \<Rightarrow>
         if tj_state job = Queued \<or> tj_state job = Interrupted
         then rp_transition repo jobId Cancelled ''JobCancelled'' ''Cancelled by the user.'' []
         else if isRunning (tj_state job) then rp_transition repo jobId Cancelling [] [] []
         else validation InvalidStateTransition)"

definition retry :: "'d repository_ops \<Rightarrow> string \<Rightarrow> ('d, string) dbop" where
  "retry repo jobId =
     and_then (rp_findById repo jobId) (\<lambda>result.
     case result of
       None \<Rightarrow> validation NotFound
     | Some job \<Rightarrow>
         if tj_state job \<noteq> Failed \<and> tj_state job \<noteq> Cancelled then validation InvalidStateTransition
         else and_then (rp_transition repo jobId Queued [] [] []) (\<lambda>_. succeed jobId))"

definition resume :: "'d repository_ops \<Rightarrow> string \<Rightarrow> ('d, unit) dbop" where
  "resume repo jobId =
     and_then (rp_findById repo jobId) (\<lambda>result.
     case result of
       None \<Rightarrow> validation InvalidStateTransition
     | Some job \<Rightarrow>
         if tj_state job \<noteq> Interrupted then validation InvalidStateTransition
         else rp_transition repo jobId Queued [] [] [])"

definition reorder_queue :: "'d repository_ops \<Rightarrow> string list \<Rightarrow> ('d, unit) dbop" where
  "reorder_queue repo orderedJobIds = rp_reorder repo orderedJobIds"

definition remove_job :: "'d repository_ops \<Rightarrow> string \<Rightarrow> ('d, unit) dbop" where
  "remove_job repo jobId = rp_deleteTerminalJob repo jobId"

definition clear_completed :: "'d repository_ops \<Rightarrow> ('d, nat) dbop" where
  "clear_completed repo = rp_clearCompleted repo"

text \<open>\<open>JobRecoveryService\<close>; the product name comes from the build.\<close>

definition recoverAfterAbnormalShutdown :: "string \<Rightarrow> 'd repository_ops \<Rightarrow> ('d, int) dbop" where
  "recoverAfterAbnormalShutdown productName repo =
     rp_markRunningJobsInterrupted repo (productName @
       '' stopped before the transcription job finished. Completed chunks were preserved.'')"

definition sqlite_repository :: "string \<Rightarrow> job_tables repository_ops" where
  "sqlite_repository uuid =
     \<lparr>rp_createQueued = createQueued uuid, rp_findById = findById, rp_transition = transition,
      rp_reorder = reorder, rp_markRunningJobsInterrupted = markRunningJobsInterrupted,
      rp_deleteTerminalJob = deleteTerminalJob, rp_clearCompleted = clearCompleted\<rparr>"

subsection \<open>The contract\<close>

text \<open>What a command does to a job in a given state: an error, or the new state.\<close>

datatype user_command = Cancel | Retry | Resume

fun command_target :: "user_command \<Rightarrow> job_state option \<Rightarrow> error_code + job_state" where
  "command_target Cancel None = Inl NotFound"
| "command_target Cancel (Some s) =
     (if s = Queued \<or> s = Interrupted then Inr Cancelled
      else if isRunning s then Inr Cancelling else Inl InvalidStateTransition)"
| "command_target Retry None = Inl NotFound"
| "command_target Retry (Some s) = (if s = Failed \<or> s = Cancelled then Inr Queued else Inl InvalidStateTransition)"
| "command_target Resume None = Inl InvalidStateTransition"
| "command_target Resume (Some s) = (if s = Interrupted then Inr Queued else Inl InvalidStateTransition)"

fun run_command :: "'d repository_ops \<Rightarrow> user_command \<Rightarrow> string \<Rightarrow> ('d, unit) dbop" where
  "run_command repo Cancel i = cancel repo i"
| "run_command repo Retry i = and_then (retry repo i) (\<lambda>_. succeed ())"
| "run_command repo Resume i = resume repo i"

lemma validation_and_then [simp]: "and_then (validation e) f = validation e"
  by (intro ext) (simp add: and_then_def validation_def fail_def)

locale job_repository =
  fixes repo :: "'d repository_ops" and states :: "'d \<Rightarrow> string \<Rightarrow> job_state option" and ok :: "'d \<Rightarrow> bool"
  assumes finds: "delivers (\<lambda>d. d = d0) (rp_findById repo i) (\<lambda>x d. map_option tj_state x = states d0 i \<and> d = d0)"
    and moves: "ok d0 \<Longrightarrow> i \<noteq> [] \<Longrightarrow> states d0 i = Some s \<Longrightarrow> unleased_transition_allowed s t
      \<Longrightarrow> delivers (\<lambda>d. d = d0) (rp_transition repo i t code msg []) (\<lambda>_ d. states d = (states d0)(i \<mapsto> t))"
    and find_reads: "reads_only (rp_findById repo i)"
    and move_atomic: "atomic (rp_transition repo i t code msg ow)"
begin

lemma on_found:
  assumes "states d0 i = Some s" "\<And>j. tj_state j = s \<Longrightarrow> delivers (\<lambda>d. d = d0) (f (Some j)) Q"
  shows "delivers (\<lambda>d. d = d0) (and_then (rp_findById repo i) f) Q"
proof (rule delivers_and_then[OF finds])
  fix x show "delivers (\<lambda>d. map_option tj_state x = states d0 i \<and> d = d0) (f x) Q"
    using assms(2) by (cases x) (auto simp: delivers_def assms(1))
qed

lemma command_delivers:
  assumes "ok d0" "i \<noteq> []" "command_target cmd (states d0 i) = Inr t"
  shows "delivers (\<lambda>d. d = d0) (run_command repo cmd i) (\<lambda>_ d. states d = (states d0)(i \<mapsto> t))"
proof -
  obtain s where s: "states d0 i = Some s" using assms(3) by (cases "states d0 i"; cases cmd) simp_all
  have move: "delivers (\<lambda>d. d = d0) (rp_transition repo i t code msg []) (\<lambda>_ d. states d = (states d0)(i \<mapsto> t))" for code msg
    using assms(3) s by (intro moves[OF assms(1,2) s])
      (cases cmd; auto simp: unleased_transition_allowed_def split: if_splits)
  show ?thesis
  proof (cases cmd)
    case Cancel
    then show ?thesis using assms(3) s unfolding Cancel run_command.simps cancel_def
      by (intro on_found[OF s]) (use move in \<open>auto split: if_splits\<close>)
  next
    case Retry
    have "delivers (\<lambda>d. d = d0) (and_then (rp_transition repo i t [] [] []) (\<lambda>_. succeed i))
        (\<lambda>_ d. states d = (states d0)(i \<mapsto> t))"
      by (rule delivers_and_then[OF move delivers_succeed])
    then show ?thesis using assms(3) s unfolding Retry run_command.simps retry_def
      by (intro delivers_and_then[OF on_found[OF s, where Q = "\<lambda>_ d. states d = (states d0)(i \<mapsto> t)"]] delivers_succeed)
        (auto split: if_splits)
  next
    case Resume
    then show ?thesis using assms(3) s unfolding Resume run_command.simps resume_def
      by (intro on_found[OF s]) (use move in \<open>auto split: if_splits\<close>)
  qed
qed

lemma command_refused:
  assumes "command_target cmd (states (cn_db c) i) = Inl e" "cn_faults c = []"
  shows "\<exists>c'. run_command repo cmd i c = (Inl (validation_error e), c') \<and> cn_db c' = cn_db c"
proof -
  obtain x c' where x: "rp_findById repo i c = (Inr x, c')" "states (cn_db c) i = map_option tj_state x"
    "cn_db c' = cn_db c"
    using deliversD[OF finds assms(2) refl] by metis
  then show ?thesis using assms(1)
    by (cases cmd; cases x)
      (auto simp: cancel_def retry_def resume_def and_then_def validation_def fail_def split: if_splits)
qed

lemma command_atomic: "atomic (run_command repo cmd i)"
  by (cases cmd)
    (auto simp: cancel_def retry_def resume_def validation_def
      intro!: atomic_then_succeed atomic_and_then[OF find_reads] atomic_if atomic_fail move_atomic
      split: option.split)

end

subsection \<open>The repository keeps the contract\<close>

definition job_states :: "job_tables \<Rightarrow> string \<Rightarrow> job_state option" where
  "job_states d i = map_option tj_state (find_job i d)"

lemma job_states_frame [simp]:
  "job_states (d\<lparr>db_events := es, db_nextEventId := n\<rparr>) = job_states d"
  "job_states (d\<lparr>db_lease := l\<rparr>) = job_states d"
  by (simp_all add: job_states_def find_job_def fun_eq_iff)

lemma find_job_map:
  assumes "\<And>j. tj_id (g j) = tj_id j"
  shows "find (\<lambda>j. tj_id j = i) (map g js) = map_option g (find (\<lambda>j. tj_id j = i) js)"
  by (induction js) (simp_all add: assms)

lemma updated_job_states:
  assumes "update_jobs (\<lambda>j. tj_id j = i \<and> tj_state j = s) f d = Some (n, d')" "keeps_identity f"
    and "find_job i d = Some j" "tj_state j = s" "\<And>j. tj_state (f j) = t"
  shows "job_states d' = (job_states d)(i \<mapsto> t)"
proof (rule ext)
  fix k
  let ?g = "\<lambda>j. if tj_id j = i \<and> tj_state j = s then f j else j"
  have "find_job k d' = map_option ?g (find_job k d)"
    unfolding find_job_def update_jobs_fields(1)[OF assms(1)]
    by (rule find_job_map) (use assms(2) in \<open>simp add: keeps_identity_def\<close>)
  moreover have "tj_id j = k" if "find_job k d = Some j" for j
    using that unfolding find_job_def by (auto dest: find_SomeD)
  ultimately show "job_states d' k = ((job_states d)(i \<mapsto> t)) k"
    using assms(3-5) by (cases "find_job k d") (auto simp: job_states_def)
qed

lemma filter_map_shorter: "(\<And>x. x \<in> set xs \<Longrightarrow> C (g x) \<Longrightarrow> C x) \<Longrightarrow> length (filter C (map g xs)) \<le> length (filter C xs)"
  by (induction xs) (auto intro: le_SucI)

lemma update_total:
  assumes "base_ok d" "find_job i d = Some j" "tj_state j = s" "keeps_identity f"
    and "\<And>j. tj_state (f j) \<in> set executing \<Longrightarrow> s \<in> set executing"
    and "\<And>j. 0 \<le> tj_progress j \<and> tj_progress j \<le> 1 \<Longrightarrow> 0 \<le> tj_progress (f j) \<and> tj_progress (f j) \<le> 1"
  shows "\<exists>n d'. update_jobs (\<lambda>j. tj_id j = i \<and> tj_state j = s) f d = Some (n, d') \<and> n \<noteq> 0"
proof -
  let ?g = "\<lambda>j. if tj_id j = i \<and> tj_state j = s then f j else j"
  have "length (filter (\<lambda>j. tj_state j \<in> set executing) (map ?g (db_jobs d)))
      \<le> length (filter (\<lambda>j. tj_state j \<in> set executing) (db_jobs d))"
    by (rule filter_map_shorter) (use assms(5) in \<open>auto split: if_splits\<close>)
  then have "single_execution (map ?g (db_jobs d))"
    using assms(1) by (simp add: base_ok_def single_execution_def)
  moreover have "list_all (job_row_ok d) (map ?g (db_jobs d))"
    using assms(1,4,6) by (auto simp: base_ok_def keys_ok_def list_all_iff job_row_ok_def keeps_identity_def)
  moreover have "filter (\<lambda>j. tj_id j = i \<and> tj_state j = s) (db_jobs d) \<noteq> []"
    using assms(2,3) unfolding find_job_def by (auto dest: find_SomeD simp: filter_empty_conv)
  ultimately show ?thesis by (simp add: update_jobs_def Let_def)
qed

lemma insertEvent_total:
  assumes "\<And>d es n. P d \<Longrightarrow> P (d\<lparr>db_events := es, db_nextEventId := n\<rparr>)" "\<And>d. P d \<Longrightarrow> je_jobId e \<in> job_ids d"
    and "je_jobId e \<noteq> []" "\<not> blank (je_eventType e)"
  shows "delivers P (insertEvent e) (\<lambda>_. P)"
proof -
  have stamp: "delivers P (if je_createdAt e = None then and_then clock (\<lambda>now. succeed (e\<lparr>je_createdAt := Some now\<rparr>))
      else succeed e) (\<lambda>x d. P d \<and> je_jobId x = je_jobId e)"
    by (intro delivers_if delivers_and_then[OF delivers_basic(1)] delivers_succeed) simp_all
  have store: "delivers (\<lambda>d. P d \<and> je_jobId x = je_jobId e) (exec (insert_event_row (stored_event x))) (\<lambda>_. P)" for x
    using assms(1,2) by (intro delivers_exec) (auto simp: insert_event_row_def stored_event_def job_ids_def)
  show ?thesis unfolding insertEvent_def
    by (rule delivers_if, use assms(3,4) in simp)
      (intro delivers_and_then[OF stamp] delivers_and_then[OF store] delivers_succeed)
qed

lemma transition_event_fields [simp]:
  "\<not> blank (transition_event_type s t)"
  "je_eventType (transition_event j t code msg) = transition_event_type (tj_state j) t"
  by (cases t; simp add: transition_event_type_def blank_def white_char_def isTerminal_def)
    (simp add: transition_event_def new_event_def)

lemma transition_row_progress:
  "0 \<le> tj_progress j \<and> tj_progress j \<le> 1 \<Longrightarrow>
   0 \<le> tj_progress (transition_row t code msg now p j) \<and> tj_progress (transition_row t code msg now p j) \<le> 1"
  by (simp add: transition_row_def Let_def)

lemma transition_delivers:
  assumes "base_ok d0" "i \<noteq> []" "job_states d0 i = Some s" "unleased_transition_allowed s t"
  shows "delivers (\<lambda>d. d = d0) (transition i t code msg []) (\<lambda>_ d. job_states d = (job_states d0)(i \<mapsto> t))"
proof -
  obtain j where j: "find_job i d0 = Some j" "tj_state j = s" using assms(3) by (auto simp: job_states_def)
  let ?done = "\<lambda>d. job_states d = (job_states d0)(i \<mapsto> t) \<and> i \<in> job_ids d"
  have legal: "canTransition s t" "s \<notin> set executing \<Longrightarrow> t \<notin> set executing"
    using assms(4) by (auto simp: unleased_transition_allowed_def canTransition_def executing_isRunning)
      (cases s; simp)
  have row: "keeps_identity (transition_row t code msg now p)" for now p by (rule keeps_identityI) simp_all
  have update: "delivers (\<lambda>d. d = d0) (exec (update_jobs (\<lambda>j. tj_id j = i \<and> tj_state j = s)
      (transition_row t code msg now p))) (\<lambda>n d. ?done d \<and> n \<noteq> 0)" for now p
  proof (rule delivers_exec)
    fix d assume d: "d = d0"
    have "\<exists>n d'. update_jobs (\<lambda>j. tj_id j = i \<and> tj_state j = s) (transition_row t code msg now p) d0
        = Some (n, d') \<and> n \<noteq> 0"
    proof (rule update_total[OF assms(1) j row])
      show "s \<in> set executing" if "tj_state (transition_row t code msg now p k) \<in> set executing" for k
        using that legal(2) unfolding transition_row_fields by blast
    qed (rule transition_row_progress)
    then obtain n d' where u: "update_jobs (\<lambda>j. tj_id j = i \<and> tj_state j = s) (transition_row t code msg now p) d0
        = Some (n, d')" "n \<noteq> 0" by blast
    moreover have "job_states d' = (job_states d0)(i \<mapsto> t)" by (rule updated_job_states[OF u(1) row j]) simp
    moreover have "i \<in> job_ids d'"
    proof -
      have "j \<in> set (db_jobs d0) \<and> tj_id j = i" using find_SomeD[OF j(1)[unfolded find_job_def]] .
      then have "i \<in> set (map tj_id (db_jobs d0))" by auto
      then show ?thesis unfolding update_jobs_ids[OF u(1) row, symmetric] by (simp add: job_ids_def)
    qed
    ultimately show "\<exists>n d'. update_jobs (\<lambda>j. tj_id j = i \<and> tj_state j = s) (transition_row t code msg now p) d
        = Some (n, d') \<and> ?done d' \<and> n \<noteq> 0" using d by blast
  qed
  have event: "delivers ?done (insertEvent ((transition_event j t code msg)\<lparr>je_jobId := i\<rparr>)) (\<lambda>_. ?done)"
    by (rule insertEvent_total) (simp_all add: job_ids_def assms(2))
  have release: "delivers ?done (exec (delete_lease P)) (\<lambda>_. ?done)" for P
    by (rule delivers_exec)
      (auto simp: delete_lease_def job_ids_def split: option.split)
  have same: "(job_states d0)(i \<mapsto> t) = job_states d0" if "s = t" using assms(3) that by auto
  have position: "delivers (\<lambda>d. d = d0) (if t = Queued then select queue_end else succeed 0) (\<lambda>_ d. d = d0)"
    by (intro delivers_if delivers_select delivers_succeed)
  have found: "delivers (\<lambda>d. d = d0) (findJob i) (\<lambda>x d. d = d0 \<and> x = Some j)"
    unfolding findJob_def by (rule delivers_select) (simp add: j)
  have body: "delivers (\<lambda>d. d = d0) (transition_body i t code msg []) (\<lambda>_ d. job_states d = (job_states d0)(i \<mapsto> t))"
    unfolding transition_body_def
  proof (rule delivers_and_then[OF found], rule delivers_pure, goal_cases)
    case (1 x)
    have "validateTransition s t = Inr ()" using legal(1) by (simp add: validateTransition_def)
    moreover have "delivers (\<lambda>d. d = d0) (succeed ()) (\<lambda>_ d. job_states d = (job_states d0)(i \<mapsto> t))" if "s = t"
      by (rule delivers_succeed) (simp add: same[OF that])
    moreover have "delivers (\<lambda>d. d = d0) (and_then clock (\<lambda>now.
        and_then (if t = Queued then select queue_end else succeed 0) (\<lambda>position.
        and_then (exec (update_jobs (\<lambda>j. tj_id j = i \<and> tj_state j = s) (transition_row t code msg now position))) (\<lambda>rows.
        if rows = 0 then validation InvalidStateTransition
        else and_then (insertEvent ((transition_event j t code msg)\<lparr>je_jobId := i\<rparr>)) (\<lambda>_.
          if isTerminal t \<or> t = Interrupted
          then and_then (exec (delete_lease (\<lambda>l. el_jobId l = i \<and> ([] = [] \<or> el_ownerToken l = [])))) (\<lambda>_. succeed ())
          else succeed ())))))
        (\<lambda>_ d. job_states d = (job_states d0)(i \<mapsto> t))"
      by (intro delivers_and_then[OF delivers_basic(1)] delivers_and_then[OF position] delivers_and_then[OF update]
          delivers_pure delivers_if delivers_and_then[OF event] delivers_and_then[OF release] delivers_succeed) simp_all
    ultimately show ?case unfolding 1 option.case j(2) using assms(4)
      by (cases "s = t") (simp_all del: validateTransition_ok split del: if_split)
  qed
  show ?thesis using body assms(2) unfolding transition_def executionWrite_def
    by (simp add: delivers_transaction)
qed

interpretation sqlite: job_repository "sqlite_repository uuid" job_states base_ok
proof
  show "delivers (\<lambda>d. d = d0) (rp_findById (sqlite_repository uuid) i)
      (\<lambda>x d. map_option tj_state x = job_states d0 i \<and> d = d0)" for d0 i
    by (simp add: sqlite_repository_def findById_def)
      (intro delivers_and_then[OF delivers_basic(3)] delivers_select, simp add: job_states_def)
  show "delivers (\<lambda>d. d = d0) (rp_transition (sqlite_repository uuid) i t code msg [])
      (\<lambda>_ d. job_states d = (job_states d0)(i \<mapsto> t))"
    if "base_ok d0" "i \<noteq> []" "job_states d0 i = Some s" "unleased_transition_allowed s t" for d0 i s t code msg
    using transition_delivers[OF that] by (simp add: sqlite_repository_def)
  show "reads_only (rp_findById (sqlite_repository uuid) i)" for i
    by (simp add: sqlite_repository_def findById_def atomics)
  show "atomic (rp_transition (sqlite_repository uuid) i t code msg ow)" for i t code msg ow
    by (simp add: sqlite_repository_def transition_def atomics)
qed

subsection \<open>Properties\<close>

text \<open>
  C23: The user's commands do what they promise. While no statement fails for an outside reason,
  cancelling, retrying and resuming a job either succeed, take exactly that job to the state the
  command stands for and leave the state of every other job alone, or report the error that
  belongs to the job's state and change nothing.
\<close>

theorem queue_commands_exact:
  assumes "cn_faults c = []" and "db_ok (cn_db c)" and "i \<noteq> []"
  shows "case command_target cmd (job_states (cn_db c) i) of
      Inr t \<Rightarrow> \<exists>c'. run_command (sqlite_repository uuid) cmd i c = (Inr (), c')
        \<and> job_states (cn_db c') = (job_states (cn_db c))(i \<mapsto> t)
    | Inl e \<Rightarrow> \<exists>c'. run_command (sqlite_repository uuid) cmd i c = (Inl (validation_error e), c')
        \<and> cn_db c' = cn_db c"
proof (cases "command_target cmd (job_states (cn_db c) i)")
  case (Inl e)
  then show ?thesis using sqlite.command_refused[OF Inl assms(1)] by simp
next
  case (Inr t)
  have "base_ok (cn_db c)" using assms(2) by (simp add: db_ok_def)
  from sqlite.command_delivers[OF this assms(3) Inr, of uuid] obtain c' where
    "run_command (sqlite_repository uuid) cmd i c = (Inr (), c')"
    "job_states (cn_db c') = (job_states (cn_db c))(i \<mapsto> t)"
    by (auto elim: deliversD[OF _ assms(1) refl])
  then show ?thesis using Inr by simp
qed

lemma queue_commands_exact_witness:
  "\<exists>c'. run_command (sqlite_repository ''u'') Cancel ''j'' (at_time 5 sample_running) = (Inr (), c')
     \<and> job_states (cn_db c') ''j'' = Some Cancelling"
proof -
  have "db_ok (cn_db (at_time 5 sample_running))"
    by (simp add: at_time_def db_ok_def sample_running_base lease_ok_but_def job_executing_def)
      (simp add: sample_running_def sample_job_def executing_def)
  moreover have "job_states (cn_db (at_time 5 sample_running)) ''j'' = Some Preparing"
    by (simp add: at_time_def sample_running_def sample_job_def job_states_def find_job_def)
  moreover have "cn_faults (at_time 5 sample_running) = []" by (simp add: at_time_def)
  ultimately show ?thesis
    using queue_commands_exact[where i = "''j''" and cmd = Cancel and uuid = "''u''" and c = "at_time 5 sample_running"]
    by fastforce
qed

text \<open>
  A command that fails, whichever statement failed, has changed nothing.
\<close>

theorem failed_command_changes_nothing:
  assumes "run_command (sqlite_repository uuid) cmd i c = (Inl e, c')"
  shows "cn_db c' = cn_db c"
  using assms sqlite.command_atomic unfolding atomic_def by blast

lemma failed_command_changes_nothing_witness:
  "cn_db (snd (run_command (sqlite_repository ''u'') Resume ''j'' (at_time 5 sample_running))) = sample_running"
proof -
  have "run_command (sqlite_repository ''u'') Resume ''j'' (at_time 5 sample_running)
      = (Inl (validation_error InvalidStateTransition), at_time 5 sample_running)"
    by (simp add: resume_def sqlite_repository_def findById_def evaluation at_time_def sample_running_def
      sample_job_def find_job_def)
  from failed_command_changes_nothing[OF this] show ?thesis
    using \<open>run_command _ _ _ _ = _\<close> by (simp add: at_time_def)
qed

subsection \<open>Enqueueing\<close>

lemma foldl_max: "q \<in> set (p # ps) \<Longrightarrow> (q::int) \<le> foldl max p ps"
proof (induction ps arbitrary: p q)
  case (Cons x ps)
  have "max p x \<le> foldl max (max p x) ps" by (rule Cons.IH) simp
  moreover have "q \<le> foldl max (max p x) ps" if "q \<in> set ps" by (rule Cons.IH) (simp add: that)
  ultimately show ?case using Cons.prems by auto
qed simp

lemma queue_end_after:
  assumes "j \<in> set (db_jobs d)" "tj_state j = Queued"
  shows "tj_queuePosition j < queue_end d"
proof -
  have j: "tj_queuePosition j \<in> set (map tj_queuePosition (filter (\<lambda>j. tj_state j = Queued) (db_jobs d)))"
    using assms by simp
  then obtain p ps where ps: "map tj_queuePosition (filter (\<lambda>j. tj_state j = Queued) (db_jobs d)) = p # ps"
    by (cases "map tj_queuePosition (filter (\<lambda>j. tj_state j = Queued) (db_jobs d))") (metis empty_iff empty_set)
  show ?thesis using foldl_max[OF j[unfolded ps]] by (simp add: queue_end_def ps)
qed

definition accepts :: "transcription_job \<Rightarrow> job_tables \<Rightarrow> bool" where
  "accepts job d \<longleftrightarrow> tj_recordingId job \<noteq> [] \<and> tj_recordingId job \<in> rr_id ` set (db_recordings d)
     \<and> tj_id job \<noteq> [] \<and> tj_id job \<notin> tj_id ` set (db_jobs d)"

definition enqueued :: "transcription_job \<Rightarrow> job_tables \<Rightarrow> job_tables \<Rightarrow> bool" where
  "enqueued job d0 d \<longleftrightarrow> (\<exists>j. db_jobs d = db_jobs d0 @ [j] \<and> tj_id j = tj_id job \<and> tj_recordingId j = tj_recordingId job
     \<and> tj_state j = Queued \<and> tj_progress j = 0 \<and> tj_queuePosition j = queue_end d0)"

lemma createQueued_delivers:
  assumes "base_ok d0" "accepts job d0"
  shows "delivers (\<lambda>d. d = d0) (createQueued uuid job) (\<lambda>x d. enqueued job d0 d \<and> tj_id x = tj_id job)"
proof -
  let ?same = "\<lambda>x. tj_id x = tj_id job \<and> tj_recordingId x = tj_recordingId job"
  let ?fresh = "\<lambda>x. tj_state x = Queued \<and> tj_progress x = 0"
  have stamp: "delivers (\<lambda>d. d = d0) (if tj_createdAt job = None
      then and_then clock (\<lambda>now. succeed (job\<lparr>tj_createdAt := Some now\<rparr>)) else succeed job) (\<lambda>x d. d = d0 \<and> ?same x)"
    by (intro delivers_if delivers_and_then[OF delivers_basic(1)] delivers_succeed) simp_all
  have position: "delivers (\<lambda>d. d = d0) (select queue_end) (\<lambda>x d. d = d0 \<and> x = queue_end d0)"
    by (rule delivers_select) simp
  have insert: "delivers (\<lambda>d. d = d0) (exec (insert_job j)) (\<lambda>_ d. db_jobs d = db_jobs d0 @ [j])"
    if "?same j" "?fresh j" for j
  proof (rule delivers_exec)
    fix d assume "d = d0"
    have "single_execution (db_jobs d0 @ [j])" using assms(1) that by (simp add: base_ok_def single_execution_def executing_def)
    then show "\<exists>u d'. insert_job j d = Some (u, d') \<and> db_jobs d' = db_jobs d0 @ [j]"
      using assms(2) that \<open>d = d0\<close> by (simp add: insert_job_def accepts_def job_row_ok_def)
  qed
  have event: "delivers (\<lambda>d. db_jobs d = db_jobs d0 @ [j]) (insertEvent ((new_event (tj_id j) ''enqueued'')
      \<lparr>je_state := s, je_stage := st, je_progress := p\<rparr>)) (\<lambda>_ d. db_jobs d = db_jobs d0 @ [j])"
    if "?same j" for j s st p
    using assms(2) that
    by (intro insertEvent_total) (simp_all add: new_event_def job_ids_def accepts_def blank_def white_char_def)
  have stored: "delivers (\<lambda>d. d = d0) (immediateTransaction (and_then (select queue_end) (\<lambda>position.
      let job4 = j\<lparr>tj_queuePosition := position\<rparr> in
      and_then (exec (insert_job job4)) (\<lambda>_.
      and_then (insertEvent ((new_event (tj_id job4) ''enqueued'')
        \<lparr>je_state := Some (tj_state job4), je_stage := Some (tj_stage job4), je_progress := Some (tj_progress job4)\<rparr>)) (\<lambda>_.
      succeed job4))))) (\<lambda>x d. enqueued job d0 d \<and> tj_id x = tj_id job)"
    if "?same j" "?fresh j" for j unfolding Let_def
  proof (intro delivers_transaction, rule delivers_and_then[OF position], rule delivers_pure, goal_cases)
    case (1 n)
    show ?case
      by (intro delivers_and_then[OF insert] delivers_and_then[OF event] delivers_succeed)
        (use that 1 in \<open>simp_all add: enqueued_def\<close>)
  qed
  have ids: "tj_recordingId job \<noteq> []" "tj_id job \<noteq> []" using assms(2) by (simp_all add: accepts_def)
  show ?thesis unfolding createQueued_def if_not_P[OF ids(1)] if_not_P[OF ids(2)] Let_def[of job]
  proof (rule delivers_and_then[OF stamp], rule delivers_pure, goal_cases)
    case (1 x)
    show ?case unfolding Let_def[of "x\<lparr>tj_state := _\<rparr>"] by (subst Let_def, rule stored) (use 1 in simp_all)
  qed
qed

text \<open>
  A job that is enqueued waits behind all others. While no statement fails for an outside
  reason, enqueueing a job for a known recording under a new id succeeds, and the job is stored as
  queued, with no progress, at a queue position after that of every job already queued.
\<close>

theorem enqueue_appends:
  assumes "cn_faults c = []" and "db_ok (cn_db c)" and "accepts (job\<lparr>tj_id := i\<rparr>) (cn_db c)"
    and "i = (if tj_id job = [] then uuid else tj_id job)"
  shows "\<exists>c' j. enqueue (sqlite_repository unused) uuid job c = (Inr i, c') \<and> db_jobs (cn_db c') = db_jobs (cn_db c) @ [j]
    \<and> tj_id j = i \<and> tj_recordingId j = tj_recordingId job \<and> tj_state j = Queued \<and> tj_progress j = 0
    \<and> (\<forall>q \<in> set (db_jobs (cn_db c)). tj_state q = Queued \<longrightarrow> tj_queuePosition q < tj_queuePosition j)"
proof -
  let ?job = "(if tj_id job = [] then job\<lparr>tj_id := uuid\<rparr> else job)\<lparr>tj_state := Queued, tj_stage := StagePreparing, tj_progress := 0\<rparr>"
  have base: "base_ok (cn_db c)" using assms(2) by (simp add: db_ok_def)
  have "accepts ?job (cn_db c)" using assms(3,4) by (simp add: accepts_def split: if_splits)
  from deliversD[OF createQueued_delivers[OF base this] assms(1) refl, of unused] obtain x c' where c':
    "createQueued unused ?job c = (Inr x, c')" "enqueued ?job (cn_db c) (cn_db c')" "tj_id x = tj_id ?job" by metis
  have "enqueue (sqlite_repository unused) uuid job c = (Inr i, c')"
    unfolding enqueue_def Let_def sqlite_repository_def repository_ops.simps and_then_def c'(1)
    using c'(3) assms(4) by (simp add: succeed_def split: if_splits)
  then show ?thesis using c'(2) queue_end_after assms(4) unfolding enqueued_def by (fastforce split: if_splits)
qed

lemma enqueue_appends_witness:
  "\<exists>c' j. enqueue (sqlite_repository []) ''u'' (sample_job\<lparr>tj_id := []\<rparr>) (at_time 5 sample_tables) = (Inr ''u'', c')
     \<and> db_jobs (cn_db c') = [j] \<and> tj_state j = Queued"
  using enqueue_appends[where c = "at_time 5 sample_tables" and job = "sample_job\<lparr>tj_id := []\<rparr>" and uuid = "''u''"
      and i = "''u''" and unused = "[]"] sample_ok
  by (auto simp: at_time_def accepts_def sample_job_def sample_tables_def)

end
