(* ===== verification/TranscriptStore.thy ===== *)
theory TranscriptStore
  imports JobStore Glossary
begin

text \<open>
  \<^verbatim>\<open>transcript/SqliteTranscriptRepository.cpp\<close> on the tables of \<open>JobStore\<close>: reading transcripts,
  replacing what a chunk produced while a job runs, and saving the user's edits while it does
  not. The replacement audit of a segment is the list \<open>auditFromJson\<close> gives; new identifiers come
  from a parameter.
\<close>

subsection \<open>Rows\<close>

text \<open>The constraints of the table \<open>transcript_segments\<close>.\<close>

definition segment_row_ok :: "job_tables \<Rightarrow> transcript_segment \<Rightarrow> bool" where
  "segment_row_ok d s \<longleftrightarrow> ts_recordingId s \<in> rr_id ` set (db_recordings d)
     \<and> ts_jobId s \<in> tj_id ` set (db_jobs d)
     \<and> (ts_chunkId s = [] \<or> ts_chunkId s \<in> jc_id ` set (db_chunks d))
     \<and> 0 \<le> ts_startMs s \<and> ts_startMs s < ts_endMs s"

definition insert_segment_row :: "transcript_segment \<Rightarrow> job_tables \<Rightarrow> (unit \<times> job_tables) option" where
  "insert_segment_row s d =
     (if ts_id s \<notin> ts_id ` set (db_segments d)
         \<and> (ts_jobId s, ts_ordinal s) \<notin> (\<lambda>t. (ts_jobId t, ts_ordinal t)) ` set (db_segments d)
         \<and> segment_row_ok d s
      then Some ((), d\<lparr>db_segments := db_segments d @ [s]\<rparr>) else None)"

definition update_segments ::
  "(transcript_segment \<Rightarrow> bool) \<Rightarrow> (transcript_segment \<Rightarrow> transcript_segment) \<Rightarrow> job_tables \<Rightarrow> (nat \<times> job_tables) option" where
  "update_segments P f d =
     (let rows = map (\<lambda>s. if P s then f s else s) (db_segments d) in
      if list_all (segment_row_ok d) rows
      then Some (length (filter P (db_segments d)), d\<lparr>db_segments := rows\<rparr>) else None)"

definition delete_segments :: "(transcript_segment \<Rightarrow> bool) \<Rightarrow> job_tables \<Rightarrow> (nat \<times> job_tables) option" where
  "delete_segments P d =
     Some (length (filter P (db_segments d)), d\<lparr>db_segments := filter (\<lambda>s. \<not> P s) (db_segments d)\<rparr>)"

subsection \<open>Checks\<close>

fun validate_segments :: "bool \<Rightarrow> int \<Rightarrow> transcript_segment list \<Rightarrow> unit result" where
  "validate_segments allowOverlap previousEnd [] = Inr ()"
| "validate_segments allowOverlap previousEnd (s # ss) =
     (if ts_startMs s < 0 \<or> ts_endMs s \<le> ts_startMs s \<or> (\<not> allowOverlap \<and> ts_startMs s < previousEnd)
      then Inl (validation_error InvalidArgument)
      else validate_segments allowOverlap (ts_endMs s) ss)"

definition validateSegments :: "transcript_segment list \<Rightarrow> bool \<Rightarrow> (job_tables, unit) dbop" where
  "validateSegments segments allowOverlap =
     (case validate_segments allowOverlap (-1) segments of Inl e \<Rightarrow> fail e | Inr _ \<Rightarrow> succeed ())"

definition hasManualTextEdit :: "unicode \<Rightarrow> transcript_segment \<Rightarrow> bool" where
  "hasManualTextEdit uc s =
     (if \<not> isEdited s then False
      else if ts_replacementAudit s = [] then True
      else renderAudit uc (ts_originalText s) (ts_replacementAudit s) \<noteq> Some (ts_editedText s))"

definition loadSegments :: "string \<Rightarrow> bool \<Rightarrow> (job_tables, transcript_segment list) dbop" where
  "loadSegments jobId includeProvisional =
     select (\<lambda>d. sort_key ts_ordinal (filter (\<lambda>s. ts_jobId s = jobId
       \<and> (includeProvisional \<or> \<not> ts_provisional s)) (db_segments d)))"

definition validateJobRecording :: "string \<Rightarrow> string \<Rightarrow> (job_tables, job_state) dbop" where
  "validateJobRecording recordingId jobId =
     and_then (select (find_job jobId)) (\<lambda>job.
     case job of
       None \<Rightarrow> validation NotFound
     | Some j \<Rightarrow> if tj_recordingId j \<noteq> recordingId then validation InvalidArgument else succeed (tj_state j))"

definition validateChunkJob :: "string \<Rightarrow> string \<Rightarrow> (job_tables, unit) dbop" where
  "validateChunkJob chunkId jobId =
     and_then (select (\<lambda>d. find (\<lambda>c. jc_id c = chunkId) (db_chunks d))) (\<lambda>chunk.
     case chunk of
       None \<Rightarrow> validation NotFound
     | Some c \<Rightarrow> if jc_jobId c \<noteq> jobId then validation InvalidArgument else succeed ())"

definition editableState :: "job_state \<Rightarrow> bool" where
  "editableState s \<longleftrightarrow> s = Queued \<or> s = Completed \<or> s = Cancelled \<or> s = Failed \<or> s = Interrupted"

definition validateOwnerlessEdit :: "string \<Rightarrow> string \<Rightarrow> (job_tables, unit) dbop" where
  "validateOwnerlessEdit recordingId jobId =
     and_then (validateJobRecording recordingId jobId) (\<lambda>state.
     if \<not> editableState state then validation InvalidStateTransition
     else
       and_then (select (\<lambda>d. case db_lease d of
           Some l \<Rightarrow> if el_jobId l = jobId then Some (el_expiresAt l) else None
         | None \<Rightarrow> None)) (\<lambda>lease.
       case lease of
         None \<Rightarrow> succeed ()
       | Some None \<Rightarrow> validation InvalidStateTransition
       | Some (Some expiresAt) \<Rightarrow>
           and_then clock (\<lambda>now. if expiresAt > now then validation InvalidStateTransition else succeed ())))"

definition loadSegment :: "string \<Rightarrow> (job_tables, transcript_segment option) dbop" where
  "loadSegment segmentId = select (\<lambda>d. find (\<lambda>s. ts_id s = segmentId) (db_segments d))"

subsection \<open>Reading\<close>

definition segmentsForJob :: "string \<Rightarrow> bool \<Rightarrow> (job_tables, transcript_segment list) dbop" where
  "segmentsForJob jobId includeProvisional = and_then connection (\<lambda>_. loadSegments jobId includeProvisional)"

definition find_segment :: "string \<Rightarrow> (job_tables, transcript_segment option) dbop" where
  "find_segment segmentId = and_then connection (\<lambda>_. loadSegment segmentId)"

subsection \<open>Inserting a transcript\<close>

text \<open>The row the code binds for the segment at an index.\<close>

definition segment_row ::
  "(int \<Rightarrow> string) \<Rightarrow> string \<Rightarrow> string \<Rightarrow> int \<Rightarrow> int \<Rightarrow> transcript_segment \<Rightarrow> transcript_segment" where
  "segment_row uuid recordingId jobId now index s =
     s\<lparr>ts_id := (if ts_id s = [] then uuid index else ts_id s), ts_recordingId := recordingId,
       ts_jobId := jobId, ts_ordinal := index, ts_attempt := max 1 (ts_attempt s),
       ts_createdAt := (case ts_createdAt s of Some t \<Rightarrow> Some t | None \<Rightarrow> Some now),
       ts_updatedAt := Some now\<rparr>"

fun insert_segments ::
  "(int \<Rightarrow> string) \<Rightarrow> string \<Rightarrow> string \<Rightarrow> int \<Rightarrow> int \<Rightarrow> string set \<Rightarrow> transcript_segment list
    \<Rightarrow> (job_tables, unit) dbop" where
  "insert_segments uuid recordingId jobId now index validatedChunkIds [] = succeed ()"
| "insert_segments uuid recordingId jobId now index validatedChunkIds (s # ss) =
     (if ts_recordingId s \<noteq> [] \<and> ts_recordingId s \<noteq> recordingId \<or> ts_jobId s \<noteq> [] \<and> ts_jobId s \<noteq> jobId
      then validation InvalidArgument
      else
        and_then (if ts_chunkId s \<noteq> [] \<and> ts_chunkId s \<notin> validatedChunkIds
                  then and_then (validateChunkJob (ts_chunkId s) jobId) (\<lambda>_.
                       succeed (insert (ts_chunkId s) validatedChunkIds))
                  else succeed validatedChunkIds) (\<lambda>validated.
        and_then (exec (insert_segment_row (segment_row uuid recordingId jobId now index s))) (\<lambda>_.
        insert_segments uuid recordingId jobId now (index + 1) validated ss)))"

definition insertSegments ::
  "(int \<Rightarrow> string) \<Rightarrow> string \<Rightarrow> string \<Rightarrow> transcript_segment list \<Rightarrow> bool \<Rightarrow> (job_tables, unit) dbop" where
  "insertSegments uuid recordingId jobId segments allowOverlap =
     and_then (validateSegments segments allowOverlap) (\<lambda>_.
     and_then clock (\<lambda>now. insert_segments uuid recordingId jobId now 0 {} segments))"

subsection \<open>Writing\<close>

definition replaceTranscript ::
  "(int \<Rightarrow> string) \<Rightarrow> string \<Rightarrow> string \<Rightarrow> transcript_segment list \<Rightarrow> (job_tables, unit) dbop" where
  "replaceTranscript uuid recordingId jobId segments =
     and_then (validateSegments segments False) (\<lambda>_.
     immediateTransaction (
       and_then (validateOwnerlessEdit recordingId jobId) (\<lambda>_.
       and_then (select (\<lambda>d. list_ex (\<lambda>s. ts_jobId s = jobId \<and> ts_editedText s \<noteq> []
           \<and> ts_editedText s \<noteq> ts_originalText s) (db_segments d))) (\<lambda>edited.
       if edited then validation InvalidStateTransition
       else
         and_then (exec (delete_segments (\<lambda>s. ts_jobId s = jobId))) (\<lambda>_.
         and_then (insertSegments uuid recordingId jobId segments False) (\<lambda>_.
         rebuildRecording recordingId))))))"

definition saveEditedTranscript ::
  "(int \<Rightarrow> string) \<Rightarrow> string \<Rightarrow> string \<Rightarrow> transcript_segment list \<Rightarrow> (job_tables, unit) dbop" where
  "saveEditedTranscript uuid recordingId jobId segments =
     and_then (validateSegments segments False) (\<lambda>_.
     immediateTransaction (
       and_then (validateOwnerlessEdit recordingId jobId) (\<lambda>_.
       and_then (exec (delete_segments (\<lambda>s. ts_jobId s = jobId))) (\<lambda>_.
       and_then (insertSegments uuid recordingId jobId segments False) (\<lambda>_.
       rebuildRecording recordingId)))))"

definition combined_segments ::
  "string \<Rightarrow> bool \<Rightarrow> int \<Rightarrow> transcript_segment list \<Rightarrow> transcript_segment list \<Rightarrow> transcript_segment list" where
  "combined_segments chunkId provisional attempt existing segments =
     sort_key (\<lambda>s. (ts_startMs s, ts_ordinal s))
       (filter (\<lambda>s. ts_chunkId s \<noteq> chunkId) existing
        @ map (\<lambda>s. s\<lparr>ts_chunkId := chunkId, ts_provisional := provisional, ts_attempt := attempt\<rparr>) segments)"

definition replaceChunk ::
  "unicode \<Rightarrow> (int \<Rightarrow> string) \<Rightarrow> string \<Rightarrow> string \<Rightarrow> string \<Rightarrow> transcript_segment list \<Rightarrow> bool \<Rightarrow> int \<Rightarrow> string
    \<Rightarrow> (job_tables, unit) dbop" where
  "replaceChunk uc uuid recordingId jobId chunkId segments provisional attempt ownerToken =
     executionLeaseTransaction jobId ownerToken (
       and_then (validateJobRecording recordingId jobId) (\<lambda>_.
       and_then (validateChunkJob chunkId jobId) (\<lambda>_.
       and_then (loadSegments jobId True) (\<lambda>existing.
       if list_ex (\<lambda>s. ts_chunkId s = chunkId \<and> hasManualTextEdit uc s) existing
       then validation InvalidStateTransition
       else
         and_then (exec (delete_segments (\<lambda>s. ts_jobId s = jobId))) (\<lambda>_.
         and_then (insertSegments uuid recordingId jobId
             (combined_segments chunkId provisional attempt existing segments) provisional) (\<lambda>_.
         if provisional then succeed () else rebuildRecording recordingId))))))"

definition saveEditedSegment :: "transcript_segment \<Rightarrow> (job_tables, unit) dbop" where
  "saveEditedSegment segment =
     (if ts_startMs segment < 0 \<or> ts_endMs segment \<le> ts_startMs segment then validation InvalidArgument
      else immediateTransaction (
        and_then (loadSegment (ts_id segment)) (\<lambda>current.
        case current of
          None \<Rightarrow> validation NotFound
        | Some durable \<Rightarrow>
            if ts_recordingId durable \<noteq> ts_recordingId segment \<or> ts_jobId durable \<noteq> ts_jobId segment
            then validation InvalidArgument
            else
              and_then (validateOwnerlessEdit (ts_recordingId durable) (ts_jobId durable)) (\<lambda>_.
              and_then (select (\<lambda>d. list_ex (\<lambda>s. ts_jobId s = ts_jobId durable \<and> ts_id s \<noteq> ts_id durable
                  \<and> ts_startMs s < ts_endMs segment \<and> ts_endMs s > ts_startMs segment) (db_segments d))) (\<lambda>overlap.
              if overlap then validation InvalidArgument
              else
                and_then clock (\<lambda>now.
                and_then (exec (update_segments
                    (\<lambda>s. ts_id s = ts_id durable \<and> ts_jobId s = ts_jobId durable
                       \<and> ts_recordingId s = ts_recordingId durable)
                    (\<lambda>s. s\<lparr>ts_startMs := ts_startMs segment, ts_endMs := ts_endMs segment,
                          ts_editedText := ts_editedText segment,
                          ts_replacementAudit := ts_replacementAudit segment,
                          ts_reviewed := ts_reviewed segment, ts_updatedAt := Some now\<rparr>))) (\<lambda>rows.
                if rows = 0 then validation NotFound
                else rebuildRecording (ts_recordingId durable))))))))"

definition deleteSegment :: "string \<Rightarrow> (job_tables, unit) dbop" where
  "deleteSegment segmentId =
     immediateTransaction (
       and_then (loadSegment segmentId) (\<lambda>current.
       case current of
         None \<Rightarrow> succeed ()
       | Some durable \<Rightarrow>
           and_then (validateOwnerlessEdit (ts_recordingId durable) (ts_jobId durable)) (\<lambda>_.
           and_then (exec (delete_segments (\<lambda>s. ts_id s = ts_id durable \<and> ts_jobId s = ts_jobId durable
               \<and> ts_recordingId s = ts_recordingId durable))) (\<lambda>rows.
           if rows = 0 then validation NotFound
           else rebuildRecording (ts_recordingId durable)))))"

end
