(* ===== verification/TranscriptRuns.thy ===== *)
theory TranscriptRuns
  imports TranscriptStore JobRepository
begin

text \<open>
  What holds of stored transcripts whatever the processes do: \<open>transcripts_ok\<close>, kept by every
  operation of the job repository and of the transcript repository, in any order.
\<close>

definition seg_refs :: "job_tables \<Rightarrow> transcript_segment \<Rightarrow> bool" where
  "seg_refs d s \<longleftrightarrow> (\<exists>j \<in> set (db_jobs d). tj_id j = ts_jobId s \<and> tj_recordingId j = ts_recordingId s)
     \<and> (ts_chunkId s \<noteq> [] \<longrightarrow> (\<exists>c \<in> set (db_chunks d). jc_id c = ts_chunkId s \<and> jc_jobId c = ts_jobId s))"

definition seg_key :: "transcript_segment \<Rightarrow> string \<times> int" where
  "seg_key s = (ts_jobId s, ts_ordinal s)"

text \<open>Two finished segments of one job do not overlap.\<close>

definition apart :: "transcript_segment \<Rightarrow> transcript_segment \<Rightarrow> bool" where
  "apart s t \<longleftrightarrow> ts_jobId s = ts_jobId t \<longrightarrow> \<not> ts_provisional s \<longrightarrow> \<not> ts_provisional t
     \<longrightarrow> ts_endMs s \<le> ts_startMs t \<or> ts_endMs t \<le> ts_startMs s"

definition segments_ok :: "transcript_segment list \<Rightarrow> bool" where
  "segments_ok segs \<longleftrightarrow> distinct (map ts_id segs) \<and> distinct (map seg_key segs)
     \<and> (\<forall>s \<in> set segs. 0 \<le> ts_startMs s \<and> ts_startMs s < ts_endMs s)
     \<and> (\<forall>s \<in> set segs. \<forall>t \<in> set segs. ts_id s \<noteq> ts_id t \<longrightarrow> apart s t)"

definition transcripts_ok :: "job_tables \<Rightarrow> bool" where
  "transcripts_ok d \<longleftrightarrow> segments_ok (db_segments d) \<and> (\<forall>s \<in> set (db_segments d). seg_refs d s)"

subsection \<open>Statements of the job repository\<close>

lemma segments_ok_filter: "segments_ok segs \<Longrightarrow> segments_ok (filter P segs)"
  by (simp add: segments_ok_def distinct_map_filter)

lemma transcripts_filter:
  assumes "transcripts_ok d" "db_segments d' = filter Q (db_segments d)"
    and "\<And>s. s \<in> set (db_segments d) \<Longrightarrow> Q s \<Longrightarrow> seg_refs d s \<Longrightarrow> seg_refs d' s"
  shows "transcripts_ok d'"
  using assms by (simp add: transcripts_ok_def segments_ok_filter)

lemma transcripts_frame:
  assumes "transcripts_ok d" "db_segments d' = db_segments d" "\<And>s. seg_refs d s \<Longrightarrow> seg_refs d' s"
  shows "transcripts_ok d'"
  using assms by (simp add: transcripts_ok_def)

lemma seg_refs_same: "db_jobs d' = db_jobs d \<Longrightarrow> db_chunks d' = db_chunks d \<Longrightarrow> seg_refs d' = seg_refs d"
  by (intro ext) (simp add: seg_refs_def)

lemma transcripts_same:
  "transcripts_ok d \<Longrightarrow> db_segments d' = db_segments d \<Longrightarrow> db_jobs d' = db_jobs d \<Longrightarrow> db_chunks d' = db_chunks d
   \<Longrightarrow> transcripts_ok d'"
  using seg_refs_same[of d' d] by (metis transcripts_frame)

named_theorems tkeep \<open>statements that keep the transcripts\<close>

lemma update_jobs_transcripts:
  assumes "keeps_identity f" "update_jobs P f d = Some (n, d')" "transcripts_ok d"
  shows "transcripts_ok d'"
proof (rule transcripts_frame[OF assms(3)])
  note u = update_jobs_fields[OF assms(2)]
  show "db_segments d' = db_segments d" by (rule u(4))
  fix s assume "seg_refs d s"
  then obtain j where j: "j \<in> set (db_jobs d)" "tj_id j = ts_jobId s" "tj_recordingId j = ts_recordingId s"
    and rest: "ts_chunkId s \<noteq> [] \<longrightarrow> (\<exists>c \<in> set (db_chunks d). jc_id c = ts_chunkId s \<and> jc_jobId c = ts_jobId s)"
    unfolding seg_refs_def by blast
  let ?j = "if P j then f j else j"
  have "?j \<in> set (db_jobs d')" using j(1) u(1) by auto
  moreover have "tj_id ?j = ts_jobId s" "tj_recordingId ?j = ts_recordingId s"
    using j assms(1) by (simp_all add: keeps_identity_def)
  ultimately show "seg_refs d' s" unfolding seg_refs_def u(3) using rest by blast
qed

lemma tkeep_update_jobs [tkeep]:
  "keeps_identity f \<Longrightarrow> achieves transcripts_ok (exec (update_jobs P f)) (\<lambda>_. transcripts_ok)"
  "keeps_identity f \<Longrightarrow> achieves transcripts_ok (exec (\<lambda>d. update_jobs (P' d) f d)) (\<lambda>_. transcripts_ok)"
  by (rule achieves_exec, erule (2) update_jobs_transcripts)+

lemma tkeep_insert_job [tkeep]: "achieves transcripts_ok (exec (insert_job j)) (\<lambda>_. transcripts_ok)"
  by (rule achieves_exec)
    (auto simp: insert_job_def seg_refs_def split: if_splits elim!: transcripts_frame)

lemma tkeep_insert_chunk [tkeep]: "achieves transcripts_ok (exec (insert_chunk c)) (\<lambda>_. transcripts_ok)"
  by (rule achieves_exec)
    (auto simp: insert_chunk_def seg_refs_def split: if_splits elim!: transcripts_frame)

lemma tkeep_insert_event [tkeep]: "achieves transcripts_ok (exec (insert_event_row e)) (\<lambda>_. transcripts_ok)"
  by (rule achieves_exec) (auto simp: insert_event_row_def split: if_splits elim!: transcripts_same)

lemma tkeep_insert_lease [tkeep]: "achieves transcripts_ok (exec (insert_lease l)) (\<lambda>_. transcripts_ok)"
  by (rule achieves_exec) (auto simp: insert_lease_def split: if_splits elim!: transcripts_same)

lemma tkeep_delete_lease [tkeep]: "achieves transcripts_ok (exec (delete_lease P)) (\<lambda>_. transcripts_ok)"
  by (rule achieves_exec)
    (auto simp: delete_lease_def split: if_splits option.splits elim!: transcripts_same)

lemma tkeep_update_chunks [tkeep]:
  assumes "\<And>c. jc_id (f c) = jc_id c" "\<And>c. jc_jobId (f c) = jc_jobId c"
  shows "achieves transcripts_ok (modify (update_chunks P f)) (\<lambda>_. transcripts_ok)"
proof (rule achieves_modify, erule transcripts_frame)
  fix d s assume s: "seg_refs d s"
  have "\<exists>c \<in> set (map (\<lambda>c. if P c then f c else c) (db_chunks d)). jc_id c = i \<and> jc_jobId c = k"
    if "c \<in> set (db_chunks d)" "jc_id c = i" "jc_jobId c = k" for c i k
    using that assms by (intro bexI[of _ "if P c then f c else c"]) auto
  then show "seg_refs (update_chunks P f d) s" using s
    by (fastforce simp: seg_refs_def update_chunks_def simp del: set_map)
qed (simp add: update_chunks_def)

lemma tkeep_recovered_chunk [tkeep]:
  "achieves transcripts_ok (modify (\<lambda>d. recovered_chunk b i d m)) (\<lambda>_. transcripts_ok)"
  unfolding recovered_chunk_def by (cases b) (simp_all add: tkeep)

lemma delete_jobs_transcripts:
  assumes "delete_jobs P d = Some (n, d')" "transcripts_ok d"
  shows "transcripts_ok d'"
proof -
  let ?gone = "tj_id ` set (filter P (db_jobs d))"
  have f: "db_jobs d' = filter (\<lambda>j. \<not> P j) (db_jobs d)" "db_chunks d' = filter (\<lambda>c. jc_jobId c \<notin> ?gone) (db_chunks d)"
    "db_segments d' = filter (\<lambda>s. ts_jobId s \<notin> ?gone) (db_segments d)"
    using assms(1) unfolding delete_jobs_def Let_def by auto
  show "transcripts_ok d'"
  proof (rule transcripts_filter[OF assms(2) f(3)])
    fix s assume s: "ts_jobId s \<notin> ?gone" "seg_refs d s"
    then show "seg_refs d' s" unfolding seg_refs_def f(1,2) by force
  qed
qed

lemma tkeep_delete_jobs [tkeep]:
  "achieves transcripts_ok (exec (delete_jobs P)) (\<lambda>_. transcripts_ok)"
  "achieves transcripts_ok (exec (\<lambda>d. delete_jobs (P' d) d)) (\<lambda>_. transcripts_ok)"
  by (rule achieves_exec, erule (1) delete_jobs_transcripts[rotated])+

lemma tkeep_delete_chunks [tkeep]: "achieves transcripts_ok (modify (delete_chunks i)) (\<lambda>_. transcripts_ok)"
proof (rule achieves_modify)
  fix d assume d: "transcripts_ok d"
  let ?gone = "jc_id ` set (filter (\<lambda>c. jc_jobId c = i) (db_chunks d))"
  let ?g = "\<lambda>s. if ts_chunkId s \<in> ?gone then s\<lparr>ts_chunkId := []\<rparr> else s"
  have same: "ts_id (?g s) = ts_id s" "seg_key (?g s) = seg_key s" "ts_startMs (?g s) = ts_startMs s"
    "ts_endMs (?g s) = ts_endMs s" "ts_jobId (?g s) = ts_jobId s" "ts_provisional (?g s) = ts_provisional s" for s
    by (simp_all add: seg_key_def)
  have segs: "segments_ok (map ?g (db_segments d))"
    using d unfolding transcripts_ok_def segments_ok_def apart_def map_map comp_def same set_map ball_simps by blast
  have refs: "seg_refs (delete_chunks i d) (?g s)" if "seg_refs d s" for s
    using that unfolding seg_refs_def delete_chunks_def Let_def by force
  have rows: "db_segments (delete_chunks i d) = map ?g (db_segments d)" by (simp add: delete_chunks_def Let_def)
  have "\<forall>s \<in> set (map ?g (db_segments d)). seg_refs (delete_chunks i d) s"
    using d refs unfolding transcripts_ok_def by (simp only: set_map ball_simps) blast
  then show "transcripts_ok (delete_chunks i d)" using segs unfolding transcripts_ok_def rows by blast
qed

subsection \<open>Operations of the job repository\<close>

lemma tkeep_insertEvent [tkeep]: "achieves transcripts_ok (insertEvent e) (\<lambda>_. transcripts_ok)"
  unfolding insertEvent_def by (intro keep tkeep)

lemma tkeep_insert_chunks [tkeep]: "achieves transcripts_ok (insert_chunks i u cs) (\<lambda>_. transcripts_ok)"
  by (induction cs) (simp_all add: keep tkeep)

lemma tkeep_reorder_loop [tkeep]: "achieves transcripts_ok (reorder_loop n is) (\<lambda>_. transcripts_ok)"
  by (induction "is" arbitrary: n) (auto intro!: keep tkeep simp: keeps_identity_def)

lemma tkeep_rebuild_all [tkeep]: "achieves transcripts_ok (rebuild_all rs) (\<lambda>_. transcripts_ok)"
  by (induction rs) (simp_all add: keep)

lemma tkeep_recover_jobs [tkeep]: "achieves transcripts_ok (recover_jobs now why rest n) (\<lambda>_. transcripts_ok)"
proof (induction rest arbitrary: n)
  case (Cons r rest)
  obtain i s where r: "r = (i, s)" by (cases r)
  have "achieves transcripts_ok (exec (if b then update_jobs P (cancelled_job m) else update_jobs P' (interrupted_job now m)))
      (\<lambda>_. transcripts_ok)" for b P P' m
    by (cases b) (simp_all add: tkeep keeps_identity_def cancelled_job_def interrupted_job_def)
  then show ?case unfolding r recover_jobs.simps Let_def by (intro keep tkeep Cons)
qed (simp add: keep)

lemma tkeep_exec_if [tkeep]:
  "achieves P (exec q) Q \<Longrightarrow> achieves P (exec r) Q \<Longrightarrow> achieves P (exec (if b then q else r)) Q"
  by simp

lemma tkeep_same:
  assumes "\<And>d x d'. q d = Some (x, d') \<Longrightarrow>
    db_segments d' = db_segments d \<and> db_jobs d' = db_jobs d \<and> db_chunks d' = db_chunks d"
  shows "achieves transcripts_ok (exec q) (\<lambda>_. transcripts_ok)"
  by (rule achieves_exec) (metis assms transcripts_same)

lemma tkeep_recordings [tkeep]: "achieves transcripts_ok (exec (\<lambda>d. Some (f d, d\<lparr>db_recordings := g d\<rparr>))) (\<lambda>_. transcripts_ok)"
  by (rule tkeep_same) auto

lemma tkeep_filter_segments [tkeep]:
  "achieves transcripts_ok (modify (\<lambda>d. d\<lparr>db_segments := filter (Q d) (db_segments d)\<rparr>)) (\<lambda>_. transcripts_ok)"
  by (rule achieves_modify) (auto simp: seg_refs_def elim: transcripts_filter)

lemma recovered_job_fields [simp]:
  "tj_id (cancelled_job m j) = tj_id j" "tj_recordingId (cancelled_job m j) = tj_recordingId j"
  "tj_id (interrupted_job now m j) = tj_id j" "tj_recordingId (interrupted_job now m j) = tj_recordingId j"
  by (simp_all add: cancelled_job_def interrupted_job_def)

lemma claim_transcripts: "achieves transcripts_ok (claimInDatabase r ow n) (\<lambda>_. transcripts_ok)"
  unfolding claimInDatabase_def claim_free_def claim_held_def recover_expired_def take_job_def Let_def
  by (intro keep tkeep) (simp_all add: keeps_identity_def)

lemma transition_transcripts: "achieves transcripts_ok (transition i t e m ow) (\<lambda>_. transcripts_ok)"
  unfolding transition_def transition_body_def
  by (intro keep tkeep) (auto intro!: keep tkeep simp: keeps_identity_def)

lemma completion_transcripts: "achieves transcripts_ok (completeAndActivate r i ow) (\<lambda>_. transcripts_ok)"
  unfolding completeAndActivate_def
  by (intro keep tkeep) (simp_all add: keeps_identity_def)

lemma renewal_transcripts: "achieves transcripts_ok (renewLease i ow n) (\<lambda>_. transcripts_ok)"
  unfolding renewLease_def Let_def validateLeaseIdentity_def
  by (intro keep tkeep_same) (auto split: option.splits if_splits)

lemma deletion_transcripts: "achieves transcripts_ok (deleteTerminalJob i) (\<lambda>_. transcripts_ok)"
  "achieves transcripts_ok clearCompleted (\<lambda>_. transcripts_ok)"
  unfolding deleteTerminalJob_def clearCompleted_def
  by (intro keep tkeep tkeep_same; auto simp: keeps_identity_def intro: tkeep)+

lemma progress_transcripts:
  "achieves transcripts_ok (releaseLease i ow) (\<lambda>_. transcripts_ok)"
  "achieves transcripts_ok (updateProgress i st p n ow) (\<lambda>_. transcripts_ok)"
  "achieves transcripts_ok (updateRuntimeInfo i b e w ds ow) (\<lambda>_. transcripts_ok)"
  "achieves transcripts_ok (updateParameters i ps ow) (\<lambda>_. transcripts_ok)"
  "achieves transcripts_ok (replaceChunks u i cs ow) (\<lambda>_. transcripts_ok)"
  "achieves transcripts_ok (updateChunk c ow) (\<lambda>_. transcripts_ok)"
  "achieves transcripts_ok (appendEvent ev ow) (\<lambda>_. transcripts_ok)"
  "achieves transcripts_ok (reorder ids) (\<lambda>_. transcripts_ok)"
  "achieves transcripts_ok (markRunningJobsInterrupted why) (\<lambda>_. transcripts_ok)"
  unfolding releaseLease_def updateProgress_def updateRuntimeInfo_def updateParameters_def replaceChunks_def
    updateChunk_def appendEvent_def reorder_def markRunningJobsInterrupted_def db_transaction_immediate Let_def
  by (intro keep tkeep; simp add: keeps_identity_def)+

lemma apply_op_transcripts: "achieves transcripts_ok (apply_op op) (\<lambda>_. transcripts_ok)"
proof (cases op)
  case (CreateJob u j)
  show ?thesis unfolding CreateJob apply_op.simps createQueued_def Let_def by (intro keep_ignore keep tkeep)
qed (simp_all add: claimNextQueued_def claimQueued_def keep claim_transcripts transition_transcripts
   completion_transcripts renewal_transcripts deletion_transcripts progress_transcripts keep_ignore)

subsection \<open>Transcripts that may be inserted\<close>

definition spaced :: "transcript_segment \<Rightarrow> transcript_segment \<Rightarrow> bool" where
  "spaced s t \<longleftrightarrow> \<not> ts_provisional s \<longrightarrow> \<not> ts_provisional t \<longrightarrow> ts_endMs s \<le> ts_startMs t \<or> ts_endMs t \<le> ts_startMs s"

lemma spaced_sym: "spaced s t \<longleftrightarrow> spaced t s"
  by (auto simp: spaced_def)

lemma validated_order:
  "validate_segments False previous segs = Inr u \<Longrightarrow>
   sorted_wrt (\<lambda>s t. ts_endMs s \<le> ts_startMs t) segs \<and> (\<forall>s \<in> set segs. previous \<le> ts_startMs s)
     \<and> (\<forall>s \<in> set segs. 0 \<le> ts_startMs s \<and> ts_startMs s < ts_endMs s)"
proof (induction segs arbitrary: previous)
  case (Cons s segs)
  then have "validate_segments False (ts_endMs s) segs = Inr u" "previous \<le> ts_startMs s"
    "0 \<le> ts_startMs s" "ts_startMs s < ts_endMs s" by (auto split: if_splits)
  then show ?case using Cons.IH by fastforce
qed simp

lemma validated_spaced: "validate_segments False previous segs = Inr u \<Longrightarrow> sorted_wrt spaced segs"
  by (rule sorted_wrt_mono_rel[where P = "\<lambda>s t. ts_endMs s \<le> ts_startMs t"])
    (use validated_order in \<open>auto simp: spaced_def\<close>)

lemma insort_spaced: "sorted_wrt spaced xs \<Longrightarrow> (\<And>y. y \<in> set xs \<Longrightarrow> spaced x y) \<Longrightarrow> sorted_wrt spaced (insort_key k x xs)"
  by (induction xs) (auto simp: set_insort_key spaced_sym)

lemma sort_spaced: "sorted_wrt spaced xs \<Longrightarrow> sorted_wrt spaced (sort_key k xs)"
  by (induction xs) (auto intro!: insort_spaced)

lemma stored_spaced:
  assumes "segments_ok segs" "\<And>s. s \<in> set segs \<Longrightarrow> P s \<Longrightarrow> ts_jobId s = i"
  shows "sorted_wrt spaced (filter P segs)"
proof -
  have "sorted_wrt spaced (filter P xs)" if "distinct (map ts_id xs)" "set xs \<subseteq> set segs" for xs
    using that
  proof (induction xs)
    case (Cons x xs)
    have "spaced x y" if "y \<in> set xs" "P x" "P y" for y
    proof -
      have "ts_id x \<noteq> ts_id y" using Cons.prems(1) that(1) by auto
      then have "apart x y" using assms(1) Cons.prems(2) that(1) by (simp add: segments_ok_def subset_iff)
      then show ?thesis using assms(2)[of x] assms(2)[of y] Cons.prems(2) that by (auto simp: apart_def spaced_def)
    qed
    then show ?case using Cons by auto
  qed simp
  then show ?thesis using assms(1) by (simp add: segments_ok_def)
qed

lemma insert_segment_transcripts:
  assumes "insert_segment_row s d = Some (u, d')" "transcripts_ok d" "seg_refs d s"
    and "\<And>t. t \<in> set (db_segments d) \<Longrightarrow> ts_jobId t = ts_jobId s \<Longrightarrow> spaced t s"
  shows "transcripts_ok d'"
proof -
  have d': "d' = d\<lparr>db_segments := db_segments d @ [s]\<rparr>" and new: "ts_id s \<notin> ts_id ` set (db_segments d)"
    "seg_key s \<notin> seg_key ` set (db_segments d)" "segment_row_ok d s"
    using assms(1) by (auto simp: insert_segment_row_def seg_key_def split: if_splits)
  have "apart t s \<and> apart s t" if "t \<in> set (db_segments d)" for t
    using assms(4)[OF that] by (auto simp: apart_def spaced_def)
  then have "segments_ok (db_segments d @ [s])"
    using assms(2) new by (auto simp: transcripts_ok_def segments_ok_def segment_row_ok_def)
  moreover have "seg_refs d' = seg_refs d" by (rule seg_refs_same) (simp_all add: d')
  ultimately show ?thesis using assms(2,3) by (simp add: transcripts_ok_def d')
qed

subsection \<open>Operations on transcripts\<close>

definition store_ok :: "job_tables \<Rightarrow> bool" where
  "store_ok d \<longleftrightarrow> inv_but {} d \<and> transcripts_ok d"

lemma segments_inv:
  assumes "inv_but X d" "\<forall>s \<in> set segs. ts_jobId s \<in> job_ids d"
  shows "inv_but X (d\<lparr>db_segments := segs\<rparr>)"
  using assms job_row_ok_cong[of "d\<lparr>db_segments := segs\<rparr>" d]
  by (simp add: inv_but_def base_ok_def keys_ok_def events_ok_def active_ok_def lease_ok_but_def
    job_executing_def job_ids_def)

lemma insert_segment_store:
  assumes "insert_segment_row s d = Some (u, d')" "store_ok d" "seg_refs d s"
    and "\<And>t. t \<in> set (db_segments d) \<Longrightarrow> ts_jobId t = ts_jobId s \<Longrightarrow> spaced t s"
  shows "store_ok d'"
proof -
  have "d' = d\<lparr>db_segments := db_segments d @ [s]\<rparr>" "segment_row_ok d s"
    using assms(1) by (auto simp: insert_segment_row_def split: if_splits)
  moreover have "\<forall>t \<in> set (db_segments d). ts_jobId t \<in> job_ids d"
    using assms(2) by (simp add: store_ok_def inv_but_def base_ok_def keys_ok_def)
  ultimately have "inv_but {} d'" using assms(2)
    by (auto simp: store_ok_def segment_row_ok_def job_ids_def intro!: segments_inv)
  then show ?thesis using insert_segment_transcripts[OF assms(1) _ assms(3,4)] assms(2) by (simp add: store_ok_def)
qed

definition owned :: "string \<Rightarrow> string \<Rightarrow> job_tables \<Rightarrow> bool" where
  "owned r i d \<longleftrightarrow> (\<exists>j \<in> set (db_jobs d). tj_id j = i \<and> tj_recordingId j = r)"

definition chunks_known :: "string \<Rightarrow> string set \<Rightarrow> job_tables \<Rightarrow> bool" where
  "chunks_known i V d \<longleftrightarrow> (\<forall>c \<in> V. \<exists>k \<in> set (db_chunks d). jc_id k = c \<and> jc_jobId k = i)"

definition room_for :: "string \<Rightarrow> transcript_segment list \<Rightarrow> job_tables \<Rightarrow> bool" where
  "room_for i segs d \<longleftrightarrow> (\<forall>t \<in> set (db_segments d). ts_jobId t = i \<longrightarrow> (\<forall>s \<in> set segs. spaced t s))"

lemma segment_row_simps [simp]:
  "ts_jobId (segment_row u r i now n s) = i" "ts_recordingId (segment_row u r i now n s) = r"
  "ts_chunkId (segment_row u r i now n s) = ts_chunkId s" "ts_startMs (segment_row u r i now n s) = ts_startMs s"
  "ts_endMs (segment_row u r i now n s) = ts_endMs s" "ts_provisional (segment_row u r i now n s) = ts_provisional s"
  "ts_ordinal (segment_row u r i now n s) = n"
  by (simp_all add: segment_row_def)

lemma spaced_row [simp]:
  "spaced t (segment_row u r i now n s) = spaced t s" "spaced (segment_row u r i now n s) t = spaced s t"
  by (simp_all add: spaced_def)

lemma check_chunk: "achieves (\<lambda>d. P d \<and> chunks_known i V d) (if c \<noteq> [] \<and> c \<notin> V
    then and_then (validateChunkJob c i) (\<lambda>_. succeed (insert c V)) else succeed V)
  (\<lambda>W d. P d \<and> chunks_known i W d \<and> (c \<noteq> [] \<longrightarrow> c \<in> W))"
proof -
  have find: "achieves (\<lambda>d. P d \<and> chunks_known i V d) (select (\<lambda>d. find (\<lambda>k. jc_id k = c) (db_chunks d)))
      (\<lambda>x d. P d \<and> chunks_known i V d \<and> (\<forall>k. x = Some k \<longrightarrow> k \<in> set (db_chunks d) \<and> jc_id k = c))"
    by (rule achieves_select) (auto dest: find_SomeD)
  have "achieves (\<lambda>d. P d \<and> chunks_known i V d) (validateChunkJob c i)
      (\<lambda>_ d. P d \<and> chunks_known i (insert c V) d)"
    unfolding validateChunkJob_def
    by (intro achieves_and_then[OF find] achieves_option achieves_if keep_basic(3) achieves_succeed)
      (auto simp: chunks_known_def)
  then show ?thesis by (intro achieves_if achieves_and_then achieves_succeed) auto
qed

lemma insert_loop:
  assumes "sorted_wrt spaced segs"
  shows "achieves (\<lambda>d. (store_ok d \<and> owned r i d \<and> room_for i segs d) \<and> chunks_known i V d)
    (insert_segments u r i now n V segs) (\<lambda>_. store_ok)"
  using assms
proof (induction segs arbitrary: n V)
  case Nil
  show ?case unfolding insert_segments.simps by (rule achieves_succeed) simp
next
  case (Cons s segs)
  have row: "achieves (\<lambda>d. (store_ok d \<and> owned r i d \<and> room_for i (s # segs) d) \<and> chunks_known i W d
        \<and> (ts_chunkId s \<noteq> [] \<longrightarrow> ts_chunkId s \<in> W))
      (exec (insert_segment_row (segment_row u r i now n s)))
      (\<lambda>_ d. (store_ok d \<and> owned r i d \<and> room_for i segs d) \<and> chunks_known i W d)" for W
  proof (rule achieves_exec)
    fix d v d'
    let ?row = "segment_row u r i now n s"
    assume d: "(store_ok d \<and> owned r i d \<and> room_for i (s # segs) d) \<and> chunks_known i W d
        \<and> (ts_chunkId s \<noteq> [] \<longrightarrow> ts_chunkId s \<in> W)" and ins: "insert_segment_row ?row d = Some (v, d')"
    have "seg_refs d ?row" using d by (auto simp: seg_refs_def owned_def chunks_known_def)
    then have ok: "store_ok d'"
      using insert_segment_store[OF ins] d by (auto simp: room_for_def)
    have f: "db_segments d' = db_segments d @ [?row]" "db_jobs d' = db_jobs d" "db_chunks d' = db_chunks d"
      using ins by (auto simp: insert_segment_row_def split: if_splits)
    have "room_for i segs d'" using d Cons.prems unfolding room_for_def f(1) by auto
    then show "(store_ok d' \<and> owned r i d' \<and> room_for i segs d') \<and> chunks_known i W d'"
      using d ok f(2,3) by (simp add: owned_def chunks_known_def)
  qed
  show ?case unfolding insert_segments.simps
    using Cons by (intro achieves_if keep_basic(3) achieves_and_then[OF check_chunk] achieves_and_then[OF row]) auto
qed

lemma insertSegments_store:
  assumes "\<not> allow \<or> sorted_wrt spaced segs"
  shows "achieves (\<lambda>d. store_ok d \<and> owned r i d \<and> (\<forall>t \<in> set (db_segments d). ts_jobId t \<noteq> i))
    (insertSegments u r i segs allow) (\<lambda>_. store_ok)"
proof -
  let ?P = "\<lambda>d. store_ok d \<and> owned r i d \<and> (\<forall>t \<in> set (db_segments d). ts_jobId t \<noteq> i)"
  have check: "achieves ?P (validateSegments segs allow) (\<lambda>_ d. ?P d \<and> sorted_wrt spaced segs)"
    unfolding validateSegments_def
    by (rule achieves_sum, rule achieves_fail, rule achieves_succeed)
      (use assms validated_spaced in \<open>cases allow; auto\<close>)
  have loop: "achieves ?P (insert_segments u r i now 0 {} segs) (\<lambda>_. store_ok)" if "sorted_wrt spaced segs" for now
    by (rule achieves_weaken[OF insert_loop[OF that, of r i "{}" u now 0]])
      (auto simp: room_for_def chunks_known_def)
  show ?thesis unfolding insertSegments_def
    by (intro achieves_and_then[OF check] achieves_pure achieves_and_then[OF achieves_clock] loop)
qed

lemma reads_ownerless: "reads_only (validateOwnerlessEdit r i)"
  unfolding validateOwnerlessEdit_def validateJobRecording_def validation_def by (intro atomics)

lemma check_recording: "achieves P (validateJobRecording r i) (\<lambda>s d. P d \<and> owned r i d
    \<and> (\<exists>j. find_job i d = Some j \<and> tj_state j = s))"
proof -
  have "achieves P (select (find_job i)) (\<lambda>x d. P d \<and> x = find_job i d)" by (rule select_value)
  moreover have "owned r i d" if "find_job i d = Some j" "tj_recordingId j = r" for j d
    using that find_SomeD unfolding owned_def find_job_def by fastforce
  ultimately show ?thesis unfolding validateJobRecording_def
    by (intro achieves_and_then achieves_option achieves_if keep_basic(3) achieves_succeed) (assumption, auto)
qed

text \<open>What an edit without a lease may rely on.\<close>

definition edit_allowed :: "string \<Rightarrow> string \<Rightarrow> job_tables \<Rightarrow> bool" where
  "edit_allowed r i d \<longleftrightarrow> owned r i d \<and> (\<exists>j. find_job i d = Some j \<and> editableState (tj_state j))"

lemma check_edit: "achieves P (validateOwnerlessEdit r i) (\<lambda>_ d. P d \<and> edit_allowed r i d)"
proof -
  have rest: "achieves Q (and_then (select f) (\<lambda>lease. case lease of None \<Rightarrow> succeed ()
       | Some None \<Rightarrow> validation InvalidStateTransition
       | Some (Some (expiresAt :: int)) \<Rightarrow>
           and_then clock (\<lambda>now. if expiresAt > now then validation InvalidStateTransition else succeed ()))) (\<lambda>_. Q)"
    for Q and f :: "job_tables \<Rightarrow> int option option"
    by (intro keep)
  show ?thesis unfolding validateOwnerlessEdit_def
    by (intro achieves_and_then[OF check_recording] achieves_if keep_basic(3) achieves_weaken[OF rest])
      (auto simp: edit_allowed_def)
qed

lemma delete_segments_store:
  "store_ok d \<Longrightarrow> store_ok (d\<lparr>db_segments := filter P (db_segments d)\<rparr>)"
proof -
  assume d: "store_ok d"
  then have "\<forall>s \<in> set (filter P (db_segments d)). ts_jobId s \<in> job_ids d"
    by (simp add: store_ok_def inv_but_def base_ok_def keys_ok_def)
  then have "inv_but {} (d\<lparr>db_segments := filter P (db_segments d)\<rparr>)"
    using d by (intro segments_inv) (simp_all add: store_ok_def)
  moreover have "transcripts_ok (d\<lparr>db_segments := filter P (db_segments d)\<rparr>)"
    by (rule transcripts_filter[of d _ P]) (use d in \<open>simp_all add: store_ok_def seg_refs_def\<close>)
  ultimately show ?thesis by (simp add: store_ok_def)
qed

lemma clear_job: "achieves (\<lambda>d. store_ok d \<and> owned r i d) (exec (delete_segments (\<lambda>s. ts_jobId s = i)))
    (\<lambda>_ d. store_ok d \<and> owned r i d \<and> (\<forall>t \<in> set (db_segments d). ts_jobId t \<noteq> i))"
  by (rule achieves_exec) (auto simp: delete_segments_def delete_segments_store owned_def)

lemma keep_search: "achieves store_ok (rebuildRecording r) (\<lambda>_. store_ok)"
  by (rule keep_basic)

lemma keep_validate [keep]: "achieves P (validateSegments segs allow) (\<lambda>_. P)"
  unfolding validateSegments_def by (intro keep)

lemma check_owned: "achieves store_ok (validateOwnerlessEdit r i) (\<lambda>_ d. store_ok d \<and> owned r i d)"
  by (rule achieves_weaken[OF check_edit[where P = store_ok]]) (auto simp: edit_allowed_def)

lemma replaceTranscript_store: "achieves store_ok (replaceTranscript u r i segs) (\<lambda>_. store_ok)"
  unfolding replaceTranscript_def
  by (intro achieves_and_then[OF keep_validate] achieves_transaction achieves_and_then[OF check_owned]
      achieves_and_then[OF keep_basic(2)] achieves_if keep_basic(3) achieves_and_then[OF clear_job]
      achieves_and_then[OF insertSegments_store] keep_search) simp

lemma saveEditedTranscript_store: "achieves store_ok (saveEditedTranscript u r i segs) (\<lambda>_. store_ok)"
  unfolding saveEditedTranscript_def
  by (intro achieves_and_then[OF keep_validate] achieves_transaction achieves_and_then[OF check_owned]
      achieves_and_then[OF clear_job] achieves_and_then[OF insertSegments_store] keep_search) simp

text \<open>A chunk result joined to what is stored can be inserted.\<close>

lemma combined_spaced:
  assumes "segments_ok (db_segments d)"
    and "existing = sort_key ts_ordinal (filter (\<lambda>s. ts_jobId s = i \<and> (True \<or> \<not> ts_provisional s)) (db_segments d))"
  shows "sorted_wrt spaced (combined_segments k True n existing segs)"
proof -
  have "sorted_wrt spaced existing" unfolding assms(2) by (intro sort_spaced stored_spaced[OF assms(1)]) auto
  then have "sorted_wrt spaced (filter (\<lambda>s. ts_chunkId s \<noteq> k) existing)" by (rule sorted_wrt_filter)
  moreover have "sorted_wrt spaced (map (\<lambda>s. s\<lparr>ts_chunkId := k, ts_provisional := True, ts_attempt := n\<rparr>) segs)"
    by (induction segs) (auto simp: spaced_def)
  ultimately show ?thesis unfolding combined_segments_def
    by (intro sort_spaced) (auto simp: sorted_wrt_append spaced_def)
qed

lemma check_owned_recording: "achieves store_ok (validateJobRecording r i) (\<lambda>_ d. store_ok d \<and> owned r i d)"
  by (rule achieves_weaken[OF check_recording[where P = store_ok]]) auto

lemma keep_chunk_check [keep]: "achieves P (validateChunkJob k i) (\<lambda>_. P)"
  unfolding validateChunkJob_def by (intro keep)

lemma replaceChunk_store: "achieves store_ok (replaceChunk uc u r i k segs prov n ow) (\<lambda>_. store_ok)"
proof -
  have load: "achieves (\<lambda>d. store_ok d \<and> owned r i d) (loadSegments i True)
      (\<lambda>x d. (store_ok d \<and> owned r i d) \<and> (\<not> prov \<or> sorted_wrt spaced (combined_segments k prov n x segs)))"
    unfolding loadSegments_def
    by (rule achieves_select) (auto simp: store_ok_def transcripts_ok_def intro: combined_spaced[OF _ refl, simplified])
  show ?thesis unfolding replaceChunk_def
    by (intro keep_lease_transaction achieves_and_then[OF check_owned_recording] achieves_and_then[OF keep_chunk_check]
      achieves_and_then[OF load] achieves_pure achieves_if keep_basic(3) achieves_and_then[OF clear_job]
      achieves_and_then[OF insertSegments_store] keep_search achieves_succeed) auto
qed

text \<open>Changing one segment in place.\<close>

lemma update_segments_store:
  assumes "update_segments (\<lambda>s. ts_id s = ts_id k \<and> ts_jobId s = ts_jobId k \<and> ts_recordingId s = ts_recordingId k) f d
      = Some (n, d')" "store_ok d"
    and f: "\<And>s. ts_id (f s) = ts_id s \<and> ts_jobId (f s) = ts_jobId s \<and> ts_recordingId (f s) = ts_recordingId s
      \<and> ts_chunkId (f s) = ts_chunkId s \<and> ts_ordinal (f s) = ts_ordinal s \<and> ts_provisional (f s) = ts_provisional s
      \<and> ts_startMs (f s) = lo \<and> ts_endMs (f s) = hi"
    and free: "\<And>t. t \<in> set (db_segments d) \<Longrightarrow> ts_jobId t = ts_jobId k \<Longrightarrow> ts_id t \<noteq> ts_id k
      \<Longrightarrow> hi \<le> ts_startMs t \<or> ts_endMs t \<le> lo"
  shows "store_ok d'"
proof -
  let ?P = "\<lambda>s. ts_id s = ts_id k \<and> ts_jobId s = ts_jobId k \<and> ts_recordingId s = ts_recordingId k"
  let ?g = "\<lambda>s. if ?P s then f s else s"
  have d': "d' = d\<lparr>db_segments := map ?g (db_segments d)\<rparr>" and row: "list_all (segment_row_ok d) (map ?g (db_segments d))"
    using assms(1) unfolding update_segments_def Let_def by (auto split: if_splits)
  have g: "ts_id (?g s) = ts_id s" "ts_jobId (?g s) = ts_jobId s" "ts_recordingId (?g s) = ts_recordingId s"
    "ts_chunkId (?g s) = ts_chunkId s" "seg_key (?g s) = seg_key s" "ts_provisional (?g s) = ts_provisional s" for s
    using f[of s] by (simp_all add: seg_key_def)
  have old: "segments_ok (db_segments d)" "\<forall>s \<in> set (db_segments d). seg_refs d s"
    using assms(2) by (simp_all add: store_ok_def transcripts_ok_def)
  have "apart (?g s) (?g t)" if s: "s \<in> set (db_segments d)" "t \<in> set (db_segments d)" "ts_id s \<noteq> ts_id t" for s t
  proof -
    have "apart s t" using old(1) s by (simp add: segments_ok_def)
    moreover have "ts_jobId t = ts_jobId s \<Longrightarrow> ?P s \<Longrightarrow> \<not> ?P t \<and> (hi \<le> ts_startMs t \<or> ts_endMs t \<le> lo)"
      "ts_jobId t = ts_jobId s \<Longrightarrow> ?P t \<Longrightarrow> \<not> ?P s \<and> (hi \<le> ts_startMs s \<or> ts_endMs s \<le> lo)"
      using free[of t] free[of s] s by auto
    ultimately show ?thesis using f[of s] f[of t] by (auto simp: apart_def)
  qed
  then have "\<forall>s \<in> set (map ?g (db_segments d)). \<forall>t \<in> set (map ?g (db_segments d)). ts_id s \<noteq> ts_id t \<longrightarrow> apart s t"
    using g(1) by (simp only: set_map ball_simps) metis
  moreover have ids: "map ts_id (map ?g (db_segments d)) = map ts_id (db_segments d)"
    "map seg_key (map ?g (db_segments d)) = map seg_key (db_segments d)" using g by (simp_all add: comp_def)
  moreover have "\<forall>s \<in> set (map ?g (db_segments d)). 0 \<le> ts_startMs s \<and> ts_startMs s < ts_endMs s"
    using row unfolding list_all_iff segment_row_ok_def by blast
  moreover have rows: "db_segments d' = map ?g (db_segments d)" by (simp add: d')
  ultimately have "segments_ok (db_segments d')" using old(1) unfolding segments_ok_def rows ids by blast
  moreover have "\<forall>s \<in> set (db_segments d'). seg_refs d' s" unfolding rows set_map ball_simps
  proof (intro ballI)
    fix s assume "s \<in> set (db_segments d)"
    then show "seg_refs d' (?g s)" using old(2) g by (simp add: seg_refs_def d')
  qed
  ultimately have "transcripts_ok d'" unfolding transcripts_ok_def by blast
  moreover have "inv_but {} d'" unfolding d'
    by (rule segments_inv) (use assms(2) row in \<open>auto simp: store_ok_def list_all_iff segment_row_ok_def job_ids_def\<close>)
  ultimately show ?thesis by (simp add: store_ok_def)
qed

lemma loadSegment_value: "achieves P (loadSegment i) (\<lambda>x d. P d \<and> (\<forall>s. x = Some s \<longrightarrow> s \<in> set (db_segments d) \<and> ts_id s = i))"
  unfolding loadSegment_def by (rule achieves_select) (auto dest: find_SomeD)

lemma saveEditedSegment_store: "achieves store_ok (saveEditedSegment g) (\<lambda>_. store_ok)"
proof -
  let ?P = "\<lambda>k s. ts_id s = ts_id k \<and> ts_jobId s = ts_jobId k \<and> ts_recordingId s = ts_recordingId k"
  let ?f = "\<lambda>now s. s\<lparr>ts_startMs := ts_startMs g, ts_endMs := ts_endMs g, ts_editedText := ts_editedText g,
      ts_replacementAudit := ts_replacementAudit g, ts_reviewed := ts_reviewed g, ts_updatedAt := Some now\<rparr>"
  let ?free = "\<lambda>k d. \<forall>t \<in> set (db_segments d). ts_jobId t = ts_jobId k \<longrightarrow> ts_id t \<noteq> ts_id k
      \<longrightarrow> ts_endMs g \<le> ts_startMs t \<or> ts_endMs t \<le> ts_startMs g"
  have overlap: "achieves store_ok (select (\<lambda>d. list_ex (\<lambda>s. ts_jobId s = ts_jobId k \<and> ts_id s \<noteq> ts_id k
      \<and> ts_startMs s < ts_endMs g \<and> ts_endMs s > ts_startMs g) (db_segments d)))
    (\<lambda>x d. store_ok d \<and> (\<not> x \<longrightarrow> ?free k d))" for k
    by (rule achieves_select) (force simp: list_ex_iff)
  have update: "achieves (\<lambda>d. store_ok d \<and> ?free k d) (exec (update_segments (?P k) (?f now))) (\<lambda>_. store_ok)" for k now
    by (rule achieves_exec, erule update_segments_store[where lo = "ts_startMs g" and hi = "ts_endMs g"]) auto
  have body: "achieves (\<lambda>d. store_ok d \<and> (\<not> x \<longrightarrow> ?free k d)) (if x then validation InvalidArgument
      else and_then clock (\<lambda>now. and_then (exec (update_segments (?P k) (?f now))) (\<lambda>rows.
        if rows = 0 then validation NotFound else rebuildRecording (ts_recordingId k)))) (\<lambda>_. store_ok)" for x k
    by (cases x) (simp_all add: keep_basic, intro achieves_and_then[OF achieves_clock] achieves_and_then[OF update]
        achieves_if keep_basic)
  note check = check_edit[where P = store_ok, THEN achieves_weaken, where Q' = "\<lambda>_. store_ok"]
  show ?thesis unfolding saveEditedSegment_def
    by (intro achieves_if keep_basic(3) achieves_transaction achieves_and_then[OF loadSegment_value] achieves_option
      achieves_and_then[OF check] achieves_and_then[OF overlap] body) auto
qed

lemma deleteSegment_store: "achieves store_ok (deleteSegment i) (\<lambda>_. store_ok)"
proof -
  have del: "achieves store_ok (exec (delete_segments P)) (\<lambda>_. store_ok)" for P
    by (rule achieves_exec) (auto simp: delete_segments_def delete_segments_store)
  have load: "achieves store_ok (loadSegment i) (\<lambda>_. store_ok)" unfolding loadSegment_def by (intro keep)
  have check: "achieves store_ok (validateOwnerlessEdit r j) (\<lambda>_. store_ok)" for r j
    by (rule reads_only_achieves[OF reads_ownerless])
  show ?thesis unfolding deleteSegment_def
    by (intro keep_and_then[OF load] keep keep_and_then[OF check] keep_and_then[OF del] achieves_transaction)
qed

subsection \<open>Runs\<close>

datatype store_op =
  OnJobs job_op
  | ReplaceTranscript "int \<Rightarrow> string" string string "transcript_segment list"
  | SaveTranscript "int \<Rightarrow> string" string string "transcript_segment list"
  | ReplaceChunk unicode "int \<Rightarrow> string" string string string "transcript_segment list" bool int string
  | SaveSegment transcript_segment
  | DeleteSegment string

fun apply_store :: "store_op \<Rightarrow> (job_tables, unit) dbop" where
  "apply_store (OnJobs op) = apply_op op"
| "apply_store (ReplaceTranscript u r i segs) = replaceTranscript u r i segs"
| "apply_store (SaveTranscript u r i segs) = saveEditedTranscript u r i segs"
| "apply_store (ReplaceChunk uc u r i k segs prov n ow) = replaceChunk uc u r i k segs prov n ow"
| "apply_store (SaveSegment s) = saveEditedSegment s"
| "apply_store (DeleteSegment i) = deleteSegment i"

definition run_store :: "job_tables connection \<Rightarrow> store_op list \<Rightarrow> job_tables connection" where
  "run_store = foldl (\<lambda>c op. snd (apply_store op c))"

lemma apply_store_keeps: "achieves store_ok (apply_store op) (\<lambda>_. store_ok)"
proof (cases op)
  case (OnJobs op)
  then show ?thesis using apply_op_keeps[of op] apply_op_transcripts[of op]
    unfolding achieves_def store_ok_def by simp
qed (simp_all add: replaceTranscript_store saveEditedTranscript_store replaceChunk_store
    saveEditedSegment_store deleteSegment_store)

lemma reads_validate: "reads_only (validateSegments segs allow)"
  unfolding validateSegments_def by (cases "validate_segments allow (-1) segs") (simp_all add: atomics)

lemma apply_store_atomic: "atomic (apply_store op)"
  by (cases op)
    (simp_all add: apply_op_atomic replaceTranscript_def saveEditedTranscript_def replaceChunk_def
      saveEditedSegment_def deleteSegment_def atomics reads_validate)

interpretation store: machine "\<lambda>c op. snd (apply_store op c)" "\<lambda>c. store_ok (cn_db c)"
proof
  fix c :: "job_tables connection" and op
  assume ok: "store_ok (cn_db c)"
  obtain r c' where r: "apply_store op c = (r, c')" by fastforce
  show "store_ok (cn_db (snd (apply_store op c)))"
  proof (cases r)
    case (Inl e)
    then show ?thesis using apply_store_atomic[of op] r ok by (auto simp: atomic_def)
  next
    case (Inr u)
    then show ?thesis using achievesD[OF apply_store_keeps, of op c u c'] r ok by simp
  qed
qed

subsection \<open>Properties\<close>

text \<open>
  C6: Whatever the processes that share the database do, in whatever order and whichever
  statements fail, stored transcripts stay sound: every segment has a time range and belongs to a
  job of its recording, and to a chunk of that job if to any; no two segments share an identifier
  or a place in a transcript; the finished segments of a job do not overlap.
\<close>

theorem stored_transcripts_sound:
  assumes "store_ok (cn_db c)" and "d = cn_db (run_store c ops)" and "s \<in> set (db_segments d)"
  shows "0 \<le> ts_startMs s \<and> ts_startMs s < ts_endMs s
    \<and> (\<exists>j \<in> set (db_jobs d). tj_id j = ts_jobId s \<and> tj_recordingId j = ts_recordingId s)
    \<and> (ts_chunkId s = [] \<or> (\<exists>k \<in> set (db_chunks d). jc_id k = ts_chunkId s \<and> jc_jobId k = ts_jobId s))
    \<and> distinct (map ts_id (db_segments d)) \<and> distinct (map (\<lambda>t. (ts_jobId t, ts_ordinal t)) (db_segments d))
    \<and> (\<forall>t \<in> set (db_segments d). ts_jobId t = ts_jobId s \<and> ts_id t \<noteq> ts_id s \<and> \<not> ts_provisional s
        \<and> \<not> ts_provisional t \<longrightarrow> ts_endMs s \<le> ts_startMs t \<or> ts_endMs t \<le> ts_startMs s)"
proof -
  have "store_ok d" using store.run_inv[OF assms(1), of ops] assms(2) by (simp add: run_store_def)
  then have segs: "segments_ok (db_segments d)" and refs: "seg_refs d s"
    using assms(3) by (simp_all add: store_ok_def transcripts_ok_def)
  have key: "seg_key = (\<lambda>t. (ts_jobId t, ts_ordinal t))" by (rule ext) (simp add: seg_key_def)
  have "ts_endMs s \<le> ts_startMs t \<or> ts_endMs t \<le> ts_startMs s"
    if "t \<in> set (db_segments d)" "ts_jobId t = ts_jobId s \<and> ts_id t \<noteq> ts_id s \<and> \<not> ts_provisional s \<and> \<not> ts_provisional t"
    for t
    using segs assms(3) that by (auto simp: segments_ok_def apart_def)
  moreover have "0 \<le> ts_startMs s \<and> ts_startMs s < ts_endMs s" "distinct (map ts_id (db_segments d))"
    "distinct (map (\<lambda>t. (ts_jobId t, ts_ordinal t)) (db_segments d))"
    using segs assms(3) unfolding segments_ok_def key by blast+
  moreover have "(\<exists>j \<in> set (db_jobs d). tj_id j = ts_jobId s \<and> tj_recordingId j = ts_recordingId s)
    \<and> (ts_chunkId s = [] \<or> (\<exists>k \<in> set (db_chunks d). jc_id k = ts_chunkId s \<and> jc_jobId k = ts_jobId s))"
    using refs unfolding seg_refs_def by blast
  ultimately show ?thesis by blast
qed

text \<open>What a successful insertion stores.\<close>

definition stored_rows ::
  "(int \<Rightarrow> string) \<Rightarrow> string \<Rightarrow> string \<Rightarrow> int \<Rightarrow> nat \<Rightarrow> transcript_segment list \<Rightarrow> transcript_segment list" where
  "stored_rows u r i now n segs = map (\<lambda>(k, s). segment_row u r i now (int k) s) (enumerate n segs)"

lemma stored_rows_simps [simp]:
  "stored_rows u r i now n [] = []"
  "stored_rows u r i now n (s # segs) = segment_row u r i now (int n) s # stored_rows u r i now (Suc n) segs"
  by (simp_all add: stored_rows_def)

lemma insert_segments_rows:
  "achieves (\<lambda>d. db_segments d = ss) (insert_segments u r i now (int n) V segs)
     (\<lambda>_ d. db_segments d = ss @ stored_rows u r i now n segs)"
proof (induction segs arbitrary: n V ss)
  case Nil
  show ?case unfolding insert_segments.simps by (rule achieves_succeed) simp
next
  case (Cons s segs)
  have row: "achieves (\<lambda>d. db_segments d = ss) (exec (insert_segment_row (segment_row u r i now (int n) s)))
      (\<lambda>_ d. db_segments d = ss @ [segment_row u r i now (int n) s])"
    by (rule achieves_exec) (auto simp: insert_segment_row_def split: if_splits)
  have check: "achieves (\<lambda>d. db_segments d = ss) (if c \<noteq> [] \<and> c \<notin> V
      then and_then (validateChunkJob c i) (\<lambda>_. succeed (insert c V)) else succeed V) (\<lambda>_ d. db_segments d = ss)" for c
    by (intro keep)
  have rest: "achieves (\<lambda>d. db_segments d = ss @ [segment_row u r i now (int n) s])
      (insert_segments u r i now (int n + 1) W segs)
      (\<lambda>_ d. db_segments d = ss @ stored_rows u r i now n (s # segs))" for W
    using Cons.IH[of "ss @ [segment_row u r i now (int n) s]" "Suc n" W] by (simp add: add.commute)
  show ?case unfolding insert_segments.simps
    by (intro achieves_if keep_basic(3) achieves_and_then[OF check] achieves_and_then[OF row] rest)
qed

lemma insertSegments_rows:
  "achieves (\<lambda>d. db_segments d = ss) (insertSegments u r i segs allow)
     (\<lambda>_ d. \<exists>now. db_segments d = ss @ stored_rows u r i now 0 segs)"
proof -
  have loop: "achieves (\<lambda>d. db_segments d = ss) (insert_segments u r i now 0 {} segs)
      (\<lambda>_ d. \<exists>now. db_segments d = ss @ stored_rows u r i now 0 segs)" for now
    by (rule achieves_weaken[OF insert_segments_rows[of ss u r i now 0, simplified]]) auto
  show ?thesis unfolding insertSegments_def
    by (intro achieves_and_then[OF keep_validate] achieves_and_then[OF achieves_clock] loop)
qed

lemma clear_rows: "achieves (\<lambda>d. db_segments d = ss) (exec (delete_segments P))
    (\<lambda>_ d. db_segments d = filter (\<lambda>s. \<not> P s) ss)"
  by (rule achieves_exec) (auto simp: delete_segments_def)

lemma keep_edit_check [keep]: "achieves P (validateOwnerlessEdit r i) (\<lambda>_. P)"
  by (rule reads_only_achieves[OF reads_ownerless])

lemma saveEditedTranscript_rows:
  "achieves (\<lambda>d. db_segments d = ss) (saveEditedTranscript u r i segs)
     (\<lambda>_ d. \<exists>now. db_segments d = filter (\<lambda>s. ts_jobId s \<noteq> i) ss @ stored_rows u r i now 0 segs)"
  unfolding saveEditedTranscript_def
  by (intro achieves_and_then[OF keep_validate] achieves_transaction achieves_and_then[OF keep_edit_check]
      achieves_and_then[OF clear_rows] achieves_and_then[OF insertSegments_rows] keep_basic)

lemma stored_rows_ordinals: "map ts_ordinal (stored_rows u r i now n segs) = map int [n..<n + length segs]"
  by (simp add: stored_rows_def case_prod_unfold comp_def flip: map_fst_enumerate)

lemma sorted_rows: "sort_key ts_ordinal (stored_rows u r i now n segs) = stored_rows u r i now n segs"
  by (rule sort_key_id_if_sorted) (simp add: stored_rows_ordinals sorted_map)

lemma stored_rows_job: "s \<in> set (stored_rows u r i now n segs) \<Longrightarrow> ts_jobId s = i"
  by (auto simp: stored_rows_def)

text \<open>
  C9: A saved transcript reads back. After the user's transcript has been saved, reading the
  transcript of the job returns the segments that were given, in their order, with their times and
  texts, numbered from zero, under the job and the recording.
\<close>

theorem saved_transcript_reads_back:
  assumes "saveEditedTranscript u r i segs c = (Inr v, c')" and "segmentsForJob i True c' = (Inr out, c'')"
  shows "map (\<lambda>s. (ts_startMs s, ts_endMs s, ts_originalText s, ts_editedText s, ts_replacementAudit s))  out
      = map (\<lambda>s. (ts_startMs s, ts_endMs s, ts_originalText s, ts_editedText s, ts_replacementAudit s)) segs
    \<and> map ts_ordinal out = map int [0..<length segs] \<and> (\<forall>s \<in> set out. ts_jobId s = i \<and> ts_recordingId s = r)"
proof -
  obtain now where rows: "db_segments (cn_db c') = filter (\<lambda>s. ts_jobId s \<noteq> i) (db_segments (cn_db c))
      @ stored_rows u r i now 0 segs"
    using achievesD[OF saveEditedTranscript_rows assms(1) refl] by blast
  have "out = sort_key ts_ordinal (filter (\<lambda>s. ts_jobId s = i) (db_segments (cn_db c')))"
    using assms(2) unfolding segmentsForJob_def loadSegments_def by (auto dest!: connectionD selectD)
  also have "\<dots> = stored_rows u r i now 0 segs"
    unfolding rows filter_append filter_filter
    using stored_rows_job[of _ u r i now 0 segs] by (simp add: filter_id_conv sorted_rows)
  finally have out: "out = stored_rows u r i now 0 segs" .
  have "map (\<lambda>s. (ts_startMs s, ts_endMs s, ts_originalText s, ts_editedText s, ts_replacementAudit s)) (stored_rows u r i now n segs)
      = map (\<lambda>s. (ts_startMs s, ts_endMs s, ts_originalText s, ts_editedText s, ts_replacementAudit s)) segs" for n
    by (induction segs arbitrary: n) (simp_all add: segment_row_def)
  moreover have "\<forall>s \<in> set out. ts_recordingId s = r" unfolding out by (auto simp: stored_rows_def)
  ultimately show ?thesis using stored_rows_ordinals[of u r i now 0 segs] stored_rows_job unfolding out by auto
qed

lemma replaceChunk_rows:
  "achieves (\<lambda>d. db_segments d = ss) (replaceChunk uc u r i k segs prov n ow)
     (\<lambda>_ d. (\<forall>s \<in> set ss. ts_jobId s = i \<and> ts_chunkId s = k \<longrightarrow> \<not> hasManualTextEdit uc s)
        \<and> (\<exists>now. db_segments d = filter (\<lambda>s. ts_jobId s \<noteq> i) ss @ stored_rows u r i now 0
             (combined_segments k prov n (sort_key ts_ordinal (filter (\<lambda>s. ts_jobId s = i) ss)) segs)))"
    (is "achieves _ _ ?post")
proof -
  let ?old = "sort_key ts_ordinal (filter (\<lambda>s. ts_jobId s = i) ss)"
  have load: "achieves (\<lambda>d. db_segments d = ss) (loadSegments i True) (\<lambda>x d. db_segments d = ss \<and> x = ?old)"
    unfolding loadSegments_def by (rule achieves_select) simp
  have finish: "achieves (\<lambda>d. \<exists>now. db_segments d = filter (\<lambda>s. ts_jobId s \<noteq> i) ss
        @ stored_rows u r i now 0 (combined_segments k prov n ?old segs))
      (if prov then succeed () else rebuildRecording r) (\<lambda>_. ?post ())"
    if "\<not> list_ex (\<lambda>s. ts_chunkId s = k \<and> hasManualTextEdit uc s) ?old"
  proof -
    have "\<forall>s \<in> set ss. ts_jobId s = i \<and> ts_chunkId s = k \<longrightarrow> \<not> hasManualTextEdit uc s"
      using that by (auto simp: list_ex_iff)
    moreover have keep: "achieves P (if prov then succeed () else rebuildRecording r) (\<lambda>_. P)" for P
      by (intro achieves_if keep_basic)
    ultimately show ?thesis by (intro achieves_weaken[OF keep]) auto
  qed
  have body: "achieves (\<lambda>d. db_segments d = ss) (if list_ex (\<lambda>s. ts_chunkId s = k \<and> hasManualTextEdit uc s) x
       then validation InvalidStateTransition
       else and_then (exec (delete_segments (\<lambda>s. ts_jobId s = i))) (\<lambda>_.
         and_then (insertSegments u r i (combined_segments k prov n x segs) prov) (\<lambda>_.
         if prov then succeed () else rebuildRecording r))) ?post" if "x = ?old" for x
    unfolding that by (intro achieves_if[OF keep_basic(3)] achieves_and_then[OF clear_rows]
        achieves_and_then[OF insertSegments_rows] finish)
  have job: "achieves P (validateJobRecording r i) (\<lambda>_. P)" for P
    unfolding validateJobRecording_def by (intro keep)
  show ?thesis unfolding replaceChunk_def
    by (intro keep_lease_transaction achieves_and_then[OF job] achieves_and_then[OF keep_chunk_check]
        achieves_and_then[OF load] achieves_pure body)
qed

text \<open>
  C8: The worker never overwrites what the user wrote. After a chunk result has been stored, every
  segment that carried a manual edit is still there with its identifier, times and texts, and is
  marked as before.
\<close>

theorem manual_edits_survive:
  assumes "replaceChunk uc u r i k segs prov n ow c = (Inr v, c')" and "s \<in> set (db_segments (cn_db c))"
    and "hasManualTextEdit uc s" and "ts_id s \<noteq> []"
  shows "\<exists>t \<in> set (db_segments (cn_db c')). ts_id t = ts_id s \<and> ts_jobId t = ts_jobId s
    \<and> ts_startMs t = ts_startMs s \<and> ts_endMs t = ts_endMs s \<and> ts_originalText t = ts_originalText s
    \<and> ts_editedText t = ts_editedText s \<and> ts_reviewed t = ts_reviewed s \<and> ts_provisional t = ts_provisional s"
proof -
  let ?ss = "db_segments (cn_db c)"
  let ?all = "combined_segments k prov n (sort_key ts_ordinal (filter (\<lambda>s. ts_jobId s = i) ?ss)) segs"
  obtain now where other: "\<forall>s \<in> set ?ss. ts_jobId s = i \<and> ts_chunkId s = k \<longrightarrow> \<not> hasManualTextEdit uc s"
    and rows: "db_segments (cn_db c') = filter (\<lambda>s. ts_jobId s \<noteq> i) ?ss @ stored_rows u r i now 0 ?all"
    using achievesD[OF replaceChunk_rows assms(1) refl] by blast
  show ?thesis
  proof (cases "ts_jobId s = i")
    case False
    then have "s \<in> set (db_segments (cn_db c'))" using assms(2) rows by simp
    then show ?thesis by blast
  next
    case True
    then have "ts_chunkId s \<noteq> k" using other assms(2,3) by blast
    then have "s \<in> set ?all" using assms(2) True by (simp add: combined_segments_def)
    then obtain m where m: "m < length ?all" "?all ! m = s" by (auto simp: in_set_conv_nth)
    let ?t = "segment_row u r i now (int m) s"
    have "?t = stored_rows u r i now 0 ?all ! m" using m by (simp add: stored_rows_def nth_enumerate_eq)
    then have "?t \<in> set (db_segments (cn_db c'))" using rows m(1) by (simp add: stored_rows_def)
    then show ?thesis using True assms(4) by (intro bexI[of _ ?t]) (simp_all add: segment_row_def)
  qed
qed

text \<open>The job whose transcript an operation of the user changes.\<close>

fun edited_job :: "store_op \<Rightarrow> job_tables \<Rightarrow> string option" where
  "edited_job (ReplaceTranscript u r i segs) d = Some i"
| "edited_job (SaveTranscript u r i segs) d = Some i"
| "edited_job (SaveSegment s) d = Some (ts_jobId s)"
| "edited_job (DeleteSegment i) d = map_option ts_jobId (find (\<lambda>s. ts_id s = i) (db_segments d))"
| "edited_job _ d = None"

definition idle_job :: "string \<Rightarrow> int \<Rightarrow> job_tables \<Rightarrow> bool" where
  "idle_job i now d \<longleftrightarrow> (\<exists>j. find_job i d = Some j \<and> \<not> isRunning (tj_state j))
     \<and> (\<forall>l t. db_lease d = Some l \<and> el_jobId l = i \<and> el_expiresAt l = Some t \<longrightarrow> t \<le> now)"

lemma ownerless_idle:
  assumes "validateOwnerlessEdit r i c = (Inr u, c')"
  shows "idle_job i (cn_time c) (cn_db c)"
proof -
  let ?row = "\<lambda>d. case db_lease d of Some l \<Rightarrow> if el_jobId l = i then Some (el_expiresAt l) else None | None \<Rightarrow> None"
  let ?rest = "and_then (select ?row) (\<lambda>lease. case lease of None \<Rightarrow> succeed ()
       | Some None \<Rightarrow> validation InvalidStateTransition
       | Some (Some expiresAt) \<Rightarrow>
           and_then clock (\<lambda>now. if expiresAt > now then validation InvalidStateTransition else succeed ()))"
  obtain s c1 where s: "validateJobRecording r i c = (Inr s, c1)"
    and "(if \<not> editableState s then validation InvalidStateTransition else ?rest) c1 = (Inr u, c')"
    using assms unfolding validateOwnerlessEdit_def by (rule and_then_elim)
  then have ok: "editableState s" and rest: "?rest c1 = (Inr u, c')"
    by (cases "editableState s"; simp add: validation_def del: and_then_success)+
  have job: "\<exists>j. find_job i (cn_db c) = Some j \<and> tj_state j = s" "cn_db c1 = cn_db c" "cn_time c1 = cn_time c"
  proof -
    obtain x c2 where x: "select (find_job i) c = (Inr x, c2)" and "(case x of None \<Rightarrow> validation NotFound
        | Some j \<Rightarrow> if tj_recordingId j \<noteq> r then validation InvalidArgument else succeed (tj_state j)) c2 = (Inr s, c1)"
      using s unfolding validateJobRecording_def by (rule and_then_elim)
    then have "c1 = c2 \<and> (\<exists>j. x = Some j \<and> tj_state j = s)"
      by (cases x) (auto simp: validation_def split: if_splits)
    then show "\<exists>j. find_job i (cn_db c) = Some j \<and> tj_state j = s" "cn_db c1 = cn_db c" "cn_time c1 = cn_time c"
      using selectD[OF x] by auto
  qed
  have "\<not> isRunning s" using ok by (auto simp: editableState_def)
  moreover have "t \<le> cn_time c" if row: "?row (cn_db c) = Some (Some t)" for t
  proof -
    obtain lease c3 where l: "select ?row c1 = (Inr lease, c3)" and body: "(case lease of None \<Rightarrow> succeed ()
         | Some None \<Rightarrow> validation InvalidStateTransition
         | Some (Some expiresAt) \<Rightarrow> and_then clock (\<lambda>now.
             if expiresAt > now then validation InvalidStateTransition else succeed ())) c3 = (Inr u, c')"
      by (rule and_then_elim[OF rest])
    have "lease = Some (Some t)" "cn_time c3 = cn_time c" using selectD[OF l] row job(2,3) by simp_all
    then obtain now c4 where "clock c3 = (Inr now, c4)" "\<not> t > now"
      using body by (auto simp: validation_def split: if_splits)
    then show ?thesis using clockD[of c3 now c4] \<open>cn_time c3 = cn_time c\<close> by simp
  qed
  ultimately show ?thesis using job(1) unfolding idle_job_def by fastforce
qed

lemma validateSegmentsD: "validateSegments segs allow c = (Inr u, c') \<Longrightarrow> c' = c"
  unfolding validateSegments_def by (cases "validate_segments allow (-1) segs") simp_all

text \<open>An operation that succeeded has checked what an edit needs, on the tables it started from.\<close>

lemma transaction_checked:
  assumes "immediateTransaction m c = (Inr v, c')"
    and "\<And>c1 c2. cn_db c1 = cn_db c \<Longrightarrow> cn_time c1 = cn_time c \<Longrightarrow> m c1 = (Inr v, c2) \<Longrightarrow>
      \<exists>r u c3 c4. validateOwnerlessEdit r i c3 = (Inr u, c4) \<and> cn_db c3 = cn_db c \<and> cn_time c3 = cn_time c"
  shows "idle_job i (cn_time c) (cn_db c)"
proof -
  obtain c1 c2 where c1: "cn_db c1 = cn_db c" "cn_time c1 = cn_time c" "m c1 = (Inr v, c2)" "cn_db c' = cn_db c2"
    by (rule transaction_success[OF assms(1)])
  from assms(2)[OF c1(1-3)] obtain r u c3 c4 where
    "validateOwnerlessEdit r i c3 = (Inr u, c4)" "cn_db c3 = cn_db c" "cn_time c3 = cn_time c" by blast
  then show ?thesis using ownerless_idle[of r i c3 u c4] by simp
qed

lemma first_checked:
  assumes "immediateTransaction (and_then (validateOwnerlessEdit r i) f) c = (Inr v, c')"
  shows "idle_job i (cn_time c) (cn_db c)"
  by (rule transaction_checked[OF assms]) (erule and_then_elim, blast)

lemma segment_checked:
  assumes "immediateTransaction (and_then (loadSegment k) f) c = (Inr v, c')"
    and "\<And>s. find (\<lambda>s. ts_id s = k) (db_segments (cn_db c)) = Some s \<Longrightarrow>
      (\<exists>r g. f (Some s) = and_then (validateOwnerlessEdit r i) g) \<or> (\<forall>c2. fst (f (Some s) c2) \<noteq> Inr v)"
    and "find (\<lambda>s. ts_id s = k) (db_segments (cn_db c)) = None \<Longrightarrow> \<forall>c2. fst (f None c2) \<noteq> Inr v"
  shows "idle_job i (cn_time c) (cn_db c)"
proof (rule transaction_checked[OF assms(1)])
  fix c1 c2 assume c1: "cn_db c1 = cn_db c" "cn_time c1 = cn_time c" "and_then (loadSegment k) f c1 = (Inr v, c2)"
  obtain x c3 where x: "loadSegment k c1 = (Inr x, c3)" "f x c3 = (Inr v, c2)" by (rule and_then_elim[OF c1(3)])
  have same: "x = find (\<lambda>s. ts_id s = k) (db_segments (cn_db c))" "cn_db c3 = cn_db c" "cn_time c3 = cn_time c"
    using selectD[OF x(1)[unfolded loadSegment_def]] c1(1,2) by simp_all
  have "x \<noteq> None"
  proof
    assume "x = None"
    then have "\<forall>c2. fst (f None c2) \<noteq> Inr v" using assms(3) same(1) by simp
    then show False using x(2) \<open>x = None\<close> by (metis fst_conv)
  qed
  then obtain s where s: "x = Some s" by blast
  then obtain r g where "f x = and_then (validateOwnerlessEdit r i) g"
    using assms(2)[of s] same(1) x(2) by (metis fst_conv)
  then obtain u c4 where "validateOwnerlessEdit r i c3 = (Inr u, c4)"
    using x(2) and_then_elim[of "validateOwnerlessEdit r i" g c3 v c2] by metis
  then show "\<exists>r u c3 c4. validateOwnerlessEdit r i c3 = (Inr u, c4) \<and> cn_db c3 = cn_db c \<and> cn_time c3 = cn_time c"
    using same(2,3) by blast
qed

text \<open>
  C7: Users and workers do not write the same transcript. An edit of the user succeeds only while
  the job of the transcript is not running and no unexpired lease is held for it; a chunk result of
  a worker only while the worker holds that lease.
\<close>

theorem edits_exclude_execution:
  assumes "apply_store op c = (Inr v, c')"
  shows "(\<forall>i. edited_job op (cn_db c) = Some i \<longrightarrow> idle_job i (cn_time c) (cn_db c))
    \<and> (\<forall>uc u r i k segs prov n ow. op = ReplaceChunk uc u r i k segs prov n ow \<longrightarrow> holds_lease i ow (cn_time c) (cn_db c))"
proof -
  have "idle_job i (cn_time c) (cn_db c)" if edited: "edited_job op (cn_db c) = Some i" for i
  proof (cases op)
    case (ReplaceTranscript u r j segs)
    then show ?thesis using assms edited unfolding ReplaceTranscript apply_store.simps replaceTranscript_def
      by (auto elim!: and_then_elim dest!: validateSegmentsD first_checked simp del: and_then_success)
  next
    case (SaveTranscript u r j segs)
    then show ?thesis using assms edited unfolding SaveTranscript apply_store.simps saveEditedTranscript_def
      by (auto elim!: and_then_elim dest!: validateSegmentsD first_checked simp del: and_then_success)
  next
    case (SaveSegment g)
    then have i: "i = ts_jobId g" using edited by simp
    have run: "\<not> (ts_startMs g < 0 \<or> ts_endMs g \<le> ts_startMs g)"
      using assms SaveSegment by (auto simp: saveEditedSegment_def validation_def)
    note body = assms[unfolded SaveSegment apply_store.simps saveEditedSegment_def if_not_P[OF run]]
    show ?thesis unfolding i by (rule segment_checked[OF body]) (auto simp: validation_def fail_def)
  next
    case (DeleteSegment k)
    then obtain s where s: "find (\<lambda>s. ts_id s = k) (db_segments (cn_db c)) = Some s" "i = ts_jobId s" using edited by auto
    note body = assms[unfolded DeleteSegment apply_store.simps deleteSegment_def]
    show ?thesis by (rule segment_checked[OF body]) (auto simp: s)
  qed (use edited in simp_all)
  moreover have "holds_lease i ow (cn_time c) (cn_db c)" if "op = ReplaceChunk uc u r i k segs prov n ow"
    for uc u r i k segs prov n ow
    by (rule leased_success[OF assms[unfolded that apply_store.simps replaceChunk_def]])
  ultimately show ?thesis by blast
qed

subsection \<open>Witnesses\<close>

definition sample_segment :: transcript_segment where
  "sample_segment = empty_segment\<lparr>ts_id := ''s'', ts_recordingId := ''r'', ts_jobId := ''j'', ts_endMs := 10,
     ts_originalText := [65], ts_editedText := [66]\<rparr>"

definition sample_transcript :: job_tables where
  "sample_transcript = sample_tables\<lparr>db_jobs := [sample_job], db_segments := [sample_segment]\<rparr>"

definition sample_worked :: job_tables where
  "sample_worked = sample_running\<lparr>db_segments := [sample_segment],
     db_chunks := [\<lparr>jc_id = ''k'', jc_jobId = ''j'', jc_ordinal = 0, jc_startMs = 0, jc_endMs = 100,
       jc_overlapBeforeMs = 0, jc_overlapAfterMs = 0, jc_state = ChunkRunning, jc_attempts = 1,
       jc_startedAt = None, jc_completedAt = None, jc_error = [], jc_resultHash = [], jc_diagnostics = []\<rparr>]\<rparr>"

lemma sample_transcript_ok: "store_ok sample_transcript"
  by (simp add: store_ok_def inv_but_def base_ok_def keys_ok_def events_ok_def active_ok_def single_execution_def
    lease_ok_but_def transcripts_ok_def segments_ok_def seg_refs_def sample_transcript_def sample_tables_def
    sample_job_def job_row_ok_def job_ids_def sample_segment_def empty_segment_def executing_def)

lemma stored_transcripts_sound_witness: "0 \<le> ts_startMs sample_segment \<and> ts_startMs sample_segment < ts_endMs sample_segment"
  using stored_transcripts_sound[of "at_time 5 sample_transcript" _ "[]" sample_segment] sample_transcript_ok
  by (simp add: run_store_def at_time_def) (simp add: sample_transcript_def)

lemmas segment_evaluation = evaluation validateOwnerlessEdit_def validateJobRecording_def find_job_def
  editableState_def delete_segments_def insertSegments_def validateSegments_def insert_segment_row_def
  segment_row_def segment_row_ok_def rebuildRecording_def loadSegment_def loadSegments_def

lemma sample_deletion: "\<exists>c'. apply_store (DeleteSegment ''s'') (at_time 5 sample_transcript) = (Inr (), c')"
  by (simp add: deleteSegment_def segment_evaluation at_time_def sample_transcript_def sample_tables_def
    sample_job_def sample_segment_def empty_segment_def)

lemma edits_exclude_execution_witness: "idle_job ''j'' 5 sample_transcript"
proof -
  obtain c' where "apply_store (DeleteSegment ''s'') (at_time 5 sample_transcript) = (Inr (), c')"
    using sample_deletion by blast
  moreover have "edited_job (DeleteSegment ''s'') (cn_db (at_time 5 sample_transcript)) = Some ''j''"
    by (simp add: at_time_def sample_transcript_def sample_segment_def empty_segment_def)
  ultimately show ?thesis using edits_exclude_execution by (fastforce simp: at_time_def)
qed

lemma sample_save: "\<exists>c'. saveEditedTranscript (\<lambda>_. []) ''r'' ''j'' [sample_segment] (at_time 5 sample_transcript) = (Inr (), c')
    \<and> (\<exists>out c''. segmentsForJob ''j'' True c' = (Inr out, c''))"
  by (simp add: saveEditedTranscript_def segmentsForJob_def segment_evaluation at_time_def sample_transcript_def
    sample_tables_def sample_job_def sample_segment_def empty_segment_def)

lemma saved_transcript_reads_back_witness:
  "\<exists>c' out c''. segmentsForJob ''j'' True c' = (Inr out, c'') \<and> map ts_editedText out = [[66]]"
proof -
  obtain c' out c'' where "saveEditedTranscript (\<lambda>_. []) ''r'' ''j'' [sample_segment] (at_time 5 sample_transcript) = (Inr (), c')"
    and r: "segmentsForJob ''j'' True c' = (Inr out, c'')" using sample_save by blast
  from saved_transcript_reads_back[OF this] have "map ts_editedText out = [[66]]"
    by (auto simp: map_eq_Cons_conv sample_segment_def)
  with r show ?thesis by (intro exI conjI)
qed

lemma sample_chunk: "\<exists>c'. replaceChunk uc (\<lambda>_. ''n'') ''r'' ''j'' ''k'' [] False 1 ''w'' (at_time 5 sample_worked) = (Inr (), c')"
  by (simp add: replaceChunk_def executionLeaseTransaction_def validateChunkJob_def combined_segments_def
    segment_evaluation at_time_def sample_worked_def sample_running_def sample_tables_def sample_job_def
    sample_segment_def empty_segment_def blank_def white_char_def)

lemma manual_edits_survive_witness:
  "\<exists>c'. replaceChunk ascii (\<lambda>_. ''n'') ''r'' ''j'' ''k'' [] False 1 ''w'' (at_time 5 sample_worked) = (Inr (), c')
     \<and> (\<exists>t \<in> set (db_segments (cn_db c')). ts_id t = ''s'' \<and> ts_editedText t = [66])"
proof -
  obtain c' where c': "replaceChunk ascii (\<lambda>_. ''n'') ''r'' ''j'' ''k'' [] False 1 ''w'' (at_time 5 sample_worked) = (Inr (), c')"
    using sample_chunk by blast
  have "sample_segment \<in> set (db_segments (cn_db (at_time 5 sample_worked)))" "hasManualTextEdit ascii sample_segment"
    "ts_id sample_segment \<noteq> []"
    by (simp_all add: at_time_def sample_worked_def hasManualTextEdit_def isEdited_def sample_segment_def empty_segment_def)
  from manual_edits_survive[OF c' this] show ?thesis using c' by (auto simp: sample_segment_def)
qed

end
