(* ===== verification/TranscriptExport.thy ===== *)
theory TranscriptExport
  imports GlossaryCsv Editor "HOL-Library.Product_Lexorder"
begin

text \<open>
  \<^verbatim>\<open>transcript/TranscriptExporter.cpp\<close>: the export formats, and \<open>auditToJson\<close> and
  \<open>auditFromJson\<close> of \<^verbatim>\<open>glossary/GlossaryPostProcessor.cpp\<close>. The loop that breaks subtitle lines
  is a partial function: not returning is \<open>None\<close>, and the first property is that it returns.
  The UTF-8 encoder, the JSON writer and the formatting of a probability with six decimals are
  parameters. The sort leaves the order of segments with equal keys open; the model keeps it.
\<close>

subsection \<open>JSON values\<close>

datatype json = JNull | JBool bool | JNumber real | JText qstring | JArray "json list"
  | JObject "(qstring \<times> json) list"

definition object_value :: "json \<Rightarrow> string \<Rightarrow> json option" where
  "object_value v key = (case v of JObject kvs \<Rightarrow> map_of kvs (lit key) | _ \<Rightarrow> None)"

definition toText :: "json option \<Rightarrow> qstring" where
  "toText v = (case v of Some (JText t) \<Rightarrow> t | _ \<Rightarrow> [])"

definition toNumber :: "json option \<Rightarrow> real" where
  "toNumber v = (case v of Some (JNumber x) \<Rightarrow> x | _ \<Rightarrow> 0)"

definition toInteger :: "json option \<Rightarrow> int" where
  "toInteger v = (case v of Some (JNumber x) \<Rightarrow> if x = of_int \<lfloor>x\<rfloor> then \<lfloor>x\<rfloor> else 0 | _ \<Rightarrow> 0)"

definition toBool :: "json option \<Rightarrow> bool" where
  "toBool v = (case v of Some (JBool b) \<Rightarrow> b | _ \<Rightarrow> False)"

definition of_lit :: "qstring \<Rightarrow> string" where
  "of_lit s = map (\<lambda>c. char_of (unat c)) s"

definition replacement_json :: "glossary_replacement \<Rightarrow> json" where
  "replacement_json r = JObject
     [(lit ''termId'', JText (lit (gr_termId r))), (lit ''alias'', JText (gr_alias r)),
      (lit ''canonicalText'', JText (gr_canonicalText r)), (lit ''originalText'', JText (gr_originalText r)),
      (lit ''start'', JNumber (of_int (gr_start r))), (lit ''length'', JNumber (of_int (gr_length r))),
      (lit ''confidence'', JNumber (gr_confidence r)), (lit ''applied'', JBool (gr_applied r))]"

definition auditToJson :: "glossary_replacement list \<Rightarrow> json list" where
  "auditToJson replacements = map replacement_json replacements"

definition json_replacement :: "json \<Rightarrow> glossary_replacement" where
  "json_replacement v =
     \<lparr>gr_termId = of_lit (toText (object_value v ''termId'')), gr_alias = toText (object_value v ''alias''),
      gr_canonicalText = toText (object_value v ''canonicalText''),
      gr_originalText = toText (object_value v ''originalText''),
      gr_start = toInteger (object_value v ''start''), gr_length = toInteger (object_value v ''length''),
      gr_confidence = toNumber (object_value v ''confidence''), gr_applied = toBool (object_value v ''applied'')\<rparr>"

definition auditFromJson :: "json list \<Rightarrow> glossary_replacement list" where
  "auditFromJson values = map json_replacement values"

subsection \<open>Subtitles\<close>

definition subtitleTime :: "int \<Rightarrow> bool \<Rightarrow> qstring" where
  "subtitleTime t comma = formatClock t (if comma then 0x2C else 0x2E)"

text \<open>\<open>QString::lastIndexOf\<close>, from a position backwards.\<close>

definition lastIndexOf :: "qchar \<Rightarrow> qstring \<Rightarrow> nat \<Rightarrow> nat option" where
  "lastIndexOf c s start = find (\<lambda>i. s ! i = c) (rev [0..<min (Suc start) (length s)])"

definition subtitle_split :: "nat \<Rightarrow> qstring \<Rightarrow> nat" where
  "subtitle_split maximum remaining =
     (case lastIndexOf 0x20 remaining maximum of
        None \<Rightarrow> maximum
      | Some split \<Rightarrow> if split < maximum div 2 then maximum else split)"

partial_function (option) subtitle_loop ::
  "unicode \<Rightarrow> nat \<Rightarrow> qstring \<Rightarrow> qstring list \<Rightarrow> (qstring list \<times> qstring) option" where
  "subtitle_loop uc maximum remaining lines =
     (if length remaining > maximum then
        subtitle_loop uc maximum (trimmed uc (drop (subtitle_split maximum remaining) remaining))
          (lines @ [trimmed uc (take (subtitle_split maximum remaining) remaining)])
      else Some (lines, remaining))"

definition subtitleText :: "unicode \<Rightarrow> qstring \<Rightarrow> int \<Rightarrow> qstring option" where
  "subtitleText uc input maximum =
     (let t = simplified uc input in
      if maximum \<le> 0 \<or> int (length t) \<le> maximum then Some t
      else map_option (\<lambda>(lines, remaining).
             join [0x0A] (if remaining \<noteq> [] then lines @ [remaining] else lines))
           (subtitle_loop uc (nat maximum) t []))"

subsection \<open>Segments in order\<close>

fun push_apart :: "int \<Rightarrow> transcript_segment list \<Rightarrow> transcript_segment list" where
  "push_apart previousEnd [] = []"
| "push_apart previousEnd (s # ss) =
     (let startMs = max previousEnd (max 0 (ts_startMs s));
          endMs = max (startMs + 1) (ts_endMs s)
      in s\<lparr>ts_startMs := startMs, ts_endMs := endMs\<rparr> # push_apart endMs ss)"

definition orderedValidSegments :: "transcript_segment list \<Rightarrow> transcript_segment list" where
  "orderedValidSegments segments = push_apart 0 (sort_key (\<lambda>s. (ts_startMs s, ts_ordinal s)) segments)"

subsection \<open>Formats\<close>

datatype export_format = Txt | Markdown | Srt | Vtt | Json | Csv

record export_metadata =
  em_recordingId :: qstring
  em_title :: qstring
  em_durationMs :: int
  em_modelId :: qstring
  em_modelChecksum :: qstring
  em_engineVersion :: qstring
  em_workerVersion :: qstring
  em_language :: qstring
  em_preset :: qstring
  em_additional :: json

record export_options =
  eo_includeTimecodes :: bool
  eo_utf8Bom :: bool
  eo_subtitleMaximumLineLength :: int

definition default_options :: export_options where
  "default_options = \<lparr>eo_includeTimecodes = False, eo_utf8Bom = False, eo_subtitleMaximumLineLength = 42\<rparr>"

definition withOptionalBom :: "(qstring \<Rightarrow> byte_string) \<Rightarrow> qstring \<Rightarrow> bool \<Rightarrow> byte_string" where
  "withOptionalBom toUtf8 t bom =
     (if bom then utf8_bom @ toUtf8 (normalizedLineEndings t) else toUtf8 (normalizedLineEndings t))"

definition txt_line :: "unicode \<Rightarrow> bool \<Rightarrow> transcript_segment \<Rightarrow> qstring" where
  "txt_line uc timecodes s =
     (if timecodes then lit ''['' @ subtitleTime (ts_startMs s) False @ lit ''] '' else [])
     @ trimmed uc (displayText s) @ [0x0A]"

definition markdown_header :: "export_metadata \<Rightarrow> qstring" where
  "markdown_header metadata =
     lit ''---'' @ [0x0A] @ lit ''title: '' @ [0x22] @ em_title metadata @ [0x22] @ [0x0A]
     @ lit ''recordingId: '' @ em_recordingId metadata @ [0x0A] @ lit ''model: '' @ em_modelId metadata @ [0x0A]
     @ lit ''language: '' @ em_language metadata @ [0x0A] @ lit ''---'' @ [0x0A, 0x0A]"

definition markdown_line :: "unicode \<Rightarrow> transcript_segment \<Rightarrow> qstring" where
  "markdown_line uc s = lit ''**['' @ subtitleTime (ts_startMs s) False @ lit '']** ''
     @ trimmed uc (displayText s) @ [0x0A, 0x0A]"

definition cue_times :: "bool \<Rightarrow> transcript_segment \<Rightarrow> qstring" where
  "cue_times srt s = subtitleTime (ts_startMs s) srt @ lit '' --> '' @ subtitleTime (ts_endMs s) srt"

definition subtitle_cue :: "unicode \<Rightarrow> bool \<Rightarrow> int \<Rightarrow> nat \<times> transcript_segment \<Rightarrow> qstring option" where
  "subtitle_cue uc srt maximum = (\<lambda>(i, s). map_option (\<lambda>t.
     (if srt then decimal (int i + 1) @ [0x0A] else []) @ cue_times srt s @ [0x0A] @ t @ [0x0A, 0x0A])
     (subtitleText uc (displayText s) maximum))"

definition subtitle_cues :: "unicode \<Rightarrow> bool \<Rightarrow> int \<Rightarrow> transcript_segment list \<Rightarrow> qstring option" where
  "subtitle_cues uc srt maximum segments =
     map_option concat (those (map (subtitle_cue uc srt maximum) (enumerate 0 segments)))"

definition csv_line :: "(real \<Rightarrow> qstring) \<Rightarrow> transcript_segment \<Rightarrow> qstring" where
  "csv_line number s = join (lit '','') [decimal (ts_startMs s), decimal (ts_endMs s),
     csvField (ts_originalText s), csvField (ts_editedText s), number (ts_averageProbability s)] @ [0x0A]"

definition csv_output :: "(real \<Rightarrow> qstring) \<Rightarrow> transcript_segment list \<Rightarrow> qstring" where
  "csv_output number segments =
     lit ''start,end,original_text,edited_text,confidence'' @ [0x0A] @ concat (map (csv_line number) segments)"

definition segment_json :: "transcript_segment \<Rightarrow> json" where
  "segment_json s = JObject
     [(lit ''id'', JText (lit (ts_id s))), (lit ''startMs'', JNumber (of_int (ts_startMs s))),
      (lit ''endMs'', JNumber (of_int (ts_endMs s))), (lit ''originalText'', JText (ts_originalText s)),
      (lit ''editedText'', JText (ts_editedText s)),
      (lit ''averageProbability'', JNumber (ts_averageProbability s)),
      (lit ''minimumProbability'', JNumber (ts_minimumProbability s)),
      (lit ''noSpeechProbability'', JNumber (ts_noSpeechProbability s)),
      (lit ''lowConfidence'', JBool (ts_lowConfidence s)), (lit ''reviewed'', JBool (ts_reviewed s)),
      (lit ''glossaryAudit'', JArray (auditToJson (ts_replacementAudit s)))]"

definition export_json :: "export_metadata \<Rightarrow> transcript_segment list \<Rightarrow> json" where
  "export_json metadata segments = JObject
     [(lit ''schemaVersion'', JNumber 1),
      (lit ''recording'', JObject [(lit ''id'', JText (em_recordingId metadata)),
        (lit ''title'', JText (em_title metadata)), (lit ''durationMs'', JNumber (of_int (em_durationMs metadata)))]),
      (lit ''engine'', JObject [(lit ''modelId'', JText (em_modelId metadata)),
        (lit ''modelChecksum'', JText (em_modelChecksum metadata)),
        (lit ''engineVersion'', JText (em_engineVersion metadata)),
        (lit ''workerVersion'', JText (em_workerVersion metadata)),
        (lit ''language'', JText (em_language metadata)), (lit ''preset'', JText (em_preset metadata))]),
      (lit ''metadata'', em_additional metadata),
      (lit ''segments'', JArray (map segment_json segments))]"

text \<open>What the exporter asks of Qt.\<close>

record export_codec =
  ec_toUtf8 :: "qstring \<Rightarrow> byte_string"
  ec_toJson :: "json \<Rightarrow> byte_string"
  ec_number :: "real \<Rightarrow> qstring"

definition render ::
  "unicode \<Rightarrow> export_codec \<Rightarrow> export_format \<Rightarrow> export_metadata \<Rightarrow> transcript_segment list \<Rightarrow> export_options
    \<Rightarrow> byte_string option" where
  "render uc codec format metadata input options =
     (let segments = orderedValidSegments input;
          finish = (\<lambda>output. withOptionalBom (ec_toUtf8 codec) output (eo_utf8Bom options))
      in case format of
        Txt \<Rightarrow> Some (finish (concat (map (txt_line uc (eo_includeTimecodes options)) segments)))
      | Markdown \<Rightarrow> Some (finish (markdown_header metadata @ concat (map (markdown_line uc) segments)))
      | Srt \<Rightarrow> map_option finish (subtitle_cues uc True (eo_subtitleMaximumLineLength options) segments)
      | Vtt \<Rightarrow> map_option (\<lambda>cues. finish (lit ''WEBVTT'' @ [0x0A, 0x0A] @ cues))
                 (subtitle_cues uc False (eo_subtitleMaximumLineLength options) segments)
      | Json \<Rightarrow> (let json = ec_toJson codec (export_json metadata segments) in
                 Some (if eo_utf8Bom options then utf8_bom @ json else json))
      | Csv \<Rightarrow> Some (finish (csv_output (ec_number codec) segments)))"

text \<open>
  What a \<open>QSaveFile\<close> does: whether it opens, how many bytes it takes, whether the commit that
  replaces the old file succeeds. The second component is the content of the file afterwards.
\<close>

record save_file =
  sf_opens :: bool
  sf_takes :: nat
  sf_commits :: bool

definition export_failed :: user_error where
  "export_failed = \<lparr>ue_domain = DomExport, ue_code = ExportFailed, ue_retryable = True\<rparr>"

definition writeFile ::
  "unicode \<Rightarrow> export_codec \<Rightarrow> save_file \<Rightarrow> string \<Rightarrow> byte_string option \<Rightarrow> export_format \<Rightarrow> export_metadata
    \<Rightarrow> transcript_segment list \<Rightarrow> export_options \<Rightarrow> (unit result \<times> byte_string option) option" where
  "writeFile uc codec file filePath before format metadata segments options =
     (if filePath = [] then Some (Inl (validation_error InvalidArgument), before)
      else map_option (\<lambda>bytes.
        if \<not> sf_opens file then (Inl export_failed, before)
        else if sf_takes file < length bytes \<or> \<not> sf_commits file then (Inl export_failed, before)
        else (Inr (), Some bytes))
        (render uc codec format metadata segments options))"

subsection \<open>Words and white space\<close>

abbreviation dense :: "unicode \<Rightarrow> qstring \<Rightarrow> qstring" where
  "dense uc s \<equiv> filter (\<lambda>c. \<not> uc_isSpace uc c) s"

lemma dense_dropWhile: "dense uc (dropWhile (uc_isSpace uc) s) = dense uc s"
  by (induction s) auto

lemma dense_rev: "dense uc (rev s) = rev (dense uc s)"
  by (simp add: rev_filter)

lemma dense_trimmed [simp]: "dense uc (trimmed uc s) = dense uc s"
  by (simp only: trimmed_def dense_rev dense_dropWhile rev_rev_ident)

lemma set_trimmed: "set (trimmed uc s) \<subseteq> set s"
  unfolding trimmed_def by (auto dest!: set_dropWhileD)

lemma length_trimmed: "length (trimmed uc s) \<le> length s"
  using length_dropWhile_le[of "uc_isSpace uc" "rev (dropWhile (uc_isSpace uc) s)"]
    length_dropWhile_le[of "uc_isSpace uc" s] by (simp add: trimmed_def)

lemma words_of_dense:
  "\<forall>c \<in> set w. \<not> uc_isSpace uc c \<Longrightarrow> v \<in> set (words_of uc s w) \<Longrightarrow> v \<noteq> [] \<and> (\<forall>c \<in> set v. \<not> uc_isSpace uc c)"
proof (induction uc s w rule: words_of.induct)
  case (2 uc c cs w)
  show ?case
  proof (cases "uc_isSpace uc c")
    case True
    then have "v = w \<and> w \<noteq> [] \<or> v \<in> set (words_of uc cs [])" using "2.prems"(2) by (simp split: if_splits)
    then show ?thesis using "2.IH"(1)[OF True] "2.prems"(1) by auto
  next
    case False
    then have "v \<in> set (words_of uc cs (w @ [c]))" using "2.prems"(2) by simp
    then show ?thesis using "2.IH"(2)[OF False] "2.prems"(1) False by simp
  qed
qed (simp split: if_splits)

lemma concat_words_of: "concat (words_of uc s w) = w @ dense uc s"
  by (induction uc s w rule: words_of.induct) simp_all

lemma set_join: "set (join sep ws) \<subseteq> set sep \<union> \<Union> (set ` set ws)"
  by (induction sep ws rule: join.induct) auto

lemma dense_join: "uc_isSpace uc 0x20 \<Longrightarrow> dense uc (join [0x20] ws) = dense uc (concat ws)"
  by (induction "[0x20] :: qstring" ws rule: join.induct) simp_all

lemma join_ends:
  "ws \<noteq> [] \<Longrightarrow> \<forall>w \<in> set ws. w \<noteq> [] \<Longrightarrow>
    join sep ws \<noteq> [] \<and> hd (join sep ws) = hd (hd ws) \<and> last (join sep ws) = last (last ws)"
  by (induction sep ws rule: join.induct) auto

lemma simplified_dense: "uc_isSpace uc 0x20 \<Longrightarrow> dense uc (simplified uc s) = dense uc s"
  by (simp add: simplified_def dense_join concat_words_of)

lemma simplified_chars: "c \<in> set (simplified uc s) \<Longrightarrow> c = 0x20 \<or> \<not> uc_isSpace uc c"
  using set_join[of "[0x20]" "words_of uc s []"] words_of_dense[of "[]" uc _ s]
  by (fastforce simp: simplified_def)

lemma simplified_trimmed [simp]: "trimmed uc (simplified uc s) = simplified uc s"
proof (cases "words_of uc s [] = []")
  case False
  have ws: "\<forall>v \<in> set (words_of uc s []). v \<noteq> [] \<and> (\<forall>c \<in> set v. \<not> uc_isSpace uc c)"
    using words_of_dense[of "[]" uc _ s] by simp
  have "\<not> uc_isSpace uc (hd (hd (words_of uc s [])))" "\<not> uc_isSpace uc (last (last (words_of uc s [])))"
    using ws hd_in_set[OF False] last_in_set[OF False] by (meson hd_in_set last_in_set)+
  then show ?thesis using join_ends[OF False, of "lit '' ''"] ws by (simp add: trimmed_id simplified_def)
qed (simp add: simplified_def)

subsection \<open>Breaking subtitle lines\<close>

lemma trimmed_start: "trimmed uc s = s \<Longrightarrow> s \<noteq> [] \<Longrightarrow> \<not> uc_isSpace uc (hd s)"
  using trimmed_id by blast

lemma lastIndexOf_Some:
  assumes "lastIndexOf c s start = Some i"
  shows "i \<le> start \<and> i < length s \<and> s ! i = c"
proof -
  have "i \<in> set (rev [0..<min (Suc start) (length s)])" "s ! i = c"
    using assms unfolding lastIndexOf_def find_Some_iff by (metis nth_mem)+
  then show ?thesis by auto
qed

lemma subtitle_split_le: "subtitle_split m r \<le> m"
  by (auto simp: subtitle_split_def dest: lastIndexOf_Some split: option.splits)

text \<open>On text that starts with a word the cut is never at its very start.\<close>

lemma subtitle_split_pos:
  assumes "0 < m" "r \<noteq> []" "\<not> uc_isSpace uc (hd r)" "uc_isSpace uc 0x20"
  shows "0 < subtitle_split m r"
proof -
  have "i \<noteq> 0" if "lastIndexOf 0x20 r m = Some i" for i
    using lastIndexOf_Some[OF that] assms(2-4) by (cases r; cases i) auto
  then show ?thesis using assms(1) by (auto simp: subtitle_split_def split: option.splits)
qed

lemma trimmed_space: "uc_isSpace uc c \<Longrightarrow> trimmed uc (c # cs) = trimmed uc cs"
  by (simp add: trimmed_def)

lemma subtitle_rest_shorter:
  assumes "uc_isSpace uc 0x20" "0 < m" "m < length r"
  shows "length (trimmed uc (drop (subtitle_split m r) r)) < length r"
proof (cases "subtitle_split m r = 0")
  case True
  then have "lastIndexOf 0x20 r m = Some 0"
    using assms(2) by (auto simp: subtitle_split_def split: option.splits if_splits)
  then have "r ! 0 = 0x20" using lastIndexOf_Some by blast
  then obtain cs where "r = 0x20 # cs" using assms(3) by (cases r) auto
  then show ?thesis using True length_trimmed[of uc cs] assms(1) by (simp add: trimmed_space)
next
  case False
  then show ?thesis using length_trimmed[of uc "drop (subtitle_split m r) r"] assms(3) by simp
qed

text \<open>
  C36: Breaking subtitle lines always comes to an end: for every text, with any white space in it,
  and every positive line length, the loop returns, though a cut may fall at position zero.
\<close>

theorem subtitle_loop_returns:
  assumes "uc_isSpace uc 0x20" and "0 < m"
  shows "\<exists>out. subtitle_loop uc m r lines = Some out"
proof (induction r arbitrary: lines rule: length_induct)
  case (1 r)
  show ?case
  proof (cases "m < length r")
    case True
    then show ?thesis using 1 subtitle_rest_shorter[OF assms True]
      by (subst subtitle_loop.simps) simp
  qed (subst subtitle_loop.simps, simp)
qed

lemma subtitle_loop_returns_witness: "\<exists>out. subtitle_loop ascii 3 (lit ''  ab'') [] = Some out"
  by (rule subtitle_loop_returns) (simp_all add: ascii_def)

text \<open>What a run of the loop makes of text without white space at its ends.\<close>

lemma subtitle_loop_lines:
  assumes "uc_isSpace uc 0x20" "0 < m" "trimmed uc r = r"
  shows "\<exists>new rest. subtitle_loop uc m r lines = Some (lines @ new, rest)
    \<and> length rest \<le> m \<and> set rest \<subseteq> set r \<and> dense uc (concat new @ rest) = dense uc r
    \<and> (\<forall>l \<in> set new. l \<noteq> [] \<and> length l \<le> m \<and> set l \<subseteq> set r)"
  using assms(3)
proof (induction r arbitrary: lines rule: length_induct)
  case (1 r)
  show ?case
  proof (cases "m < length r")
    case True
    let ?k = "subtitle_split m r"
    let ?l = "trimmed uc (take ?k r)" and ?r = "trimmed uc (drop ?k r)"
    have "r \<noteq> []" using True by auto
    then have start: "r \<noteq> []" "\<not> uc_isSpace uc (hd r)" using trimmed_start[OF 1(2)] by blast+
    have k: "0 < ?k" "?k \<le> m" using subtitle_split_pos[OF assms(2) start assms(1)] subtitle_split_le by auto
    have "hd r \<in> set (take ?k r)" using k(1) start(1) by (cases r; cases ?k) auto
    then have "?l \<noteq> []" using start(2) by (auto simp: trimmed_empty_iff)
    moreover have "length ?l \<le> m" using length_trimmed[of uc "take ?k r"] k(2) by simp
    moreover have "set ?l \<subseteq> set r" "set ?r \<subseteq> set r"
      using set_trimmed[of uc "take ?k r"] set_trimmed[of uc "drop ?k r"] set_take_subset[of ?k r] set_drop_subset[of ?k r]
      by blast+
    moreover have "dense uc r = dense uc ?l @ dense uc ?r"
      using arg_cong[OF append_take_drop_id[of ?k r], of "dense uc"] by (simp only: filter_append dense_trimmed)
    moreover obtain new rest where run: "subtitle_loop uc m ?r (lines @ [?l]) = Some ((lines @ [?l]) @ new, rest)"
      "length rest \<le> m" "set rest \<subseteq> set ?r" "dense uc (concat new @ rest) = dense uc ?r"
      and new: "\<forall>l \<in> set new. l \<noteq> [] \<and> length l \<le> m \<and> set l \<subseteq> set ?r"
      using 1(1) subtitle_rest_shorter[OF assms(1,2) True] trimmed_trimmed[of uc "drop ?k r"] by blast
    moreover have "\<forall>l \<in> set new. l \<noteq> [] \<and> length l \<le> m \<and> set l \<subseteq> set r"
      using new \<open>set ?r \<subseteq> set r\<close> by (meson subset_trans)
    moreover have "subtitle_loop uc m r lines = Some (lines @ ?l # new, rest)"
      using run True by (subst subtitle_loop.simps) simp
    ultimately show ?thesis by (intro exI[of _ "?l # new"] exI[of _ rest]) auto
  qed (subst subtitle_loop.simps, auto)
qed

text \<open>Qt documents line feed, carriage return and space as white space.\<close>

definition line_ends_are_space :: "unicode \<Rightarrow> bool" where
  "line_ends_are_space uc \<longleftrightarrow> uc_isSpace uc 0x20 \<and> uc_isSpace uc 0x0A \<and> uc_isSpace uc 0x0D"

text \<open>The lines of a wrapped text: none is empty, broken or too long, and no word is lost.\<close>

definition wraps :: "unicode \<Rightarrow> int \<Rightarrow> qstring \<Rightarrow> qstring list \<Rightarrow> bool" where
  "wraps uc maximum input ls \<longleftrightarrow> dense uc (concat ls) = dense uc input
     \<and> (\<forall>l \<in> set ls. l \<noteq> [] \<and> 0x0A \<notin> set l \<and> 0x0D \<notin> set l \<and> (0 < maximum \<longrightarrow> int (length l) \<le> maximum))"

lemma simplified_no_breaks: "line_ends_are_space uc \<Longrightarrow> 0x0A \<notin> set (simplified uc s) \<and> 0x0D \<notin> set (simplified uc s)"
  using simplified_chars[of "0x0A" uc s] simplified_chars[of "0x0D" uc s] by (auto simp: line_ends_are_space_def)

lemma subtitleText_wraps:
  assumes "line_ends_are_space uc"
  shows "\<exists>ls. subtitleText uc input maximum = Some (join [0x0A] ls) \<and> wraps uc maximum input ls"
proof -
  let ?t = "simplified uc input"
  have sp: "uc_isSpace uc 0x20" using assms by (simp add: line_ends_are_space_def)
  note plain = simplified_no_breaks[OF assms, of input] and dense = simplified_dense[OF sp, of input]
  show ?thesis
  proof (cases "maximum \<le> 0 \<or> int (length ?t) \<le> maximum")
    case True
    then have "subtitleText uc input maximum = Some (join [0x0A] (if ?t = [] then [] else [?t]))"
      by (simp add: subtitleText_def)
    moreover have "wraps uc maximum input (if ?t = [] then [] else [?t])"
      using True plain dense by (auto simp: wraps_def)
    ultimately show ?thesis by blast
  next
    case False
    then have m: "0 < nat maximum" by simp
    obtain new rest where run: "subtitle_loop uc (nat maximum) ?t [] = Some (new, rest)"
      and rest: "length rest \<le> nat maximum" "set rest \<subseteq> set ?t" "dense uc (concat new @ rest) = dense uc ?t"
      and new: "\<forall>l \<in> set new. l \<noteq> [] \<and> length l \<le> nat maximum \<and> set l \<subseteq> set ?t"
      using subtitle_loop_lines[OF sp m simplified_trimmed, of input "[]"] by auto
    let ?ls = "if rest \<noteq> [] then new @ [rest] else new"
    have "subtitleText uc input maximum = Some (join [0x0A] ?ls)"
      using False run by (simp add: subtitleText_def)
    moreover have "dense uc (concat ?ls) = dense uc input" using rest(3) dense by (cases "rest = []") simp_all
    moreover have "l \<noteq> [] \<and> length l \<le> nat maximum \<and> set l \<subseteq> set ?t" if "l \<in> set ?ls" for l
      using that new rest(1,2) by (cases "l = rest") (auto split: if_splits)
    then have "l \<noteq> [] \<and> 0x0A \<notin> set l \<and> 0x0D \<notin> set l \<and> int (length l) \<le> maximum" if "l \<in> set ?ls" for l
      using plain m that by (metis (no_types, lifting) le_nat_iff less_imp_le nat_0_le subsetD zero_less_nat_eq)
    ultimately show ?thesis unfolding wraps_def by blast
  qed
qed

subsection \<open>Exported segments are in order\<close>

lemma timeline_Cons:
  "timeline_ok (s # ss) \<longleftrightarrow> 0 \<le> ts_startMs s \<and> ts_startMs s < ts_endMs s \<and> timeline_ok ss
     \<and> (\<forall>t \<in> set ss. ts_endMs s \<le> ts_startMs t)"
  by (auto simp: timeline_ok_def)

lemma push_apart_ok:
  "0 \<le> p \<Longrightarrow> timeline_ok (push_apart p ss) \<and> (\<forall>s \<in> set (push_apart p ss). p \<le> ts_startMs s)"
proof (induction ss arbitrary: p)
  case (Cons s ss)
  define a where "a = max p (max 0 (ts_startMs s))"
  define b where "b = max (a + 1) (ts_endMs s)"
  have ab: "0 \<le> a" "p \<le> a" "a < b" using Cons.prems by (auto simp: a_def b_def)
  have "push_apart p (s # ss) = s\<lparr>ts_startMs := a, ts_endMs := b\<rparr> # push_apart b ss"
    by (simp add: a_def b_def Let_def)
  moreover have "timeline_ok (push_apart b ss) \<and> (\<forall>t \<in> set (push_apart b ss). b \<le> ts_startMs t)"
    using Cons.IH[of b] ab by simp
  ultimately show ?case using ab by (auto simp: timeline_Cons)
qed (simp add: timeline_ok_def)

text \<open>A segment without its times.\<close>

definition untimed :: "transcript_segment \<Rightarrow> transcript_segment" where
  "untimed s = s\<lparr>ts_startMs := 0, ts_endMs := 0\<rparr>"

lemma push_apart_untimed: "map untimed (push_apart p ss) = map untimed ss"
  by (induction ss arbitrary: p) (simp_all add: untimed_def Let_def)

lemma push_apart_id:
  "timeline_ok ss \<Longrightarrow> \<forall>s \<in> set ss. p \<le> ts_startMs s \<Longrightarrow> push_apart p ss = ss"
proof (induction ss arbitrary: p)
  case (Cons s ss)
  have s: "0 \<le> ts_startMs s" "ts_startMs s < ts_endMs s" "p \<le> ts_startMs s" "timeline_ok ss"
    "\<forall>t \<in> set ss. ts_endMs s \<le> ts_startMs t"
    using Cons.prems by (auto simp: timeline_ok_def)
  then have "max p (max 0 (ts_startMs s)) = ts_startMs s" "max (ts_startMs s + 1) (ts_endMs s) = ts_endMs s" by simp_all
  then show ?case using Cons.IH[OF s(4,5)] by (simp add: Let_def)
qed simp

lemma timeline_sorted: "timeline_ok ss \<Longrightarrow> sorted (map (\<lambda>s. (ts_startMs s, ts_ordinal s)) ss)"
  by (induction ss) (fastforce simp: timeline_ok_def less_eq_prod_def)+

text \<open>
  Exported segments follow one another. Whatever segments are given, the exporter emits all of
  them, changed in nothing but their times, in the order of their starts and ordinals, from zero on, each with a positive duration and none before the end of
  the previous one, so that at no moment two subtitles are shown; a transcript that is a timeline
  already is exported with exactly its own times.
\<close>

theorem exported_segments_in_order:
  "timeline_ok (orderedValidSegments ss)
   \<and> map untimed (orderedValidSegments ss) = map untimed (sort_key (\<lambda>s. (ts_startMs s, ts_ordinal s)) ss)
   \<and> (timeline_ok ss \<longrightarrow> orderedValidSegments ss = ss)"
proof -
  have "orderedValidSegments ss = ss" if "timeline_ok ss"
    using that push_apart_id[OF that, of 0] sort_key_id_if_sorted[OF timeline_sorted[OF that]]
    by (simp add: orderedValidSegments_def timeline_ok_def)
  moreover have "timeline_ok (orderedValidSegments ss)" using push_apart_ok[of 0] by (simp add: orderedValidSegments_def)
  ultimately show ?thesis by (simp add: orderedValidSegments_def push_apart_untimed)
qed

lemma exported_segments_in_order_witness:
  "orderedValidSegments [empty_segment\<lparr>ts_endMs := 5\<rparr>] = [empty_segment\<lparr>ts_endMs := 5\<rparr>]"
  using exported_segments_in_order[of "[empty_segment\<lparr>ts_endMs := 5\<rparr>]"]
  by (simp add: timeline_ok_def empty_segment_def)

subsection \<open>Subtitle files read back\<close>

text \<open>A reader of subtitle files: blocks of lines, separated by empty lines.\<close>

fun line_blocks :: "qstring list \<Rightarrow> qstring list \<Rightarrow> qstring list list" where
  "line_blocks b [] = (if b = [] then [] else [b])"
| "line_blocks b (l # ls) =
     (if l = [] then (if b = [] then [] else [b]) @ line_blocks [] ls else line_blocks (b @ [l]) ls)"

definition subtitle_blocks :: "qstring \<Rightarrow> qstring list list" where
  "subtitle_blocks t = line_blocks [] (split_on 0x0A t)"

lemma line_blocks_block:
  "\<forall>l \<in> set ls. l \<noteq> [] \<Longrightarrow> b @ ls \<noteq> [] \<Longrightarrow> line_blocks b (ls @ [] # rest) = (b @ ls) # line_blocks [] rest"
  by (induction ls arbitrary: b) auto

lemma line_blocks_gap: "line_blocks [] ([] # rest) = line_blocks [] rest"
  by simp

lemma split_on_lines:
  "ls \<noteq> [] \<Longrightarrow> \<forall>l \<in> set ls. sep \<notin> set l \<Longrightarrow> split_on sep (join [sep] ls @ sep # s) = ls @ split_on sep s"
  by (induction "[sep]" ls rule: join.induct) (simp_all add: split_on_append)

text \<open>One block of lines, written as the exporter writes a cue.\<close>

lemma block_reads_back:
  assumes "heads \<noteq> []" "\<forall>l \<in> set (heads @ ls). l \<noteq> [] \<and> 0x0A \<notin> set l"
  shows "subtitle_blocks (concat (map (\<lambda>l. l @ [0x0A]) heads) @ join [0x0A] ls @ 0x0A # 0x0A # rest)
    = (heads @ ls) # subtitle_blocks rest"
proof -
  have head_lines: "split_on 0x0A (concat (map (\<lambda>l. l @ [0x0A]) heads) @ s) = heads @ split_on 0x0A s" for s
    using assms(2) by (induction heads) (simp_all add: split_on_append)
  have rest: "split_on 0x0A ([0x0A] @ rest) = [] # split_on 0x0A rest" by simp
  show ?thesis
  proof (cases "ls = []")
    case True
    have "subtitle_blocks (concat (map (\<lambda>l. l @ [0x0A]) heads) @ join [0x0A] ls @ 0x0A # 0x0A # rest)
      = line_blocks [] (heads @ [] # [] # split_on 0x0A rest)"
      unfolding subtitle_blocks_def head_lines True by simp
    then show ?thesis
      using line_blocks_block[of heads "[]" "[] # split_on 0x0A rest"] assms True by (simp add: subtitle_blocks_def)
  next
    case False
    then have "split_on 0x0A (join [0x0A] ls @ 0x0A # 0x0A # rest) = ls @ split_on 0x0A (0x0A # rest)"
      using assms(2) by (intro split_on_lines) auto
    then have "subtitle_blocks (concat (map (\<lambda>l. l @ [0x0A]) heads) @ join [0x0A] ls @ 0x0A # 0x0A # rest)
      = line_blocks [] ((heads @ ls) @ [] # split_on 0x0A rest)"
      unfolding subtitle_blocks_def head_lines by simp
    then show ?thesis using line_blocks_block[of "heads @ ls" "[]" "split_on 0x0A rest"] assms
      by (simp add: subtitle_blocks_def)
  qed
qed

text \<open>Clock times and numbers contain no line breaks.\<close>

abbreviation one_line :: "qstring \<Rightarrow> bool" where
  "one_line t \<equiv> 0x0A \<notin> set t \<and> 0x0D \<notin> set t"

lemma plain_one_line: "plain_field t \<Longrightarrow> one_line t"
  by (auto simp: plain_field_def list_all_iff)

lemma padded_plain: "plain_field (padded w i)"
proof -
  have "plain_field (replicate n (digit 0))" for n
    by (induction n) (simp_all add: plain_field_def digit_def)
  then show ?thesis using decimal_plain[of i] by (simp add: padded_def plain_field_def)
qed

lemma subtitleTime_one_line: "one_line (subtitleTime t comma)"
  using plain_one_line[OF padded_plain] by (simp add: subtitleTime_def formatClock_def Let_def)

lemma decimal_not_Nil [simp]: "decimal i \<noteq> []"
  by (simp add: decimal_def)

lemma cue_times_one_line: "one_line (cue_times srt s)" "cue_times srt s \<noteq> []"
  using subtitleTime_one_line by (simp_all add: cue_times_def)

definition cue_block :: "bool \<Rightarrow> nat \<times> transcript_segment \<times> qstring list \<Rightarrow> qstring list" where
  "cue_block srt = (\<lambda>(i, s, ls). (if srt then [decimal (int i + 1)] else []) @ cue_times srt s # ls)"

lemma subtitle_cue_reads:
  assumes "line_ends_are_space uc"
  shows "\<exists>cue ls. subtitle_cue uc srt maximum (i, s) = Some cue \<and> wraps uc maximum (displayText s) ls
    \<and> 0x0D \<notin> set cue \<and> (\<forall>rest. subtitle_blocks (cue @ rest) = cue_block srt (i, s, ls) # subtitle_blocks rest)"
proof -
  obtain ls where ls: "subtitleText uc (displayText s) maximum = Some (join [0x0A] ls)"
    "wraps uc maximum (displayText s) ls" using subtitleText_wraps[OF assms] by blast
  let ?top = "(if srt then [decimal (int i + 1)] else []) @ [cue_times srt s]"
  let ?cue = "concat (map (\<lambda>l. l @ [0x0A]) ?top) @ join [0x0A] ls @ [0x0A, 0x0A]"
  have lines: "\<forall>l \<in> set (?top @ ls). l \<noteq> [] \<and> one_line l"
    using ls(2) cue_times_one_line plain_one_line[OF decimal_plain] by (auto simp: wraps_def)
  have "subtitle_cue uc srt maximum (i, s) = Some ?cue" using ls(1) by (simp add: subtitle_cue_def)
  moreover have "0x0D \<notin> set ?cue"
    using lines set_join[of "[0x0A]" ls] by auto
  moreover have "subtitle_blocks (?cue @ rest) = cue_block srt (i, s, ls) # subtitle_blocks rest" for rest
    using block_reads_back[of ?top ls rest] lines by (simp add: cue_block_def)
  ultimately show ?thesis using ls(2) by blast
qed

lemma subtitle_cues_read:
  assumes "line_ends_are_space uc"
  shows "\<exists>cues lss. those (map (subtitle_cue uc srt maximum) (enumerate n ss)) = Some cues
    \<and> list_all2 (\<lambda>s ls. wraps uc maximum (displayText s) ls) ss lss \<and> 0x0D \<notin> set (concat cues)
    \<and> subtitle_blocks (concat cues) = map (cue_block srt) (enumerate n (zip ss lss))"
proof (induction ss arbitrary: n)
  case Nil
  show ?case by (intro exI[of _ "[]"]) (simp add: subtitle_blocks_def)
next
  case (Cons s ss)
  obtain cue ls where c: "subtitle_cue uc srt maximum (n, s) = Some cue" "wraps uc maximum (displayText s) ls"
    "0x0D \<notin> set cue" "\<And>rest. subtitle_blocks (cue @ rest) = cue_block srt (n, s, ls) # subtitle_blocks rest"
    using subtitle_cue_reads[OF assms] by blast
  obtain cues lss where "those (map (subtitle_cue uc srt maximum) (enumerate (Suc n) ss)) = Some cues"
    "list_all2 (\<lambda>s ls. wraps uc maximum (displayText s) ls) ss lss" "0x0D \<notin> set (concat cues)"
    "subtitle_blocks (concat cues) = map (cue_block srt) (enumerate (Suc n) (zip ss lss))"
    using Cons.IH by blast
  with c show ?case by (intro exI[of _ "cue # cues"] exI[of _ "ls # lss"]) simp
qed

text \<open>
  C33: Exported subtitles read back. For every transcript and every line length the SubRip and
  WebVTT exports exist, and a reader that takes the file apart at its empty lines finds (after the
  WebVTT header) exactly one block per segment, in order: its number, in SubRip, its times, and
  the lines of its text. None of these lines is empty, broken or longer than the limit, and
  together they are the text of the segment up to white space.
\<close>

theorem subtitles_read_back:
  assumes "line_ends_are_space uc"
  shows "\<exists>t lss. render uc codec (if srt then Srt else Vtt) metadata input options
      = Some ((if eo_utf8Bom options then utf8_bom else []) @ ec_toUtf8 codec t)
    \<and> list_all2 (\<lambda>s ls. wraps uc (eo_subtitleMaximumLineLength options) (displayText s) ls)
        (orderedValidSegments input) lss
    \<and> subtitle_blocks t = (if srt then [] else [[lit ''WEBVTT'']])
        @ map (cue_block srt) (enumerate 0 (zip (orderedValidSegments input) lss))"
proof -
  let ?m = "eo_subtitleMaximumLineLength options" and ?ss = "orderedValidSegments input"
  obtain cues lss where cues: "those (map (subtitle_cue uc srt ?m) (enumerate 0 ?ss)) = Some cues"
    "list_all2 (\<lambda>s ls. wraps uc ?m (displayText s) ls) ?ss lss" "0x0D \<notin> set (concat cues)"
    "subtitle_blocks (concat cues) = map (cue_block srt) (enumerate 0 (zip ?ss lss))"
    using subtitle_cues_read[OF assms, of srt ?m 0 ?ss] by blast
  let ?t = "(if srt then [] else lit ''WEBVTT'' @ [0x0A, 0x0A]) @ concat cues"
  have "subtitle_cues uc srt ?m ?ss = Some (concat cues)" using cues(1) by (simp add: subtitle_cues_def)
  moreover have "normalizedLineEndings ?t = ?t" using cues(3) by (intro normalized_id) auto
  ultimately have "render uc codec (if srt then Srt else Vtt) metadata input options
      = Some ((if eo_utf8Bom options then utf8_bom else []) @ ec_toUtf8 codec ?t)"
    by (cases srt) (simp_all add: render_def withOptionalBom_def Let_def)
  moreover have "subtitle_blocks ?t = (if srt then [] else [[lit ''WEBVTT'']]) @ subtitle_blocks (concat cues)"
    using block_reads_back[of "[lit ''WEBVTT'']" "[]" "concat cues"]
    by (cases srt) (simp_all add: subtitle_blocks_def)
  ultimately show ?thesis using cues(2,4) by (intro exI[of _ ?t] exI[of _ lss]) simp
qed

definition sample_metadata :: export_metadata where
  "sample_metadata = \<lparr>em_recordingId = [], em_title = [], em_durationMs = 0, em_modelId = [], em_modelChecksum = [],
     em_engineVersion = [], em_workerVersion = [], em_language = [], em_preset = [], em_additional = JObject []\<rparr>"

definition sample_codec :: export_codec where
  "sample_codec = \<lparr>ec_toUtf8 = ascii_toUtf8, ec_toJson = (\<lambda>_. []), ec_number = (\<lambda>_. lit ''0.500000'')\<rparr>"

lemma subtitles_read_back_witness:
  "\<exists>t lss. render ascii sample_codec Srt sample_metadata [empty_segment] default_options = Some (ascii_toUtf8 t)
     \<and> subtitle_blocks t = map (cue_block True) (enumerate 0 lss)"
proof -
  have "line_ends_are_space ascii" by (simp add: line_ends_are_space_def ascii_def)
  from subtitles_read_back[OF this, of sample_codec True sample_metadata "[empty_segment]" default_options]
  show ?thesis by (auto simp: default_options_def sample_codec_def)
qed

text \<open>
  Where there is no white space to cut at, the cut counts 16-bit units: it can fall inside a
  character that takes two of them, and each half of that character ends up on its own line.
\<close>

lemma subtitle_cut_inside_character:
  "subtitleText ascii [0xD842, 0xDFB7, 0xD842, 0xDFB7] 3
     = Some [0xD842, 0xDFB7, 0xD842, 0x0A, 0xDFB7]"
proof -
  have s: "simplified ascii [0xD842, 0xDFB7, 0xD842, 0xDFB7] = [0xD842, 0xDFB7, 0xD842, 0xDFB7]"
    by (simp add: simplified_def ascii_def)
  have k: "subtitle_split 3 [0xD842, 0xDFB7, 0xD842, 0xDFB7] = 3"
  proof -
    have "lastIndexOf 0x20 [0xD842, 0xDFB7, 0xD842, 0xDFB7] 3 \<noteq> Some i" for i
    proof
      assume "lastIndexOf 0x20 [0xD842, 0xDFB7, 0xD842, 0xDFB7] 3 = Some i"
      then have "0x20 \<in> set [0xD842, 0xDFB7, 0xD842, 0xDFB7 :: qchar]" using lastIndexOf_Some nth_mem by metis
      then show False by simp
    qed
    then show ?thesis by (auto simp: subtitle_split_def split: option.splits)
  qed
  have t: "trimmed ascii [0xDFB7] = [0xDFB7]" "trimmed ascii [0xD842, 0xDFB7, 0xD842] = [0xD842, 0xDFB7, 0xD842]"
    by (simp_all add: trimmed_def ascii_def)
  have "subtitle_loop ascii 3 [0xD842, 0xDFB7, 0xD842, 0xDFB7] [] = Some ([[0xD842, 0xDFB7, 0xD842]], [0xDFB7])"
    by (subst subtitle_loop.simps, simp add: k t, subst subtitle_loop.simps, simp)
  then show ?thesis by (simp add: subtitleText_def s)
qed

subsection \<open>CSV files and audits read back\<close>

definition csv_cells :: "(real \<Rightarrow> qstring) \<Rightarrow> transcript_segment \<Rightarrow> qstring list" where
  "csv_cells number s = [decimal (ts_startMs s), decimal (ts_endMs s), normalizedLineEndings (ts_originalText s),
     normalizedLineEndings (ts_editedText s), number (ts_averageProbability s)]"

definition csv_names :: "qstring list" where
  "csv_names = map lit [''start'', ''end'', ''original_text'', ''edited_text'', ''confidence'']"

lemma parse_csv_line:
  assumes "plain_field (number (ts_averageProbability s))"
  shows "parse_csv_loop (csv_line number s @ rest) rows [] [] False
    = parse_csv_loop rest (rows @ [csv_cells number s]) [] [] False"
proof -
  have "csv_line number s @ rest = decimal (ts_startMs s) @ 0x2C # decimal (ts_endMs s) @ 0x2C #
      csvField (ts_originalText s) @ 0x2C # csvField (ts_editedText s) @ 0x2C #
      number (ts_averageProbability s) @ 0x0A # rest" (is "_ = ?r")
    by (simp add: csv_line_def)
  moreover have "parse_csv_loop ?r rows [] [] False
    = parse_csv_loop rest (rows @ [csv_cells number s]) [] [] False"
    unfolding field_comma(1) field_comma(2)[OF decimal_plain]
    by (subst parse_plain[OF assms[unfolded plain_field_def]]) (simp add: csv_cells_def)
  ultimately show ?thesis by simp
qed

lemma parse_csv_output:
  assumes "\<forall>s \<in> set ss. plain_field (number (ts_averageProbability s))"
  shows "parseCsv (csv_output number ss) = (csv_names # map (csv_cells number) ss, True)"
proof -
  have "parse_csv_loop (concat (map (csv_line number) ss)) rows [] [] False
      = (rows @ map (csv_cells number) ss, True)" for rows
    using assms by (induction ss arbitrary: rows) (simp_all add: parse_csv_line)
  then show ?thesis by (simp add: parseCsv_def csv_output_def csv_names_def)
qed

lemma normalized_no_return: "0x0D \<notin> set (normalizedLineEndings s)"
  by (auto simp: normalizedLineEndings_def)

lemma csv_output_no_return:
  assumes "\<forall>s \<in> set ss. plain_field (number (ts_averageProbability s))"
  shows "0x0D \<notin> set (csv_output number ss)"
proof -
  have field: "0x0D \<notin> set (csvField t)" for t
    using normalized_no_return[of t] by (auto simp: csvField_def doubleQuotes_def)
  have "0x0D \<notin> set (csv_line number s)" if "s \<in> set ss" for s
    using field plain_one_line[OF decimal_plain] plain_one_line[of "number (ts_averageProbability s)"] assms that
    by (simp add: csv_line_def)
  then show ?thesis by (auto simp: csv_output_def)
qed

text \<open>
  The CSV export reads back: the CSV reader of the program takes the exported file apart into
  the header and one row per segment, with its times, its texts up to line endings, whatever
  commas, quotes or line breaks they contain, and its confidence.
\<close>

theorem csv_export_reads_back:
  assumes "\<forall>s \<in> set input. plain_field (ec_number codec (ts_averageProbability s))"
  shows "\<exists>t. render uc codec Csv metadata input options
      = Some ((if eo_utf8Bom options then utf8_bom else []) @ ec_toUtf8 codec t)
    \<and> parseCsv t = (csv_names # map (csv_cells (ec_number codec)) (orderedValidSegments input), True)"
proof -
  let ?ss = "orderedValidSegments input"
  have "ts_averageProbability ` set ?ss = ts_averageProbability ` set (map untimed ?ss)"
    by (simp add: untimed_def image_image)
  also have "\<dots> = ts_averageProbability ` set input"
    by (simp add: orderedValidSegments_def push_apart_untimed untimed_def image_image del: set_map)
      (simp add: untimed_def image_image)
  finally have "\<forall>s \<in> set ?ss. plain_field (ec_number codec (ts_averageProbability s))"
    using assms by (metis imageE image_eqI)
  then have "parseCsv (csv_output (ec_number codec) ?ss) = (csv_names # map (csv_cells (ec_number codec)) ?ss, True)"
    "normalizedLineEndings (csv_output (ec_number codec) ?ss) = csv_output (ec_number codec) ?ss"
    using parse_csv_output csv_output_no_return normalized_id by blast+
  then show ?thesis by (intro exI[of _ "csv_output (ec_number codec) ?ss"]) (simp add: render_def withOptionalBom_def Let_def)
qed

lemma csv_export_reads_back_witness:
  "\<exists>t. render ascii sample_codec Csv sample_metadata [empty_segment] default_options = Some (ascii_toUtf8 t)
    \<and> length (fst (parseCsv t)) = 2"
  using csv_export_reads_back[of "[empty_segment]" sample_codec ascii sample_metadata default_options]
  by (auto simp: plain_field_def default_options_def sample_codec_def orderedValidSegments_def Let_def)

text \<open>What is stored of the replacements of a segment comes back.\<close>

lemma of_lit_lit: "of_lit (lit s) = s"
proof -
  have "char_of (unat (of_nat (of_char c) :: qchar)) = c" for c :: char
  proof -
    have "of_char c mod 65536 = (of_char c :: nat)" by (rule mod_less, rule less_trans[of _ 256]) simp_all
    then have "unat (of_nat (of_char c) :: qchar) = of_char c" by (simp add: unat_of_nat)
    then show ?thesis by simp
  qed
  then show ?thesis by (induction s) (simp_all add: of_lit_def)
qed

lemma audit_reads_back: "auditFromJson (auditToJson rs) = rs"
proof -
  have "json_replacement (replacement_json r) = r" for r
    by (simp add: json_replacement_def replacement_json_def object_value_def toText_def toInteger_def
      toNumber_def toBool_def of_lit_lit)
  then show ?thesis by (simp add: auditFromJson_def auditToJson_def map_idI)
qed

text \<open>
  Exporting to a file is all or nothing: when the export succeeds the file holds exactly the
  rendered bytes, when it fails, for any reason, the file is what it was before.
\<close>

lemma export_all_or_nothing:
  assumes "writeFile uc codec file path before format metadata segments options = Some (r, after)"
  shows "(\<forall>u. r = Inr u \<longrightarrow> after = render uc codec format metadata segments options \<and> after \<noteq> None
      \<and> path \<noteq> [] \<and> sf_opens file \<and> sf_commits file)
    \<and> (\<forall>e. r = Inl e \<longrightarrow> after = before)"
  using assms unfolding writeFile_def by (auto split: if_splits)

end
