(* ===== verification/Autosave.thy ===== *)
theory Autosave
  imports TranscriptRuns "HOL-Library.AList"
begin

text \<open>
  \<^verbatim>\<open>transcript/TranscriptAutosave.cpp\<close>: edits wait in a table and are written when the timer
  fires. The repository behind \<^verbatim>\<open>transcript/ITranscriptRepository.h\<close> is a parameter; the locale
  \<open>segment_saver\<close> states its contract and is interpreted on \<open>saveEditedSegment\<close>. The order in
  which a hash is walked is open; the model walks the table from its front.
\<close>

record autosave =
  av_pending :: "(string \<times> transcript_segment) list"
  av_timer :: bool
  av_lastError :: "user_error option"

definition new_autosave :: autosave where
  "new_autosave = \<lparr>av_pending = [], av_timer = False, av_lastError = None\<rparr>"

definition schedule :: "transcript_segment \<Rightarrow> autosave \<Rightarrow> autosave" where
  "schedule segment a =
     (if ts_id segment \<noteq> [] then
        a\<lparr>av_pending := AList.update (ts_id segment) segment (av_pending a), av_timer := True\<rparr>
      else a)"

fun flush_loop ::
  "(transcript_segment \<Rightarrow> 'c \<Rightarrow> unit result \<times> 'c) \<Rightarrow> (string \<times> transcript_segment) list \<Rightarrow> autosave \<Rightarrow> 'c
    \<Rightarrow> unit result \<times> autosave \<times> 'c" where
  "flush_loop save [] a c = (Inr (), a\<lparr>av_lastError := None\<rparr>, c)"
| "flush_loop save ((k, s) # pending) a c =
     (case save s c of
        (Inl e, c') \<Rightarrow> (Inl e, a, c')
      | (Inr _, c') \<Rightarrow> flush_loop save pending (a\<lparr>av_pending := AList.delete k (av_pending a)\<rparr>) c')"

definition flush ::
  "(transcript_segment \<Rightarrow> 'c \<Rightarrow> unit result \<times> 'c) \<Rightarrow> autosave \<Rightarrow> 'c \<Rightarrow> unit result \<times> autosave \<times> 'c" where
  "flush save a c = flush_loop save (av_pending a) (a\<lparr>av_timer := False\<rparr>) c"

definition timer_elapsed ::
  "(transcript_segment \<Rightarrow> 'c \<Rightarrow> unit result \<times> 'c) \<Rightarrow> autosave \<Rightarrow> 'c \<Rightarrow> autosave \<times> 'c" where
  "timer_elapsed save a c =
     (case flush save a c of
        (Inl e, a', c') \<Rightarrow> (a'\<lparr>av_lastError := Some e\<rparr>, c')
      | (Inr _, a', c') \<Rightarrow> (a', c'))"

definition hasPendingChanges :: "autosave \<Rightarrow> bool" where
  "hasPendingChanges a \<longleftrightarrow> av_pending a \<noteq> []"

definition destroy_autosave ::
  "(transcript_segment \<Rightarrow> 'c \<Rightarrow> unit result \<times> 'c) \<Rightarrow> autosave \<Rightarrow> 'c \<Rightarrow> 'c" where
  "destroy_autosave save a c = (if av_pending a \<noteq> [] then snd (snd (flush save a c)) else c)"

datatype autosave_event = Schedule transcript_segment | Elapsed

fun autosave_step ::
  "(transcript_segment \<Rightarrow> 'c \<Rightarrow> unit result \<times> 'c) \<Rightarrow> autosave \<times> 'c \<Rightarrow> autosave_event \<Rightarrow> autosave \<times> 'c" where
  "autosave_step save (a, c) (Schedule s) = (schedule s a, c)"
| "autosave_step save (a, c) Elapsed = timer_elapsed save a c"

definition run_autosave ::
  "(transcript_segment \<Rightarrow> 'c \<Rightarrow> unit result \<times> 'c) \<Rightarrow> 'c \<Rightarrow> autosave_event list \<Rightarrow> autosave \<times> 'c" where
  "run_autosave save c es = foldl (autosave_step save) (new_autosave, c) es"

text \<open>The latest version of each segment that was scheduled.\<close>

fun latest_step :: "(string \<rightharpoonup> transcript_segment) \<Rightarrow> autosave_event \<Rightarrow> (string \<rightharpoonup> transcript_segment)" where
  "latest_step L (Schedule s) = (if ts_id s \<noteq> [] then L(ts_id s \<mapsto> s) else L)"
| "latest_step L Elapsed = L"

definition latest_edits :: "autosave_event list \<Rightarrow> (string \<rightharpoonup> transcript_segment)" where
  "latest_edits es = foldl latest_step Map.empty es"

lemma set_update: "set (AList.update k v ps) \<subseteq> insert (k, v) (set ps)"
  by (induction ps) auto

subsection \<open>What the repository promises\<close>

definition pending_ok :: "(string \<times> transcript_segment) list \<Rightarrow> bool" where
  "pending_ok ps \<longleftrightarrow> distinct (map fst ps) \<and> (\<forall>(k, s) \<in> set ps. ts_id s = k \<and> k \<noteq> [])"

locale segment_saver =
  fixes save :: "transcript_segment \<Rightarrow> 'c \<Rightarrow> unit result \<times> 'c"
    and stored :: "transcript_segment \<Rightarrow> 'c \<Rightarrow> bool"
  assumes saved: "save s c = (Inr u, c') \<Longrightarrow> stored s c'"
    and others_kept: "ts_id t \<noteq> ts_id s \<Longrightarrow> stored t c \<Longrightarrow> save s c = (r, c') \<Longrightarrow> stored t c'"
begin

text \<open>Every latest version is pending, or written and not pending.\<close>

definition safe :: "(string \<rightharpoonup> transcript_segment) \<Rightarrow> (string \<times> transcript_segment) list \<Rightarrow> 'c \<Rightarrow> bool" where
  "safe L ps c \<longleftrightarrow> (\<forall>k s. L k = Some s \<longrightarrow> ts_id s = k
     \<and> (map_of ps k = Some s \<or> map_of ps k = None \<and> stored s c))"

lemma save_pending:
  assumes "save s c = (r, c')" "pending_ok ((k, s) # ps)" "safe L ((k, s) # ps) c" "r = Inr u"
  shows "safe L ps c'"
  unfolding safe_def
proof (intro allI impI)
  fix j t assume t: "L j = Some t"
  have k: "ts_id s = k" "map_of ps k = None" using assms(2) by (auto simp: pending_ok_def map_of_eq_None_iff)
  from assms(3) t have j: "ts_id t = j" and
    p: "map_of ((k, s) # ps) j = Some t \<or> map_of ((k, s) # ps) j = None \<and> stored t c" by (auto simp: safe_def)
  show "ts_id t = j \<and> (map_of ps j = Some t \<or> map_of ps j = None \<and> stored t c')"
  proof (cases "j = k")
    case True
    then have "t = s" using p by auto
    then show ?thesis using True j k assms(1,4) saved by auto
  next
    case False
    then show ?thesis using p j k others_kept[of t s c r c'] assms(1) by auto
  qed
qed

lemma save_failed:
  assumes "save s c = (r, c')" "(k, s) \<in> set ps" "pending_ok ps" "safe L ps c"
  shows "safe L ps c'"
  unfolding safe_def
proof (intro allI impI)
  fix j t assume t: "L j = Some t"
  have k: "ts_id s = k" "map_of ps k = Some s" using assms(2,3) by (auto simp: pending_ok_def)
  from assms(4) t have j: "ts_id t = j" and p: "map_of ps j = Some t \<or> map_of ps j = None \<and> stored t c"
    by (auto simp: safe_def)
  then show "ts_id t = j \<and> (map_of ps j = Some t \<or> map_of ps j = None \<and> stored t c')"
    using k others_kept[of t s c r c'] assms(1) by (cases "j = k") auto
qed

lemma flush_loop_safe:
  assumes "flush_loop save ps a c = (r, a', c')" "av_pending a = ps" "pending_ok ps" "safe L ps c"
  shows "safe L (av_pending a') c' \<and> pending_ok (av_pending a') \<and> (r = Inr () \<longrightarrow> av_pending a' = [])"
  using assms
proof (induction ps arbitrary: a c)
  case Nil
  then show ?case by auto
next
  case (Cons p ps)
  obtain k s where p: "p = (k, s)" by (cases p)
  obtain x c1 where x: "save s c = (x, c1)" by (cases "save s c")
  have k: "AList.delete k ((k, s) # ps) = ps"
    using Cons.prems(3) by (auto simp: p pending_ok_def AList.delete_eq image_iff intro!: filter_True)
  show ?case
  proof (cases x)
    case (Inl e)
    then show ?thesis using Cons.prems save_failed[OF x, of k "(k, s) # ps" L] by (auto simp: p x)
  next
    case (Inr u)
    let ?a = "a\<lparr>av_pending := AList.delete k (av_pending a)\<rparr>"
    have "flush_loop save ps ?a c1 = (r, a', c')" "av_pending ?a = ps"
      using Cons.prems(1,2) x Inr k by (simp_all add: p)
    moreover have "pending_ok ps" using Cons.prems(3) by (simp add: p pending_ok_def)
    moreover have "safe L ps c1" using save_pending[OF x _ _ Inr, of k ps L] Cons.prems(3,4) by (simp add: p)
    ultimately show ?thesis by (rule Cons.IH)
  qed
qed

lemma schedule_safe:
  assumes "pending_ok (av_pending a)" "safe L (av_pending a) c"
  shows "pending_ok (av_pending (schedule s a)) \<and> safe (latest_step L (Schedule s)) (av_pending (schedule s a)) c"
proof (cases "ts_id s = []")
  case False
  have "set (AList.update (ts_id s) s (av_pending a)) \<subseteq> insert (ts_id s, s) (set (av_pending a))"
    by (rule set_update)
  then have "pending_ok (AList.update (ts_id s) s (av_pending a))"
    using assms(1) False distinct_update[of "av_pending a" "ts_id s" s] by (fastforce simp: pending_ok_def)
  then show ?thesis using assms(2) False by (auto simp: schedule_def safe_def update_conv')
qed (use assms in \<open>simp add: schedule_def\<close>)

lemma run_safe:
  assumes "run_autosave save c es = (a, c')"
  shows "pending_ok (av_pending a) \<and> safe (latest_edits es) (av_pending a) c'"
  using assms
proof (induction es arbitrary: a c' rule: rev_induct)
  case Nil
  then show ?case by (auto simp: run_autosave_def new_autosave_def latest_edits_def pending_ok_def safe_def)
next
  case (snoc e es)
  obtain a1 c1 where r: "run_autosave save c es = (a1, c1)" by (cases "run_autosave save c es")
  note ih = snoc.IH[OF r]
  have step: "autosave_step save (a1, c1) e = (a, c')" using snoc.prems r by (simp add: run_autosave_def)
  show ?case
  proof (cases e)
    case (Schedule s)
    then show ?thesis using step schedule_safe[of a1 "latest_edits es" c1 s] ih by (auto simp: latest_edits_def)
  next
    case Elapsed
    obtain x a2 c2 where f: "flush save a1 c1 = (x, a2, c2)" by (metis prod.collapse)
    have "safe (latest_edits es) (av_pending a2) c2 \<and> pending_ok (av_pending a2)"
      using flush_loop_safe[OF f[unfolded flush_def], of "latest_edits es"] ih by simp
    moreover have "av_pending a = av_pending a2" "c' = c2"
      using step f Elapsed by (auto simp: timer_elapsed_def split: sum.splits)
    ultimately show ?thesis using Elapsed by (simp add: latest_edits_def)
  qed
qed

lemma edits_safe:
  assumes "run_autosave save c es = (a, c')" "latest_edits es k = Some s"
  shows "map_of (av_pending a) k = Some s \<or> stored s c'"
  using run_safe[OF assms(1)] assms(2) by (auto simp: safe_def)

lemma flushed_edits:
  assumes "run_autosave save c es = (a, c1)" "flush save a c1 = (Inr u, a', c')" "latest_edits es k = Some s"
  shows "stored s c'"
  using flush_loop_safe[OF assms(2)[unfolded flush_def] _ _, of "latest_edits es"] run_safe[OF assms(1)] assms(3)
  by (auto simp: safe_def)

end

subsection \<open>The SQLite repository keeps the promise\<close>

definition edit_stored :: "transcript_segment \<Rightarrow> job_tables \<Rightarrow> bool" where
  "edit_stored s d \<longleftrightarrow> (\<exists>t \<in> set (db_segments d). ts_id t = ts_id s \<and> ts_startMs t = ts_startMs s
     \<and> ts_endMs t = ts_endMs s \<and> ts_editedText t = ts_editedText s
     \<and> ts_replacementAudit t = ts_replacementAudit s \<and> ts_reviewed t = ts_reviewed s)"

lemma achieves_pure_pre: "(b \<Longrightarrow> achieves P m Q) \<Longrightarrow> achieves (\<lambda>d. P d \<and> b) m Q"
  by (auto simp: achieves_def)

lemma update_stores:
  assumes "ts_id k = ts_id g"
  shows "achieves (\<lambda>_. True) (and_then (exec (update_segments (\<lambda>s. ts_id s = ts_id k \<and> ts_jobId s = ts_jobId k
        \<and> ts_recordingId s = ts_recordingId k)
      (\<lambda>s. s\<lparr>ts_startMs := ts_startMs g, ts_endMs := ts_endMs g, ts_editedText := ts_editedText g,
        ts_replacementAudit := ts_replacementAudit g, ts_reviewed := ts_reviewed g, ts_updatedAt := Some now\<rparr>)))
      (\<lambda>rows. if rows = 0 then validation NotFound else rebuildRecording (ts_recordingId k))) (\<lambda>_. edit_stored g)"
proof (rule achieves_and_then[OF achieves_exec[where Q = "\<lambda>rows d. rows \<noteq> 0 \<longrightarrow> edit_stored g d"]], goal_cases)
  case (1 d n d')
  show ?case
  proof
    assume "n \<noteq> 0"
    then obtain s where s: "s \<in> set (db_segments d)" "ts_id s = ts_id k \<and> ts_jobId s = ts_jobId k \<and> ts_recordingId s = ts_recordingId k"
      using 1(2) by (auto simp: update_segments_def Let_def filter_empty_conv split: if_splits)
    let ?t = "s\<lparr>ts_startMs := ts_startMs g, ts_endMs := ts_endMs g, ts_editedText := ts_editedText g,
        ts_replacementAudit := ts_replacementAudit g, ts_reviewed := ts_reviewed g, ts_updatedAt := Some now\<rparr>"
    have "?t \<in> set (db_segments d')" using 1(2) s by (force simp: update_segments_def Let_def split: if_splits)
    then show "edit_stored g d'" unfolding edit_stored_def using s assms by (intro bexI[of _ ?t]) simp_all
  qed
next
  case (2 n)
  then show ?case by (cases "n = 0") (simp_all add: keep_basic)
qed

lemma update_keeps:
  assumes "ts_id s \<noteq> ts_id k"
  shows "achieves (edit_stored s) (exec (update_segments (\<lambda>t. ts_id t = ts_id k \<and> ts_jobId t = ts_jobId k
      \<and> ts_recordingId t = ts_recordingId k) f)) (\<lambda>_. edit_stored s)"
proof (rule achieves_exec)
  fix d n d'
  assume "edit_stored s d" and u: "update_segments (\<lambda>t. ts_id t = ts_id k \<and> ts_jobId t = ts_jobId k
      \<and> ts_recordingId t = ts_recordingId k) f d = Some (n, d')"
  then obtain t where t: "t \<in> set (db_segments d)" "ts_id t = ts_id s" "ts_startMs t = ts_startMs s"
    "ts_endMs t = ts_endMs s" "ts_editedText t = ts_editedText s"
    "ts_replacementAudit t = ts_replacementAudit s" "ts_reviewed t = ts_reviewed s" by (auto simp: edit_stored_def)
  have "t \<in> set (db_segments d')" using u t(1,2) assms by (force simp: update_segments_def Let_def split: if_splits)
  then show "edit_stored s d'" unfolding edit_stored_def using t by blast
qed

lemma achieves_loaded:
  assumes "achieves P (f None) Q" and "\<And>k. ts_id k = i \<Longrightarrow> achieves P (f (Some k)) Q"
  shows "achieves P (and_then (loadSegment i) f) Q"
proof (rule achieves_and_then[OF loadSegment_value])
  fix x
  show "achieves (\<lambda>d. P d \<and> (\<forall>s. x = Some s \<longrightarrow> s \<in> set (db_segments d) \<and> ts_id s = i)) (f x) Q"
  proof (cases x)
    case None
    then show ?thesis using assms(1) by simp
  next
    case (Some k)
    then show ?thesis using assms(2)[of k] by (cases "ts_id k = i") (auto simp: achieves_def)
  qed
qed

lemma saveEditedSegment_stores: "achieves (\<lambda>_. True) (saveEditedSegment g) (\<lambda>_. edit_stored g)"
  unfolding saveEditedSegment_def
  apply (intro achieves_if keep_basic(3) achieves_transaction achieves_loaded; unfold option.case)
   apply (rule keep_basic(3))
  apply (intro achieves_if keep_basic(3) achieves_and_then[OF reads_only_achieves[OF reads_ownerless]]
      achieves_and_then[OF keep_basic(2)] achieves_and_then[OF achieves_clock] update_stores)
  apply assumption
  done

lemma saveEditedSegment_keeps:
  assumes "ts_id s \<noteq> ts_id g"
  shows "achieves (edit_stored s) (saveEditedSegment g) (\<lambda>_. edit_stored s)"
  unfolding saveEditedSegment_def
  apply (intro achieves_if keep_basic(3) achieves_transaction achieves_loaded; unfold option.case)
   apply (rule keep_basic(3))
  apply (intro achieves_if keep_basic achieves_and_then[OF reads_only_achieves[OF reads_ownerless]]
      achieves_and_then[OF keep_basic(2)] achieves_and_then[OF achieves_clock] achieves_and_then[OF update_keeps])
  apply (use assms in simp)
  done

interpretation sqlite_saver: segment_saver saveEditedSegment "\<lambda>s c. edit_stored s (cn_db c)"
proof unfold_locales
  fix s c u c' assume "saveEditedSegment s c = (Inr u, c' :: job_tables connection)"
  then show "edit_stored s (cn_db c')" using achievesD[OF saveEditedSegment_stores] by blast
next
  fix t s c r c'
  assume "ts_id t \<noteq> ts_id s" "edit_stored t (cn_db c)" "saveEditedSegment s c = (r, c' :: job_tables connection)"
  then show "edit_stored t (cn_db c')"
    using achievesD[OF saveEditedSegment_keeps] apply_store_atomic[of "SaveSegment s", unfolded atomic_def]
    by (cases r) fastforce+
qed

text \<open>
  C34: Autosave loses no edit. After any sequence of edits and timer events, whichever writes
  failed, the latest version of every segment that was edited is either still waiting to be
  written or is what the repository holds; after a flush that succeeds all are in the repository
  and none is waiting.
\<close>

theorem autosave_loses_nothing:
  assumes "run_autosave saveEditedSegment c es = (a, c1)" and "latest_edits es k = Some s"
  shows "(map_of (av_pending a) k = Some s \<or> edit_stored s (cn_db c1))
    \<and> (\<forall>u a' c2. flush saveEditedSegment a c1 = (Inr u, a', c2) \<longrightarrow>
         edit_stored s (cn_db c2) \<and> \<not> hasPendingChanges a')"
proof (intro conjI allI impI)
  show "map_of (av_pending a) k = Some s \<or> edit_stored s (cn_db c1)"
    by (rule sqlite_saver.edits_safe[OF assms])
next
  fix u a' c2 assume f: "flush saveEditedSegment a c1 = (Inr u, a', c2)"
  show "edit_stored s (cn_db c2)" by (rule sqlite_saver.flushed_edits[OF assms(1) f assms(2)])
  show "\<not> hasPendingChanges a'"
    using sqlite_saver.flush_loop_safe[OF f[unfolded flush_def] _ _ conjunct2[OF sqlite_saver.run_safe[OF assms(1)]]]
      sqlite_saver.run_safe[OF assms(1)] by (simp add: hasPendingChanges_def)
qed

lemma autosave_loses_nothing_witness:
  "\<exists>a c1. run_autosave saveEditedSegment (at_time 5 sample_transcript) [Schedule (sample_segment\<lparr>ts_editedText := [67]\<rparr>), Elapsed] = (a, c1)
     \<and> (map_of (av_pending a) ''s'' = Some (sample_segment\<lparr>ts_editedText := [67]\<rparr>)
        \<or> edit_stored (sample_segment\<lparr>ts_editedText := [67]\<rparr>) (cn_db c1))"
proof -
  obtain a c1 where r: "run_autosave saveEditedSegment (at_time 5 sample_transcript)
      [Schedule (sample_segment\<lparr>ts_editedText := [67]\<rparr>), Elapsed] = (a, c1)" by (metis prod.collapse)
  have "latest_edits [Schedule (sample_segment\<lparr>ts_editedText := [67]\<rparr>), Elapsed] ''s''
      = Some (sample_segment\<lparr>ts_editedText := [67]\<rparr>)"
    by (simp add: latest_edits_def sample_segment_def empty_segment_def)
  from autosave_loses_nothing[OF r this] r show ?thesis by blast
qed

end
