(* ===== verification/WorkerProcess.thy ===== *)
theory WorkerProcess
  imports Protocol CoreTypes QText
begin

text \<open>
  \<^verbatim>\<open>app/WorkerProcessManager.cpp\<close>: starting, supervising and restarting the worker process, and
  the cancellations that are forced by ending it. The manager is a machine over the calls made to
  it, the signals of its client and its process, and its timers. What the environment decides (which
  executables there are, which of them start, whether a process ends in time, the clock) is the
  record \<open>world\<close> that comes with each event. The state keeps a history of what was done and
  emitted. Texts of errors are represented by their kind. Single shot timers fire in any order.
\<close>

datatype manager_error =
  NoManagerError | WorkerMissing | VariantsFailed | StartFailed string | EndpointTimeout
  | WorkerDisconnected | ProtocolFailure qstring | WorkerCrash int | WorkerExit int

datatype manager_timer = ConnectRetry nat nat | Grace nat nat | Restart | CancelStart

datatype manager_note =
  ReadyChanged | LastErrorChanged | WorkerInterrupted | ForcedCancellationSettled
  | AutomaticRestartStopped | ProcessStarted string | KillProcess | ProcessExited
  | RequestSent message_type qstring | CancellationForced

record manager =
  wm_process :: bool
  wm_killed :: bool
  wm_ready :: bool
  wm_lastError :: manager_error
  wm_preferredBackend :: qstring
  wm_currentExecutable :: string
  wm_failedExecutables :: "string set"
  wm_candidateCount :: nat
  wm_restartTimes :: "int list"
  wm_terminalRequestOrder :: "qstring list"
  wm_terminalRequests :: "qstring set"
  wm_recoveryTimer :: bool
  wm_ticket :: nat
  wm_generation :: nat
  wm_authenticated :: nat
  wm_cancelJob :: qstring
  wm_cancelRequest :: qstring
  wm_pending :: bool
  wm_awaitingRestart :: bool
  wm_stopping :: bool
  wm_timers :: "manager_timer list"
  wm_history :: "manager_note list"

record world =
  wo_executables :: "string list"
  wo_starts :: "string \<Rightarrow> bool"
  wo_now :: int
  wo_sends :: bool
  wo_error :: qstring
  wo_finishes :: bool
  wo_dies :: bool
  wo_unicode :: unicode

definition new_manager :: manager where
  "new_manager = \<lparr>wm_process = False, wm_killed = False, wm_ready = False, wm_lastError = NoManagerError,
     wm_preferredBackend = lit ''Auto'', wm_currentExecutable = [], wm_failedExecutables = {},
     wm_candidateCount = 0, wm_restartTimes = [], wm_terminalRequestOrder = [], wm_terminalRequests = {},
     wm_recoveryTimer = False, wm_ticket = 0, wm_generation = 0, wm_authenticated = 0, wm_cancelJob = [],
     wm_cancelRequest = [], wm_pending = False, wm_awaitingRestart = False, wm_stopping = False,
     wm_timers = [], wm_history = []\<rparr>"

definition MaximumConnectionAttempts :: nat where "MaximumConnectionAttempts = 100"
definition RestartWindowSeconds :: int where "RestartWindowSeconds = 60"
definition MaximumRestartsInWindow :: nat where "MaximumRestartsInWindow = 3"
definition MaximumRememberedTerminalRequests :: nat where "MaximumRememberedTerminalRequests = 128"

definition operationKey :: "qstring \<Rightarrow> qstring \<Rightarrow> qstring" where
  "operationKey jobId requestId = jobId @ [0] @ requestId"

subsection \<open>Steps of the handlers\<close>

definition noted :: "manager_note \<Rightarrow> manager \<Rightarrow> manager" where
  "noted n m = m\<lparr>wm_history := wm_history m @ [n]\<rparr>"

definition arm :: "manager_timer \<Rightarrow> manager \<Rightarrow> manager" where
  "arm t m = m\<lparr>wm_timers := wm_timers m @ [t]\<rparr>"

definition kill :: "manager \<Rightarrow> manager" where
  "kill m = noted KillProcess (m\<lparr>wm_killed := True\<rparr>)"

definition setLastError :: "manager_error \<Rightarrow> manager \<Rightarrow> manager" where
  "setLastError e m = (if wm_lastError m = e then m else noted LastErrorChanged (m\<lparr>wm_lastError := e\<rparr>))"

definition scheduleForcedCancellationRecovery :: "manager \<Rightarrow> manager" where
  "scheduleForcedCancellationRecovery m =
     (if \<not> wm_pending m \<or> wm_stopping m \<or> wm_process m \<or> wm_recoveryTimer m then m
      else m\<lparr>wm_recoveryTimer := True\<rparr>)"

definition settleForcedCancellation :: "manager \<Rightarrow> manager" where
  "settleForcedCancellation m =
     (if \<not> wm_pending m then m
      else noted ForcedCancellationSettled (m\<lparr>wm_pending := False, wm_awaitingRestart := False, wm_cancelJob := [],
             wm_cancelRequest := [], wm_recoveryTimer := False, wm_ticket := wm_ticket m + 1\<rparr>))"

definition connectClientWithRetry :: "nat \<Rightarrow> nat \<Rightarrow> manager \<Rightarrow> manager" where
  "connectClientWithRetry generation attempt m =
     (if generation \<noteq> wm_generation m \<or> \<not> wm_process m \<or> wm_stopping m then m
      else if attempt \<ge> MaximumConnectionAttempts then kill (setLastError EndpointTimeout m)
      else if \<not> wm_ready m then arm (ConnectRetry generation attempt) m
      else m)"

definition recoverAuthenticatedChannelFailure :: "nat \<Rightarrow> manager_error \<Rightarrow> manager \<Rightarrow> manager" where
  "recoverAuthenticatedChannelFailure generation reason m =
     (if generation \<noteq> wm_generation m \<or> wm_authenticated m \<noteq> generation \<or> wm_stopping m \<or> \<not> wm_process m then m
      else kill (setLastError reason (noted ReadyChanged
             (m\<lparr>wm_generation := wm_generation m + 1, wm_authenticated := 0, wm_ready := False\<rparr>))))"

subsection \<open>Starting\<close>

text \<open>
  Each attempt that fails marks one more executable as failed; this is what makes the recursion
  end.
\<close>

definition launched :: "manager \<Rightarrow> manager" where
  "launched m = m\<lparr>wm_stopping := False, wm_generation := wm_generation m + 1, wm_authenticated := 0,
     wm_terminalRequests := {}, wm_terminalRequestOrder := []\<rparr>"

function start :: "world \<Rightarrow> manager \<Rightarrow> bool \<times> manager" where
  "start w m =
     (if wm_process m then (True, m)
      else
        let m1 = m\<lparr>wm_candidateCount := length (wo_executables w)\<rparr> in
        if wo_executables w = [] then
          (False, scheduleForcedCancellationRecovery (setLastError WorkerMissing m1))
        else case find (\<lambda>e. e \<notin> wm_failedExecutables m) (wo_executables w) of
          None \<Rightarrow> (False, scheduleForcedCancellationRecovery
                   (noted AutomaticRestartStopped (setLastError VariantsFailed m1)))
        | Some executable \<Rightarrow>
            let m2 = launched m1 in
            if \<not> wo_starts w executable then
              start w (setLastError (StartFailed executable)
                (m2\<lparr>wm_failedExecutables := insert executable (wm_failedExecutables m2)\<rparr>))
            else
              let m3 = noted (ProcessStarted executable)
                    (m2\<lparr>wm_process := True, wm_killed := False, wm_currentExecutable := executable\<rparr>)
              in (True, connectClientWithRetry (wm_generation m3) 0 m3))"
  by pat_completeness auto

lemma setLastError_fields [simp]:
  "wm_process (setLastError e m) = wm_process m" "wm_killed (setLastError e m) = wm_killed m"
  "wm_ready (setLastError e m) = wm_ready m" "wm_failedExecutables (setLastError e m) = wm_failedExecutables m"
  "wm_candidateCount (setLastError e m) = wm_candidateCount m" "wm_restartTimes (setLastError e m) = wm_restartTimes m"
  "wm_terminalRequestOrder (setLastError e m) = wm_terminalRequestOrder m"
  "wm_terminalRequests (setLastError e m) = wm_terminalRequests m" "wm_recoveryTimer (setLastError e m) = wm_recoveryTimer m"
  "wm_ticket (setLastError e m) = wm_ticket m" "wm_generation (setLastError e m) = wm_generation m"
  "wm_authenticated (setLastError e m) = wm_authenticated m" "wm_cancelJob (setLastError e m) = wm_cancelJob m"
  "wm_cancelRequest (setLastError e m) = wm_cancelRequest m" "wm_pending (setLastError e m) = wm_pending m"
  "wm_awaitingRestart (setLastError e m) = wm_awaitingRestart m" "wm_stopping (setLastError e m) = wm_stopping m"
  "wm_timers (setLastError e m) = wm_timers m" "wm_currentExecutable (setLastError e m) = wm_currentExecutable m"
  by (simp_all add: setLastError_def noted_def)

lemma candidates_shrink:
  assumes "find (\<lambda>e. e \<notin> F) es = Some x"
  shows "card (set es - insert x F) < card (set es - F)"
proof (rule psubset_card_mono)
  have "x \<in> set es" "x \<notin> F" using assms by (auto simp: find_Some_iff)
  then show "set es - insert x F \<subset> set es - F" by blast
qed simp

termination start
  by (relation "measure (\<lambda>(w, m). card (set (wo_executables w) - wm_failedExecutables m))")
    (auto simp: launched_def dest: candidates_shrink)

declare start.simps [simp del]

subsection \<open>Ending\<close>

fun drop_old :: "int \<Rightarrow> int list \<Rightarrow> int list" where
  "drop_old limit [] = []"
| "drop_old limit (t # ts) = (if t < limit then drop_old limit ts else t # ts)"

text \<open>The process has ended: the state the handler finds has no process.\<close>

definition exit_reset :: "manager \<Rightarrow> manager" where
  "exit_reset m = noted ReadyChanged (m\<lparr>wm_generation := wm_generation m + 1, wm_authenticated := 0,
     wm_awaitingRestart := (if wm_pending m then True else wm_awaitingRestart m), wm_ready := False\<rparr>)"

definition interrupted :: "world \<Rightarrow> bool \<Rightarrow> int \<Rightarrow> manager \<Rightarrow> manager" where
  "interrupted w crashed exitCode m =
     (let m1 = noted WorkerInterrupted (setLastError (if crashed then WorkerCrash exitCode else WorkerExit exitCode) m)
      in m1\<lparr>wm_failedExecutables :=
              (if wm_candidateCount m1 > 1 \<and> wm_currentExecutable m1 \<noteq> []
               then insert (wm_currentExecutable m1) (wm_failedExecutables m1) else wm_failedExecutables m1),
            wm_restartTimes := drop_old (wo_now w - RestartWindowSeconds) (wm_restartTimes m1)\<rparr>)"

definition handleUnexpectedExit :: "world \<Rightarrow> bool \<Rightarrow> int \<Rightarrow> manager \<Rightarrow> manager" where
  "handleUnexpectedExit w crashed exitCode m =
     (let m1 = exit_reset m
      in if wm_stopping m1 then settleForcedCancellation m1
         else
           let m2 = interrupted w crashed exitCode m1
           in if length (wm_restartTimes m2) \<ge> MaximumRestartsInWindow
              then scheduleForcedCancellationRecovery (noted AutomaticRestartStopped m2)
              else arm Restart (m2\<lparr>wm_restartTimes := wm_restartTimes m2 @ [wo_now w]\<rparr>))"

lemma interrupted_fields [simp]:
  "wm_process (interrupted w crashed code m) = wm_process m" "wm_killed (interrupted w crashed code m) = wm_killed m"
  "wm_ready (interrupted w crashed code m) = wm_ready m" "wm_pending (interrupted w crashed code m) = wm_pending m"
  "wm_awaitingRestart (interrupted w crashed code m) = wm_awaitingRestart m"
  "wm_stopping (interrupted w crashed code m) = wm_stopping m" "wm_timers (interrupted w crashed code m) = wm_timers m"
  "wm_recoveryTimer (interrupted w crashed code m) = wm_recoveryTimer m"
  "wm_generation (interrupted w crashed code m) = wm_generation m" "wm_ticket (interrupted w crashed code m) = wm_ticket m"
  "wm_terminalRequests (interrupted w crashed code m) = wm_terminalRequests m"
  "wm_terminalRequestOrder (interrupted w crashed code m) = wm_terminalRequestOrder m"
  "wm_restartTimes (interrupted w crashed code m) = drop_old (wo_now w - RestartWindowSeconds) (wm_restartTimes m)"
  by (simp_all add: interrupted_def noted_def Let_def)

definition process_finished :: "world \<Rightarrow> bool \<Rightarrow> int \<Rightarrow> manager \<Rightarrow> manager" where
  "process_finished w crashed exitCode m =
     handleUnexpectedExit w crashed exitCode (noted ProcessExited (m\<lparr>wm_process := False, wm_killed := False\<rparr>))"

definition failure :: "qstring \<Rightarrow> manager_error" where
  "failure detail = (if detail = [] then NoManagerError else ProtocolFailure detail)"

text \<open>
  A request to the worker. A frame that cannot be written fails the client: the handler of its
  error runs, then the client is no longer ready.
\<close>

definition client_error :: "qstring \<Rightarrow> bool \<Rightarrow> manager \<Rightarrow> manager" where
  "client_error detail drops m =
     (let authenticated = wm_ready m \<and> wm_authenticated m = wm_generation m;
          m1 = setLastError (failure detail) m;
          m2 = (if authenticated
                then recoverAuthenticatedChannelFailure (wm_generation m) (failure detail) m1 else m1)
      in if drops then m2\<lparr>wm_ready := False\<rparr> else m2)"

definition send_request :: "world \<Rightarrow> message_type \<Rightarrow> qstring \<Rightarrow> manager \<Rightarrow> manager" where
  "send_request w type jobId m =
     (if wo_sends w then noted (RequestSent type jobId) m else client_error (wo_error w) True m)"

definition stop :: "world \<Rightarrow> manager \<Rightarrow> manager" where
  "stop w m =
     (let m1 = m\<lparr>wm_stopping := True, wm_recoveryTimer := False, wm_generation := wm_generation m + 1,
            wm_authenticated := 0, wm_ticket := wm_ticket m + 1\<rparr>;
          m2 = (if wm_ready m1 then send_request w Shutdown [] m1 else m1);
          m3 = (if \<not> wm_process m2 then m2
                else if wo_finishes w then process_finished w False 0 m2
                else if wo_dies w then process_finished w True 0 (kill m2)
                else kill m2);
          m4 = m3\<lparr>wm_ready := False\<rparr>
      in if \<not> wm_process m4 then settleForcedCancellation m4 else m4)"

definition abortImmediately :: "manager \<Rightarrow> manager" where
  "abortImmediately m =
     (let m1 = m\<lparr>wm_stopping := False, wm_generation := wm_generation m + 1, wm_authenticated := 0,
            wm_ready := False\<rparr>
      in if wm_process m1 then kill m1 else settleForcedCancellation m1)"

definition forceCancelAfterGrace :: "world \<Rightarrow> qstring \<Rightarrow> qstring \<Rightarrow> manager \<Rightarrow> manager" where
  "forceCancelAfterGrace w jobId requestId m =
     (if requestId = [] then m
      else if operationKey jobId requestId \<in> wm_terminalRequests m
        \<or> wm_pending m \<and> jobId = wm_cancelJob m \<and> requestId = wm_cancelRequest m then m
      else
        let ticket = wm_ticket m + 1;
            generation = wm_generation m;
            m1 = noted CancellationForced (m\<lparr>wm_ticket := ticket, wm_pending := True, wm_awaitingRestart := \<not> wm_ready m,
                   wm_cancelJob := jobId, wm_cancelRequest := requestId\<rparr>)
        in if \<not> wm_ready m1 then
             if wm_process m1 then kill m1
             else if \<not> wm_stopping m1 then arm CancelStart m1 else m1
           else arm (Grace ticket generation) (send_request w CancelJob jobId m1))"

subsection \<open>Signals and timers\<close>

definition is_terminal_reply :: "envelope \<Rightarrow> bool" where
  "is_terminal_reply e \<longleftrightarrow> env_type e \<in> {ChunkCompletedMessage, TranscriptionCompleted, SpeechAnalysisCompleted,
     ModelLoaded, JobCancelledMessage, ErrorMessage}"

text \<open>\<open>m_terminalRequestOrder\<close> drops from its front what exceeds the limit.\<close>

fun forget_oldest :: "qstring list \<Rightarrow> qstring set \<Rightarrow> qstring list \<times> qstring set" where
  "forget_oldest [] known = ([], known)"
| "forget_oldest (k # ks) known =
     (if length (k # ks) > MaximumRememberedTerminalRequests then forget_oldest ks (known - {k})
      else (k # ks, known))"

definition remember_terminal :: "qstring \<Rightarrow> manager \<Rightarrow> manager" where
  "remember_terminal key m =
     (if key \<in> wm_terminalRequests m then m
      else case forget_oldest (wm_terminalRequestOrder m @ [key]) (insert key (wm_terminalRequests m)) of
        (order, known) \<Rightarrow> m\<lparr>wm_terminalRequestOrder := order, wm_terminalRequests := known\<rparr>)"

definition client_envelope :: "envelope \<Rightarrow> manager \<Rightarrow> manager" where
  "client_envelope e m =
     (if is_terminal_reply e then
        let m1 = (if env_requestId e \<noteq> [] then remember_terminal (operationKey (env_jobId e) (env_requestId e)) m else m)
        in if wm_pending m1 \<and> env_jobId e = wm_cancelJob m1 \<and> env_requestId e = wm_cancelRequest m1
           then settleForcedCancellation m1 else m1
      else m)"

definition client_becomes_ready :: "manager \<Rightarrow> manager" where
  "client_becomes_ready m =
     (let m1 = noted ReadyChanged (setLastError NoManagerError
            (m\<lparr>wm_ready := True, wm_authenticated := wm_generation m\<rparr>))
      in if wm_pending m1 \<and> wm_awaitingRestart m1 then settleForcedCancellation m1 else m1)"

definition client_disconnects :: "manager \<Rightarrow> manager" where
  "client_disconnects m =
     (let generation = wm_generation m;
          authenticated = (wm_authenticated m = generation);
          m1 = noted ReadyChanged (m\<lparr>wm_ready := False\<rparr>)
      in if authenticated then recoverAuthenticatedChannelFailure generation WorkerDisconnected m1 else m1)"

definition setPreferredBackend :: "unicode \<Rightarrow> qstring \<Rightarrow> manager \<Rightarrow> manager" where
  "setPreferredBackend uc backend m =
     (let normalized = (if trimmed uc backend = [] then lit ''Auto'' else trimmed uc backend) in
      if wm_preferredBackend m = normalized then m
      else m\<lparr>wm_preferredBackend := normalized, wm_failedExecutables := {}\<rparr>)"

definition recovery_timeout :: "world \<Rightarrow> manager \<Rightarrow> manager" where
  "recovery_timeout w m =
     (let m1 = m\<lparr>wm_recoveryTimer := False\<rparr> in
      if \<not> wm_pending m1 \<or> wm_stopping m1 \<or> wm_process m1 then m1
      else case start w (m1\<lparr>wm_failedExecutables := {}, wm_restartTimes := []\<rparr>) of
        (started, m2) \<Rightarrow> if started then m2 else scheduleForcedCancellationRecovery m2)"

fun timer_fires :: "world \<Rightarrow> manager_timer \<Rightarrow> manager \<Rightarrow> manager" where
  "timer_fires w (ConnectRetry generation attempt) m =
     (if generation = wm_generation m \<and> \<not> wm_ready m then connectClientWithRetry generation (attempt + 1) m else m)"
| "timer_fires w (Grace ticket generation) m =
     (if ticket = wm_ticket m \<and> generation = wm_generation m \<and> wm_process m then kill m else m)"
| "timer_fires w Restart m = (if \<not> wm_stopping m \<and> \<not> wm_process m then snd (start w m) else m)"
| "timer_fires w CancelStart m = (if wm_pending m \<and> \<not> wm_process m then snd (start w m) else m)"

datatype manager_event =
  Start | Stop | Abort | ForceCancel qstring qstring | PreferBackend qstring
  | ClientReady | ClientDisconnected | ClientError qstring bool | ClientEnvelope envelope
  | ProcessFinished bool int | RecoveryTimeout | TimerFires nat

text \<open>
  Events that cannot happen leave the state alone: a client becomes ready once per connection to a
  running worker and delivers envelopes while it is ready, a process that does not run cannot
  finish, a timer that is not armed cannot fire.
\<close>

fun manager_step :: "manager \<Rightarrow> world \<times> manager_event \<Rightarrow> manager" where
  "manager_step m (w, Start) = snd (start w m)"
| "manager_step m (w, Stop) = stop w m"
| "manager_step m (w, Abort) = abortImmediately m"
| "manager_step m (w, ForceCancel jobId requestId) = forceCancelAfterGrace w jobId requestId m"
| "manager_step m (w, PreferBackend backend) = setPreferredBackend (wo_unicode w) backend m"
| "manager_step m (w, ClientReady) = (if wm_process m \<and> \<not> wm_ready m then client_becomes_ready m else m)"
| "manager_step m (w, ClientDisconnected) = client_disconnects m"
| "manager_step m (w, ClientError detail drops) = client_error detail drops m"
| "manager_step m (w, ClientEnvelope e) = (if wm_ready m then client_envelope e m else m)"
| "manager_step m (w, ProcessFinished crashed exitCode) =
     (if wm_process m then process_finished w crashed exitCode m else m)"
| "manager_step m (w, RecoveryTimeout) = (if wm_recoveryTimer m then recovery_timeout w m else m)"
| "manager_step m (w, TimerFires i) =
     (if i < length (wm_timers m)
      then timer_fires w (wm_timers m ! i) (m\<lparr>wm_timers := take i (wm_timers m) @ drop (Suc i) (wm_timers m)\<rparr>)
      else m)"

definition run_manager :: "(world \<times> manager_event) list \<Rightarrow> manager" where
  "run_manager es = foldl manager_step new_manager es"

subsection \<open>Forced cancellations\<close>

lemmas manager_defs = noted_def arm_def kill_def scheduleForcedCancellationRecovery_def
  settleForcedCancellation_def connectClientWithRetry_def recoverAuthenticatedChannelFailure_def launched_def

text \<open>A pending cancellation is on its way to being settled.\<close>

definition cancel_way :: "manager \<Rightarrow> bool" where
  "cancel_way m \<longleftrightarrow>
     (if wm_process m then
        wm_killed m
        \<or> wm_ready m \<and> \<not> wm_awaitingRestart m \<and> Grace (wm_ticket m) (wm_generation m) \<in> set (wm_timers m)
        \<or> \<not> wm_ready m \<and> wm_awaitingRestart m \<and> (\<exists>a. ConnectRetry (wm_generation m) a \<in> set (wm_timers m))
      else wm_awaitingRestart m \<and> (wm_stopping m \<or> Restart \<in> set (wm_timers m)
        \<or> CancelStart \<in> set (wm_timers m) \<or> wm_recoveryTimer m))"

definition cancel_ok :: "manager \<Rightarrow> bool" where
  "cancel_ok m \<longleftrightarrow> (wm_ready m \<or> wm_killed m \<longrightarrow> wm_process m) \<and> (wm_process m \<and> wm_stopping m \<longrightarrow> wm_killed m)
     \<and> (wm_ready m \<and> \<not> wm_killed m \<longrightarrow> wm_authenticated m = wm_generation m)
     \<and> (wm_pending m \<longrightarrow> cancel_way m)"

lemma cancel_ok_new: "cancel_ok new_manager"
  by (simp add: cancel_ok_def new_manager_def)

lemma start_cases:
  obtains (running) "wm_process m" "start w m = (True, m)"
  | (missing) "\<not> wm_process m" "wo_executables w = []" "start w m = (False, scheduleForcedCancellationRecovery
      (setLastError WorkerMissing (m\<lparr>wm_candidateCount := length (wo_executables w)\<rparr>)))"
  | (exhausted) "\<not> wm_process m" "find (\<lambda>e. e \<notin> wm_failedExecutables m) (wo_executables w) = None" "start w m = (False, scheduleForcedCancellationRecovery (noted AutomaticRestartStopped
      (setLastError VariantsFailed (m\<lparr>wm_candidateCount := length (wo_executables w)\<rparr>))))"
  | (failing) e where "\<not> wm_process m" "find (\<lambda>e. e \<notin> wm_failedExecutables m) (wo_executables w) = Some e"
      "\<not> wo_starts w e" "start w m = start w (setLastError (StartFailed e)
        ((launched (m\<lparr>wm_candidateCount := length (wo_executables w)\<rparr>))
          \<lparr>wm_failedExecutables := insert e (wm_failedExecutables m)\<rparr>))"
  | (starting) e m3 where "\<not> wm_process m" "find (\<lambda>e. e \<notin> wm_failedExecutables m) (wo_executables w) = Some e"
      "wo_starts w e" "m3 = noted (ProcessStarted e) ((launched (m\<lparr>wm_candidateCount := length (wo_executables w)\<rparr>))
        \<lparr>wm_process := True, wm_killed := False, wm_currentExecutable := e\<rparr>)"
      "start w m = (True, connectClientWithRetry (wm_generation m3) 0 m3)"
proof -
  consider "wm_process m" | "\<not> wm_process m" "wo_executables w = []"
    | "\<not> wm_process m" "wo_executables w \<noteq> []" "find (\<lambda>e. e \<notin> wm_failedExecutables m) (wo_executables w) = None"
    | e where "\<not> wm_process m" "wo_executables w \<noteq> []" "find (\<lambda>e. e \<notin> wm_failedExecutables m) (wo_executables w) = Some e"
    by fastforce
  then show thesis
  proof cases
    case 1
    show ?thesis by (rule running[OF 1]) (subst start.simps, simp add: 1)
  next
    case 2
    show ?thesis by (rule missing[OF 2]) (subst start.simps, simp add: Let_def 2)
  next
    case 3
    show ?thesis by (rule exhausted[OF 3(1,3)]) (subst start.simps, simp add: Let_def 3)
  next
    case (4 e)
    have f: "wm_failedExecutables (launched (m\<lparr>wm_candidateCount := length (wo_executables w)\<rparr>)) = wm_failedExecutables m"
      by (simp add: launched_def)
    show ?thesis
    proof (cases "wo_starts w e")
      case True
      show ?thesis by (rule starting[OF 4(1,3) True refl]) (subst start.simps, simp add: Let_def 4 True)
    next
      case False
      show ?thesis by (rule failing[OF 4(1,3) False]) (subst start.simps, simp add: Let_def 4 False f)
    qed
  qed
qed

lemma start_keeps_cancel:
  assumes "wm_process m \<longrightarrow> cancel_ok m"
    and "\<not> wm_process m \<longrightarrow> \<not> wm_ready m \<and> \<not> wm_killed m \<and> (wm_pending m \<longrightarrow> wm_awaitingRestart m)"
  shows "cancel_ok (snd (start w m))"
  using assms
proof (induction w m rule: start.induct)
  case (1 w m)
  show ?case
  proof (cases rule: start_cases[of m w])
    case (failing e)
    have "wo_executables w \<noteq> []" using failing(2) by auto
    then show ?thesis using 1 failing by (simp add: launched_def)
  next
    case (starting e m3)
    then show ?thesis using 1(2,3)
      by (auto simp: manager_defs cancel_ok_def cancel_way_def MaximumConnectionAttempts_def)
  qed (use 1(2,3) in \<open>auto simp: manager_defs cancel_ok_def cancel_way_def\<close>)
qed

lemmas handler_defs = cancel_ok_def cancel_way_def manager_defs setLastError_def

lemma error_keeps_cancel: "cancel_ok m \<Longrightarrow> cancel_ok (client_error d drops m)"
  by (auto simp: client_error_def handler_defs Let_def)

lemma disconnect_keeps_cancel: "cancel_ok m \<Longrightarrow> cancel_ok (client_disconnects m)"
  by (auto simp: client_disconnects_def handler_defs Let_def)

lemma ready_keeps_cancel: "cancel_ok m \<Longrightarrow> wm_process m \<Longrightarrow> \<not> wm_ready m \<Longrightarrow> cancel_ok (client_becomes_ready m)"
  by (auto simp: client_becomes_ready_def handler_defs Let_def)

text \<open>An exit leaves nothing of the old process; what is pending waits for the next one.\<close>

lemma exit_keeps_cancel: "cancel_ok (process_finished w crashed code m)"
proof (cases "wm_stopping m")
  case True
  then show ?thesis by (simp add: process_finished_def handleUnexpectedExit_def exit_reset_def handler_defs Let_def)
next
  case False
  then show ?thesis
    by (simp add: process_finished_def handleUnexpectedExit_def exit_reset_def handler_defs Let_def)
qed

lemma abort_keeps_cancel: "cancel_ok m \<Longrightarrow> cancel_ok (abortImmediately m)"
  by (auto simp: abortImmediately_def handler_defs Let_def)

lemma request_while_stopping:
  "wm_stopping m \<Longrightarrow> wm_stopping (send_request w t j m) \<and> wm_process (send_request w t j m) = wm_process m
     \<and> wm_killed (send_request w t j m) = wm_killed m"
  by (simp add: send_request_def client_error_def recoverAuthenticatedChannelFailure_def noted_def Let_def)

lemma finished_stopping:
  "wm_stopping m \<Longrightarrow> \<not> wm_process (process_finished w b c m) \<and> \<not> wm_pending (process_finished w b c m)
     \<and> \<not> wm_killed (process_finished w b c m) \<and> \<not> wm_ready (process_finished w b c m)"
  by (simp add: process_finished_def handleUnexpectedExit_def exit_reset_def settleForcedCancellation_def noted_def Let_def)

lemma stopped_cases:
  "(\<not> wm_process (stop w m) \<and> \<not> wm_pending (stop w m) \<and> (wm_killed (stop w m) \<longrightarrow> wm_killed m \<and> \<not> wm_process m)
     \<or> wm_process (stop w m) \<and> wm_killed (stop w m)) \<and> \<not> wm_ready (stop w m)"
proof -
  define m1 where "m1 = m\<lparr>wm_stopping := True, wm_recoveryTimer := False, wm_generation := wm_generation m + 1,
            wm_authenticated := 0, wm_ticket := wm_ticket m + 1\<rparr>"
  define m2 where "m2 = (if wm_ready m1 then send_request w Shutdown [] m1 else m1)"
  have m2: "wm_stopping m2" "wm_process m2 = wm_process m" "wm_killed m2 = wm_killed m"
    using request_while_stopping[of m1 w Shutdown "[]"] by (simp_all add: m2_def) (simp_all add: m1_def)
  have kill: "wm_stopping (kill m2)" "wm_process (kill m2) = wm_process m" using m2 by (simp_all add: kill_def noted_def)
  show ?thesis
    unfolding stop_def m1_def[symmetric] m2_def[symmetric] Let_def
    using m2 kill finished_stopping[OF m2(1)] finished_stopping[OF kill(1)]
    by (auto simp: settleForcedCancellation_def noted_def kill_def)
qed

lemma stop_keeps_cancel: "cancel_ok m \<Longrightarrow> cancel_ok (stop w m)"
  using stopped_cases[of w m] by (auto simp: cancel_ok_def cancel_way_def)

lemma request_keeps_cancel:
  assumes "cancel_ok (arm t m)" "wm_ready m"
  shows "cancel_ok (arm t (send_request w ty j m))"
  using assms by (auto simp: send_request_def client_error_def handler_defs Let_def)

lemma force_keeps_cancel: "cancel_ok m \<Longrightarrow> cancel_ok (forceCancelAfterGrace w j r m)"
proof (cases "wm_ready m")
  case False
  then show "cancel_ok m \<Longrightarrow> ?thesis"
    by (auto simp: forceCancelAfterGrace_def handler_defs Let_def)
next
  case True
  let ?m = "noted CancellationForced (m\<lparr>wm_ticket := wm_ticket m + 1, wm_pending := True, wm_awaitingRestart := \<not> wm_ready m,
                   wm_cancelJob := j, wm_cancelRequest := r\<rparr>)"
  assume ok: "cancel_ok m"
  then have "cancel_ok (arm (Grace (wm_ticket m + 1) (wm_generation m)) ?m)" using True
    by (auto simp: handler_defs)
  then have "cancel_ok (arm (Grace (wm_ticket m + 1) (wm_generation m)) (send_request w CancelJob j ?m))"
    by (rule request_keeps_cancel) (simp add: noted_def True)
  then show ?thesis using ok True by (simp add: forceCancelAfterGrace_def Let_def noted_def)
qed

lemma forget_fields [simp]:
  "wm_process (remember_terminal k m) = wm_process m" "wm_killed (remember_terminal k m) = wm_killed m"
  "wm_ready (remember_terminal k m) = wm_ready m" "wm_ticket (remember_terminal k m) = wm_ticket m"
  "wm_generation (remember_terminal k m) = wm_generation m" "wm_authenticated (remember_terminal k m) = wm_authenticated m"
  "wm_pending (remember_terminal k m) = wm_pending m" "wm_awaitingRestart (remember_terminal k m) = wm_awaitingRestart m"
  "wm_stopping (remember_terminal k m) = wm_stopping m" "wm_timers (remember_terminal k m) = wm_timers m"
  "wm_recoveryTimer (remember_terminal k m) = wm_recoveryTimer m" "wm_cancelJob (remember_terminal k m) = wm_cancelJob m"
  "wm_cancelRequest (remember_terminal k m) = wm_cancelRequest m" "wm_history (remember_terminal k m) = wm_history m"
  "wm_restartTimes (remember_terminal k m) = wm_restartTimes m"
  by (simp_all add: remember_terminal_def split: prod.split)

lemma envelope_keeps_cancel: "cancel_ok m \<Longrightarrow> cancel_ok (client_envelope e m)"
  by (auto simp: client_envelope_def handler_defs Let_def)

lemma schedule_keeps_cancel: "cancel_ok m \<Longrightarrow> cancel_ok (scheduleForcedCancellationRecovery m)"
  by (auto simp: handler_defs)

lemma recovery_keeps_cancel:
  assumes "cancel_ok m"
  shows "cancel_ok (recovery_timeout w m)"
proof (cases "\<not> wm_pending m \<or> wm_stopping m \<or> wm_process m")
  case True
  then show ?thesis using assms by (auto simp: recovery_timeout_def cancel_ok_def cancel_way_def Let_def)
next
  case False
  let ?m = "m\<lparr>wm_recoveryTimer := False, wm_failedExecutables := {}, wm_restartTimes := []\<rparr>"
  obtain b m2 where s: "start w ?m = (b, m2)" by (metis prod.collapse)
  have "cancel_ok m2" using start_keeps_cancel[of ?m w] s assms False by (auto simp: cancel_ok_def cancel_way_def)
  then show ?thesis using False s schedule_keeps_cancel by (simp add: recovery_timeout_def Let_def)
qed

lemma set_without_nth: "i < length xs \<Longrightarrow> set xs = insert (xs ! i) (set (take i xs @ drop (Suc i) xs))"
  by (subst (1) id_take_nth_drop[of i xs]) auto

lemma unneeded_timer:
  assumes "cancel_ok m" "set (wm_timers m) = insert t (set ts)"
    and "wm_process m \<Longrightarrow> wm_killed m \<or> wm_ready m \<and> t \<noteq> Grace (wm_ticket m) (wm_generation m)
      \<or> \<not> wm_ready m \<and> (\<forall>a. t \<noteq> ConnectRetry (wm_generation m) a)"
    and "\<not> wm_process m \<Longrightarrow> wm_stopping m \<or> t \<noteq> Restart \<and> t \<noteq> CancelStart"
  shows "cancel_ok (m\<lparr>wm_timers := ts\<rparr>)"
proof -
  have keep: "u \<in> set (wm_timers m) \<Longrightarrow> u \<noteq> t \<Longrightarrow> u \<in> set ts" for u using assms(2) by blast
  have "cancel_way (m\<lparr>wm_timers := ts\<rparr>)" if "cancel_way m"
  proof (cases "wm_process m")
    case True
    with that consider "wm_killed m"
      | "wm_ready m" "\<not> wm_awaitingRestart m" "Grace (wm_ticket m) (wm_generation m) \<in> set (wm_timers m)" "\<not> wm_killed m"
      | a where "\<not> wm_ready m" "wm_awaitingRestart m" "ConnectRetry (wm_generation m) a \<in> set (wm_timers m)" "\<not> wm_killed m"
      unfolding cancel_way_def by auto
    then show ?thesis
    proof cases
      case 2
      then show ?thesis using True assms(3) keep by (auto simp: cancel_way_def)
    next
      case (3 a)
      then have "ConnectRetry (wm_generation m) a \<in> set ts" using True assms(3) keep by blast
      then show ?thesis using True 3 by (auto simp: cancel_way_def)
    qed (simp add: cancel_way_def True)
  next
    case False
    then show ?thesis using that assms(4) keep[of Restart] keep[of CancelStart] by (auto simp: cancel_way_def)
  qed
  then show ?thesis using assms(1) by (simp add: cancel_ok_def)
qed

text \<open>A timer that fires does what the pending cancellation waited for, or was not what it waited for.\<close>

lemma timer_keeps_cancel:
  assumes "cancel_ok m" "set (wm_timers m) = insert t (set ts)"
  shows "cancel_ok (timer_fires w t (m\<lparr>wm_timers := ts\<rparr>))"
proof -
  let ?m = "m\<lparr>wm_timers := ts\<rparr>"
  note unneeded = unneeded_timer[OF assms]
  have parts: "wm_ready m \<or> wm_killed m \<longrightarrow> wm_process m" "wm_process m \<and> wm_stopping m \<longrightarrow> wm_killed m"
    "wm_ready m \<and> \<not> wm_killed m \<longrightarrow> wm_authenticated m = wm_generation m" "wm_pending m \<longrightarrow> cancel_way m"
    using assms(1) by (simp_all add: cancel_ok_def)
  have idle: "cancel_ok (snd (start w ?m))" if "\<not> wm_process m"
    using that assms(1) by (intro start_keeps_cancel) (auto simp: cancel_ok_def cancel_way_def)
  have killed: "cancel_ok (kill n)" if "wm_process n" for n
    using that by (auto simp: kill_def noted_def cancel_ok_def cancel_way_def)
  show ?thesis
  proof (cases t)
    case (ConnectRetry g a)
    show ?thesis
    proof (cases "g = wm_generation m \<and> \<not> wm_ready m \<and> wm_process m \<and> \<not> wm_stopping m")
      case True
      show ?thesis
      proof (cases "a + 1 \<ge> MaximumConnectionAttempts")
        case a: True
        then show ?thesis using True killed ConnectRetry by (simp add: connectClientWithRetry_def)
      next
        case False
        moreover have "wm_pending m \<Longrightarrow> wm_killed m \<or> wm_awaitingRestart m"
          using parts(4) True by (auto simp: cancel_way_def)
        ultimately show ?thesis using True parts ConnectRetry
          by (auto simp: connectClientWithRetry_def arm_def cancel_ok_def cancel_way_def)
      qed
    next
      case False
      then have "timer_fires w t ?m = ?m" using ConnectRetry by (auto simp: connectClientWithRetry_def)
      then show ?thesis using unneeded False parts(2) ConnectRetry by auto
    qed
  next
    case (Grace k g)
    then show ?thesis using unneeded killed by auto
  next
    case Restart
    then show ?thesis using unneeded idle parts by auto
  next
    case CancelStart
    show ?thesis
    proof (cases "wm_pending m")
      case True
      then show ?thesis using CancelStart unneeded idle by auto
    next
      case False
      then show ?thesis using CancelStart parts by (auto simp: cancel_ok_def)
    qed
  qed
qed

lemma step_keeps_cancel:
  assumes "cancel_ok m"
  shows "cancel_ok (manager_step m e)"
proof -
  obtain w ev where e: "e = (w, ev)" by (cases e)
  show ?thesis
  proof (cases ev)
    case Start
    have "cancel_ok (snd (start w m))"
      using assms by (intro start_keeps_cancel) (auto simp: cancel_ok_def cancel_way_def)
    then show ?thesis by (simp add: e Start)
  next
    case (PreferBackend b)
    then show ?thesis using assms by (simp add: e setPreferredBackend_def cancel_ok_def cancel_way_def Let_def)
  next
    case (TimerFires i)
    then show ?thesis using assms timer_keeps_cancel[OF assms set_without_nth] by (simp add: e)
  qed (use assms in \<open>simp_all add: e stop_keeps_cancel abort_keeps_cancel force_keeps_cancel ready_keeps_cancel
      disconnect_keeps_cancel error_keeps_cancel envelope_keeps_cancel exit_keeps_cancel recovery_keeps_cancel\<close>)
qed

interpretation supervision: machine manager_step cancel_ok
  by unfold_locales (rule step_keeps_cancel)

subsection \<open>History\<close>

text \<open>What ended the old worker, or shows that there was none, since a cancellation was last forced.\<close>

fun ends_worker :: "manager_note \<Rightarrow> bool" where
  "ends_worker KillProcess = True"
| "ends_worker ProcessExited = True"
| "ends_worker (ProcessStarted e) = True"
| "ends_worker _ = False"

definition ended_since :: "manager_note list \<Rightarrow> bool" where
  "ended_since h \<longleftrightarrow> list_ex ends_worker (takeWhile (\<lambda>n. n \<noteq> CancellationForced) (rev h))"

lemma ended_since_snoc [simp]:
  "ended_since (h @ [n]) \<longleftrightarrow> n \<noteq> CancellationForced \<and> (ends_worker n \<or> ended_since h)"
  "ended_since (h @ [n, k]) \<longleftrightarrow> k \<noteq> CancellationForced \<and> (ends_worker k \<or> n \<noteq> CancellationForced \<and> (ends_worker n \<or> ended_since h))"
  by (simp_all add: ended_since_def)

fun started_note :: "manager_note \<Rightarrow> bool" where
  "started_note (ProcessStarted e) = True"
| "started_note _ = False"

definition processes_started :: "manager_note list \<Rightarrow> nat" where
  "processes_started h = length (filter started_note h)"

definition interruptions :: "manager_note list \<Rightarrow> nat" where
  "interruptions h = count_list h WorkerInterrupted"

lemma counts_append [simp]:
  "processes_started (h @ l) = processes_started h + processes_started l"
  "processes_started [] = 0" "processes_started (n # l) = (if started_note n then 1 else 0) + processes_started l"
  "interruptions (h @ l) = interruptions h + interruptions l"
  "interruptions [] = 0" "interruptions (n # l) = (if n = WorkerInterrupted then 1 else 0) + interruptions l"
  by (simp_all add: processes_started_def interruptions_def)

definition history_ok :: "manager \<Rightarrow> bool" where
  "history_ok m \<longleftrightarrow> interruptions (wm_history m) + (if wm_process m then 1 else 0) \<le> processes_started (wm_history m)
     \<and> (wm_pending m \<and> wm_awaitingRestart m \<and> wm_process m \<longrightarrow> ended_since (wm_history m))"

lemma history_ok_simps:
  "n \<noteq> CancellationForced \<Longrightarrow> n \<noteq> WorkerInterrupted \<Longrightarrow> history_ok m \<Longrightarrow> history_ok (noted n m)"
  "history_ok m \<Longrightarrow> history_ok (setLastError e m)"
  "history_ok m \<Longrightarrow> history_ok (scheduleForcedCancellationRecovery m)"
  "history_ok m \<Longrightarrow> history_ok (settleForcedCancellation m)"
  "history_ok m \<Longrightarrow> history_ok (kill m)"
  "history_ok m \<Longrightarrow> history_ok (arm t m)"
  by (auto simp: history_ok_def manager_defs setLastError_def)

lemma history_connect: "history_ok m \<Longrightarrow> history_ok (connectClientWithRetry g a m)"
  unfolding connectClientWithRetry_def by (simp add: history_ok_simps)

lemma history_recover: "history_ok m \<Longrightarrow> history_ok (recoverAuthenticatedChannelFailure g r m)"
  unfolding recoverAuthenticatedChannelFailure_def
  by (auto intro!: history_ok_simps) (simp add: history_ok_def)

lemma history_update:
  assumes "history_ok m" "wm_history n = wm_history m" "wm_process n = wm_process m"
    "wm_pending n = wm_pending m" "wm_awaitingRestart n = wm_awaitingRestart m"
  shows "history_ok n"
  using assms by (simp add: history_ok_def)

lemma start_history: "history_ok m \<Longrightarrow> history_ok (snd (start w m))"
proof (induction w m rule: start.induct)
  case (1 w m)
  have candidates: "history_ok (m\<lparr>wm_candidateCount := length (wo_executables w)\<rparr>)"
    by (rule history_update[OF 1(2)]) simp_all
  show ?case
  proof (cases rule: start_cases[of m w])
    case (failing e)
    let ?m = "(launched (m\<lparr>wm_candidateCount := length (wo_executables w)\<rparr>))
      \<lparr>wm_failedExecutables := insert e (wm_failedExecutables m)\<rparr>"
    have "history_ok ?m" by (rule history_update[OF candidates]) (simp_all add: launched_def)
    moreover have "wo_executables w \<noteq> []" using failing(2) by auto
    ultimately show ?thesis using 1(1)[OF failing(1) refl _ failing(2) refl] failing
      by (simp add: history_ok_simps launched_def)
  next
    case (starting e m3)
    have "history_ok m3" using starting(1,4) 1(2) by (simp add: history_ok_def launched_def noted_def)
    then show ?thesis using starting(5) by (simp add: history_connect)
  qed (use 1(2) candidates in \<open>simp_all add: history_ok_simps\<close>)
qed

lemma exit_history: "history_ok m \<Longrightarrow> wm_process m \<Longrightarrow> history_ok (process_finished w crashed code m)"
proof -
  assume ok: "history_ok m" "wm_process m"
  define m1 where "m1 = exit_reset (noted ProcessExited (m\<lparr>wm_process := False, wm_killed := False\<rparr>))"
  have m1: "history_ok m1" "interruptions (wm_history m1) < processes_started (wm_history m1)" "\<not> wm_process m1"
    using ok by (auto simp: m1_def exit_reset_def noted_def history_ok_def)
  have int: "history_ok (interrupted w crashed code m1)"
    using m1 by (simp add: history_ok_def interrupted_def noted_def setLastError_def Let_def)
  have "history_ok (arm Restart (n\<lparr>wm_restartTimes := ts\<rparr>))" if "history_ok n" for n ts
    by (rule history_ok_simps, rule history_update[OF that]) simp_all
  then show ?thesis
    unfolding process_finished_def handleUnexpectedExit_def m1_def[symmetric] Let_def
    using m1(1) int by (simp add: history_ok_simps)
qed

lemma error_history: "history_ok m \<Longrightarrow> history_ok (client_error d drops m)"
proof -
  have drop: "history_ok n \<Longrightarrow> history_ok (n\<lparr>wm_ready := False\<rparr>)" for n
    by (erule history_update) simp_all
  show "history_ok m \<Longrightarrow> ?thesis"
    by (simp add: client_error_def Let_def drop history_recover history_ok_simps)
qed

lemma request_history: "history_ok m \<Longrightarrow> history_ok (send_request w t j m)"
  by (simp add: send_request_def error_history history_ok_simps)

lemma stop_history: "history_ok m \<Longrightarrow> history_ok (stop w m)"
proof -
  assume ok: "history_ok m"
  define m1 where "m1 = m\<lparr>wm_stopping := True, wm_recoveryTimer := False, wm_generation := wm_generation m + 1,
            wm_authenticated := 0, wm_ticket := wm_ticket m + 1\<rparr>"
  define m2 where "m2 = (if wm_ready m1 then send_request w Shutdown [] m1 else m1)"
  have m2: "history_ok m2"
    unfolding m2_def m1_def using history_update[OF ok, of m1] by (simp add: request_history m1_def)
  have "wm_process (kill m2) = wm_process m2" by (simp add: kill_def noted_def)
  then have "history_ok (if \<not> wm_process m2 then m2 else if wo_finishes w then process_finished w False 0 m2
      else if wo_dies w then process_finished w True 0 (kill m2) else kill m2)" (is "history_ok ?m3")
    using m2 by (simp add: exit_history history_ok_simps)
  then have "history_ok (?m3\<lparr>wm_ready := False\<rparr>)" by (rule history_update) simp_all
  then show ?thesis unfolding stop_def m1_def[symmetric] m2_def[symmetric] Let_def by (simp add: history_ok_simps)
qed

lemma force_history: "history_ok m \<Longrightarrow> cancel_ok m \<Longrightarrow> history_ok (forceCancelAfterGrace w j r m)"
proof -
  assume ok: "history_ok m" "cancel_ok m"
  define m1 where "m1 = noted CancellationForced (m\<lparr>wm_ticket := wm_ticket m + 1, wm_pending := True,
      wm_awaitingRestart := \<not> wm_ready m, wm_cancelJob := j, wm_cancelRequest := r\<rparr>)"
  have killed: "history_ok (kill m1)" using ok(1) by (simp add: history_ok_def kill_def noted_def m1_def)
  have idle: "history_ok m1" if "\<not> wm_process m \<or> wm_ready m"
    using that ok by (auto simp: history_ok_def noted_def m1_def)
  have fields: "wm_ready m1 = wm_ready m" "wm_process m1 = wm_process m" by (simp_all add: m1_def noted_def)
  show ?thesis
    unfolding forceCancelAfterGrace_def Let_def m1_def[symmetric] fields
    using ok(1) killed idle by (simp add: history_ok_simps request_history)
qed

lemma step_keeps_history:
  assumes "history_ok m" "cancel_ok m"
  shows "history_ok (manager_step m e)"
proof -
  obtain w ev where e: "e = (w, ev)" by (cases e)
  show ?thesis
  proof (cases ev)
    case Abort
    have "history_ok (m\<lparr>wm_stopping := False, wm_generation := wm_generation m + 1, wm_authenticated := 0, wm_ready := False\<rparr>)"
      by (rule history_update[OF assms(1)]) simp_all
    then show ?thesis by (simp add: e Abort abortImmediately_def Let_def history_ok_simps)
  next
    case (PreferBackend b)
    have "history_ok (m\<lparr>wm_preferredBackend := x, wm_failedExecutables := {}\<rparr>)" for x
      by (rule history_update[OF assms(1)]) simp_all
    then show ?thesis using assms by (simp add: e PreferBackend setPreferredBackend_def Let_def)
  next
    case ClientReady
    have "history_ok (m\<lparr>wm_ready := True, wm_authenticated := wm_generation m\<rparr>)"
      by (rule history_update[OF assms(1)]) simp_all
    then show ?thesis using assms by (simp add: e ClientReady client_becomes_ready_def Let_def history_ok_simps)
  next
    case ClientDisconnected
    have "history_ok (m\<lparr>wm_ready := False\<rparr>)" by (rule history_update[OF assms(1)]) simp_all
    then show ?thesis by (simp add: e ClientDisconnected client_disconnects_def Let_def history_ok_simps history_recover)
  next
    case (ClientEnvelope env)
    have "history_ok (remember_terminal k m)" for k by (rule history_update[OF assms(1)]) simp_all
    then show ?thesis using assms by (simp add: e ClientEnvelope client_envelope_def Let_def history_ok_simps)
  next
    case RecoveryTimeout
    have "history_ok (m\<lparr>wm_recoveryTimer := False\<rparr>)" "history_ok (m\<lparr>wm_recoveryTimer := False, wm_failedExecutables := {}, wm_restartTimes := []\<rparr>)"
      by (rule history_update[OF assms(1)], simp_all)+
    then show ?thesis using assms(1) start_history
      by (simp add: e RecoveryTimeout recovery_timeout_def Let_def split_beta history_ok_simps)
  next
    case (TimerFires i)
    let ?m = "m\<lparr>wm_timers := take i (wm_timers m) @ drop (Suc i) (wm_timers m)\<rparr>"
    have "history_ok ?m" by (rule history_update[OF assms(1)]) simp_all
    then have "history_ok (timer_fires w t ?m)" for t
      by (cases t) (simp_all add: history_connect history_ok_simps start_history)
    then show ?thesis using assms(1) by (simp add: e TimerFires)
  qed (use assms in \<open>simp_all add: e start_history stop_history force_history error_history exit_history\<close>)
qed

definition manager_ok :: "manager \<Rightarrow> bool" where
  "manager_ok m \<longleftrightarrow> cancel_ok m \<and> history_ok m"

interpretation worker_history: machine manager_step manager_ok
  by unfold_locales (simp add: manager_ok_def step_keeps_cancel step_keeps_history)

lemma run_ok: "manager_ok (run_manager es)"
proof -
  have "history_ok new_manager" by (simp add: history_ok_def new_manager_def)
  then have "manager_ok new_manager" using cancel_ok_new by (simp add: manager_ok_def)
  then show ?thesis unfolding run_manager_def by (rule worker_history.run_inv)
qed

subsection \<open>Properties\<close>

lemma settle_keeps [simp]: "wm_process (settleForcedCancellation m) = wm_process m"
  by (simp add: settleForcedCancellation_def noted_def)

lemma start_pending: "wm_pending (snd (start w m)) = wm_pending m"
proof (induction w m rule: start.induct)
  case (1 w m)
  show ?case
  proof (cases rule: start_cases[of m w])
    case (failing e)
    have "wo_executables w \<noteq> []" using failing(2) by auto
    then show ?thesis using 1[OF failing(1) refl _ failing(2) refl] failing by (simp add: launched_def)
  next
    case (starting e m3)
    then show ?thesis by (simp add: manager_defs setLastError_def)
  qed (simp_all add: manager_defs setLastError_def)
qed

lemma error_pending: "wm_pending (client_error d drops m) = wm_pending m"
  by (simp add: client_error_def manager_defs setLastError_def Let_def)

lemma request_pending: "wm_pending (send_request w t j m) = wm_pending m"
  by (simp add: send_request_def error_pending noted_def)

lemma timer_pending: "wm_pending (timer_fires w t m) = wm_pending m"
  by (cases t) (simp_all add: start_pending manager_defs setLastError_def)

lemma stop_pending: "wm_process (stop w m) \<Longrightarrow> wm_pending (stop w m) = wm_pending m"
proof -
  define m1 where "m1 = m\<lparr>wm_stopping := True, wm_recoveryTimer := False, wm_generation := wm_generation m + 1,
            wm_authenticated := 0, wm_ticket := wm_ticket m + 1\<rparr>"
  define m2 where "m2 = (if wm_ready m1 then send_request w Shutdown [] m1 else m1)"
  have m2: "wm_stopping m2" "wm_pending m2 = wm_pending m"
    using request_while_stopping[of m1 w Shutdown "[]"] by (simp_all add: m2_def request_pending) (simp_all add: m1_def)
  have kill: "wm_stopping (kill m2)" using m2 by (simp add: kill_def noted_def)
  assume "wm_process (stop w m)"
  then show ?thesis
    unfolding stop_def m1_def[symmetric] m2_def[symmetric] Let_def
    using m2 finished_stopping[OF m2(1)] finished_stopping[OF kill] by (auto simp: kill_def noted_def split: if_splits)
qed

text \<open>How often a timer can still fire while a worker runs: a connection is tried a hundred times.\<close>

fun firings :: "manager_timer \<Rightarrow> nat" where
  "firings (ConnectRetry generation attempt) = max 1 (100 - attempt)"
| "firings _ = 1"

definition budget :: "manager_timer list \<Rightarrow> nat" where
  "budget ts = sum_list (map firings ts)"

lemma budget_simps [simp]: "budget [] = 0" "budget (t # ts) = firings t + budget ts" "budget (ts @ us) = budget ts + budget us"
  by (simp_all add: budget_def)

lemma budget_nth: "i < length ts \<Longrightarrow> budget ts = firings (ts ! i) + budget (take i ts @ drop (Suc i) ts)"
  by (subst (1) id_take_nth_drop[of i ts]) simp_all

lemma budget_limit: "budget ts \<le> 100 * length ts"
proof (induction ts)
  case (Cons t ts)
  have "firings t \<le> 100" by (cases t) simp_all
  then show ?case using Cons by simp
qed simp

lemma firing_with_worker:
  assumes "wm_process m" "i < length (wm_timers m)" "m' = manager_step m (w, TimerFires i)"
  shows "wm_process m' \<and> wm_pending m' = wm_pending m \<and> budget (wm_timers m') < budget (wm_timers m)"
proof -
  let ?ts = "take i (wm_timers m) @ drop (Suc i) (wm_timers m)"
  have m': "m' = timer_fires w (wm_timers m ! i) (m\<lparr>wm_timers := ?ts\<rparr>)" using assms(2,3) by simp
  have old: "budget (wm_timers m) = firings (wm_timers m ! i) + budget ?ts" by (rule budget_nth[OF assms(2)])
  show ?thesis
    unfolding m' old using assms(1)
    by (cases "wm_timers m ! i")
      (auto simp: manager_defs setLastError_def MaximumConnectionAttempts_def timer_pending)
qed

text \<open>Any number of armed timers fire, in any order.\<close>

inductive timers_run :: "nat \<Rightarrow> manager \<Rightarrow> manager \<Rightarrow> bool" where
  no_firing: "timers_run 0 m m"
| firing: "i < length (wm_timers m) \<Longrightarrow> timers_run n (manager_step m (w, TimerFires i)) m' \<Longrightarrow> timers_run (Suc n) m m'"

lemma timers_run_with_worker:
  assumes "timers_run n m m'" "wm_process m" "cancel_ok m"
  shows "wm_process m' \<and> wm_pending m' = wm_pending m \<and> n + budget (wm_timers m') \<le> budget (wm_timers m) \<and> cancel_ok m'"
  using assms
proof (induction rule: timers_run.induct)
  case (firing i m n w m')
  note step = firing_with_worker[OF firing.prems(1) firing.hyps(1) refl, of w]
  then show ?case using firing.IH step_keeps_cancel[OF firing.prems(2)] by fastforce
qed simp

lemma start_runs_or_waits:
  assumes "wm_pending m" "\<not> wm_stopping m"
  shows "wm_process (snd (start w m)) \<or> wm_recoveryTimer (snd (start w m))"
  using assms
proof (induction w m rule: start.induct)
  case (1 w m)
  show ?case
  proof (cases rule: start_cases[of m w])
    case (failing e)
    have "wo_executables w \<noteq> []" using failing(2) by auto
    then show ?thesis using 1(1)[OF failing(1) refl _ failing(2) refl] 1(2,3) failing by (simp add: launched_def)
  next
    case (starting e m3)
    then show ?thesis by (simp add: manager_defs setLastError_def)
  qed (use 1(2,3) in \<open>simp_all add: manager_defs setLastError_def\<close>)
qed

lemma exit_outcome:
  assumes "wm_process m" "wm_pending m" "m' = manager_step m (w, ProcessFinished b c)"
  shows "\<not> wm_process m' \<and> (if wm_stopping m then \<not> wm_pending m'
    else wm_pending m' \<and> (Restart \<in> set (wm_timers m') \<or> wm_recoveryTimer m'))"
  using assms(1,2) unfolding assms(3)
  by (simp add: process_finished_def handleUnexpectedExit_def exit_reset_def manager_defs Let_def)

lemma starter_fires:
  assumes "\<not> wm_process m" "\<not> wm_stopping m" "wm_pending m" "i < length (wm_timers m)"
    and "wm_timers m ! i = Restart \<or> wm_timers m ! i = CancelStart" "m' = manager_step m (w, TimerFires i)"
  shows "wm_process m' \<or> wm_recoveryTimer m'"
proof -
  have "m' = snd (start w (m\<lparr>wm_timers := take i (wm_timers m) @ drop (Suc i) (wm_timers m)\<rparr>))"
    using assms by auto
  then show ?thesis using assms(2,3) start_runs_or_waits by simp
qed

text \<open>What \<open>start\<close> tries when nothing has failed before.\<close>

lemma start_from_scratch:
  assumes "\<not> wm_process m"
  shows "(\<exists>e \<in> set (wo_executables w) - wm_failedExecutables m. wo_starts w e) = wm_process (snd (start w m))"
  using assms
proof (induction w m rule: start.induct)
  case (1 w m)
  show ?case
  proof (cases rule: start_cases[of m w])
    case missing
    then show ?thesis by (simp add: manager_defs setLastError_def)
  next
    case exhausted
    then have "set (wo_executables w) \<subseteq> wm_failedExecutables m" by (auto simp: find_None_iff)
    then show ?thesis using exhausted by (auto simp: manager_defs setLastError_def)
  next
    case (failing e)
    have "wo_executables w \<noteq> []" using failing(2) by auto
    then have "(\<exists>x \<in> set (wo_executables w) - insert e (wm_failedExecutables m). wo_starts w x)
        = wm_process (snd (start w m))"
      using 1(1)[OF failing(1) refl _ failing(2) refl failing(3)] failing(1,4) by (simp add: launched_def)
    then show ?thesis using failing(3) by blast
  next
    case (starting e m3)
    have "e \<in> set (wo_executables w) - wm_failedExecutables m" using starting(2) by (auto simp: find_Some_iff)
    moreover have "wm_process (snd (start w m))" using starting(4,5) by (simp add: manager_defs setLastError_def)
    ultimately show ?thesis using starting(3) by blast
  qed (use 1(2) in simp)
qed

lemma recovery_outcome:
  assumes "\<not> wm_process m" "\<not> wm_stopping m" "wm_pending m" "wm_recoveryTimer m"
    and "m' = manager_step m (w, RecoveryTimeout)"
  shows "if \<exists>e \<in> set (wo_executables w). wo_starts w e then wm_process m' else wm_recoveryTimer m'"
proof -
  let ?m = "m\<lparr>wm_recoveryTimer := False, wm_failedExecutables := {}, wm_restartTimes := []\<rparr>"
  obtain b n where s: "start w ?m = (b, n)" by fastforce
  have p: "(\<exists>e \<in> set (wo_executables w). wo_starts w e) = wm_process n"
    using start_from_scratch[of ?m w] assms(1) s by simp
  have t: "wm_process n \<or> wm_recoveryTimer n" using start_runs_or_waits[of ?m w] assms(2,3) s by simp
  have m': "m' = (if b then n else scheduleForcedCancellationRecovery n)"
    using assms s by (simp add: recovery_timeout_def Let_def)
  have "wm_process m' = wm_process n" "wm_recoveryTimer n \<Longrightarrow> wm_recoveryTimer m'"
    by (simp_all add: m' scheduleForcedCancellationRecovery_def)
  then show ?thesis using p t by auto
qed

text \<open>
  C25: A forced cancellation does not get stuck. While a worker runs, its timers, in whatever order they fire,
  fire at most a hundred times each, and when none is left the worker has been killed, however little it
  answers. When the worker exits, the cancellation is settled if the manager is stopping, and otherwise
  a restart or a recovery is armed. While no worker runs and the manager is not stopping, such a timer
  is armed; a restart that fires starts a worker or arms the recovery; the recovery starts a worker
  whenever there is an executable that starts, and is armed again when there is none. A new worker that becomes
  ready settles the cancellation. Not covered is a cancellation forced after \<open>stop\<close>, with no worker
  running: nothing is armed then, and it stays pending until somebody calls \<open>start\<close>.
\<close>

theorem forced_cancellation_on_its_way:
  assumes "m = run_manager es" and "wm_pending m"
  shows "(wm_process m \<longrightarrow>
      (\<forall>n m'. timers_run n m m' \<longrightarrow> n \<le> 100 * length (wm_timers m) \<and> wm_process m' \<and> wm_pending m'
        \<and> (wm_timers m' = [] \<longrightarrow> wm_killed m'))
      \<and> (\<forall>w b c m'. m' = manager_step m (w, ProcessFinished b c) \<longrightarrow> \<not> wm_process m'
        \<and> (if wm_stopping m then \<not> wm_pending m'
           else wm_pending m' \<and> (Restart \<in> set (wm_timers m') \<or> wm_recoveryTimer m')))
      \<and> (\<forall>w. \<not> wm_killed m \<and> \<not> wm_ready m \<longrightarrow> \<not> wm_pending (manager_step m (w, ClientReady))))
    \<and> (\<not> wm_process m \<and> \<not> wm_stopping m \<longrightarrow>
      (Restart \<in> set (wm_timers m) \<or> CancelStart \<in> set (wm_timers m) \<or> wm_recoveryTimer m)
      \<and> (\<forall>w i m'. i < length (wm_timers m) \<and> wm_timers m ! i \<in> {Restart, CancelStart}
          \<and> m' = manager_step m (w, TimerFires i) \<longrightarrow> wm_process m' \<or> wm_recoveryTimer m')
      \<and> (\<forall>w m'. wm_recoveryTimer m \<and> m' = manager_step m (w, RecoveryTimeout) \<longrightarrow>
          (if \<exists>e \<in> set (wo_executables w). wo_starts w e then wm_process m' else wm_recoveryTimer m')))"
proof -
  have ok: "cancel_ok m" using run_ok[of es] assms(1) by (simp add: manager_ok_def)
  then have way: "cancel_way m" using assms(2) by (simp add: cancel_ok_def)
  have fires: "n \<le> 100 * length (wm_timers m) \<and> wm_process m' \<and> wm_pending m' \<and> (wm_timers m' = [] \<longrightarrow> wm_killed m')"
    if "wm_process m" "timers_run n m m'" for n m'
  proof -
    note run = timers_run_with_worker[OF that(2,1) ok]
    then have "cancel_way m'" using assms(2) by (simp add: cancel_ok_def)
    then have "wm_timers m' = [] \<longrightarrow> wm_killed m'" using run by (auto simp: cancel_way_def)
    then show ?thesis using run assms(2) budget_limit[of "wm_timers m"] by linarith
  qed
  have ready: "\<not> wm_pending (manager_step m (w, ClientReady))" if "wm_process m" "\<not> wm_killed m" "\<not> wm_ready m" for w
    using that way by (simp add: cancel_way_def client_becomes_ready_def manager_defs setLastError_def Let_def)
  have armed: "Restart \<in> set (wm_timers m) \<or> CancelStart \<in> set (wm_timers m) \<or> wm_recoveryTimer m"
    if "\<not> wm_process m" "\<not> wm_stopping m"
    using that way by (simp add: cancel_way_def)
  have recovery: "if \<exists>e \<in> set (wo_executables w). wo_starts w e then wm_process m' else wm_recoveryTimer m'"
    if "\<not> wm_process m" "\<not> wm_stopping m" "wm_recoveryTimer m" "m' = manager_step m (w, RecoveryTimeout)" for w m'
    using recovery_outcome[OF that(1,2) assms(2) that(3,4)] .
  show ?thesis using fires ready armed recovery exit_outcome[OF _ assms(2)] starter_fires[OF _ _ assms(2)] by blast
qed

text \<open>
  C26: A forced cancellation is settled for a reason. When it is settled, the terminal reply of
  exactly the cancelled request has arrived, or no worker is running, or the worker that may have
  been running the request has since been killed, has exited or has been replaced.
\<close>

theorem forced_cancellation_settled_for_a_reason:
  assumes "m = run_manager es" and "m' = manager_step m (w, ev)" and "wm_pending m" and "\<not> wm_pending m'"
  shows "(\<exists>e. ev = ClientEnvelope e \<and> is_terminal_reply e \<and> env_jobId e = wm_cancelJob m \<and> env_requestId e = wm_cancelRequest m)
    \<or> \<not> wm_process m' \<or> ended_since (wm_history m)"
proof (cases ev)
  case Stop
  then show ?thesis using assms(2-4) stop_pending[of w m] by auto
next
  case Abort
  then show ?thesis using assms(2-4) by (auto simp: abortImmediately_def kill_def noted_def Let_def split: if_splits)
next
  case (ForceCancel j r)
  then have False using assms(2-4)
    by (auto simp: forceCancelAfterGrace_def kill_def arm_def noted_def request_pending Let_def split: if_splits)
  then show ?thesis ..
next
  case (PreferBackend b)
  then have False using assms(2-4) by (auto simp: setPreferredBackend_def Let_def split: if_splits)
  then show ?thesis ..
next
  case ClientReady
  then have "wm_process m" "wm_awaitingRestart m" using assms(2-4)
    by (auto simp: client_becomes_ready_def noted_def setLastError_def Let_def split: if_splits)
  then have "ended_since (wm_history m)" using run_ok[of es] assms(1,3) by (simp add: manager_ok_def history_ok_def)
  then show ?thesis by blast
next
  case ClientDisconnected
  then have False using assms(2-4) by (auto simp: client_disconnects_def manager_defs setLastError_def Let_def split: if_splits)
  then show ?thesis ..
next
  case (ClientEnvelope e)
  then show ?thesis using assms(2-4) by (auto simp: client_envelope_def Let_def split: if_splits)
next
  case (ProcessFinished b c)
  have "\<not> wm_process (process_finished w b c m)"
    by (simp add: process_finished_def handleUnexpectedExit_def exit_reset_def manager_defs Let_def)
  then show ?thesis using ProcessFinished assms(2-4) by (auto split: if_splits)
next
  case RecoveryTimeout
  then have False using assms(2-4)
    start_pending[of w "m\<lparr>wm_recoveryTimer := False, wm_failedExecutables := {}, wm_restartTimes := []\<rparr>"]
    by (auto simp: recovery_timeout_def scheduleForcedCancellationRecovery_def Let_def split_beta split: if_splits)
  then show ?thesis ..
qed (use assms(2-4) in \<open>auto simp: start_pending error_pending timer_pending split: if_splits\<close>)

text \<open>
  Each worker process is reported as interrupted at most once: in every run there are at most
  as many reports as processes were started, and fewer while one is running.
\<close>

theorem one_interruption_per_process:
  "interruptions (wm_history (run_manager es)) + (if wm_process (run_manager es) then 1 else 0)
     \<le> processes_started (wm_history (run_manager es))"
  using run_ok[of es] by (simp add: manager_ok_def history_ok_def)

text \<open>
  Starting tries the candidates in order. When no worker runs, \<open>start\<close> launches the first
  executable that has not failed before and that starts, and forgets the requests of earlier
  workers; when there is none it reports failure, runs nothing, and remembers every executable as
  failed.
\<close>

theorem start_outcome:
  assumes "start w m = (b, m')" and "\<not> wm_process m"
  shows "case find (\<lambda>e. e \<notin> wm_failedExecutables m \<and> wo_starts w e) (wo_executables w) of
      Some e \<Rightarrow> b \<and> wm_process m' \<and> wm_currentExecutable m' = e \<and> wm_terminalRequests m' = {}
        \<and> wm_generation m < wm_generation m' \<and> \<not> wm_stopping m'
    | None \<Rightarrow> \<not> b \<and> \<not> wm_process m' \<and> set (wo_executables w) \<subseteq> wm_failedExecutables m'"
  using assms
proof (induction w m rule: start.induct)
  case (1 w m)
  let ?free = "\<lambda>m. find (\<lambda>e. e \<notin> wm_failedExecutables m \<and> wo_starts w e) (wo_executables w)"
  show ?case
  proof (cases rule: start_cases[of m w])
    case missing
    then show ?thesis using missing 1(2) by (auto simp: manager_defs setLastError_def)
  next
    case exhausted
    have all: "set (wo_executables w) \<subseteq> wm_failedExecutables m"
      using exhausted(2) by (auto simp: find_None_iff)
    then have "?free m = None" by (auto simp: find_None_iff)
    then show ?thesis using exhausted 1(2) all by (auto simp: manager_defs setLastError_def)
  next
    case (failing e)
    let ?l = "launched (m\<lparr>wm_candidateCount := length (wo_executables w)\<rparr>)"
    let ?m = "setLastError (StartFailed e) (?l\<lparr>wm_failedExecutables := insert e (wm_failedExecutables ?l)\<rparr>)"
    have ne: "wo_executables w \<noteq> []" using failing(2) by auto
    have "start w ?m = (b, m')" using 1(2) failing(4) by (simp add: launched_def)
    moreover have "\<not> wm_process ?m" using failing(1) by (simp add: launched_def)
    ultimately have "case ?free ?m of
      Some e \<Rightarrow> b \<and> wm_process m' \<and> wm_currentExecutable m' = e \<and> wm_terminalRequests m' = {}
        \<and> wm_generation ?m < wm_generation m' \<and> \<not> wm_stopping m'
    | None \<Rightarrow> \<not> b \<and> \<not> wm_process m' \<and> set (wo_executables w) \<subseteq> wm_failedExecutables m'"
      using 1(1)[OF failing(1) refl ne failing(2) refl failing(3)] by blast
    moreover have "?free ?m = ?free m"
      using failing(3) by (intro find_cong) (auto simp: launched_def)
    moreover have "wm_generation m < wm_generation ?m" by (simp add: launched_def)
    ultimately show ?thesis by (auto split: option.splits)
  next
    case (starting e m3)
    have "?free m = Some e"
      using starting(2,3) unfolding find_Some_iff by (metis (no_types, lifting))
    moreover have "b" "m' = connectClientWithRetry (wm_generation m3) 0 m3" using starting(5) 1(2) by simp_all
    moreover have "wm_process m3" "wm_currentExecutable m3 = e" "wm_terminalRequests m3 = {}"
      "wm_generation m < wm_generation m3" "\<not> wm_stopping m3"
      unfolding starting(4) by (simp_all add: launched_def noted_def)
    moreover have "wm_process (connectClientWithRetry g 0 n) = wm_process n" "wm_currentExecutable (connectClientWithRetry g 0 n) = wm_currentExecutable n"
      "wm_terminalRequests (connectClientWithRetry g 0 n) = wm_terminalRequests n" "wm_generation (connectClientWithRetry g 0 n) = wm_generation n"
      "wm_stopping (connectClientWithRetry g 0 n) = wm_stopping n" for g n
      by (simp_all add: connectClientWithRetry_def arm_def kill_def noted_def)
    ultimately show ?thesis by (simp only: option.case) simp
  qed (use 1(3) in simp)
qed

lemma drop_old_sorted: "sorted ts \<Longrightarrow> drop_old limit ts = filter (\<lambda>t. limit \<le> t) ts"
proof (induction ts)
  case (Cons t ts)
  show ?case
  proof (cases "t < limit")
    case False
    then have "\<forall>u \<in> set ts. limit \<le> u" using Cons.prems by auto
    then show ?thesis using False by (simp add: filter_True)
  qed (use Cons in simp)
qed simp

text \<open>
  Automatic restarts are limited. When a worker exits on its own, a restart is armed exactly
  if fewer than three restarts were recorded in the last sixty seconds, and then this one is
  recorded; otherwise automatic restarting stops.
\<close>

theorem automatic_restarts_limited:
  assumes "sorted (wm_restartTimes m)" and "\<not> wm_stopping m"
    and "recent = filter (\<lambda>t. wo_now w - 60 \<le> t) (wm_restartTimes m)" and "m' = process_finished w crashed exitCode m"
  shows "wm_timers m' = (if length recent < 3 then wm_timers m @ [Restart] else wm_timers m)
    \<and> wm_restartTimes m' = (if length recent < 3 then recent @ [wo_now w] else recent)
    \<and> (AutomaticRestartStopped \<in> set (drop (length (wm_history m)) (wm_history m')) \<longleftrightarrow> \<not> length recent < 3)"
proof -
  have "drop_old (wo_now w - 60) (wm_restartTimes m) = recent" using drop_old_sorted[OF assms(1)] assms(3) by simp
  then show ?thesis using assms(2) unfolding assms(4)
    by (auto simp: process_finished_def handleUnexpectedExit_def exit_reset_def manager_defs
      RestartWindowSeconds_def MaximumRestartsInWindow_def interrupted_def setLastError_def Let_def)
qed

subsection \<open>Remembered requests\<close>

definition terminal_ok :: "manager \<Rightarrow> bool" where
  "terminal_ok m \<longleftrightarrow> distinct (wm_terminalRequestOrder m) \<and> set (wm_terminalRequestOrder m) = wm_terminalRequests m
     \<and> length (wm_terminalRequestOrder m) \<le> MaximumRememberedTerminalRequests"

lemma forget_oldest_drop:
  "distinct ks \<Longrightarrow> set ks = known \<Longrightarrow>
    forget_oldest ks known = (drop (length ks - MaximumRememberedTerminalRequests) ks,
      set (drop (length ks - MaximumRememberedTerminalRequests) ks))"
proof (induction ks known rule: forget_oldest.induct)
  case (2 k ks known)
  show ?case
  proof (cases "length (k # ks) > MaximumRememberedTerminalRequests")
    case True
    then have "length (k # ks) - MaximumRememberedTerminalRequests = Suc (length ks - MaximumRememberedTerminalRequests)" by simp
    moreover have "set ks = known - {k}" using 2(2,3) by auto
    ultimately show ?thesis using 2(1)[OF True] 2(2) True by simp
  qed (use 2(3) in simp)
qed simp

text \<open>
  The manager remembers the latest 128 requests that were answered, and nothing else: a new
  answer is added at the end, the oldest is forgotten when there would be more, and the set that
  is asked always holds exactly the requests in the queue.
\<close>

lemma remembered_requests_bounded:
  assumes "terminal_ok m"
  shows "terminal_ok (remember_terminal key m) \<and> key \<in> wm_terminalRequests (remember_terminal key m)
    \<and> (key \<notin> wm_terminalRequests m \<longrightarrow> wm_terminalRequestOrder (remember_terminal key m)
        = drop (length (wm_terminalRequestOrder m) - 127) (wm_terminalRequestOrder m) @ [key])"
proof (cases "key \<in> wm_terminalRequests m")
  case True
  then show ?thesis using assms by (simp add: remember_terminal_def)
next
  case False
  let ?ks = "wm_terminalRequestOrder m @ [key]"
  have ks: "distinct ?ks" "set ?ks = insert key (wm_terminalRequests m)" "length ?ks \<le> Suc MaximumRememberedTerminalRequests"
    using assms False by (auto simp: terminal_ok_def)
  have len: "length ?ks - MaximumRememberedTerminalRequests = length (wm_terminalRequestOrder m) - 127"
    by (simp add: MaximumRememberedTerminalRequests_def)
  have d: "drop (length (wm_terminalRequestOrder m) - 127) ?ks = drop (length (wm_terminalRequestOrder m) - 127) (wm_terminalRequestOrder m) @ [key]"
    using ks(3) by simp
  have "remember_terminal key m = m\<lparr>wm_terminalRequestOrder := drop (length (wm_terminalRequestOrder m) - 127) (wm_terminalRequestOrder m) @ [key],
      wm_terminalRequests := set (drop (length (wm_terminalRequestOrder m) - 127) (wm_terminalRequestOrder m) @ [key])\<rparr>"
    using forget_oldest_drop[OF ks(1,2)] False unfolding len d by (simp add: remember_terminal_def)
  moreover have "distinct (drop (length (wm_terminalRequestOrder m) - 127) (wm_terminalRequestOrder m) @ [key])"
    using distinct_drop[OF ks(1), of "length (wm_terminalRequestOrder m) - 127"] unfolding d .
  ultimately show ?thesis using False ks(3) by (simp add: terminal_ok_def MaximumRememberedTerminalRequests_def)
qed

subsection \<open>Witnesses\<close>

definition sample_world :: world where
  "sample_world = \<lparr>wo_executables = [''a'', ''b''], wo_starts = (\<lambda>e. e = ''b''), wo_now = 125, wo_sends = True,
     wo_error = [], wo_finishes = True, wo_dies = True, wo_unicode = ascii\<rparr>"

lemma remembered_requests_bounded_witness: "terminal_ok (remember_terminal (lit ''k'') new_manager)"
proof -
  have "terminal_ok new_manager" by (simp add: terminal_ok_def new_manager_def)
  from remembered_requests_bounded[OF this] show ?thesis by blast
qed

abbreviation sample_restarted :: manager where
  "sample_restarted \<equiv> run_manager [(sample_world, ForceCancel (lit ''j'') (lit ''r'')), (sample_world, TimerFires 0)]"

lemma sample_restarted_state:
  "wm_process sample_restarted" "wm_pending sample_restarted" "\<not> wm_killed sample_restarted"
  "\<not> wm_ready sample_restarted" "length (wm_timers sample_restarted) = 1"
proof -
  let ?m = "new_manager\<lparr>wm_ticket := 1, wm_pending := True, wm_awaitingRestart := True, wm_cancelJob := lit ''j'',
      wm_cancelRequest := lit ''r'', wm_timers := [], wm_history := [CancellationForced]\<rparr>"
  have run: "sample_restarted = snd (start sample_world ?m)"
    by (simp add: run_manager_def forceCancelAfterGrace_def new_manager_def manager_defs)
  have start: "snd (start sample_world ?m) = ?m\<lparr>wm_candidateCount := 2, wm_generation := 2,
      wm_failedExecutables := {''a''}, wm_lastError := StartFailed ''a'', wm_process := True, wm_currentExecutable := ''b'',
      wm_timers := [ConnectRetry 2 0], wm_history := [CancellationForced, LastErrorChanged, ProcessStarted ''b'']\<rparr>"
    by (subst start.simps, subst start.simps)
      (simp add: sample_world_def new_manager_def manager_defs setLastError_def MaximumConnectionAttempts_def Let_def)
  show "wm_process sample_restarted" "wm_pending sample_restarted" "\<not> wm_killed sample_restarted"
    "\<not> wm_ready sample_restarted" "length (wm_timers sample_restarted) = 1"
    unfolding run start by (simp_all add: new_manager_def)
qed

lemma forced_cancellation_on_its_way_witness:
  "wm_pending sample_restarted \<and> \<not> wm_pending (manager_step sample_restarted (sample_world, ClientReady))"
  using forced_cancellation_on_its_way[OF refl sample_restarted_state(2)] sample_restarted_state by auto

lemma forced_cancellation_settled_for_a_reason_witness:
  "\<not> wm_process (manager_step (run_manager [(sample_world, ForceCancel (lit ''j'') (lit ''r''))]) (sample_world, Abort))"
proof -
  let ?m = "run_manager [(sample_world, ForceCancel (lit ''j'') (lit ''r''))]"
  have "wm_pending ?m" "\<not> wm_pending (manager_step ?m (sample_world, Abort))" "\<not> ended_since (wm_history ?m)"
    by (simp_all add: run_manager_def forceCancelAfterGrace_def abortImmediately_def new_manager_def manager_defs ended_since_def)
  with forced_cancellation_settled_for_a_reason[OF refl refl this(1,2)] show ?thesis by simp
qed

lemma start_outcome_witness: "wm_currentExecutable (snd (start sample_world new_manager)) = ''b''"
proof -
  obtain b m' where s: "start sample_world new_manager = (b, m')" by (metis prod.collapse)
  have "\<not> wm_process new_manager" by (simp add: new_manager_def)
  from start_outcome[OF s this] show ?thesis by (simp add: s) (simp add: sample_world_def new_manager_def)
qed

lemma automatic_restarts_limited_witness:
  "wm_timers (process_finished sample_world True 1 (new_manager\<lparr>wm_process := True, wm_restartTimes := [100, 110, 120]\<rparr>)) = []"
  using automatic_restarts_limited[of "new_manager\<lparr>wm_process := True, wm_restartTimes := [100, 110, 120]\<rparr>" _ sample_world,
      OF _ _ refl refl, of True 1]
  by (simp add: new_manager_def sample_world_def)

text \<open>
  Killing a worker takes time. When a cancellation is forced while the client is still connecting,
  the worker is killed, but a connection that becomes ready before the exit is reported settles
  the cancellation although the process it waits for is still there.
\<close>

lemma settled_before_exit:
  fixes es :: "(world \<times> manager_event) list"
  defines "es \<equiv> [(sample_world, Start), (sample_world, ForceCancel (lit ''j'') (lit ''r''))]"
  shows "wm_pending (run_manager es) \<and> \<not> wm_pending (run_manager (es @ [(sample_world, ClientReady)]))
    \<and> wm_process (run_manager (es @ [(sample_world, ClientReady)])) \<and> ProcessExited \<notin> set (wm_history (run_manager (es @ [(sample_world, ClientReady)])))"
proof -
  obtain b m where s: "start sample_world new_manager = (b, m)" by (metis prod.collapse)
  have start: "snd (start sample_world new_manager) = new_manager\<lparr>wm_candidateCount := 2, wm_generation := 2,
      wm_failedExecutables := {''a''}, wm_lastError := StartFailed ''a'', wm_process := True, wm_currentExecutable := ''b'',
      wm_timers := [ConnectRetry 2 0], wm_history := [LastErrorChanged, ProcessStarted ''b'']\<rparr>"
    by (subst start.simps, subst start.simps)
      (simp add: sample_world_def new_manager_def manager_defs setLastError_def MaximumConnectionAttempts_def Let_def)
  show ?thesis unfolding es_def run_manager_def
    by (simp add: start) (simp add: forceCancelAfterGrace_def client_becomes_ready_def new_manager_def manager_defs setLastError_def Let_def)
qed

end
