(* ===== verification/LibraryPaths.thy ===== *)
theory LibraryPaths
  imports QText
begin

text \<open>
  The path checks of \<^verbatim>\<open>database/SqliteRecordingRepository.cpp\<close>, which decide what the program may
  delete. What Qt and the operating system say of a path is the record \<open>file_system\<close>; both
  platforms of the source are covered by the field \<open>fs_windows\<close>. A path is empty where the code
  returns an empty \<open>QString\<close>.
\<close>

record file_system =
  fs_windows :: bool
  fs_isAbsolute :: "qstring \<Rightarrow> bool"
  fs_cleanAbsolute :: "qstring \<Rightarrow> qstring"
  fs_fromNative :: "qstring \<Rightarrow> qstring"
  fs_canonical :: "qstring \<Rightarrow> qstring"
  fs_isSymLink :: "qstring \<Rightarrow> bool"
  fs_symLinkTarget :: "qstring \<Rightarrow> qstring"
  fs_exists :: "qstring \<Rightarrow> bool"
  fs_isDir :: "qstring \<Rightarrow> bool"
  fs_isFile :: "qstring \<Rightarrow> bool"
  fs_fileName :: "qstring \<Rightarrow> qstring"
  fs_parent :: "qstring \<Rightarrow> qstring"
  fs_join :: "qstring \<Rightarrow> qstring \<Rightarrow> qstring"
  fs_relative :: "qstring \<Rightarrow> qstring \<Rightarrow> qstring"
  fs_recordings :: qstring
  fs_cache :: qstring

datatype artifact_kind = ManagedMedia | NormalizedPcm | Waveform

definition MaxSymlinkResolutionDepth :: nat where "MaxSymlinkResolutionDepth = 64"

definition normalizedAbsolutePath :: "unicode \<Rightarrow> file_system \<Rightarrow> qstring \<Rightarrow> qstring" where
  "normalizedAbsolutePath uc fs path =
     (if trimmed uc path = [] \<or> \<not> fs_isAbsolute fs path then [] else fs_cleanAbsolute fs path)"

definition startsWith :: "unicode \<Rightarrow> bool \<Rightarrow> qstring \<Rightarrow> qstring \<Rightarrow> bool" where
  "startsWith uc caseSensitive s prefix \<longleftrightarrow> length prefix \<le> length s \<and>
     (if caseSensitive then take (length prefix) s = prefix else uc_caseEqual uc (take (length prefix) s) prefix)"

definition hasUnsafeWindowsPathSyntax :: "unicode \<Rightarrow> file_system \<Rightarrow> qstring \<Rightarrow> bool" where
  "hasUnsafeWindowsPathSyntax uc fs path =
     (if \<not> fs_windows fs then False
      else
        let normalized = fs_fromNative fs (trimmed uc path);
            firstColon = indexOf uc True normalized (lit '':'') 0
        in if startsWith uc False normalized (lit ''//?/'') \<or> startsWith uc False normalized (lit ''//./'') then True
           else if startsWith uc True normalized (lit ''//'') then firstColon \<noteq> None
           else firstColon \<noteq> Some 1 \<or> indexOf uc True normalized (lit '':'') 2 \<noteq> None)"

definition pathEquals :: "unicode \<Rightarrow> file_system \<Rightarrow> qstring \<Rightarrow> qstring \<Rightarrow> bool" where
  "pathEquals uc fs left right = (if fs_windows fs then uc_caseEqual uc left right else left = right)"

text \<open>
  Resolving links: at most \<open>MaxSymlinkResolutionDepth\<close> links are followed, and from each path at
  most 256 parents are tried. \<open>resolve_up\<close> is the loop over the parents.
\<close>

definition joined :: "file_system \<Rightarrow> qstring \<Rightarrow> qstring list \<Rightarrow> qstring" where
  "joined fs base components = fs_cleanAbsolute fs (foldl (fs_join fs) base components)"

function resolvedComparisonPath :: "unicode \<Rightarrow> file_system \<Rightarrow> qstring \<Rightarrow> nat \<Rightarrow> qstring"
  and resolve_up :: "unicode \<Rightarrow> file_system \<Rightarrow> nat \<Rightarrow> nat \<Rightarrow> qstring \<Rightarrow> qstring list \<Rightarrow> qstring" where
  "resolvedComparisonPath uc fs path symlinkDepth =
     (let normalizedPath = normalizedAbsolutePath uc fs path in
      if normalizedPath = [] \<or> symlinkDepth > MaxSymlinkResolutionDepth then []
      else if fs_isSymLink fs normalizedPath then
        (let target = normalizedAbsolutePath uc fs (fs_symLinkTarget fs normalizedPath) in
         if target = [] \<or> pathEquals uc fs target normalizedPath then []
         else resolvedComparisonPath uc fs target (symlinkDepth + 1))
      else resolve_up uc fs symlinkDepth 256 normalizedPath [])"
| "resolve_up uc fs symlinkDepth 0 current unresolved = []"
| "resolve_up uc fs symlinkDepth (Suc n) current unresolved =
     (if fs_canonical fs current \<noteq> [] then joined fs (fs_canonical fs current) unresolved
      else if fs_isSymLink fs current then
        (let target = resolvedComparisonPath uc fs (fs_symLinkTarget fs current) (symlinkDepth + 1) in
         if target = [] then [] else joined fs target unresolved)
      else
        (let component = fs_fileName fs current; parent = fs_parent fs current in
         if component = [] \<or> parent = [] \<or> pathEquals uc fs parent current then []
         else resolve_up uc fs symlinkDepth n parent (component # unresolved)))"
  by pat_completeness auto

text \<open>A depth above the maximum is refused at once, so such a call ranks below every loop.\<close>

termination
  by (relation "inv_image (less_than <*lex*> less_than) (\<lambda>x. case x of
      Inl (uc, fs, path, depth) \<Rightarrow> (Suc MaxSymlinkResolutionDepth - depth,
        if depth > MaxSymlinkResolutionDepth then 0 else 300)
    | Inr (uc, fs, depth, n, current, unresolved) \<Rightarrow> (Suc MaxSymlinkResolutionDepth - depth, n))") auto

declare resolvedComparisonPath.simps [simp del]

definition isStrictChildPath :: "unicode \<Rightarrow> file_system \<Rightarrow> qstring \<Rightarrow> qstring \<Rightarrow> bool" where
  "isStrictChildPath uc fs path directory =
     (let normalizedPath = normalizedAbsolutePath uc fs path;
          normalizedDirectory = normalizedAbsolutePath uc fs directory
      in if normalizedPath = [] \<or> normalizedDirectory = [] \<or> pathEquals uc fs normalizedPath normalizedDirectory then False
         else startsWith uc (\<not> fs_windows fs) normalizedPath
                (if last normalizedDirectory = 0x2F then normalizedDirectory else normalizedDirectory @ [0x2F]))"

definition pathsEquivalent :: "unicode \<Rightarrow> file_system \<Rightarrow> qstring \<Rightarrow> qstring \<Rightarrow> bool" where
  "pathsEquivalent uc fs left right =
     (let l = normalizedAbsolutePath uc fs left; r = normalizedAbsolutePath uc fs right in
      if l = [] \<or> r = [] then False
      else if pathEquals uc fs l r then True
      else
        let rl = resolvedComparisonPath uc fs l 0; rr = resolvedComparisonPath uc fs r 0
        in rl \<noteq> [] \<and> rr \<noteq> [] \<and> pathEquals uc fs rl rr)"

definition pathsAreProvablyDistinct :: "unicode \<Rightarrow> file_system \<Rightarrow> qstring \<Rightarrow> qstring \<Rightarrow> bool" where
  "pathsAreProvablyDistinct uc fs left right =
     (let l = normalizedAbsolutePath uc fs left in
      if l = [] then False
      else if trimmed uc right = [] then True
      else
        let r = normalizedAbsolutePath uc fs right in
        if r = [] \<or> pathEquals uc fs l r then False
        else
          let rl = resolvedComparisonPath uc fs l 0; rr = resolvedComparisonPath uc fs r 0
          in rl \<noteq> [] \<and> rr \<noteq> [] \<and> \<not> pathEquals uc fs rl rr)"

definition artifactRoot :: "file_system \<Rightarrow> artifact_kind \<Rightarrow> qstring" where
  "artifactRoot fs kind = (case kind of ManagedMedia \<Rightarrow> fs_recordings fs | _ \<Rightarrow> fs_cache fs)"

text \<open>The parents below the root must not be links (Unix).\<close>

fun linked_parent :: "file_system \<Rightarrow> qstring \<Rightarrow> qstring list \<Rightarrow> bool" where
  "linked_parent fs currentParent [] = False"
| "linked_parent fs currentParent (component # components) =
     (if component = lit ''.'' then linked_parent fs currentParent components
      else if fs_isSymLink fs (fs_join fs currentParent component) then True
      else linked_parent fs (fs_join fs currentParent component) components)"

definition unsafe_parent :: "unicode \<Rightarrow> file_system \<Rightarrow> qstring \<Rightarrow> qstring \<Rightarrow> bool" where
  "unsafe_parent uc fs base absolutePath =
     (if fs_windows fs then False
      else
        let relativeParent = fs_relative fs base (fs_parent fs absolutePath)
        in relativeParent = lit ''..'' \<or> startsWith uc True relativeParent (lit ''../'')
           \<or> linked_parent fs base (split_skip_empty 0x2F [] relativeParent))"

definition isSafeArtifactPath :: "unicode \<Rightarrow> file_system \<Rightarrow> qstring \<Rightarrow> artifact_kind \<Rightarrow> bool" where
  "isSafeArtifactPath uc fs path kind =
     (if hasUnsafeWindowsPathSyntax uc fs path then False
      else
        let base = artifactRoot fs kind;
            absolutePath = normalizedAbsolutePath uc fs path
        in if base = [] \<or> \<not> isStrictChildPath uc fs absolutePath base then False
           else
             let canonicalRoot = fs_canonical fs base;
                 canonicalParent = fs_canonical fs (fs_parent fs absolutePath)
             in if canonicalRoot = [] \<or> canonicalParent = []
                  \<or> (\<not> pathEquals uc fs canonicalParent canonicalRoot
                     \<and> \<not> isStrictChildPath uc fs canonicalParent canonicalRoot) then False
                else if unsafe_parent uc fs base absolutePath then False
                else if fs_isSymLink fs absolutePath then \<not> fs_isDir fs absolutePath
                else if fs_isDir fs absolutePath then False
                else if \<not> fs_exists fs absolutePath then True
                else fs_canonical fs absolutePath \<noteq> []
                  \<and> isStrictChildPath uc fs (fs_canonical fs absolutePath) canonicalRoot)"

definition resolvedPathIsWithin :: "unicode \<Rightarrow> file_system \<Rightarrow> qstring \<Rightarrow> qstring \<Rightarrow> bool" where
  "resolvedPathIsWithin uc fs path base =
     (let resolvedPath = resolvedComparisonPath uc fs path 0; canonicalRoot = fs_canonical fs base
      in resolvedPath \<noteq> [] \<and> canonicalRoot \<noteq> [] \<and> isStrictChildPath uc fs resolvedPath canonicalRoot)"

definition isWithinManagedDeletionRoot :: "unicode \<Rightarrow> file_system \<Rightarrow> qstring \<Rightarrow> bool" where
  "isWithinManagedDeletionRoot uc fs path \<longleftrightarrow> isStrictChildPath uc fs path (fs_recordings fs)
     \<or> isStrictChildPath uc fs path (fs_cache fs) \<or> resolvedPathIsWithin uc fs path (fs_recordings fs)
     \<or> resolvedPathIsWithin uc fs path (fs_cache fs)"

definition isSafeManagedReference :: "unicode \<Rightarrow> file_system \<Rightarrow> qstring \<Rightarrow> bool" where
  "isSafeManagedReference uc fs path =
     (if isStrictChildPath uc fs path (fs_recordings fs) \<or> isStrictChildPath uc fs path (fs_cache fs)
      then isSafeArtifactPath uc fs path ManagedMedia \<or> isSafeArtifactPath uc fs path NormalizedPcm
      else resolvedPathIsWithin uc fs path (fs_recordings fs) \<or> resolvedPathIsWithin uc fs path (fs_cache fs))"

subsection \<open>What the checks guarantee\<close>

lemma safe_in_root: "isSafeArtifactPath uc fs path kind \<Longrightarrow>
    isStrictChildPath uc fs (normalizedAbsolutePath uc fs path) (artifactRoot fs kind)"
  by (simp add: isSafeArtifactPath_def Let_def split: if_splits)

lemma safe_no_directory: "isSafeArtifactPath uc fs path kind \<Longrightarrow> \<not> fs_isDir fs (normalizedAbsolutePath uc fs path)"
  by (auto simp: isSafeArtifactPath_def Let_def split: if_splits)

lemma distinct_not_equivalent:
  "pathsAreProvablyDistinct uc fs l r \<Longrightarrow> \<not> pathsEquivalent uc fs l r"
  by (auto simp: pathsAreProvablyDistinct_def pathsEquivalent_def normalizedAbsolutePath_def Let_def split: if_splits)

end
