(* ===== verification/LibraryStore.thy ===== *)
theory LibraryStore
  imports LibraryPaths JobRepository
begin

text \<open>
  \<^verbatim>\<open>database/SqliteRecordingRepository.cpp\<close> and the index part of
  \<^verbatim>\<open>database/DatabaseSearchService.cpp\<close>: the library of recordings. The tables are those of
  \<open>JobStore\<close>, whose recording rows hold the columns the job queue uses (\<open>active_job_id\<close> and
  \<open>updated_at\<close>), with the other columns of \<open>recordings\<close>, the tags, the search index and the queue
  of files to delete. The file system stands beside the tables: rolling a transaction back does
  not bring back a deleted file. The remover of files (a test may replace it) and the source of
  fresh identifiers are parameters; the test hook \<open>ManagedReferenceWriteHook\<close> is left out.
\<close>

subsection \<open>Rows and tables\<close>

record library_row =
  lr_id :: string
  lr_title :: qstring
  lr_sourcePath :: qstring
  lr_managedMediaPath :: qstring
  lr_normalizedPcmPath :: qstring
  lr_sourceHash :: qstring
  lr_mediaType :: qstring
  lr_durationMs :: int
  lr_sampleRate :: int
  lr_channelCount :: int
  lr_waveformPath :: qstring
  lr_createdAt :: "int option"
  lr_deletedAt :: "int option"
  lr_notes :: qstring
  lr_reviewState :: qstring

text \<open>The struct \<open>Recording\<close>: the columns, and what is read from other tables.\<close>

record recording = library_row +
  rg_updatedAt :: "int option"
  rg_activeJobId :: string
  rg_tags :: "qstring list"
  rg_latestJobState :: "job_state option"
  rg_latestJobModelId :: string
  rg_latestJobProgress :: real

record tag_row =
  tg_id :: string
  tg_name :: qstring

record search_row =
  sx_recordingId :: string
  sx_title :: qstring
  sx_notes :: qstring
  sx_tags :: qstring
  sx_transcript :: qstring

record pending_deletion =
  pd_id :: string
  pd_recordingId :: string
  pd_kind :: artifact_kind
  pd_path :: qstring
  pd_createdAt :: int
  pd_attemptCount :: int
  pd_nextAttemptAt :: int
  pd_lastError :: qstring

text \<open>\<open>lb_fts\<close> is \<open>None\<close> when the full-text table does not exist.\<close>

record library =
  lb_jobs :: job_tables
  lb_rows :: "library_row list"
  lb_tags :: "tag_row list"
  lb_recordingTags :: "(string \<times> string) list"
  lb_search :: "search_row list"
  lb_hasFts5 :: bool
  lb_fts :: "search_row list option"
  lb_pending :: "pending_deletion list"
  lb_files :: file_system

subsection \<open>Transactions\<close>

text \<open>Reading the file system is not a statement.\<close>

definition look :: "('d \<Rightarrow> 'a) \<Rightarrow> ('d, 'a) dbop" where
  "look f c = (Inr (f (cn_db c)), c)"

definition library_rolled_back :: "(library, 'a) dbop \<Rightarrow> (library, 'a) dbop" where
  "library_rolled_back m c =
     (case m c of
        (Inl e, c') \<Rightarrow> (Inl e, c'\<lparr>cn_db := (cn_db c)\<lparr>lb_files := lb_files (cn_db c')\<rparr>\<rparr>)
      | (Inr x, c') \<Rightarrow> (Inr x, c'))"

definition libraryTransaction :: "(library, 'a) dbop \<Rightarrow> (library, 'a) dbop" where
  "libraryTransaction operation =
     and_then connection (\<lambda>_.
     and_then statement (\<lambda>_.
     library_rolled_back (and_then operation (\<lambda>x. and_then statement (\<lambda>_. succeed x)))))"

definition libraryLeaseTransaction ::
  "string \<Rightarrow> string \<Rightarrow> (library, 'a) dbop \<Rightarrow> (library, 'a) dbop" where
  "libraryLeaseTransaction jobId ownerToken operation =
     (if blank jobId \<or> blank ownerToken then validation InvalidArgument
      else libraryTransaction (
        and_then (select (\<lambda>d. case db_lease (lb_jobs d) of
            Some l \<Rightarrow> if el_jobId l = jobId \<and> el_ownerToken l = ownerToken then Some (el_expiresAt l) else None
          | None \<Rightarrow> None)) (\<lambda>row.
        case row of
          None \<Rightarrow> validation ExecutionLeaseLost
        | Some None \<Rightarrow> validation ExecutionLeaseLost
        | Some (Some expiresAt) \<Rightarrow>
            and_then clock (\<lambda>now.
              if expiresAt \<le> now then validation ExecutionLeaseLost else operation))))"

subsection \<open>Statements\<close>

text \<open>The checks of the table \<open>recordings\<close>.\<close>

definition row_checks :: "library_row \<Rightarrow> bool" where
  "row_checks r \<longleftrightarrow> 0 \<le> lr_durationMs r \<and> 0 \<le> lr_sampleRate r \<and> 0 \<le> lr_channelCount r"

definition insert_recording ::
  "library_row \<Rightarrow> recording_row \<Rightarrow> library \<Rightarrow> (unit \<times> library) option" where
  "insert_recording r q d =
     (if lr_id r \<notin> lr_id ` set (lb_rows d) \<and> row_checks r
      then Some ((), d\<lparr>lb_rows := lb_rows d @ [r],
             lb_jobs := (lb_jobs d)\<lparr>db_recordings := db_recordings (lb_jobs d) @ [q]\<rparr>\<rparr>)
      else None)"

definition update_recordings ::
  "(library_row \<Rightarrow> bool) \<Rightarrow> (library_row \<Rightarrow> library_row) \<Rightarrow> (recording_row \<Rightarrow> recording_row) \<Rightarrow> library
    \<Rightarrow> (nat \<times> library) option" where
  "update_recordings P f g d =
     (let ids = map lr_id (filter P (lb_rows d));
          rows = map (\<lambda>r. if P r then f r else r) (lb_rows d)
      in if list_all row_checks rows
         then Some (length ids, d\<lparr>lb_rows := rows, lb_jobs := (lb_jobs d)\<lparr>db_recordings :=
                map (\<lambda>q. if rr_id q \<in> set ids then g q else q) (db_recordings (lb_jobs d))\<rparr>\<rparr>)
         else None)"

text \<open>Deleting a recording deletes its jobs, segments, tags and search entry.\<close>

definition delete_recordings :: "(library_row \<Rightarrow> bool) \<Rightarrow> library \<Rightarrow> (nat \<times> library) option" where
  "delete_recordings P d =
     (let gone = lr_id ` set (filter P (lb_rows d)) in
      case delete_jobs (\<lambda>j. tj_recordingId j \<in> gone) (lb_jobs d) of
        None \<Rightarrow> None
      | Some (_, jobs) \<Rightarrow> Some (length (filter P (lb_rows d)),
          d\<lparr>lb_rows := filter (\<lambda>r. \<not> P r) (lb_rows d),
            lb_jobs := jobs\<lparr>db_recordings := filter (\<lambda>q. rr_id q \<notin> gone) (db_recordings jobs),
                            db_segments := filter (\<lambda>s. ts_recordingId s \<notin> gone) (db_segments jobs)\<rparr>,
            lb_recordingTags := filter (\<lambda>(r, t). r \<notin> gone) (lb_recordingTags d),
            lb_search := filter (\<lambda>s. sx_recordingId s \<notin> gone) (lb_search d)\<rparr>))"

definition insert_pending :: "pending_deletion \<Rightarrow> library \<Rightarrow> (unit \<times> library) option" where
  "insert_pending p d =
     (if pd_id p \<notin> pd_id ` set (lb_pending d) \<and> \<not> list_all (\<lambda>c. c = 0x20) (pd_path p) \<and> 0 \<le> pd_attemptCount p
      then Some ((), d\<lparr>lb_pending := lb_pending d @ [p]\<rparr>) else None)"

definition update_pending ::
  "string \<Rightarrow> (pending_deletion \<Rightarrow> pending_deletion) \<Rightarrow> library \<Rightarrow> library" where
  "update_pending pendingId f d =
     d\<lparr>lb_pending := map (\<lambda>p. if pd_id p = pendingId then f p else p) (lb_pending d)\<rparr>"

definition delete_pending :: "string \<Rightarrow> library \<Rightarrow> library" where
  "delete_pending pendingId d = d\<lparr>lb_pending := filter (\<lambda>p. pd_id p \<noteq> pendingId) (lb_pending d)\<rparr>"

text \<open>Tags: names are unique up to the case of ASCII letters (\<open>COLLATE NOCASE\<close>).\<close>

definition nocase :: "qstring \<Rightarrow> qstring" where
  "nocase s = map ascii_fold s"

definition insert_or_ignore_tag :: "tag_row \<Rightarrow> library \<Rightarrow> library" where
  "insert_or_ignore_tag t d =
     (if tg_id t \<in> tg_id ` set (lb_tags d) \<or> nocase (tg_name t) \<in> (nocase \<circ> tg_name) ` set (lb_tags d)
      then d else d\<lparr>lb_tags := lb_tags d @ [t]\<rparr>)"

definition attach_tag :: "string \<Rightarrow> qstring \<Rightarrow> library \<Rightarrow> (unit \<times> library) option" where
  "attach_tag recordingId tag d =
     (let new = map (\<lambda>t. (recordingId, tg_id t)) (filter (\<lambda>t. nocase (tg_name t) = nocase tag) (lb_tags d))
      in if distinct (lb_recordingTags d @ new) \<and> (new = [] \<or> recordingId \<in> lr_id ` set (lb_rows d))
         then Some ((), d\<lparr>lb_recordingTags := lb_recordingTags d @ new\<rparr>) else None)"

definition find_row :: "string \<Rightarrow> library \<Rightarrow> library_row option" where
  "find_row recordingId d = find (\<lambda>r. lr_id r = recordingId) (lb_rows d)"

lemma find_distinct: "distinct (map k xs) \<Longrightarrow> x \<in> set xs \<Longrightarrow> find (\<lambda>y. k y = k x) xs = Some x"
  by (induction xs) (auto simp: image_iff)

lemma find_row_member: "distinct (map lr_id (lb_rows d)) \<Longrightarrow> r \<in> set (lb_rows d) \<Longrightarrow> find_row (lr_id r) d = Some r"
  unfolding find_row_def by (rule find_distinct)

definition find_queue_row :: "string \<Rightarrow> library \<Rightarrow> recording_row option" where
  "find_queue_row recordingId d = find (\<lambda>q. rr_id q = recordingId) (db_recordings (lb_jobs d))"

subsection \<open>The search index\<close>

text \<open>\<open>group_concat\<close> joins in the order of the rows.\<close>

definition recording_tag_names :: "string \<Rightarrow> library \<Rightarrow> qstring list" where
  "recording_tag_names recordingId d =
     map tg_name (filter (\<lambda>t. (recordingId, tg_id t) \<in> set (lb_recordingTags d)) (lb_tags d))"

definition segment_text :: "transcript_segment \<Rightarrow> qstring" where
  "segment_text s = (if ts_editedText s = [] then ts_originalText s else ts_editedText s)"

definition active_segments :: "string \<Rightarrow> library \<Rightarrow> transcript_segment list" where
  "active_segments recordingId d =
     (case find_queue_row recordingId d of
        None \<Rightarrow> []
      | Some q \<Rightarrow> filter (\<lambda>s. ts_recordingId s = recordingId \<and> rr_activeJobId q = Some (ts_jobId s))
                    (db_segments (lb_jobs d)))"

definition search_content :: "string \<Rightarrow> library \<Rightarrow> search_row option" where
  "search_content recordingId d =
     map_option (\<lambda>r. \<lparr>sx_recordingId = recordingId, sx_title = lr_title r, sx_notes = lr_notes r,
         sx_tags = join (lit '' '') (recording_tag_names recordingId d),
         sx_transcript = join (lit '' '') (map segment_text (active_segments recordingId d))\<rparr>)
       (find_row recordingId d)"

definition without_entry :: "string \<Rightarrow> search_row list \<Rightarrow> search_row list" where
  "without_entry recordingId = filter (\<lambda>s. sx_recordingId s \<noteq> recordingId)"

definition insert_search :: "search_row \<Rightarrow> library \<Rightarrow> (unit \<times> library) option" where
  "insert_search s d =
     (if sx_recordingId s \<in> lr_id ` set (lb_rows d) \<and> sx_recordingId s \<notin> sx_recordingId ` set (lb_search d)
      then Some ((), d\<lparr>lb_search := lb_search d @ [s]\<rparr>) else None)"

definition update_fts :: "(search_row list \<Rightarrow> search_row list) \<Rightarrow> library \<Rightarrow> (unit \<times> library) option" where
  "update_fts f d = map_option (\<lambda>entries. ((), d\<lparr>lb_fts := Some (f entries)\<rparr>)) (lb_fts d)"

definition rebuildEntry :: "string \<Rightarrow> (library, unit) dbop" where
  "rebuildEntry recordingId =
     and_then (select (search_content recordingId)) (\<lambda>content.
     case content of
       None \<Rightarrow> succeed ()
     | Some s \<Rightarrow>
         and_then (modify (\<lambda>d. d\<lparr>lb_search := without_entry recordingId (lb_search d)\<rparr>)) (\<lambda>_.
         and_then (exec (insert_search s)) (\<lambda>_.
         and_then (look lb_hasFts5) (\<lambda>hasFts5.
         if hasFts5
         then and_then (exec (update_fts (without_entry recordingId))) (\<lambda>_.
              exec (update_fts (\<lambda>entries. entries @ [s])))
         else succeed ()))))"

definition removeEntry :: "string \<Rightarrow> (library, unit) dbop" where
  "removeEntry recordingId =
     and_then (modify (\<lambda>d. d\<lparr>lb_search := without_entry recordingId (lb_search d)\<rparr>)) (\<lambda>_.
     and_then (select (\<lambda>d. lb_fts d \<noteq> None)) (\<lambda>hasFullTextTable.
     if hasFullTextTable then exec (update_fts (without_entry recordingId)) else succeed ()))"

definition rebuildRecordingEntry :: "string \<Rightarrow> (library, unit) dbop" where
  "rebuildRecordingEntry recordingId = libraryTransaction (rebuildEntry recordingId)"

fun rebuild_entries :: "string list \<Rightarrow> (library, unit) dbop" where
  "rebuild_entries [] = succeed ()"
| "rebuild_entries (i # ids) = and_then (rebuildRecordingEntry i) (\<lambda>_. rebuild_entries ids)"

definition rebuildAll :: "(library, unit) dbop" where
  "rebuildAll = and_then connection (\<lambda>_. and_then (select (\<lambda>d. map lr_id (lb_rows d))) rebuild_entries)"

subsection \<open>Tags\<close>

fun normalized_tags :: "unicode \<Rightarrow> qstring set \<Rightarrow> qstring list \<Rightarrow> qstring list" where
  "normalized_tags uc seen [] = []"
| "normalized_tags uc seen (tag # tags) =
     (let clean = trimmed uc tag; key = uc_toCaseFolded uc clean in
      if clean \<noteq> [] \<and> key \<notin> seen then clean # normalized_tags uc (insert key seen) tags
      else normalized_tags uc seen tags)"

definition normalizedTags :: "unicode \<Rightarrow> qstring list \<Rightarrow> qstring list" where
  "normalizedTags uc tags = normalized_tags uc {} tags"

fun attach_tags :: "(int \<Rightarrow> string) \<Rightarrow> int \<Rightarrow> string \<Rightarrow> qstring list \<Rightarrow> (library, unit) dbop" where
  "attach_tags uuid index recordingId [] = succeed ()"
| "attach_tags uuid index recordingId (tag # tags) =
     and_then clock (\<lambda>_.
     and_then (modify (insert_or_ignore_tag \<lparr>tg_id = uuid index, tg_name = tag\<rparr>)) (\<lambda>_.
     and_then (exec (attach_tag recordingId tag)) (\<lambda>_.
     attach_tags uuid (index + 1) recordingId tags)))"

definition replaceTags :: "(int \<Rightarrow> string) \<Rightarrow> string \<Rightarrow> qstring list \<Rightarrow> (library, unit) dbop" where
  "replaceTags uuid recordingId tags =
     and_then (modify (\<lambda>d. d\<lparr>lb_recordingTags := filter (\<lambda>(r, t). r \<noteq> recordingId) (lb_recordingTags d)\<rparr>)) (\<lambda>_.
     attach_tags uuid 1 recordingId tags)"

subsection \<open>References to files\<close>

definition row_paths :: "library_row \<Rightarrow> qstring list" where
  "row_paths r = [lr_sourcePath r, lr_managedMediaPath r, lr_normalizedPcmPath r, lr_waveformPath r]"

definition existing_references :: "string \<Rightarrow> library \<Rightarrow> qstring list" where
  "existing_references recordingId d =
     (case find_row recordingId d of None \<Rightarrow> [[], [], [], []] | Some r \<Rightarrow> row_paths r)"

definition reference_ok :: "unicode \<Rightarrow> file_system \<Rightarrow> qstring list \<Rightarrow> nat \<times> qstring \<Rightarrow> bool" where
  "reference_ok uc fs existing request =
     (case request of (column, requestedPath) \<Rightarrow>
        if trimmed uc requestedPath = [] \<or> column \<ge> length existing
           \<or> pathsEquivalent uc fs requestedPath (existing ! column)
           \<or> \<not> isWithinManagedDeletionRoot uc fs requestedPath then True
        else isSafeManagedReference uc fs requestedPath \<and> fs_isFile fs requestedPath)"

definition ensureNewManagedReferencesExist ::
  "unicode \<Rightarrow> string \<Rightarrow> (nat \<times> qstring) list \<Rightarrow> (library, unit) dbop" where
  "ensureNewManagedReferencesExist uc existingId requested =
     and_then (if existingId = [] then succeed [[], [], [], []] else select (existing_references existingId)) (\<lambda>existing.
     and_then (look lb_files) (\<lambda>fs.
     if list_all (reference_ok uc fs existing) requested then succeed () else validation NotFound))"

definition pathIsReferenced :: "unicode \<Rightarrow> qstring \<Rightarrow> (library, bool) dbop" where
  "pathIsReferenced uc path =
     select (\<lambda>d. list_ex (\<lambda>r. list_ex (pathsEquivalent uc (lb_files d) path) (row_paths r)) (lb_rows d))"

definition ensureNoActiveExecutionLease :: "string \<Rightarrow> (library, unit) dbop" where
  "ensureNoActiveExecutionLease recordingId =
     and_then (select (\<lambda>d. case db_lease (lb_jobs d) of
         Some l \<Rightarrow> if list_ex (\<lambda>j. tj_id j = el_jobId l \<and> tj_recordingId j = recordingId) (db_jobs (lb_jobs d))
                   then Some (el_expiresAt l) else None
       | None \<Rightarrow> None)) (\<lambda>lease.
     case lease of
       None \<Rightarrow> succeed ()
     | Some None \<Rightarrow> validation InvalidStateTransition
     | Some (Some expiresAt) \<Rightarrow>
         and_then clock (\<lambda>now. if expiresAt > now then validation InvalidStateTransition else succeed ()))"

definition ensureJobBelongsToRecording :: "string \<Rightarrow> string \<Rightarrow> (library, unit) dbop" where
  "ensureJobBelongsToRecording jobId recordingId =
     and_then (select (\<lambda>d. list_ex (\<lambda>j. tj_id j = jobId \<and> tj_recordingId j = recordingId) (db_jobs (lb_jobs d)))) (\<lambda>found.
     if found then succeed () else validation InvalidArgument)"

text \<open>Queuing the files of a recording for deletion.\<close>

definition deletion_candidates :: "unicode \<Rightarrow> file_system \<Rightarrow> library_row \<Rightarrow> (artifact_kind \<times> qstring) list" where
  "deletion_candidates uc fs r =
     [(ManagedMedia, lr_managedMediaPath r)]
     @ (if pathsAreProvablyDistinct uc fs (lr_normalizedPcmPath r) (lr_sourcePath r)
        then [(NormalizedPcm, lr_normalizedPcmPath r)] else [])
     @ (if pathsAreProvablyDistinct uc fs (lr_waveformPath r) (lr_sourcePath r)
        then [(Waveform, lr_waveformPath r)] else [])"

fun enqueue_candidates ::
  "unicode \<Rightarrow> (int \<Rightarrow> string) \<Rightarrow> string \<Rightarrow> int \<Rightarrow> int \<Rightarrow> qstring set \<Rightarrow> (artifact_kind \<times> qstring) list
    \<Rightarrow> (library, unit) dbop" where
  "enqueue_candidates uc uuid recordingId createdAt index queued [] = succeed ()"
| "enqueue_candidates uc uuid recordingId createdAt index queued ((kind, path) # candidates) =
     and_then (look lb_files) (\<lambda>fs.
       let absolutePath = normalizedAbsolutePath uc fs path;
           deduplicationKey = (if fs_windows fs then uc_toCaseFolded uc absolutePath else absolutePath)
       in if absolutePath = [] \<or> deduplicationKey \<in> queued
             \<or> \<not> isSafeArtifactPath uc fs absolutePath kind
             \<or> (\<not> fs_exists fs absolutePath \<and> \<not> fs_isSymLink fs absolutePath)
          then enqueue_candidates uc uuid recordingId createdAt index queued candidates
          else
            and_then (exec (insert_pending \<lparr>pd_id = uuid index, pd_recordingId = recordingId, pd_kind = kind,
                pd_path = absolutePath, pd_createdAt = createdAt, pd_attemptCount = 0,
                pd_nextAttemptAt = createdAt, pd_lastError = []\<rparr>)) (\<lambda>_.
            enqueue_candidates uc uuid recordingId createdAt (index + 1) (insert deduplicationKey queued) candidates))"

definition enqueueArtifactDeletions :: "unicode \<Rightarrow> (int \<Rightarrow> string) \<Rightarrow> library_row \<Rightarrow> (library, unit) dbop" where
  "enqueueArtifactDeletions uc uuid r =
     and_then (look lb_files) (\<lambda>fs.
     and_then clock (\<lambda>createdAt.
     enqueue_candidates uc uuid (lr_id r) createdAt 1 {} (deletion_candidates uc fs r)))"

subsection \<open>Creating and updating recordings\<close>

definition all_references :: "library_row \<Rightarrow> (nat \<times> qstring) list" where
  "all_references r = [(0, lr_sourcePath r), (1, lr_managedMediaPath r), (2, lr_normalizedPcmPath r), (3, lr_waveformPath r)]"

definition columns_of :: "recording \<Rightarrow> library_row" where
  "columns_of r = library_row.truncate r"

definition createRecording :: "unicode \<Rightarrow> (int \<Rightarrow> string) \<Rightarrow> recording \<Rightarrow> (library, unit) dbop" where
  "createRecording uc uuid given =
     (if trimmed uc (lr_title given) = [] then validation InvalidArgument
      else
        and_then clock (\<lambda>now.
          let r = (columns_of given)\<lparr>lr_id := (if lr_id given = [] then uuid 0 else lr_id given),
                    lr_createdAt := (if lr_createdAt given = None then Some now else lr_createdAt given)\<rparr>;
              tags = normalizedTags uc (rg_tags given)
          in libraryTransaction (
            and_then (ensureNewManagedReferencesExist uc [] (all_references r)) (\<lambda>_.
            and_then (exec (insert_recording (r\<lparr>lr_title := trimmed uc (lr_title r), lr_deletedAt := None\<rparr>)
               \<lparr>rr_id = lr_id r,
                rr_activeJobId = (if rg_activeJobId given = [] then None else Some (rg_activeJobId given)),
                rr_updatedAt = now\<rparr>)) (\<lambda>_.
            and_then (replaceTags uuid (lr_id r) tags) (\<lambda>_.
            rebuildEntry (lr_id r))))))) "

text \<open>The two statements of \<open>update\<close>: all columns, and those a worker derives from the media.\<close>

definition replace_columns :: "unicode \<Rightarrow> library_row \<Rightarrow> library_row \<Rightarrow> library_row" where
  "replace_columns uc given r =
     r\<lparr>lr_title := trimmed uc (lr_title given), lr_sourcePath := lr_sourcePath given,
       lr_managedMediaPath := lr_managedMediaPath given, lr_normalizedPcmPath := lr_normalizedPcmPath given,
       lr_sourceHash := lr_sourceHash given, lr_mediaType := lr_mediaType given,
       lr_durationMs := max 0 (lr_durationMs given), lr_sampleRate := max 0 (lr_sampleRate given),
       lr_channelCount := max 0 (lr_channelCount given), lr_waveformPath := lr_waveformPath given,
       lr_notes := lr_notes given, lr_reviewState := lr_reviewState given\<rparr>"

definition replace_derived :: "library_row \<Rightarrow> library_row \<Rightarrow> library_row" where
  "replace_derived given r =
     r\<lparr>lr_normalizedPcmPath := lr_normalizedPcmPath given, lr_sourceHash := lr_sourceHash given,
       lr_mediaType := lr_mediaType given, lr_durationMs := max 0 (lr_durationMs given),
       lr_sampleRate := max 0 (lr_sampleRate given), lr_channelCount := max 0 (lr_channelCount given),
       lr_waveformPath := lr_waveformPath given\<rparr>"

text \<open>An update of the row with an identifier, which sets \<open>updated_at\<close> and must find the row.\<close>

definition update_row :: "string \<Rightarrow> user_error \<Rightarrow> (library_row \<Rightarrow> library_row) \<Rightarrow> (library, unit) dbop" where
  "update_row recordingId missing f =
     and_then clock (\<lambda>now.
     and_then (exec (update_recordings (\<lambda>r. lr_id r = recordingId) f (\<lambda>q. q\<lparr>rr_updatedAt := now\<rparr>))) (\<lambda>rows.
     if rows = 0 then fail missing else succeed ()))"

definition recording_missing :: user_error where
  "recording_missing = database_error NotFound False"

definition updateAllFields :: "unicode \<Rightarrow> (int \<Rightarrow> string) \<Rightarrow> recording \<Rightarrow> (library, unit) dbop" where
  "updateAllFields uc uuid given =
     and_then (ensureNoActiveExecutionLease (lr_id given)) (\<lambda>_.
     and_then (ensureNewManagedReferencesExist uc (lr_id given) (all_references (columns_of given))) (\<lambda>_.
     and_then (update_row (lr_id given) recording_missing (replace_columns uc (columns_of given))) (\<lambda>_.
     and_then (if rg_tags given \<noteq> [] then replaceTags uuid (lr_id given) (normalizedTags uc (rg_tags given)) else succeed ()) (\<lambda>_.
     rebuildEntry (lr_id given)))))"

definition updateDerivedFields :: "unicode \<Rightarrow> string \<Rightarrow> recording \<Rightarrow> (library, unit) dbop" where
  "updateDerivedFields uc jobId given =
     and_then (ensureJobBelongsToRecording jobId (lr_id given)) (\<lambda>_.
     and_then (ensureNewManagedReferencesExist uc (lr_id given)
         [(2, lr_normalizedPcmPath given), (3, lr_waveformPath given)]) (\<lambda>_.
     update_row (lr_id given) recording_missing (replace_derived (columns_of given))))"

definition updateRecording ::
  "unicode \<Rightarrow> (int \<Rightarrow> string) \<Rightarrow> recording \<Rightarrow> string \<Rightarrow> string \<Rightarrow> (library, unit) dbop" where
  "updateRecording uc uuid given jobId ownerToken =
     (if blank (lr_id given) \<or> (ownerToken = [] \<and> trimmed uc (lr_title given) = []) then validation InvalidArgument
      else if (jobId = []) \<noteq> (ownerToken = []) then validation InvalidArgument
      else if ownerToken = [] then libraryTransaction (updateAllFields uc uuid given)
      else libraryLeaseTransaction jobId ownerToken (updateDerivedFields uc jobId given))"

definition updateMetadataColumn ::
  "string \<Rightarrow> (library_row \<Rightarrow> library_row) \<Rightarrow> bool \<Rightarrow> (library, unit) dbop" where
  "updateMetadataColumn recordingId f rebuildSearch =
     (if blank recordingId then validation InvalidArgument
      else libraryTransaction (
        and_then (update_row recordingId recording_missing f) (\<lambda>_.
        if rebuildSearch then rebuildEntry recordingId else succeed ())))"

definition updateTitle :: "unicode \<Rightarrow> string \<Rightarrow> qstring \<Rightarrow> (library, unit) dbop" where
  "updateTitle uc recordingId title =
     (if trimmed uc title = [] then validation InvalidArgument
      else updateMetadataColumn recordingId (\<lambda>r. r\<lparr>lr_title := trimmed uc title\<rparr>) True)"

definition updateNotes :: "string \<Rightarrow> qstring \<Rightarrow> (library, unit) dbop" where
  "updateNotes recordingId notes = updateMetadataColumn recordingId (\<lambda>r. r\<lparr>lr_notes := notes\<rparr>) True"

definition updateReviewState :: "unicode \<Rightarrow> string \<Rightarrow> qstring \<Rightarrow> (library, unit) dbop" where
  "updateReviewState uc recordingId reviewState =
     (if trimmed uc reviewState = [] then validation InvalidArgument
      else updateMetadataColumn recordingId (\<lambda>r. r\<lparr>lr_reviewState := reviewState\<rparr>) False)"

definition relinked :: "qstring \<Rightarrow> bool \<Rightarrow> library_row \<Rightarrow> library_row" where
  "relinked sourcePath clearDerivedArtifacts r =
     (if clearDerivedArtifacts
      then r\<lparr>lr_sourcePath := sourcePath, lr_normalizedPcmPath := [], lr_sourceHash := [], lr_mediaType := [],
             lr_durationMs := 0, lr_sampleRate := 0, lr_channelCount := 0, lr_waveformPath := []\<rparr>
      else r\<lparr>lr_sourcePath := sourcePath\<rparr>)"

definition relinkSource :: "unicode \<Rightarrow> string \<Rightarrow> qstring \<Rightarrow> bool \<Rightarrow> (library, unit) dbop" where
  "relinkSource uc recordingId sourcePath clearDerivedArtifacts =
     (if blank recordingId \<or> sourcePath = [] then validation InvalidArgument
      else libraryTransaction (
        and_then (ensureNoActiveExecutionLease recordingId) (\<lambda>_.
        and_then (ensureNewManagedReferencesExist uc recordingId [(0, sourcePath)]) (\<lambda>_.
        update_row recordingId recording_missing (relinked sourcePath clearDerivedArtifacts)))))"

definition setTags :: "unicode \<Rightarrow> (int \<Rightarrow> string) \<Rightarrow> string \<Rightarrow> qstring list \<Rightarrow> (library, unit) dbop" where
  "setTags uc uuid recordingId tags =
     libraryTransaction (
       and_then (replaceTags uuid recordingId (normalizedTags uc tags)) (\<lambda>_. rebuildEntry recordingId))"

definition setActiveTranscriptJob :: "string \<Rightarrow> string \<Rightarrow> (library, unit) dbop" where
  "setActiveTranscriptJob recordingId jobId =
     (if blank recordingId \<or> blank jobId then validation InvalidArgument
      else libraryTransaction (
        and_then (select (\<lambda>d. map_option tj_state (find (\<lambda>j. tj_id j = jobId \<and> tj_recordingId j = recordingId)
            (db_jobs (lb_jobs d))))) (\<lambda>job.
        case job of
          None \<Rightarrow> validation NotFound
        | Some state \<Rightarrow>
            if state \<noteq> Completed then validation InvalidStateTransition
            else
              and_then clock (\<lambda>now.
              and_then (exec (update_recordings (\<lambda>r. lr_id r = recordingId) (\<lambda>r. r)
                 (\<lambda>q. q\<lparr>rr_activeJobId := Some jobId, rr_updatedAt := now\<rparr>))) (\<lambda>rows.
              if rows = 0 then validation NotFound else rebuildEntry recordingId)))))"

subsection \<open>Trash and deletion\<close>

definition moveToTrash :: "string \<Rightarrow> (library, unit) dbop" where
  "moveToTrash recordingId =
     and_then connection (\<lambda>_.
     and_then clock (\<lambda>now.
     and_then (exec (update_recordings (\<lambda>r. lr_id r = recordingId \<and> lr_deletedAt r = None)
        (\<lambda>r. r\<lparr>lr_deletedAt := Some now\<rparr>) (\<lambda>q. q\<lparr>rr_updatedAt := now\<rparr>))) (\<lambda>_. succeed ())))"

definition restoreRecording :: "string \<Rightarrow> (library, unit) dbop" where
  "restoreRecording recordingId =
     and_then connection (\<lambda>_.
     and_then clock (\<lambda>now.
     and_then (exec (update_recordings (\<lambda>r. lr_id r = recordingId \<and> lr_deletedAt r \<noteq> None)
        (\<lambda>r. r\<lparr>lr_deletedAt := None\<rparr>) (\<lambda>q. q\<lparr>rr_updatedAt := now\<rparr>))) (\<lambda>_. succeed ())))"

definition permanentlyDelete :: "unicode \<Rightarrow> (int \<Rightarrow> string) \<Rightarrow> string \<Rightarrow> (library, unit) dbop" where
  "permanentlyDelete uc uuid recordingId =
     libraryTransaction (
       and_then (ensureNoActiveExecutionLease recordingId) (\<lambda>_.
       and_then (select (find_row recordingId)) (\<lambda>existing.
       case existing of
         None \<Rightarrow> validation InvalidStateTransition
       | Some r \<Rightarrow>
           if lr_deletedAt r = None then validation InvalidStateTransition
           else
             and_then (enqueueArtifactDeletions uc uuid r) (\<lambda>_.
             and_then (exec (delete_recordings (\<lambda>r. lr_id r = recordingId \<and> lr_deletedAt r \<noteq> None))) (\<lambda>rows.
             if rows = 0 then validation InvalidStateTransition else removeEntry recordingId)))))"

text \<open>
  Deleting queued files. The remover answers \<open>None\<close> when it removed the file and the reason
  otherwise, with the file system after the attempt.
\<close>

datatype deletion_outcome = Skipped | Removed | Missing | Referenced | UnsafePath | RemovalFailed

type_synonym file_remover = "qstring \<Rightarrow> artifact_kind \<Rightarrow> file_system \<Rightarrow> qstring option \<times> file_system"

record deletion_report =
  dr_entriesClaimed :: nat
  dr_filesRemoved :: nat
  dr_missingFiles :: nat
  dr_referencedFilesDeferred :: nat
  dr_unsafeEntriesDiscarded :: nat
  dr_failures :: nat

definition empty_report :: deletion_report where
  "empty_report = \<lparr>dr_entriesClaimed = 0, dr_filesRemoved = 0, dr_missingFiles = 0,
     dr_referencedFilesDeferred = 0, dr_unsafeEntriesDiscarded = 0, dr_failures = 0\<rparr>"

definition retry_delay :: "int \<Rightarrow> int" where
  "retry_delay attemptCount = min 21600 (30 * 2 ^ nat (min attemptCount 10))"

definition acknowledge :: "string \<Rightarrow> deletion_outcome \<Rightarrow> (library, deletion_outcome) dbop" where
  "acknowledge pendingId result = and_then (modify (delete_pending pendingId)) (\<lambda>_. succeed result)"

definition retry_later :: "pending_deletion \<Rightarrow> qstring \<Rightarrow> deletion_outcome \<Rightarrow> (library, deletion_outcome) dbop" where
  "retry_later row error result =
     and_then clock (\<lambda>now.
     and_then (modify (update_pending (pd_id row) (\<lambda>p. p\<lparr>pd_attemptCount := pd_attemptCount row + 1,
         pd_nextAttemptAt := now + 1000 * retry_delay (pd_attemptCount row),
         pd_lastError := take 1024 error\<rparr>))) (\<lambda>_. succeed result))"

definition remove_file :: "file_remover \<Rightarrow> qstring \<Rightarrow> artifact_kind \<Rightarrow> (library, qstring option) dbop" where
  "remove_file remover path kind c =
     (case remover path kind (lb_files (cn_db c)) of
        (answer, fs) \<Rightarrow> (Inr answer, c\<lparr>cn_db := (cn_db c)\<lparr>lb_files := fs\<rparr>\<rparr>))"

definition remove_pending_file :: "unicode \<Rightarrow> file_remover \<Rightarrow> pending_deletion \<Rightarrow> (library, deletion_outcome) dbop" where
  "remove_pending_file uc remover row =
     and_then (remove_file remover (pd_path row) (pd_kind row)) (\<lambda>answer.
     case answer of
       None \<Rightarrow> acknowledge (pd_id row) Removed
     | Some removalError \<Rightarrow>
         retry_later row (if trimmed uc removalError = [] then lit ''The managed file could not be removed.''
           else removalError) RemovalFailed)"

definition processPending :: "unicode \<Rightarrow> file_remover \<Rightarrow> string \<Rightarrow> (library, deletion_outcome) dbop" where
  "processPending uc remover pendingId =
     and_then clock (\<lambda>now.
     and_then (select (\<lambda>d. find (\<lambda>p. pd_id p = pendingId \<and> pd_nextAttemptAt p \<le> now) (lb_pending d))) (\<lambda>pending.
     case pending of
       None \<Rightarrow> succeed Skipped
     | Some row \<Rightarrow>
         and_then (look lb_files) (\<lambda>fs.
         if \<not> isSafeArtifactPath uc fs (pd_path row) (pd_kind row) then acknowledge (pd_id row) UnsafePath
         else if \<not> fs_exists fs (pd_path row) \<and> \<not> fs_isSymLink fs (pd_path row)
         then acknowledge (pd_id row) Missing
         else
           and_then (pathIsReferenced uc (pd_path row)) (\<lambda>referenced.
           if referenced
           then retry_later row (lit ''The managed file is still referenced by another recording.'') Referenced
           else
             and_then (look lb_files) (\<lambda>fs'.
             if \<not> isSafeArtifactPath uc fs' (pd_path row) (pd_kind row) then acknowledge (pd_id row) UnsafePath
             else remove_pending_file uc remover row)))))"

definition count_outcome :: "deletion_outcome \<Rightarrow> deletion_report \<Rightarrow> deletion_report" where
  "count_outcome result rp =
     (let r = (if result \<noteq> Skipped then rp\<lparr>dr_entriesClaimed := dr_entriesClaimed rp + 1\<rparr> else rp) in
      case result of
        Removed \<Rightarrow> r\<lparr>dr_filesRemoved := dr_filesRemoved r + 1\<rparr>
      | Missing \<Rightarrow> r\<lparr>dr_missingFiles := dr_missingFiles r + 1\<rparr>
      | Referenced \<Rightarrow> r\<lparr>dr_referencedFilesDeferred := dr_referencedFilesDeferred r + 1\<rparr>
      | UnsafePath \<Rightarrow> r\<lparr>dr_unsafeEntriesDiscarded := dr_unsafeEntriesDiscarded r + 1\<rparr>
      | RemovalFailed \<Rightarrow> r\<lparr>dr_failures := dr_failures r + 1\<rparr>
      | Skipped \<Rightarrow> r)"

fun drain_entries ::
  "unicode \<Rightarrow> file_remover \<Rightarrow> deletion_report \<Rightarrow> string list \<Rightarrow> (library, deletion_report) dbop" where
  "drain_entries uc remover rp [] = succeed rp"
| "drain_entries uc remover rp (pendingId # pendingIds) =
     and_then (libraryTransaction (processPending uc remover pendingId)) (\<lambda>result.
     drain_entries uc remover (count_outcome result rp) pendingIds)"

definition drainPendingArtifactDeletions ::
  "unicode \<Rightarrow> file_remover \<Rightarrow> string \<Rightarrow> (library, deletion_report) dbop" where
  "drainPendingArtifactDeletions uc remover recordingId =
     and_then clock (\<lambda>eligibleAt.
     and_then connection (\<lambda>_.
     and_then (select (\<lambda>d. map pd_id (sort_key (\<lambda>p. (pd_createdAt p, pd_id p))
         (filter (\<lambda>p. pd_nextAttemptAt p \<le> eligibleAt \<and> (blank recordingId \<or> pd_recordingId p = recordingId))
           (lb_pending d))))) (\<lambda>pendingIds.
     drain_entries uc remover empty_report pendingIds)))"

subsection \<open>Reading recordings\<close>

text \<open>Text is ordered by its code points (\<open>BINARY\<close>) after folding ASCII letters (\<open>NOCASE\<close>).\<close>

fun ucs4 :: "qstring \<Rightarrow> int list" where
  "ucs4 [] = []"
| "ucs4 [c] = [uint c]"
| "ucs4 (c # c' # cs) =
     (if isHighSurrogate c \<and> isLowSurrogate c' then surrogateToUcs4 c c' # ucs4 cs else uint c # ucs4 (c' # cs))"

definition newest_job :: "string \<Rightarrow> library \<Rightarrow> transcription_job option" where
  "newest_job recordingId d =
     (case sort_key (\<lambda>j. (tj_createdAt j, tj_id j))
             (filter (\<lambda>j. tj_recordingId j = recordingId) (db_jobs (lb_jobs d))) of
        [] \<Rightarrow> None | j # js \<Rightarrow> Some (last (j # js)))"

definition readRecording :: "library \<Rightarrow> library_row \<Rightarrow> recording" where
  "readRecording d r =
     (let q = find_queue_row (lr_id r) d; j = newest_job (lr_id r) d in
      library_row.extend r (recording.fields
        (map_option rr_updatedAt q)
        (case Option.bind q rr_activeJobId of Some a \<Rightarrow> a | None \<Rightarrow> [])
        []
        (map_option tj_state j)
        (case j of Some job \<Rightarrow> tj_modelId job | None \<Rightarrow> [])
        (case j of Some job \<Rightarrow> tj_progress job | None \<Rightarrow> 0)))"

definition tag_pairs :: "string list \<Rightarrow> library \<Rightarrow> (string \<times> qstring) list" where
  "tag_pairs recordingIds d =
     sort_key (\<lambda>(i, n). (i, ucs4 (nocase n)))
       (concat (map (\<lambda>(i, t). map (\<lambda>tag. (i, tg_name tag)) (filter (\<lambda>tag. tg_id tag = t) (lb_tags d)))
          (filter (\<lambda>(i, t). i \<in> set recordingIds) (lb_recordingTags d))))"

definition loadTags :: "string \<Rightarrow> (library, qstring list) dbop" where
  "loadTags recordingId = select (\<lambda>d. map snd (tag_pairs [recordingId] d))"

definition TagBatchSize :: nat where "TagBatchSize = 500"

function loadTagBatches :: "string list \<Rightarrow> (library, (string \<times> qstring) list) dbop" where
  "loadTagBatches recordingIds =
     (if recordingIds = [] then succeed []
      else and_then (select (tag_pairs (take TagBatchSize recordingIds))) (\<lambda>found.
           and_then (loadTagBatches (drop TagBatchSize recordingIds)) (\<lambda>rest. succeed (found @ rest))))"
  by pat_completeness auto
termination by (relation "measure length") (auto simp: TagBatchSize_def)

declare loadTagBatches.simps [simp del]

definition with_tags :: "(string \<times> qstring) list \<Rightarrow> recording \<Rightarrow> recording" where
  "with_tags found r = r\<lparr>rg_tags := map snd (filter (\<lambda>(i, n). i = lr_id r) found)\<rparr>"

definition read_one :: "(library \<Rightarrow> library_row option) \<Rightarrow> (library, recording option) dbop" where
  "read_one row =
     and_then connection (\<lambda>_.
     and_then (select (\<lambda>d. map_option (readRecording d) (row d))) (\<lambda>found.
     case found of
       None \<Rightarrow> succeed None
     | Some r \<Rightarrow> and_then (loadTags (lr_id r)) (\<lambda>tags. succeed (Some (r\<lparr>rg_tags := tags\<rparr>)))))"

definition findRecording :: "string \<Rightarrow> (library, recording option) dbop" where
  "findRecording recordingId = read_one (find_row recordingId)"

definition findBySourcePath :: "qstring \<Rightarrow> (library, recording option) dbop" where
  "findBySourcePath sourcePath =
     read_one (\<lambda>d. first_by (\<lambda>r. case find_queue_row (lr_id r) d of Some q \<Rightarrow> - rr_updatedAt q | None \<Rightarrow> 0)
       (filter (\<lambda>r. lr_sourcePath r = sourcePath \<and> lr_deletedAt r = None) (lb_rows d)))"

end
