(* ===== verification/LibrarySearch.thy ===== *)
theory LibrarySearch
  imports LibraryStore
begin

text \<open>
  Listing and searching the library: \<open>list\<close> of \<^verbatim>\<open>database/SqliteRecordingRepository.cpp\<close> and
  \<open>search\<close> of \<^verbatim>\<open>database/DatabaseSearchService.cpp\<close>. SQLite's \<open>LIKE\<close> with an escape character is
  defined as it is documented; its full-text engine (matching, ranking, snippets) is the
  parameter \<open>fts_engine\<close>.
\<close>

subsection \<open>LIKE\<close>

text \<open>
  \<open>x LIKE pattern ESCAPE '\'\<close> on code points: a percent sign matches any text, an underscore any
  one character, the escape character makes the next one literal, ASCII letters match in
  either case.
\<close>

definition fold_cp :: "int \<Rightarrow> int" where
  "fold_cp c = (if 0x41 \<le> c \<and> c \<le> 0x5A then c + 0x20 else c)"

function like_match :: "int list \<Rightarrow> int list \<Rightarrow> bool" where
  "like_match [] s = (s = [])"
| "like_match (p # ps) s =
     (if p = 0x5C then
        (case (ps, s) of (q # qs, c # cs) \<Rightarrow> fold_cp c = fold_cp q \<and> like_match qs cs | _ \<Rightarrow> False)
      else if p = 0x25 then like_match ps s \<or> (case s of [] \<Rightarrow> False | c # cs \<Rightarrow> like_match (p # ps) cs)
      else if p = 0x5F then (case s of [] \<Rightarrow> False | c # cs \<Rightarrow> like_match ps cs)
      else (case s of [] \<Rightarrow> False | c # cs \<Rightarrow> fold_cp c = fold_cp p \<and> like_match ps cs))"
  by pat_completeness auto
termination by (relation "measure (\<lambda>(p, s). length p + length s)") auto

definition like :: "qstring \<Rightarrow> qstring \<Rightarrow> bool" where
  "like text_value pattern = like_match (ucs4 pattern) (ucs4 text_value)"

text \<open>\<open>likePattern\<close>: \<open>QString::replace\<close> of one character, three times.\<close>

definition escape_char :: "qchar \<Rightarrow> qstring \<Rightarrow> qstring" where
  "escape_char special s = concat (map (\<lambda>c. if c = special then [0x5C, special] else [c]) s)"

definition likePattern :: "qstring \<Rightarrow> qstring" where
  "likePattern token = [0x25] @ escape_char 0x5F (escape_char 0x25 (escape_char 0x5C token)) @ [0x25]"

subsection \<open>Listing\<close>

record recording_query =
  rq_searchText :: qstring
  rq_status :: qstring
  rq_tag :: qstring
  rq_includeDeleted :: bool
  rq_deletedOnly :: bool
  rq_sortColumn :: string
  rq_ascending :: bool
  rq_offset :: int
  rq_limit :: int

record recording_page =
  pg_items :: "recording list"
  pg_totalCount :: nat
  pg_offset :: int
  pg_limit :: int

definition safeSortColumn :: "string \<Rightarrow> string" where
  "safeSortColumn requested =
     (if requested \<in> set [''title'', ''created_at'', ''updated_at'', ''duration_ms'', ''review_state'']
      then requested else ''updated_at'')"

definition time_key :: "int option \<Rightarrow> int list" where
  "time_key t = (case t of None \<Rightarrow> [] | Some x \<Rightarrow> [x])"

definition column_key :: "string \<Rightarrow> recording \<Rightarrow> int list" where
  "column_key column r =
     (if column = ''title'' then ucs4 (lr_title r)
      else if column = ''created_at'' then time_key (lr_createdAt r)
      else if column = ''duration_ms'' then [lr_durationMs r]
      else if column = ''review_state'' then ucs4 (lr_reviewState r)
      else time_key (rg_updatedAt r))"

definition listed_before :: "string \<Rightarrow> bool \<Rightarrow> recording \<Rightarrow> recording \<Rightarrow> bool" where
  "listed_before column ascending a b \<longleftrightarrow>
     (let x = column_key column a; y = column_key column b in
      (if ascending then x < y else y < x) \<or> x = y \<and> lr_id a < lr_id b)"

definition text_listed :: "unicode \<Rightarrow> library \<Rightarrow> qstring \<Rightarrow> library_row \<Rightarrow> bool" where
  "text_listed uc d searchText r \<longleftrightarrow>
     (trimmed uc searchText \<noteq> [] \<longrightarrow>
      (let pattern = likePattern searchText in
       like (lr_title r) pattern \<or> like (lr_notes r) pattern
       \<or> list_ex (\<lambda>n. like n pattern) (recording_tag_names (lr_id r) d)
       \<or> list_ex (\<lambda>s. ts_recordingId s = lr_id r
             \<and> (like (ts_editedText s) pattern \<or> like (ts_originalText s) pattern)) (db_segments (lb_jobs d))))"

definition listed :: "unicode \<Rightarrow> library \<Rightarrow> recording_query \<Rightarrow> library_row \<Rightarrow> bool" where
  "listed uc d request r \<longleftrightarrow>
     (if rq_deletedOnly request then lr_deletedAt r \<noteq> None
      else if \<not> rq_includeDeleted request then lr_deletedAt r = None else True)
     \<and> (rq_status request = [] \<or> lr_reviewState r = rq_status request)
     \<and> (rq_tag request = [] \<or> list_ex (\<lambda>n. nocase n = nocase (rq_tag request)) (recording_tag_names (lr_id r) d))
     \<and> text_listed uc d (rq_searchText request) r"

definition listed_recordings :: "unicode \<Rightarrow> recording_query \<Rightarrow> library \<Rightarrow> recording list" where
  "listed_recordings uc request d =
     stable_sort (listed_before (safeSortColumn (rq_sortColumn request)) (rq_ascending request))
       (map (readRecording d) (filter (listed uc d request) (lb_rows d)))"

definition listRecordings :: "unicode \<Rightarrow> recording_query \<Rightarrow> (library, recording_page) dbop" where
  "listRecordings uc request =
     and_then connection (\<lambda>_.
     let pageLimit = clamp 1 1000 (rq_limit request); pageOffset = max 0 (rq_offset request) in
     and_then (select (\<lambda>d. length (filter (listed uc d request) (lb_rows d)))) (\<lambda>total.
     and_then (select (\<lambda>d. take (nat pageLimit) (drop (nat pageOffset) (listed_recordings uc request d)))) (\<lambda>items.
     and_then (loadTagBatches (map lr_id items)) (\<lambda>tags.
     succeed \<lparr>pg_items = map (with_tags tags) items, pg_totalCount = total,
              pg_offset = pageOffset, pg_limit = pageLimit\<rparr>))))"

subsection \<open>Search\<close>

text \<open>The full-text engine: whether a query matches an entry, how it ranks and what it shows.\<close>

record fts_engine =
  fe_match :: "qstring \<Rightarrow> search_row \<Rightarrow> bool"
  fe_rank :: "qstring \<Rightarrow> search_row \<Rightarrow> real"
  fe_snippet :: "qstring \<Rightarrow> search_row \<Rightarrow> qstring"

record search_result =
  sr_recordingId :: string
  sr_segmentId :: string
  sr_startMs :: int
  sr_title :: qstring
  sr_snippet :: qstring

definition searchTokens :: "unicode \<Rightarrow> qstring \<Rightarrow> qstring list" where
  "searchTokens uc queryText = split_skip_empty 0x20 [] (simplified uc queryText)"

definition trigramMatchable :: "qstring \<Rightarrow> bool" where
  "trigramMatchable token \<longleftrightarrow> 3 \<le> length (ucs4 token)"

definition ftsPhrase :: "qstring \<Rightarrow> qstring" where
  "ftsPhrase token = [0x22] @ concat (map (\<lambda>c. if c = 0x22 then [0x22, 0x22] else [c]) token) @ [0x22]"

fun take_chars :: "nat \<Rightarrow> qstring \<Rightarrow> qstring" where
  "take_chars 0 s = []"
| "take_chars (Suc n) [] = []"
| "take_chars (Suc n) [c] = [c]"
| "take_chars (Suc n) (c # c' # cs) =
     (if isHighSurrogate c \<and> isLowSurrogate c' then c # c' # take_chars n cs else c # take_chars n (c' # cs))"

definition columns_like :: "qstring list \<Rightarrow> search_row \<Rightarrow> bool" where
  "columns_like likeTokens s \<longleftrightarrow> list_all (\<lambda>token. let pattern = likePattern token in
     like (sx_title s) pattern \<or> like (sx_notes s) pattern \<or> like (sx_tags s) pattern
     \<or> like (sx_transcript s) pattern) likeTokens"

text \<open>The entry joined with its recording, which must not be in the trash.\<close>

definition live_title :: "library \<Rightarrow> search_row \<Rightarrow> qstring option" where
  "live_title d s =
     (case find_row (sx_recordingId s) d of
        Some r \<Rightarrow> if lr_deletedAt r = None then Some (lr_title r) else None
      | None \<Rightarrow> None)"

definition result_rows ::
  "library \<Rightarrow> (search_row \<Rightarrow> qstring) \<Rightarrow> search_row list \<Rightarrow> (string \<times> qstring \<times> qstring) list" where
  "result_rows d shown entries =
     map (\<lambda>s. (sx_recordingId s, the (live_title d s), shown s)) (filter (\<lambda>s. live_title d s \<noteq> None) entries)"

definition fts_rows ::
  "fts_engine \<Rightarrow> qstring list \<Rightarrow> qstring list \<Rightarrow> library \<Rightarrow> (string \<times> qstring \<times> qstring) list option" where
  "fts_rows fe matchTokens likeTokens d =
     (let query = join (lit '' '') (map ftsPhrase matchTokens) in
      map_option (\<lambda>entries. result_rows d (fe_snippet fe query)
        (sort_key (fe_rank fe query) (filter (\<lambda>s. fe_match fe query s \<and> columns_like likeTokens s) entries)))
        (lb_fts d))"

definition fallback_rows :: "qstring list \<Rightarrow> library \<Rightarrow> (string \<times> qstring \<times> qstring) list" where
  "fallback_rows likeTokens d =
     result_rows d (\<lambda>s. take_chars 240 (sx_transcript s))
       (sort_key (\<lambda>s. case find_queue_row (sx_recordingId s) d of Some q \<Rightarrow> - rr_updatedAt q | None \<Rightarrow> 0)
         (filter (columns_like likeTokens) (lb_search d)))"

definition segment_like :: "qstring list \<Rightarrow> transcript_segment \<Rightarrow> bool" where
  "segment_like tokens s \<longleftrightarrow> list_ex (\<lambda>token. like (ts_originalText s) (likePattern token)
     \<or> like (ts_editedText s) (likePattern token)) tokens"

fun locate_results ::
  "qstring list \<Rightarrow> (string \<times> qstring \<times> qstring) list \<Rightarrow> (library, search_result list) dbop" where
  "locate_results tokens [] = succeed []"
| "locate_results tokens ((recordingId, title, snippet) # rows) =
     and_then (select (\<lambda>d. first_by ts_startMs (filter (segment_like tokens) (active_segments recordingId d)))) (\<lambda>found.
     and_then (locate_results tokens rows) (\<lambda>rest.
     succeed ((case found of
         None \<Rightarrow> \<lparr>sr_recordingId = recordingId, sr_segmentId = [], sr_startMs = 0, sr_title = title, sr_snippet = snippet\<rparr>
       | Some s \<Rightarrow> \<lparr>sr_recordingId = recordingId, sr_segmentId = ts_id s, sr_startMs = ts_startMs s,
                    sr_title = title, sr_snippet = segment_text s\<rparr>) # rest)))"

definition searchLibrary ::
  "unicode \<Rightarrow> fts_engine \<Rightarrow> qstring \<Rightarrow> int \<Rightarrow> int \<Rightarrow> (library, search_result list) dbop" where
  "searchLibrary uc fe queryText pageLimit pageOffset =
     (let tokens = searchTokens uc queryText in
      if tokens = [] then succeed []
      else
        and_then connection (\<lambda>_.
        and_then (look lb_hasFts5) (\<lambda>hasFts5.
          let matchTokens = (if hasFts5 then filter trigramMatchable tokens else []);
              likeTokens = (if hasFts5 then filter (\<lambda>t. \<not> trigramMatchable t) tokens else tokens);
              page = (\<lambda>rows. take (nat (clamp 1 500 pageLimit)) (drop (nat (max 0 pageOffset)) rows))
          in and_then (if matchTokens \<noteq> []
               then exec (\<lambda>d. map_option (\<lambda>rows. (page rows, d)) (fts_rows fe matchTokens likeTokens d))
               else select (\<lambda>d. page (fallback_rows likeTokens d))) (\<lambda>rows.
             locate_results tokens rows))))"

subsection \<open>Patterns match literally\<close>

definition escaped_unit :: "qchar \<Rightarrow> qstring" where
  "escaped_unit c = (if c = 0x5C \<or> c = 0x25 \<or> c = 0x5F then [0x5C, c] else [c])"

definition escaped_cp :: "int \<Rightarrow> int list" where
  "escaped_cp c = (if c = 0x5C \<or> c = 0x25 \<or> c = 0x5F then [0x5C, c] else [c])"

lemma escapes: "escape_char 0x5F (escape_char 0x25 (escape_char 0x5C s)) = concat (map escaped_unit s)"
  by (induction s) (auto simp: escape_char_def escaped_unit_def)

lemma uint_special [simp]:
  "uint c = 0x5C \<longleftrightarrow> c = 0x5C" "uint c = 0x25 \<longleftrightarrow> c = 0x25" "uint c = 0x5F \<longleftrightarrow> c = 0x5F" for c :: qchar
  using word_uint_eq_iff[of c "0x5C"] word_uint_eq_iff[of c "0x25"] word_uint_eq_iff[of c "0x5F"] by simp_all

lemma escaped_uint: "escaped_cp (uint c) = map uint (escaped_unit c)"
  by (simp add: escaped_cp_def escaped_unit_def)

lemma specials_no_surrogates [simp]:
  "\<not> isHighSurrogate 0x5C" "\<not> isLowSurrogate 0x5C" "\<not> isHighSurrogate 0x25" "\<not> isLowSurrogate 0x25"
  "\<not> isHighSurrogate 0x5F"
  by (simp_all add: isHighSurrogate_def isLowSurrogate_def)

lemma ucs4_Cons: "\<not> isHighSurrogate c \<Longrightarrow> ucs4 (c # s) = uint c # ucs4 s"
  by (cases s) auto

lemma ucs4_Cons': "s \<noteq> [] \<Longrightarrow> \<not> isLowSurrogate (hd s) \<Longrightarrow> ucs4 (c # s) = uint c # ucs4 s"
  by (cases s) auto

lemma surrogate_value: "isHighSurrogate c \<Longrightarrow> isLowSurrogate c' \<Longrightarrow> 0x10000 \<le> surrogateToUcs4 c c'"
  by (simp add: isHighSurrogate_def isLowSurrogate_def surrogateToUcs4_def word_le_def)

lemma high_no_special: "isHighSurrogate c \<Longrightarrow> escaped_unit c = [c]"
  by (auto simp: escaped_unit_def)

lemma low_no_special: "isLowSurrogate c \<Longrightarrow> escaped_unit c = [c]"
  by (auto simp: escaped_unit_def isLowSurrogate_def)

lemma ucs4_escaped_one: "\<not> isHighSurrogate c \<Longrightarrow> ucs4 (escaped_unit c @ s) = escaped_cp (uint c) @ ucs4 s"
  by (simp add: escaped_uint) (auto simp: escaped_unit_def ucs4_Cons)

lemma escaped_unit_start: "escaped_unit c \<noteq> [] \<and> (hd (escaped_unit c) = c \<or> hd (escaped_unit c) = 0x5C)"
  by (simp add: escaped_unit_def)

lemma ucs4_escaped:
  "ucs4 (concat (map escaped_unit s) @ [0x25]) = concat (map escaped_cp (ucs4 s)) @ [0x25]"
proof (induction s rule: ucs4.induct)
  case (2 c)
  show ?case
  proof (cases "isHighSurrogate c")
    case True
    then show ?thesis using high_no_special[OF True] by (auto simp: escaped_uint)
  next
    case False
    then show ?thesis by (simp add: ucs4_escaped_one)
  qed
next
  case (3 c c' cs)
  show ?case
  proof (cases "isHighSurrogate c \<and> isLowSurrogate c'")
    case True
    then have "escaped_cp (surrogateToUcs4 c c') = [surrogateToUcs4 c c']"
      using surrogate_value[of c c'] by (simp add: escaped_cp_def)
    then show ?thesis using True 3(1) by (simp add: high_no_special low_no_special)
  next
    case notpair: False
    let ?rest = "concat (map escaped_unit (c' # cs)) @ [0x25]"
    have IH: "ucs4 ?rest = concat (map escaped_cp (ucs4 (c' # cs))) @ [0x25]"
      using 3(2) notpair by blast
    show ?thesis
    proof (cases "isHighSurrogate c")
      case True
      then have "\<not> isLowSurrogate (hd ?rest)" "?rest \<noteq> []"
        using notpair escaped_unit_start[of c'] by auto
      then have "ucs4 (c # ?rest) = uint c # ucs4 ?rest" by (rule ucs4_Cons'[rotated])
      then show ?thesis using notpair True IH high_no_special[OF True] by (simp add: escaped_uint)
    next
      case False
      then show ?thesis using notpair IH by (simp add: ucs4_escaped_one)
    qed
  qed
qed simp

lemma like_match_percent: "like_match (0x25 # ps) s \<longleftrightarrow> (\<exists>k \<le> length s. like_match ps (drop k s))"
proof (induction s)
  case (Cons c cs)
  have "(\<exists>k \<le> length (c # cs). like_match ps (drop k (c # cs)))
     \<longleftrightarrow> like_match ps (c # cs) \<or> (\<exists>k \<le> length cs. like_match ps (drop k cs))"
    by (metis (no_types, lifting) Suc_le_mono drop0 drop_Suc_Cons length_Cons not0_implies_Suc zero_le)
  then show ?case using Cons by simp
qed simp

lemma like_match_literal:
  "like_match (concat (map escaped_cp t) @ [0x25]) s \<longleftrightarrow> (\<exists>b. map fold_cp s = map fold_cp t @ b)"
proof (induction t arbitrary: s)
  case Nil
  show ?case using like_match_percent[of "[]" s] by auto
next
  case (Cons c t)
  have "like_match (concat (map escaped_cp (c # t)) @ [0x25]) s \<longleftrightarrow>
     (case s of [] \<Rightarrow> False | d # ds \<Rightarrow> fold_cp d = fold_cp c \<and> like_match (concat (map escaped_cp t) @ [0x25]) ds)"
    by (cases s) (simp_all add: escaped_cp_def)
  then show ?case using Cons by (cases s) auto
qed

text \<open>A pattern matches exactly the texts that contain the token.\<close>

lemma like_literal:
  "like text_value (likePattern token) \<longleftrightarrow>
     (\<exists>before after. map fold_cp (ucs4 text_value) = before @ map fold_cp (ucs4 token) @ after)"
proof -
  have "ucs4 (likePattern token) = 0x25 # concat (map escaped_cp (ucs4 token)) @ [0x25]"
    unfolding likePattern_def by (simp add: escapes ucs4_Cons ucs4_escaped)
  then have "like text_value (likePattern token) \<longleftrightarrow> (\<exists>k \<le> length (ucs4 text_value).
      \<exists>b. map fold_cp (drop k (ucs4 text_value)) = map fold_cp (ucs4 token) @ b)"
    by (simp only: like_def like_match_percent like_match_literal)
  also have "\<dots> \<longleftrightarrow> (\<exists>before after. map fold_cp (ucs4 text_value) = before @ map fold_cp (ucs4 token) @ after)"
  proof
    assume "\<exists>k \<le> length (ucs4 text_value). \<exists>b. map fold_cp (drop k (ucs4 text_value)) = map fold_cp (ucs4 token) @ b"
    then obtain k b where "drop k (map fold_cp (ucs4 text_value)) = map fold_cp (ucs4 token) @ b"
      by (auto simp: drop_map)
    then have "map fold_cp (ucs4 text_value) = take k (map fold_cp (ucs4 text_value)) @ map fold_cp (ucs4 token) @ b"
      by (metis append_take_drop_id)
    then show "\<exists>before after. map fold_cp (ucs4 text_value) = before @ map fold_cp (ucs4 token) @ after" by blast
  next
    assume "\<exists>before after. map fold_cp (ucs4 text_value) = before @ map fold_cp (ucs4 token) @ after"
    then obtain a b where ab: "map fold_cp (ucs4 text_value) = a @ map fold_cp (ucs4 token) @ b" by blast
    then have "drop (length a) (map fold_cp (ucs4 text_value)) = map fold_cp (ucs4 token) @ b" by simp
    moreover have "length a \<le> length (ucs4 text_value)"
      using arg_cong[OF ab, of length] by simp
    ultimately show "\<exists>k \<le> length (ucs4 text_value). \<exists>b. map fold_cp (drop k (ucs4 text_value)) = map fold_cp (ucs4 token) @ b"
      by (auto simp: drop_map)
  qed
  finally show ?thesis .
qed

subsection \<open>What a page shows\<close>

lemma keyed_weak:
  fixes k :: "'a \<Rightarrow> 'k::linorder" and i :: "'a \<Rightarrow> 'i::linorder"
  shows "strict_weak (\<lambda>a b. (if ascending then k a < k b else k b < k a) \<or> k a = k b \<and> i a < i b)"
  unfolding strict_weak_def by (cases ascending) (simp_all, (safe; order)+)

lemma listed_before_weak: "strict_weak (listed_before column ascending)"
proof -
  have "listed_before column ascending = (\<lambda>a b. (if ascending then column_key column a < column_key column b
      else column_key column b < column_key column a) \<or> column_key column a = column_key column b \<and> lr_id a < lr_id b)"
    by (intro ext) (simp only: listed_before_def Let_def)
  then show ?thesis by (simp only: keyed_weak)
qed

lemma readRecording_fields [simp]: "lr_id (readRecording d r) = lr_id r" "rg_tags (readRecording d r) = []"
  by (simp_all add: readRecording_def Let_def library_row.defs recording.defs)

lemma with_tags_id [simp]: "lr_id (with_tags tags r) = lr_id r"
  by (simp add: with_tags_def)

lemma length_stable_sort [simp]: "length (stable_sort bef xs) = length xs"
  by (metis mset_stable_sort size_mset)

text \<open>The tags of a recording, read alone or with those of others.\<close>

lemma tag_pairs_filter:
  assumes "i \<in> set ids"
  shows "filter (\<lambda>(j, n). j = i) (tag_pairs ids d) = tag_pairs [i] d"
proof -
  have "filter (\<lambda>(j, n). j = i) (concat (map (\<lambda>(j, t). map (\<lambda>tag. (j, tg_name tag)) (filter (\<lambda>tag. tg_id tag = t) (lb_tags d)))
        (filter (\<lambda>(j, t). j \<in> set ids) xs)))
     = concat (map (\<lambda>(j, t). map (\<lambda>tag. (j, tg_name tag)) (filter (\<lambda>tag. tg_id tag = t) (lb_tags d)))
        (filter (\<lambda>(j, t). j \<in> set [i]) xs))" for xs
    using assms by (induction xs) (auto simp: filter_empty_conv filter_id_conv)
  then show ?thesis by (simp only: tag_pairs_def filter_sort)
qed

lemma tag_pairs_other: "i \<notin> set ids \<Longrightarrow> filter (\<lambda>(j, n). j = i) (tag_pairs ids d) = []"
  unfolding tag_pairs_def by (auto simp: filter_empty_conv)

definition tags_read :: "library \<Rightarrow> string list \<Rightarrow> (string \<times> qstring) list \<Rightarrow> bool" where
  "tags_read d ids found \<longleftrightarrow> (\<forall>i. i \<notin> set ids \<longrightarrow> filter (\<lambda>(j, n). j = i) found = [])
     \<and> (distinct ids \<longrightarrow> (\<forall>i \<in> set ids. filter (\<lambda>(j, n). j = i) found = tag_pairs [i] d))"

lemma tags_read_append:
  assumes "tags_read d (drop n ids) b"
  shows "tags_read d ids (tag_pairs (take n ids) d @ b)"
proof -
  have ids: "ids = take n ids @ drop n ids" by simp
  have other: "filter (\<lambda>(j, n). j = i) (tag_pairs (take n ids) d @ b) = []" if "i \<notin> set ids" for i
    using assms that tag_pairs_other[of i "take n ids"] unfolding tags_read_def
    by (auto dest: in_set_takeD in_set_dropD)
  have own: "filter (\<lambda>(j, n). j = i) (tag_pairs (take n ids) d @ b) = tag_pairs [i] d"
    if "distinct ids" "i \<in> set ids" for i
  proof (cases "i \<in> set (take n ids)")
    case True
    then have "i \<notin> set (drop n ids)" using that(1) ids by (metis disjoint_iff distinct_append)
    then show ?thesis using assms True by (simp add: tags_read_def tag_pairs_filter)
  next
    case False
    then have "i \<in> set (drop n ids)" using that(2) ids by (metis Un_iff set_append)
    then show ?thesis using assms that(1) False by (simp add: tags_read_def tag_pairs_other)
  qed
  show ?thesis unfolding tags_read_def using other own by blast
qed

lemma loadTagBatches_value:
  "loadTagBatches ids c = (Inr found, c') \<Longrightarrow> cn_db c' = cn_db c \<and> tags_read (cn_db c) ids found"
proof (induction ids arbitrary: c found c' rule: loadTagBatches.induct)
  case (1 ids)
  show ?case
  proof (cases "ids = []")
    case True
    then show ?thesis using 1(2) by (simp add: loadTagBatches.simps[of "[]"] tags_read_def)
  next
    case False
    then obtain a c1 b where steps: "select (tag_pairs (take TagBatchSize ids)) c = (Inr a, c1)"
        "loadTagBatches (drop TagBatchSize ids) c1 = (Inr b, c')" "found = a @ b"
      using 1(2) by (subst (asm) loadTagBatches.simps) auto
    then show ?thesis
      using selectD[OF steps(1)] 1(1)[OF False steps(2)] tags_read_append by simp
  qed
qed

lemma listed_ids:
  "mset (map lr_id (listed_recordings uc request d)) = mset (map lr_id (filter (listed uc d request) (lb_rows d)))"
  by (simp add: listed_recordings_def image_mset.compositionality comp_def)

lemma listed_count: "length (filter (listed uc d request) (lb_rows d)) = length (listed_recordings uc request d)"
  by (simp add: listed_recordings_def)

lemma listRecordings_value:
  assumes "listRecordings uc request c = (Inr page, c')"
  obtains tags where "pg_totalCount page = length (listed_recordings uc request (cn_db c))"
    "pg_items page = map (with_tags tags) (take (nat (pg_limit page)) (drop (nat (pg_offset page))
       (listed_recordings uc request (cn_db c))))"
    "pg_limit page = clamp 1 1000 (rq_limit request)" "pg_offset page = max 0 (rq_offset request)"
    "tags_read (cn_db c) (map lr_id (take (nat (pg_limit page)) (drop (nat (pg_offset page))
       (listed_recordings uc request (cn_db c))))) tags"
proof -
  let ?window = "take (nat (clamp 1 1000 (rq_limit request))) (drop (nat (max 0 (rq_offset request)))
    (listed_recordings uc request (cn_db c)))"
  obtain tags where "tags_read (cn_db c) (map lr_id ?window) tags"
    "page = \<lparr>pg_items = map (with_tags tags) ?window, pg_totalCount = length (listed_recordings uc request (cn_db c)),
       pg_offset = max 0 (rq_offset request), pg_limit = clamp 1 1000 (rq_limit request)\<rparr>"
    using assms unfolding listRecordings_def Let_def listed_count
    by (auto dest!: connectionD selectD loadTagBatches_value)
  then show thesis by (intro that[of tags]) simp_all
qed

text \<open>
  A page of the library is a window of one fixed list: all recordings the query selects, each once
  and no others, in the requested order. The total is the length of that list, and the window is
  at the bounded limit and offset, so pages that follow one another leave nothing out.
\<close>

theorem pages_cut_one_list:
  assumes "listRecordings uc request c = (Inr page, c')"
  shows "\<exists>rs. pg_totalCount page = length rs
      \<and> map lr_id (pg_items page) = take (nat (pg_limit page)) (drop (nat (pg_offset page)) (map lr_id rs))
      \<and> sorted_wrt (\<lambda>a b. \<not> listed_before (safeSortColumn (rq_sortColumn request)) (rq_ascending request) b a) rs
      \<and> mset (map lr_id rs) = mset (map lr_id (filter (listed uc (cn_db c) request) (lb_rows (cn_db c))))
      \<and> 1 \<le> pg_limit page \<and> pg_limit page \<le> 1000 \<and> 0 \<le> pg_offset page"
proof -
  let ?rs = "listed_recordings uc request (cn_db c)"
  obtain tags where v: "pg_totalCount page = length ?rs"
    "pg_items page = map (with_tags tags) (take (nat (pg_limit page)) (drop (nat (pg_offset page)) ?rs))"
    "pg_limit page = clamp 1 1000 (rq_limit request)" "pg_offset page = max 0 (rq_offset request)"
    by (rule listRecordings_value[OF assms])
  have "map lr_id (pg_items page) = take (nat (pg_limit page)) (drop (nat (pg_offset page)) (map lr_id ?rs))"
    by (simp add: v(2) take_map drop_map comp_def)
  moreover have "mset (map lr_id ?rs) = mset (map lr_id (filter (listed uc (cn_db c) request) (lb_rows (cn_db c))))"
    by (rule listed_ids)
  moreover have "1 \<le> pg_limit page \<and> pg_limit page \<le> 1000"
    unfolding v(3) by (rule clamp_bounds) simp
  moreover have "sorted_wrt (\<lambda>a b. \<not> listed_before (safeSortColumn (rq_sortColumn request)) (rq_ascending request) b a) ?rs"
    unfolding listed_recordings_def by (rule sorted_stable_sort[OF listed_before_weak])
  moreover have "0 \<le> pg_offset page" by (simp add: v(4))
  ultimately show ?thesis using v(1) by blast
qed

lemma sublist_distinct: "distinct xs \<Longrightarrow> distinct (take n (drop k xs))"
  by simp

text \<open>
  C16: A recording reads the same in a page as by itself: with the same tags in the same order,
  although the page collects the tags of its recordings in batches.
\<close>

theorem listed_as_found:
  assumes "listRecordings uc request c = (Inr page, c')" "distinct (map lr_id (lb_rows (cn_db c)))"
    and "item \<in> set (pg_items page)" "cn_db e = cn_db c" "findRecording (lr_id item) e = (Inr found, e')"
  shows "found = Some item"
proof -
  let ?d = "cn_db c"
  let ?rs = "listed_recordings uc request ?d"
  let ?window = "take (nat (pg_limit page)) (drop (nat (pg_offset page)) ?rs)"
  obtain tags where v: "pg_items page = map (with_tags tags) ?window" "tags_read ?d (map lr_id ?window) tags"
    by (rule listRecordings_value[OF assms(1)])
  obtain x where x: "x \<in> set ?window" "item = with_tags tags x" using v(1) assms(3) by auto
  have "x \<in> set ?rs" using x(1) by (meson in_set_dropD in_set_takeD)
  then obtain r where r: "r \<in> set (lb_rows ?d)" "x = readRecording ?d r"
    by (auto simp: listed_recordings_def)
  have ids: "mset (map lr_id ?rs) = mset (map lr_id (filter (listed uc ?d request) (lb_rows ?d)))"
    by (rule listed_ids)
  have "distinct (map lr_id (filter (listed uc ?d request) (lb_rows ?d)))"
    using assms(2) by (simp add: distinct_map_filter)
  then have "distinct (map lr_id ?rs)" using ids by (metis mset_eq_imp_distinct_iff)
  then have "distinct (map lr_id ?window)" by (simp flip: take_map drop_map)
  then have tags: "filter (\<lambda>(j, n). j = lr_id x) tags = tag_pairs [lr_id x] ?d"
    using v(2) x(1) unfolding tags_read_def by simp
  have row: "find_row (lr_id x) ?d = Some r"
    using r assms(2) by (simp add: find_row_member)
  have "found = Some (x\<lparr>rg_tags := map snd (tag_pairs [lr_id x] ?d)\<rparr>)"
    using assms(4,5) x(2) row r(2) unfolding findRecording_def read_one_def loadTags_def
    by (auto dest!: connectionD selectD)
  then show ?thesis using x(2) tags by (simp add: with_tags_def)
qed

subsection \<open>What a search finds\<close>

definition contains_text :: "qstring \<Rightarrow> qstring \<Rightarrow> bool" where
  "contains_text token text_value \<longleftrightarrow>
     (\<exists>before after. map fold_cp (ucs4 text_value) = before @ map fold_cp (ucs4 token) @ after)"

definition search_hit :: "qstring list \<Rightarrow> library \<Rightarrow> search_row \<Rightarrow> bool" where
  "search_hit tokens d s \<longleftrightarrow> s \<in> set (lb_search d)
     \<and> (\<exists>r. find_row (sx_recordingId s) d = Some r \<and> lr_deletedAt r = None)
     \<and> (\<forall>token \<in> set tokens. \<exists>column \<in> {sx_title s, sx_notes s, sx_tags s, sx_transcript s}. contains_text token column)"

lemma columns_like_contains: "columns_like tokens s \<longleftrightarrow>
   (\<forall>token \<in> set tokens. \<exists>column \<in> {sx_title s, sx_notes s, sx_tags s, sx_transcript s}. contains_text token column)"
  by (simp add: columns_like_def contains_text_def like_literal list_all_iff Let_def)

text \<open>All entries that match, those of the recordings changed last first.\<close>

definition search_hits :: "qstring list \<Rightarrow> library \<Rightarrow> search_row list" where
  "search_hits tokens d =
     sort_key (\<lambda>s. case find_queue_row (sx_recordingId s) d of Some q \<Rightarrow> - rr_updatedAt q | None \<Rightarrow> 0)
       (filter (search_hit tokens d) (lb_search d))"

lemma live_title_hit:
  "live_title d s = Some t \<longleftrightarrow> (\<exists>r. find_row (sx_recordingId s) d = Some r \<and> lr_deletedAt r = None \<and> t = lr_title r)"
  by (auto simp: live_title_def split: option.splits)

lemma fallback_hits:
  "map (\<lambda>(i, t, x). (i, t)) (fallback_rows tokens d)
     = map (\<lambda>s. (sx_recordingId s, the (live_title d s))) (search_hits tokens d)"
proof -
  have "filter (\<lambda>s. live_title d s \<noteq> None) (filter (columns_like tokens) (lb_search d))
      = filter (search_hit tokens d) (lb_search d)"
    by (auto simp: search_hit_def columns_like_contains live_title_hit intro!: filter_cong)
  then show ?thesis
    by (simp add: fallback_rows_def result_rows_def search_hits_def filter_sort o_def)
qed

lemma locate_results_value:
  "locate_results tokens rows c = (Inr results, c') \<Longrightarrow>
     map sr_recordingId results = map fst rows \<and> map sr_title results = map (fst \<circ> snd) rows"
proof (induction rows arbitrary: c results)
  case (Cons row rows)
  obtain i t s where row: "row = (i, t, s)" by (cases row) auto
  show ?case
    using Cons.prems Cons.IH unfolding row locate_results.simps
    by (force split: option.splits)
qed simp

text \<open>
  C14: A search that does not use the full-text table (there is none, or every word of the query is
  shorter than three characters) returns the requested window of the list of all matches: its results
  are, in order, the entries from the offset on, at most as many as the limit, of all index entries
  that contain every word of the query, in any of title, notes, tags and transcript, letter by letter up
  to the case of ASCII letters (no character acts as a wild card), and whose recordings are not in
  the trash, ordered by the last change. So it finds nothing else, and all of them when the matches,
  however large the index is, fit the limit.
\<close>

theorem search_finds:
  assumes "searchLibrary uc fe queryText pageLimit pageOffset c = (Inr results, c')"
    and "\<not> lb_hasFts5 (cn_db c) \<or> list_all (\<lambda>t. \<not> trigramMatchable t) (searchTokens uc queryText)"
    and "searchTokens uc queryText \<noteq> []"
  shows "map (\<lambda>r. (sr_recordingId r, sr_title r)) results
      = map (\<lambda>s. (sx_recordingId s, the (live_title (cn_db c) s)))
          (take (nat (clamp 1 500 pageLimit)) (drop (nat (max 0 pageOffset))
             (search_hits (searchTokens uc queryText) (cn_db c))))
    \<and> set (search_hits (searchTokens uc queryText) (cn_db c))
        = {s. search_hit (searchTokens uc queryText) (cn_db c) s}
    \<and> (pageOffset \<le> 0 \<longrightarrow> length (search_hits (searchTokens uc queryText) (cn_db c)) \<le> nat (clamp 1 500 pageLimit) \<longrightarrow>
         sr_recordingId ` set results = sx_recordingId ` {s. search_hit (searchTokens uc queryText) (cn_db c) s})"
proof -
  let ?tokens = "searchTokens uc queryText"
  let ?rows = "fallback_rows ?tokens (cn_db c)"
  let ?hits = "search_hits ?tokens (cn_db c)"
  let ?page = "\<lambda>xs. take (nat (clamp 1 500 pageLimit)) (drop (nat (max 0 pageOffset)) xs)"
  have tokens: "(if lb_hasFts5 (cn_db c) then filter trigramMatchable ?tokens else []) = []"
    "(if lb_hasFts5 (cn_db c) then filter (\<lambda>t. \<not> trigramMatchable t) ?tokens else ?tokens) = ?tokens"
    using assms(2) by (auto simp: list_all_iff filter_empty_conv filter_id_conv)
  obtain c1 where "locate_results ?tokens (?page ?rows) c1 = (Inr results, c')"
    using assms(1,3) tokens unfolding searchLibrary_def Let_def
    by (auto simp: look_def dest!: connectionD selectD)
  then have "map sr_recordingId results = map fst (?page ?rows)" "map sr_title results = map (fst \<circ> snd) (?page ?rows)"
    using locate_results_value by blast+
  then have "map (\<lambda>r. (sr_recordingId r, sr_title r)) results = map (\<lambda>(i, t, x). (i, t)) (?page ?rows)"
    by (simp add: list_eq_iff_nth_eq case_prod_beta)
  also have "\<dots> = ?page (map (\<lambda>(i, t, x). (i, t)) ?rows)" by (simp add: take_map drop_map)
  also have "\<dots> = map (\<lambda>s. (sx_recordingId s, the (live_title (cn_db c) s))) (?page ?hits)"
    unfolding fallback_hits by (simp add: take_map drop_map)
  finally have window: "map (\<lambda>r. (sr_recordingId r, sr_title r)) results = \<dots>" .
  have hits: "set ?hits = {s. search_hit ?tokens (cn_db c) s}"
    by (auto simp: search_hits_def search_hit_def)
  have "sr_recordingId ` set results = sx_recordingId ` set (?page ?hits)"
    using arg_cong[OF window, of "\<lambda>xs. fst ` set xs"] by (simp add: image_image)
  moreover have "?page ?hits = ?hits" if "pageOffset \<le> 0" "length ?hits \<le> nat (clamp 1 500 pageLimit)"
    using that by simp
  ultimately show ?thesis using window hits by auto
qed

end
