(* ===== verification/LibraryInvariants.thy ===== *)
theory LibraryInvariants
  imports LibraryStore TranscriptRuns
begin

text \<open>
  What every operation on the library keeps: the invariant of the job tables, the agreement of
  the two halves of a recording row, the keys and references of the tags, the search index and
  the queue of files to delete. The operations are driven by the machine \<open>library_store\<close>.
\<close>

definition tags_ok :: "library \<Rightarrow> bool" where
  "tags_ok d \<longleftrightarrow> distinct (map tg_id (lb_tags d)) \<and> distinct (map (nocase \<circ> tg_name) (lb_tags d))
     \<and> distinct (lb_recordingTags d)
     \<and> fst ` set (lb_recordingTags d) \<subseteq> lr_id ` set (lb_rows d)
     \<and> snd ` set (lb_recordingTags d) \<subseteq> tg_id ` set (lb_tags d)"

definition search_ok :: "library \<Rightarrow> bool" where
  "search_ok d \<longleftrightarrow> distinct (map sx_recordingId (lb_search d))
     \<and> sx_recordingId ` set (lb_search d) \<subseteq> lr_id ` set (lb_rows d)"

definition pending_ok :: "library \<Rightarrow> bool" where
  "pending_ok d \<longleftrightarrow> distinct (map pd_id (lb_pending d)) \<and> (\<forall>p \<in> set (lb_pending d). 0 \<le> pd_attemptCount p)"

definition library_with :: "(job_tables \<Rightarrow> bool) \<Rightarrow> library \<Rightarrow> bool" where
  "library_with tables_ok d \<longleftrightarrow> tables_ok (lb_jobs d) \<and> map lr_id (lb_rows d) = map rr_id (db_recordings (lb_jobs d))
     \<and> list_all row_checks (lb_rows d) \<and> tags_ok d \<and> search_ok d \<and> pending_ok d"

abbreviation library_ok :: "library \<Rightarrow> bool" where
  "library_ok \<equiv> library_with store_ok"

text \<open>
  The part of the invariant of the job tables that does not speak of active transcripts: recordings
  have distinct identifiers, every job belongs to one of them, and at most one job executes.
\<close>

definition refers :: "string list \<Rightarrow> job_tables \<Rightarrow> bool" where
  "refers ids d \<longleftrightarrow> map rr_id (db_recordings d) = ids \<and> list_all (job_row_ok d) (db_jobs d)
     \<and> single_execution (db_jobs d)"

definition job_refs :: "job_tables \<Rightarrow> bool" where
  "job_refs d \<longleftrightarrow> distinct (map rr_id (db_recordings d)) \<and> refers (map rr_id (db_recordings d)) d"

subsection \<open>Recording rows of the job tables\<close>

lemma set_recordings_base:
  assumes "db_ok d" "distinct (map rr_id rs)"
    and "\<And>j. j \<in> set (db_jobs d) \<Longrightarrow> tj_recordingId j \<in> rr_id ` set rs"
    and "\<And>r a. r \<in> set rs \<Longrightarrow> rr_activeJobId r = Some a \<Longrightarrow>
      \<exists>j \<in> set (db_jobs d). tj_id j = a \<and> tj_recordingId j = rr_id r \<and> tj_state j = Completed"
  shows "db_ok (d\<lparr>db_recordings := rs\<rparr>)"
proof -
  have "keys_ok (d\<lparr>db_recordings := rs\<rparr>)"
    using assms(1-3) by (auto simp: db_ok_def base_ok_def keys_ok_def job_row_ok_def list_all_iff job_ids_def)
  moreover have "active_ok (d\<lparr>db_recordings := rs\<rparr>)" using assms(4) by (simp add: active_ok_def)
  moreover have "events_ok (d\<lparr>db_recordings := rs\<rparr>)" "single_execution (db_jobs (d\<lparr>db_recordings := rs\<rparr>))"
    "lease_ok_but {} (d\<lparr>db_recordings := rs\<rparr>)"
    using assms(1) by (auto simp: db_ok_def base_ok_def events_ok_def lease_ok_but_def job_executing_def)
  ultimately show ?thesis by (simp add: db_ok_def base_ok_def)
qed

lemma db_ok_recordings:
  assumes "db_ok d"
  shows "distinct (map rr_id (db_recordings d))"
    "j \<in> set (db_jobs d) \<Longrightarrow> tj_recordingId j \<in> rr_id ` set (db_recordings d)"
    "r \<in> set (db_recordings d) \<Longrightarrow> rr_activeJobId r = Some a \<Longrightarrow>
      \<exists>j \<in> set (db_jobs d). tj_id j = a \<and> tj_recordingId j = rr_id r \<and> tj_state j = Completed"
  using assms by (auto simp: db_ok_def base_ok_def keys_ok_def job_row_ok_def list_all_iff active_ok_def)

lemma filter_segments_ok: "db_ok d \<Longrightarrow> db_ok (d\<lparr>db_segments := filter Q (db_segments d)\<rparr>)"
  by (auto simp: db_ok_def base_ok_def keys_ok_def events_ok_def active_ok_def lease_ok_but_def
      job_executing_def job_ids_def list_all_iff job_row_ok_def)

lemma map_recordings_ok:
  assumes "db_ok d" "\<And>q. rr_id (g q) = rr_id q"
    and "\<And>q a. q \<in> set (db_recordings d) \<Longrightarrow> P q \<Longrightarrow> rr_activeJobId (g q) = Some a \<Longrightarrow>
      \<exists>j \<in> set (db_jobs d). tj_id j = a \<and> tj_recordingId j = rr_id q \<and> tj_state j = Completed"
  shows "db_ok (d\<lparr>db_recordings := map (\<lambda>q. if P q then g q else q) (db_recordings d)\<rparr>)"
proof (rule set_recordings_base[OF assms(1)])
  have ids: "map rr_id (map (\<lambda>q. if P q then g q else q) (db_recordings d)) = map rr_id (db_recordings d)"
    using assms(2) by (auto simp: comp_def)
  show "distinct (map rr_id (map (\<lambda>q. if P q then g q else q) (db_recordings d)))"
    unfolding ids by (rule db_ok_recordings(1)[OF assms(1)])
  show "tj_recordingId j \<in> rr_id ` set (map (\<lambda>q. if P q then g q else q) (db_recordings d))"
    if "j \<in> set (db_jobs d)" for j
    using db_ok_recordings(2)[OF assms(1) that] arg_cong[OF ids, of set] by (simp only: set_map[symmetric])
  show "\<exists>j \<in> set (db_jobs d). tj_id j = a \<and> tj_recordingId j = rr_id r \<and> tj_state j = Completed"
    if "r \<in> set (map (\<lambda>q. if P q then g q else q) (db_recordings d))" "rr_activeJobId r = Some a" for r a
    using that assms(2,3) db_ok_recordings(3)[OF assms(1)] by (auto split: if_splits)
qed

text \<open>Deleting recordings with all their jobs.\<close>

lemma delete_recordings_ok:
  assumes "db_ok d" "delete_jobs (\<lambda>j. tj_recordingId j \<in> gone) d = Some (n, d')"
  shows "db_ok (d'\<lparr>db_recordings := filter (\<lambda>q. rr_id q \<notin> gone) (db_recordings d'),
                   db_segments := filter (\<lambda>s. ts_recordingId s \<notin> gone) (db_segments d')\<rparr>)"
proof -
  let ?clear = "\<lambda>q. if rr_id q \<in> gone then q\<lparr>rr_activeJobId := None\<rparr> else q"
  let ?d1 = "d\<lparr>db_recordings := map ?clear (db_recordings d)\<rparr>"
  have ok1: "db_ok ?d1" by (rule map_recordings_ok[OF assms(1)]) simp_all
  have d1': "delete_jobs (\<lambda>j. tj_recordingId j \<in> gone) ?d1 = Some (n, d'\<lparr>db_recordings := map ?clear (db_recordings d)\<rparr>)"
    using assms(2) by (auto simp: delete_jobs_def Let_def)
  have jobs: "db_jobs d' = filter (\<lambda>j. tj_recordingId j \<notin> gone) (db_jobs d)" "db_recordings d' = db_recordings d"
    using assms(2) by (auto simp: delete_jobs_def Let_def)
  let ?P = "\<lambda>j. tj_recordingId j \<in> gone \<and> j \<in> set (db_jobs ?d1)"
  have same: "filter ?P (db_jobs ?d1) = filter (\<lambda>j. tj_recordingId j \<in> gone) (db_jobs ?d1)"
    "filter (\<lambda>j. \<not> ?P j) (db_jobs ?d1) = filter (\<lambda>j. \<not> tj_recordingId j \<in> gone) (db_jobs ?d1)"
    by (auto intro: filter_cong)
  have d1'': "delete_jobs ?P ?d1 = Some (n, d'\<lparr>db_recordings := map ?clear (db_recordings d)\<rparr>)"
    using d1' by (simp only: delete_jobs_def same)
  have inactive: "rr_activeJobId r \<noteq> Some (tj_id j)" if inset: "?P j" "r \<in> set (db_recordings ?d1)" for j r
  proof
    assume a: "rr_activeJobId r = Some (tj_id j)"
    obtain k where k: "k \<in> set (db_jobs ?d1)" "tj_id k = tj_id j" "tj_recordingId k = rr_id r"
      using db_ok_recordings(3)[OF ok1 inset(2) a] by blast
    have "distinct (map tj_id (db_jobs ?d1))" using ok1 by (simp add: db_ok_def base_ok_def keys_ok_def)
    then have "k = j" using k(1,2) inset(1) by (auto simp: distinct_map dest: inj_onD)
    then show False using k(3) inset a by auto
  qed
  have ok2: "db_ok (d'\<lparr>db_recordings := map ?clear (db_recordings d)\<rparr>)"
    using delete_jobs_base[OF d1'' _ inactive, of "{}"] ok1 unfolding db_ok_def by blast
  let ?kept = "filter (\<lambda>q. rr_id q \<notin> gone) (db_recordings d')"
  have kept: "q \<in> set (map ?clear (db_recordings d))" if "q \<in> set ?kept" for q
    using that jobs(2) by force
  have "db_ok (d'\<lparr>db_recordings := map ?clear (db_recordings d), db_recordings := ?kept\<rparr>)"
  proof (rule set_recordings_base[OF ok2])
    show "distinct (map rr_id ?kept)"
      using db_ok_recordings(1)[OF assms(1)] jobs(2) by (simp add: distinct_map_filter)
    show "tj_recordingId j \<in> rr_id ` set ?kept" if "j \<in> set (db_jobs (d'\<lparr>db_recordings := map ?clear (db_recordings d)\<rparr>))" for j
      using that db_ok_recordings(2)[OF assms(1), of j] jobs by auto
    show "\<exists>j \<in> set (db_jobs (d'\<lparr>db_recordings := map ?clear (db_recordings d)\<rparr>)).
        tj_id j = a \<and> tj_recordingId j = rr_id r \<and> tj_state j = Completed"
      if "r \<in> set ?kept" "rr_activeJobId r = Some a" for r a
      using db_ok_recordings(3)[OF ok2 _ that(2)] kept[OF that(1)] by auto
  qed
  from filter_segments_ok[OF this, of "\<lambda>s. ts_recordingId s \<notin> gone"] show ?thesis by simp
qed

subsection \<open>Transactions\<close>

lemma library_rolled_back_success [simp]: "library_rolled_back m c = (Inr x, c') \<longleftrightarrow> m c = (Inr x, c')"
  by (auto simp: library_rolled_back_def split: prod.splits sum.splits)

lemma libraryTransaction_success:
  assumes "libraryTransaction operation c = (Inr x, c')"
  obtains c1 c2 where "cn_db c1 = cn_db c" "cn_time c1 = cn_time c" "operation c1 = (Inr x, c2)" "cn_db c' = cn_db c2"
  using assms unfolding libraryTransaction_def by (auto dest!: connectionD statementD)

text \<open>A transaction that fails changes at most the files.\<close>

lemma library_rolled_back_failure:
  "library_rolled_back m c = (Inl e, c') \<Longrightarrow> \<exists>fs. cn_db c' = (cn_db c)\<lparr>lb_files := fs\<rparr>"
  by (auto simp: library_rolled_back_def split: prod.splits sum.splits)

lemma libraryTransaction_failure:
  assumes "libraryTransaction operation c = (Inl e, c')"
  shows "\<exists>fs. cn_db c' = (cn_db c)\<lparr>lb_files := fs\<rparr>"
proof -
  have self: "\<exists>fs. d = d\<lparr>lb_files := fs\<rparr>" for d :: library by (rule exI[of _ "lb_files d"]) simp
  show ?thesis
    using assms unfolding libraryTransaction_def
    by (elim and_then_failure) (auto dest!: connection_failure connectionD statement_failure statementD
      library_rolled_back_failure intro: self)
qed

lemma keep_libraryTransaction [keep]: "achieves P m Q \<Longrightarrow> achieves P (libraryTransaction m) Q"
  unfolding achieves_def by (auto elim!: libraryTransaction_success)

lemma keep_look [keep]: "achieves P (look f) (\<lambda>_. P)"
  by (simp add: achieves_def look_def)

lemma keep_simple [keep]:
  "achieves P (succeed x) (\<lambda>_. P)" "achieves P (select f) (\<lambda>_. P)" "achieves P (validation e) Q"
  by (auto simp: validation_def intro: achieves_succeed achieves_select achieves_fail)

lemma keep_libraryLease [keep]: "achieves P m (\<lambda>_. P) \<Longrightarrow> achieves P (libraryLeaseTransaction i ow m) (\<lambda>_. P)"
  unfolding libraryLeaseTransaction_def by (intro keep)

subsection \<open>Frames\<close>

lemma db_ok_files [simp]: "library_with T (d\<lparr>lb_files := fs\<rparr>) = library_with T d"
  by (simp add: library_with_def tags_ok_def search_ok_def pending_ok_def)

text \<open>The search index, the tags and the queue of deletions.\<close>

lemma frames [frame_simps]:
  "tags_ok (d\<lparr>lb_search := s\<rparr>) = tags_ok d" "tags_ok (d\<lparr>lb_fts := e\<rparr>) = tags_ok d"
  "tags_ok (d\<lparr>lb_pending := ps\<rparr>) = tags_ok d"
  "search_ok (d\<lparr>lb_fts := e\<rparr>) = search_ok d" "search_ok (d\<lparr>lb_pending := ps\<rparr>) = search_ok d"
  "search_ok (d\<lparr>lb_tags := ts\<rparr>) = search_ok d" "search_ok (d\<lparr>lb_recordingTags := rts\<rparr>) = search_ok d"
  "pending_ok (d\<lparr>lb_search := s\<rparr>) = pending_ok d" "pending_ok (d\<lparr>lb_fts := e\<rparr>) = pending_ok d"
  "pending_ok (d\<lparr>lb_tags := ts\<rparr>) = pending_ok d" "pending_ok (d\<lparr>lb_recordingTags := rts\<rparr>) = pending_ok d"
  by (simp_all add: tags_ok_def search_ok_def pending_ok_def)

lemma parts_ok:
  "library_with T d \<Longrightarrow> search_ok (d\<lparr>lb_search := s\<rparr>) \<Longrightarrow> library_with T (d\<lparr>lb_search := s\<rparr>)"
  "library_with T d \<Longrightarrow> tags_ok (d\<lparr>lb_tags := ts\<rparr>) \<Longrightarrow> library_with T (d\<lparr>lb_tags := ts\<rparr>)"
  "library_with T d \<Longrightarrow> tags_ok (d\<lparr>lb_recordingTags := rts\<rparr>) \<Longrightarrow> library_with T (d\<lparr>lb_recordingTags := rts\<rparr>)"
  "library_with T d \<Longrightarrow> pending_ok (d\<lparr>lb_pending := ps\<rparr>) \<Longrightarrow> library_with T (d\<lparr>lb_pending := ps\<rparr>)"
  "library_with T d \<Longrightarrow> library_with T (d\<lparr>lb_fts := e\<rparr>)"
  by (simp_all add: library_with_def frame_simps)

lemma library_okD: "library_with T d \<Longrightarrow> tags_ok d \<and> search_ok d \<and> pending_ok d"
  by (simp add: library_with_def)

lemma columns_fields [simp]: "lr_id (columns_of g) = lr_id g"
  by (simp add: columns_of_def library_row.defs)

subsection \<open>Failures\<close>

text \<open>\<open>settled m\<close>: a failure of \<open>m\<close> changes at most the files.\<close>

definition settled :: "(library, 'a) dbop \<Rightarrow> bool" where
  "settled m \<longleftrightarrow> (\<forall>c e c'. m c = (Inl e, c') \<longrightarrow> (\<exists>fs. cn_db c' = (cn_db c)\<lparr>lb_files := fs\<rparr>))"

named_theorems settles \<open>rules for operations that fail as a whole\<close>

lemma settled_atomic: "atomic m \<Longrightarrow> settled m"
  unfolding atomic_def settled_def by (metis library.surjective library.update_convs(9))

lemma settled_transaction [settles]: "settled (libraryTransaction m)"
  unfolding settled_def by (blast dest: libraryTransaction_failure)

lemma settled_validation [settles]: "settled (validation e)"
  unfolding validation_def by (rule settled_atomic[OF atomic_fail])

lemma settled_lease [settles]: "settled (libraryLeaseTransaction i ow m)"
  unfolding libraryLeaseTransaction_def by (simp add: settles)

lemma settled_if [settles]: "settled m \<Longrightarrow> settled n \<Longrightarrow> settled (if b then m else n)"
  by simp

lemma settled_and_then:
  assumes "reads_only m" "\<And>x. settled (f x)"
  shows "settled (and_then m f)"
  unfolding settled_def
proof (intro allI impI)
  fix c e c' assume a: "and_then m f c = (Inl e, c')"
  have same: "cn_db (snd (m c)) = cn_db c" using assms(1) by (simp add: reads_only_def)
  show "\<exists>fs. cn_db c' = (cn_db c)\<lparr>lb_files := fs\<rparr>"
    using a
  proof (rule and_then_failure)
    assume "m c = (Inl e, c')"
    then have "cn_db c' = (cn_db c)\<lparr>lb_files := lb_files (cn_db c)\<rparr>" using same by simp
    then show ?thesis by blast
  next
    fix x c1 assume "m c = (Inr x, c1)" "f x c1 = (Inl e, c')"
    then show ?thesis using assms(2)[of x] same unfolding settled_def by force
  qed
qed

lemma settled_after [settles]:
  "(\<And>t. settled (f t)) \<Longrightarrow> settled (and_then clock f)"
  "(\<And>u. settled (g u)) \<Longrightarrow> settled (and_then connection g)"
  by (auto intro: settled_and_then reads_only_basic reads_only_connection)

lemma settled_let [settles]: "settled (f v) \<Longrightarrow> settled (let x = v in f x)"
  by simp

lemma settled_statement [settles]: "settled (and_then (exec q) (\<lambda>_. succeed ()))"
  by (intro settled_atomic atomic_then_succeed) (auto simp: atomic_def exec_def dest: exec_as_failure)

lemma settled_ops:
  "settled (createRecording uc uuid g)" "settled (updateRecording uc uuid g j ow)" "settled (updateTitle uc i t)"
  "settled (updateNotes i t)" "settled (updateReviewState uc i t)" "settled (relinkSource uc i p b)"
  "settled (setTags uc uuid i tags)" "settled (moveToTrash i)" "settled (restoreRecording i)"
  "settled (permanentlyDelete uc uuid i)" "settled (setActiveTranscriptJob i j)" "settled (rebuildRecordingEntry i)"
  unfolding createRecording_def updateRecording_def updateTitle_def updateNotes_def updateReviewState_def
    updateMetadataColumn_def relinkSource_def setTags_def moveToTrash_def restoreRecording_def
    permanentlyDelete_def setActiveTranscriptJob_def rebuildRecordingEntry_def
  by (intro settles)+

subsection \<open>What the library needs of the job tables\<close>

text \<open>
  The laws of an invariant \<open>J\<close> of the job tables under the statements of the recording repository:
  adding a row, changing rows without giving one a transcript that is not a completed job of the
  recording, and deleting recordings. \<open>admits\<close> says which new rows there may be.
\<close>

locale tables_kept =
  fixes J :: "job_tables \<Rightarrow> bool" and admits :: "recording_row \<Rightarrow> bool"
  assumes distinct_rows: "J d \<Longrightarrow> distinct (map rr_id (db_recordings d))"
    and add_row: "J d \<Longrightarrow> rr_id q \<notin> rr_id ` set (db_recordings d) \<Longrightarrow> admits q \<Longrightarrow>
      J (d\<lparr>db_recordings := db_recordings d @ [q]\<rparr>)"
    and change_rows: "J d \<Longrightarrow> (\<And>q. rr_id (g q) = rr_id q) \<Longrightarrow>
      (\<And>q a. q \<in> set (db_recordings d) \<Longrightarrow> P q \<Longrightarrow> rr_activeJobId (g q) = Some a \<Longrightarrow> rr_activeJobId q = Some a
         \<or> (\<exists>j \<in> set (db_jobs d). tj_id j = a \<and> tj_recordingId j = rr_id q \<and> tj_state j = Completed)) \<Longrightarrow>
      J (d\<lparr>db_recordings := map (\<lambda>q. if P q then g q else q) (db_recordings d)\<rparr>)"
    and delete_rows: "J d \<Longrightarrow> delete_jobs (\<lambda>j. tj_recordingId j \<in> gone) d = Some (n, d') \<Longrightarrow>
      J (d'\<lparr>db_recordings := filter (\<lambda>q. rr_id q \<notin> gone) (db_recordings d'),
            db_segments := filter (\<lambda>s. ts_recordingId s \<notin> gone) (db_segments d')\<rparr>)"

begin

lemma insert_recording_ok:
  assumes "library_with J d" "insert_recording r q d = Some (u, d')" "rr_id q = lr_id r" "admits q"
  shows "library_with J d'"
proof -
  let ?rs = "db_recordings (lb_jobs d) @ [q]"
  have d': "d' = d\<lparr>lb_rows := lb_rows d @ [r], lb_jobs := (lb_jobs d)\<lparr>db_recordings := ?rs\<rparr>\<rparr>"
    and new: "lr_id r \<notin> lr_id ` set (lb_rows d)" "row_checks r"
    using assms(2) by (auto simp: insert_recording_def split: if_splits)
  have ok: "J (lb_jobs d)" and ids: "map lr_id (lb_rows d) = map rr_id (db_recordings (lb_jobs d))"
    using assms(1) by (simp_all add: library_with_def)
  have "set (map lr_id (lb_rows d)) = set (map rr_id (db_recordings (lb_jobs d)))" using ids by simp
  then have "rr_id q \<notin> rr_id ` set (db_recordings (lb_jobs d))" using new(1) assms(3) by simp
  then have "J ((lb_jobs d)\<lparr>db_recordings := ?rs\<rparr>)" using ok assms(4) by (intro add_row)
  then show ?thesis
    using assms(1,3) new(2) ids by (auto simp: d' library_with_def tags_ok_def search_ok_def pending_ok_def)
qed

lemma library_with_replace:
  assumes "library_with J d" "map lr_id rows = map lr_id (lb_rows d)" "J jobs"
    "map rr_id (db_recordings jobs) = map rr_id (db_recordings (lb_jobs d))" "list_all row_checks rows"
  shows "library_with J (d\<lparr>lb_rows := rows, lb_jobs := jobs\<rparr>)"
proof -
  have "lr_id ` set rows = lr_id ` set (lb_rows d)"
    using arg_cong[OF assms(2), of set] by (simp only: set_map)
  then show ?thesis using assms by (simp add: library_with_def tags_ok_def search_ok_def pending_ok_def)
qed

lemma keep_update_recordings:
  assumes "\<And>r. lr_id (f r) = lr_id r" "\<And>q. rr_id (g q) = rr_id q" "\<And>q. rr_activeJobId (g q) = rr_activeJobId q"
  shows "achieves (library_with J) (exec (update_recordings P f g)) (\<lambda>_. library_with J)"
proof (rule achieves_exec)
  fix d x d' assume d: "library_with J d" "update_recordings P f g d = Some (x, d')"
  let ?Q = "\<lambda>q. rr_id q \<in> set (map lr_id (filter P (lb_rows d)))"
  have ok: "J (lb_jobs d)" and ids: "map lr_id (lb_rows d) = map rr_id (db_recordings (lb_jobs d))"
    using d(1) by (simp_all add: library_with_def)
  have "J ((lb_jobs d)\<lparr>db_recordings := map (\<lambda>q. if ?Q q then g q else q) (db_recordings (lb_jobs d))\<rparr>)"
    using assms(3) by (intro change_rows[OF ok assms(2)]) simp
  moreover have "map lr_id (map (\<lambda>r. if P r then f r else r) (lb_rows d)) = map lr_id (lb_rows d)"
    using assms(1) by (auto simp: comp_def)
  moreover have "map rr_id (map (\<lambda>q. if ?Q q then g q else q) (db_recordings (lb_jobs d)))
      = map rr_id (db_recordings (lb_jobs d))"
    using assms(2) by (auto simp: comp_def)
  ultimately show "library_with J d'"
    using d ids library_with_replace[OF d(1)] unfolding update_recordings_def Let_def
    by (auto split: if_splits simp del: map_map)
qed

lemma keep_update_row [keep]:
  "(\<And>r. lr_id (f r) = lr_id r) \<Longrightarrow> achieves (library_with J) (update_row i e f) (\<lambda>_. library_with J)"
  unfolding update_row_def by (intro keep keep_update_recordings) simp_all

lemma keep_delete_recordings [keep]: "achieves (library_with J) (exec (delete_recordings P)) (\<lambda>_. library_with J)"
proof (rule achieves_exec)
  fix d x d' assume d: "library_with J d" "delete_recordings P d = Some (x, d')"
  let ?gone = "lr_id ` set (filter P (lb_rows d))"
  obtain n jobs where j: "delete_jobs (\<lambda>j. tj_recordingId j \<in> ?gone) (lb_jobs d) = Some (n, jobs)"
    by (simp add: delete_jobs_def Let_def)
  have same: "db_recordings jobs = db_recordings (lb_jobs d)"
    using j by (auto simp: delete_jobs_def Let_def)
  have d': "lb_rows d' = filter (\<lambda>r. \<not> P r) (lb_rows d)" "lb_pending d' = lb_pending d" "lb_tags d' = lb_tags d"
    "lb_jobs d' = jobs\<lparr>db_recordings := filter (\<lambda>q. rr_id q \<notin> ?gone) (db_recordings jobs),
                       db_segments := filter (\<lambda>s. ts_recordingId s \<notin> ?gone) (db_segments jobs)\<rparr>"
    "lb_recordingTags d' = filter (\<lambda>(r, t). r \<notin> ?gone) (lb_recordingTags d)"
    "lb_search d' = filter (\<lambda>s. sx_recordingId s \<notin> ?gone) (lb_search d)"
    using d(2) j by (auto simp: delete_recordings_def Let_def)
  have ok: "J (lb_jobs d)" and ids: "map lr_id (lb_rows d) = map rr_id (db_recordings (lb_jobs d))"
    using d(1) by (simp_all add: library_with_def)
  have "distinct (map lr_id (lb_rows d))" using distinct_rows[OF ok] ids by simp
  then have kept: "filter (\<lambda>r. \<not> P r) (lb_rows d) = filter (\<lambda>r. lr_id r \<notin> ?gone) (lb_rows d)"
    by (intro filter_cong) (auto simp: distinct_map dest: inj_onD)
  have filters: "map k (filter (\<lambda>x. k x \<notin> S) xs) = filter (\<lambda>i. i \<notin> S) (map k xs)" for k :: "'x \<Rightarrow> string" and S xs
    by (simp add: filter_map comp_def)
  have "map lr_id (lb_rows d') = map rr_id (db_recordings (lb_jobs d'))"
    using ids by (simp add: d' same kept filters)
  moreover have "J (lb_jobs d')" unfolding d'(4) by (rule delete_rows[OF ok j])
  moreover have "tags_ok d'"
    using d(1) unfolding library_with_def tags_ok_def d' by (auto simp: kept)
  moreover have "search_ok d'"
    using d(1) unfolding library_with_def search_ok_def d' by (auto simp: kept distinct_map_filter)
  ultimately show "library_with J d'"
    using d(1) by (auto simp: library_with_def pending_ok_def d' list_all_iff)
qed

lemma keep_fts [keep]: "achieves (library_with J) (exec (update_fts f)) (\<lambda>_. library_with J)"
  by (rule achieves_exec) (auto simp: update_fts_def parts_ok)

lemma keep_without_entry [keep]:
  "achieves (library_with J) (modify (\<lambda>d. d\<lparr>lb_search := without_entry i (lb_search d)\<rparr>)) (\<lambda>_. library_with J)"
proof (rule achieves_modify)
  fix d assume d: "library_with J d"
  then have "search_ok (d\<lparr>lb_search := without_entry i (lb_search d)\<rparr>)"
    by (auto simp: library_with_def search_ok_def without_entry_def distinct_map_filter)
  then show "library_with J (d\<lparr>lb_search := without_entry i (lb_search d)\<rparr>)" by (rule parts_ok(1)[OF d])
qed

lemma keep_insert_search [keep]: "achieves (library_with J) (exec (insert_search s)) (\<lambda>_. library_with J)"
proof (rule achieves_exec)
  fix d x d' assume d: "library_with J d" "insert_search s d = Some (x, d')"
  then have "search_ok (d\<lparr>lb_search := lb_search d @ [s]\<rparr>)"
    by (auto simp: library_with_def search_ok_def insert_search_def split: if_splits)
  then have "library_with J (d\<lparr>lb_search := lb_search d @ [s]\<rparr>)" by (rule parts_ok(1)[OF d(1)])
  then show "library_with J d'" using d(2) by (auto simp: insert_search_def split: if_splits)
qed

lemma keep_rebuildEntry [keep]: "achieves (library_with J) (rebuildEntry i) (\<lambda>_. library_with J)"
  unfolding rebuildEntry_def by (intro keep)

lemma keep_removeEntry [keep]: "achieves (library_with J) (removeEntry i) (\<lambda>_. library_with J)"
  unfolding removeEntry_def by (intro keep)

lemma keep_attach_tags [keep]: "achieves (library_with J) (attach_tags uuid n i tags) (\<lambda>_. library_with J)"
proof (induction tags arbitrary: n)
  case (Cons tag tags)
  have "achieves (library_with J) (modify (insert_or_ignore_tag t)) (\<lambda>_. library_with J)" for t
  proof (rule achieves_modify)
    fix d assume d: "library_with J d"
    have "tags_ok (d\<lparr>lb_tags := lb_tags d @ [t]\<rparr>)"
      if "tg_id t \<notin> tg_id ` set (lb_tags d)" "nocase (tg_name t) \<notin> (nocase \<circ> tg_name) ` set (lb_tags d)"
      using that library_okD[OF d] by (auto simp: tags_ok_def)
    then show "library_with J (insert_or_ignore_tag t d)"
      using d by (simp add: insert_or_ignore_tag_def parts_ok(2))
  qed
  moreover have "achieves (library_with J) (exec (attach_tag i tag)) (\<lambda>_. library_with J)"
  proof (rule achieves_exec)
    fix d x d' assume d: "library_with J d" "attach_tag i tag d = Some (x, d')"
    let ?new = "map (\<lambda>t. (i, tg_id t)) (filter (\<lambda>t. nocase (tg_name t) = nocase tag) (lb_tags d))"
    have fits: "distinct (lb_recordingTags d @ ?new) \<and> (?new = [] \<or> i \<in> lr_id ` set (lb_rows d))"
      using d(2) unfolding attach_tag_def Let_def by (rule contrapos_pp) (simp only: if_False option.distinct simp_thms)
    then have d': "d' = d\<lparr>lb_recordingTags := lb_recordingTags d @ ?new\<rparr>"
      using d(2) unfolding attach_tag_def Let_def by (simp only: if_True simp_thms option.inject prod.inject)
    from fits have "tags_ok (d\<lparr>lb_recordingTags := lb_recordingTags d @ ?new\<rparr>)"
      using library_okD[OF d(1)] by (auto simp: tags_ok_def filter_empty_conv simp del: distinct_append)
    then show "library_with J d'" unfolding d' by (rule parts_ok(3)[OF d(1)])
  qed
  ultimately show ?case unfolding attach_tags.simps by (intro keep Cons)
qed (simp add: keep)

lemma keep_replaceTags [keep]: "achieves (library_with J) (replaceTags uuid i tags) (\<lambda>_. library_with J)"
proof -
  have "achieves (library_with J) (modify (\<lambda>d. d\<lparr>lb_recordingTags := filter (\<lambda>(r, t). r \<noteq> i) (lb_recordingTags d)\<rparr>)) (\<lambda>_. library_with J)"
  proof (rule achieves_modify)
    fix d assume d: "library_with J d"
    have "tags_ok (d\<lparr>lb_recordingTags := filter (\<lambda>(r, t). r \<noteq> i) (lb_recordingTags d)\<rparr>)"
      using library_okD[OF d] by (auto simp: tags_ok_def)
    then show "library_with J (d\<lparr>lb_recordingTags := filter (\<lambda>(r, t). r \<noteq> i) (lb_recordingTags d)\<rparr>)"
      by (rule parts_ok(3)[OF d])
  qed
  then show ?thesis unfolding replaceTags_def by (intro keep)
qed

lemma keep_checks [keep]:
  "achieves (library_with J) (ensureNewManagedReferencesExist uc i requested) (\<lambda>_. library_with J)"
  "achieves (library_with J) (ensureNoActiveExecutionLease i) (\<lambda>_. library_with J)"
  "achieves (library_with J) (ensureJobBelongsToRecording j i) (\<lambda>_. library_with J)"
  "achieves (library_with J) (pathIsReferenced uc p) (\<lambda>_. library_with J)"
  unfolding ensureNewManagedReferencesExist_def ensureNoActiveExecutionLease_def
    ensureJobBelongsToRecording_def pathIsReferenced_def
  by (intro keep)+

lemma keep_insert_pending [keep]: "achieves (library_with J) (exec (insert_pending p)) (\<lambda>_. library_with J)"
  by (rule achieves_exec)
    (auto simp: insert_pending_def pending_ok_def split: if_splits dest: library_okD intro!: parts_ok(4))

lemma keep_delete_pending [keep]: "achieves (library_with J) (modify (delete_pending i)) (\<lambda>_. library_with J)"
  by (rule achieves_modify)
    (auto simp: delete_pending_def pending_ok_def distinct_map_filter dest: library_okD intro!: parts_ok(4))

lemma keep_update_pending:
  assumes "\<And>p. pd_id (f p) = pd_id p" "\<And>p. 0 \<le> pd_attemptCount (f p)"
  shows "achieves (library_with J) (modify (update_pending i f)) (\<lambda>_. library_with J)"
proof (rule achieves_modify)
  fix d assume d: "library_with J d"
  have "map pd_id (map (\<lambda>p. if pd_id p = i then f p else p) (lb_pending d)) = map pd_id (lb_pending d)"
    using assms(1) by (auto simp: comp_def)
  then have "pending_ok (d\<lparr>lb_pending := map (\<lambda>p. if pd_id p = i then f p else p) (lb_pending d)\<rparr>)"
    using assms(2) library_okD[OF d] by (auto simp: pending_ok_def simp del: map_map)
  then show "library_with J (update_pending i f d)" unfolding update_pending_def by (rule parts_ok(4)[OF d])
qed

lemma keep_enqueue [keep]: "achieves (library_with J) (enqueue_candidates uc uuid i t n queued cs) (\<lambda>_. library_with J)"
  by (induction cs arbitrary: n queued) (auto simp: Let_def intro!: keep)

lemma keep_enqueueDeletions [keep]: "achieves (library_with J) (enqueueArtifactDeletions uc uuid r) (\<lambda>_. library_with J)"
  unfolding enqueueArtifactDeletions_def by (intro keep)

subsection \<open>Operations\<close>

lemma keep_create:
  assumes "\<And>i t. admits \<lparr>rr_id = i, rr_activeJobId = (if rg_activeJobId g = [] then None else Some (rg_activeJobId g)),
      rr_updatedAt = t\<rparr>"
  shows "achieves (library_with J) (createRecording uc uuid g) (\<lambda>_. library_with J)"
proof -
  let ?a = "if rg_activeJobId g = [] then None else Some (rg_activeJobId g)"
  have "achieves (library_with J) (exec (insert_recording r \<lparr>rr_id = lr_id r, rr_activeJobId = ?a, rr_updatedAt = t\<rparr>))
      (\<lambda>_. library_with J)" for r t
    by (rule achieves_exec, rule insert_recording_ok, assumption, assumption, simp, rule assms)
  from this[of "r\<lparr>lr_title := x, lr_deletedAt := None\<rparr>" for r x]
  have "achieves (library_with J) (exec (insert_recording (r\<lparr>lr_title := x, lr_deletedAt := None\<rparr>)
      \<lparr>rr_id = lr_id r, rr_activeJobId = ?a, rr_updatedAt = t\<rparr>)) (\<lambda>_. library_with J)" for r x t
    by simp
  then show ?thesis unfolding createRecording_def Let_def by (intro keep)
qed

lemma keep_updateRecording: "achieves (library_with J) (updateRecording uc uuid g j ow) (\<lambda>_. library_with J)"
  unfolding updateRecording_def updateAllFields_def updateDerivedFields_def
  by (intro keep) (simp_all add: replace_columns_def replace_derived_def)

lemma keep_metadata:
  "(\<And>r. lr_id (f r) = lr_id r) \<Longrightarrow> achieves (library_with J) (updateMetadataColumn i f b) (\<lambda>_. library_with J)"
  unfolding updateMetadataColumn_def by (intro keep)

lemma keep_columns:
  "achieves (library_with J) (updateTitle uc i t) (\<lambda>_. library_with J)"
  "achieves (library_with J) (updateNotes i t) (\<lambda>_. library_with J)"
  "achieves (library_with J) (updateReviewState uc i t) (\<lambda>_. library_with J)"
  unfolding updateTitle_def updateNotes_def updateReviewState_def
  by (intro keep keep_metadata; simp)+

lemma keep_relink: "achieves (library_with J) (relinkSource uc i p b) (\<lambda>_. library_with J)"
  unfolding relinkSource_def by (intro keep) (simp add: relinked_def)

lemma keep_setTags: "achieves (library_with J) (setTags uc uuid i tags) (\<lambda>_. library_with J)"
  unfolding setTags_def by (intro keep)

lemma keep_trash:
  "achieves (library_with J) (moveToTrash i) (\<lambda>_. library_with J)"
  "achieves (library_with J) (restoreRecording i) (\<lambda>_. library_with J)"
  unfolding moveToTrash_def restoreRecording_def by (intro keep keep_update_recordings; simp)+

lemma keep_permanentlyDelete: "achieves (library_with J) (permanentlyDelete uc uuid i) (\<lambda>_. library_with J)"
  unfolding permanentlyDelete_def by (intro keep)

lemma keep_rebuild: "achieves (library_with J) (rebuildRecordingEntry i) (\<lambda>_. library_with J)"
  unfolding rebuildRecordingEntry_def by (intro keep)

lemma keep_setActive: "achieves (library_with J) (setActiveTranscriptJob i j) (\<lambda>_. library_with J)"
proof -
  have step: "achieves (\<lambda>d. library_with J d \<and> map_option tj_state (find (\<lambda>k. tj_id k = j \<and> tj_recordingId k = i)
        (db_jobs (lb_jobs d))) = Some Completed)
      (exec (update_recordings (\<lambda>r. lr_id r = i) (\<lambda>r. r) (\<lambda>q. q\<lparr>rr_activeJobId := Some j, rr_updatedAt := t\<rparr>)))
      (\<lambda>_. library_with J)" for t
  proof (rule achieves_exec)
    fix d x d'
    assume a: "library_with J d \<and> map_option tj_state (find (\<lambda>k. tj_id k = j \<and> tj_recordingId k = i)
        (db_jobs (lb_jobs d))) = Some Completed"
      and u: "update_recordings (\<lambda>r. lr_id r = i) (\<lambda>r. r) (\<lambda>q. q\<lparr>rr_activeJobId := Some j, rr_updatedAt := t\<rparr>) d = Some (x, d')"
    then have d: "library_with J d" and "\<exists>k \<in> set (db_jobs (lb_jobs d)). tj_id k = j \<and> tj_recordingId k = i \<and> tj_state k = Completed"
      by (auto simp: find_Some_iff)
    then have job: "q \<in> set (db_recordings (lb_jobs d)) \<Longrightarrow> rr_id q \<in> set (map lr_id (filter (\<lambda>r. lr_id r = i) (lb_rows d))) \<Longrightarrow>
        \<exists>k \<in> set (db_jobs (lb_jobs d)). tj_id k = j \<and> tj_recordingId k = rr_id q \<and> tj_state k = Completed" for q
      by auto
    let ?rs = "map (\<lambda>q. if rr_id q \<in> set (map lr_id (filter (\<lambda>r. lr_id r = i) (lb_rows d)))
      then q\<lparr>rr_activeJobId := Some j, rr_updatedAt := t\<rparr> else q) (db_recordings (lb_jobs d))"
    have ok: "J (lb_jobs d)" using d by (simp add: library_with_def)
    have "J ((lb_jobs d)\<lparr>db_recordings := ?rs\<rparr>)"
      using job by (intro change_rows[OF ok]) auto
    moreover have "map rr_id ?rs = map rr_id (db_recordings (lb_jobs d))" by (auto simp: comp_def)
    ultimately show "library_with J d'"
      using u library_with_replace[OF d, of "lb_rows d"] unfolding update_recordings_def Let_def
      by (auto split: if_splits simp del: map_map)
  qed
  show ?thesis
    unfolding setActiveTranscriptJob_def
  proof (intro achieves_if keep_simple keep_libraryTransaction, rule achieves_and_then[OF select_value])
    fix job
    have rest: "achieves (library_with J) (if rows = 0 then validation NotFound else rebuildEntry i) (\<lambda>_. library_with J)" for rows :: nat
      by (intro keep)
    show "achieves (\<lambda>d. library_with J d \<and> job = map_option tj_state (find (\<lambda>k. tj_id k = j \<and> tj_recordingId k = i)
        (db_jobs (lb_jobs d)))) (case job of None \<Rightarrow> validation NotFound | Some state \<Rightarrow>
        if state \<noteq> Completed then validation InvalidStateTransition
        else and_then clock (\<lambda>now. and_then (exec (update_recordings (\<lambda>r. lr_id r = i) (\<lambda>r. r)
               (\<lambda>q. q\<lparr>rr_activeJobId := Some j, rr_updatedAt := now\<rparr>))) (\<lambda>rows.
             if rows = 0 then validation NotFound else rebuildEntry i))) (\<lambda>_. library_with J)"
      by (intro achieves_option achieves_if keep_simple achieves_and_then[OF achieves_clock]
          achieves_and_then[OF achieves_weaken[OF step] rest]) auto
  qed
qed

lemma keeps_always:
  assumes "achieves (library_with J) m (\<lambda>_. library_with J)" "settled m" "library_with J (cn_db c)"
  shows "library_with J (cn_db (snd (m c)))"
proof (cases "m c")
  case (Pair r c')
  show ?thesis
  proof (cases r)
    case (Inl e)
    then show ?thesis using assms(2,3) Pair unfolding settled_def by fastforce
  next
    case (Inr x)
    then show ?thesis using achievesD[OF assms(1)] assms(3) Pair by simp
  qed
qed

subsection \<open>Deleting files and rebuilding the index\<close>

lemma keep_remove_file [keep]: "achieves (library_with J) (remove_file remover p k) (\<lambda>_. library_with J)"
  by (auto simp: achieves_def remove_file_def split: prod.splits)

lemma keep_acknowledge [keep]: "achieves (library_with J) (acknowledge i r) (\<lambda>_. library_with J)"
  unfolding acknowledge_def by (intro keep)

lemma keep_retry: "0 \<le> pd_attemptCount row \<Longrightarrow> achieves (library_with J) (retry_later row e r) (\<lambda>_. library_with J)"
  unfolding retry_later_def by (intro keep keep_update_pending) simp_all

lemma keep_processPending [keep]: "achieves (library_with J) (processPending uc remover i) (\<lambda>_. library_with J)"
proof -
  have row: "achieves (library_with J) (if referenced then retry_later row e Referenced
      else and_then (look lb_files) (\<lambda>fs'. if \<not> isSafeArtifactPath uc fs' (pd_path row) (pd_kind row)
        then acknowledge (pd_id row) UnsafePath else remove_pending_file uc remover row)) (\<lambda>_. library_with J)"
    if "0 \<le> pd_attemptCount row" for row referenced e
    using that unfolding remove_pending_file_def by (intro keep keep_retry) simp_all
  have found: "achieves (library_with J) (select (\<lambda>d. find (\<lambda>p. pd_id p = i \<and> pd_nextAttemptAt p \<le> now) (lb_pending d)))
      (\<lambda>x d. library_with J d \<and> (\<forall>row. x = Some row \<longrightarrow> 0 \<le> pd_attemptCount row))" for now
    by (rule achieves_select) (auto simp: find_Some_iff pending_ok_def dest: library_okD)
  show ?thesis
    unfolding processPending_def
  proof (rule achieves_and_then[OF achieves_clock], rule achieves_and_then[OF found], rule achieves_option)
    fix x :: "pending_deletion option"
    show "achieves (\<lambda>d. library_with J d \<and> (\<forall>row. x = Some row \<longrightarrow> 0 \<le> pd_attemptCount row)) (succeed Skipped) (\<lambda>_. library_with J)"
      by (rule achieves_succeed) simp
  next
    fix x row assume x: "x = Some (row :: pending_deletion)"
    show "achieves (\<lambda>d. library_with J d \<and> (\<forall>row. x = Some row \<longrightarrow> 0 \<le> pd_attemptCount row)) (and_then (look lb_files) (\<lambda>fs.
         if \<not> isSafeArtifactPath uc fs (pd_path row) (pd_kind row) then acknowledge (pd_id row) UnsafePath
         else if \<not> fs_exists fs (pd_path row) \<and> \<not> fs_isSymLink fs (pd_path row)
         then acknowledge (pd_id row) Missing
         else
           and_then (pathIsReferenced uc (pd_path row)) (\<lambda>referenced.
           if referenced
           then retry_later row (lit ''The managed file is still referenced by another recording.'') Referenced
           else
             and_then (look lb_files) (\<lambda>fs'.
             if \<not> isSafeArtifactPath uc fs' (pd_path row) (pd_kind row) then acknowledge (pd_id row) UnsafePath
             else remove_pending_file uc remover row)))) (\<lambda>_. library_with J)"
    proof (cases "0 \<le> pd_attemptCount row")
      case True
      show ?thesis
        by (rule achieves_weaken[where P = "library_with J" and Q = "\<lambda>_. library_with J"])
          (intro keep row[OF True], auto)
    next
      case False
      then show ?thesis using x by (simp add: achieves_def)
    qed
  qed
qed

lemma drain_entries_ok:
  "library_with J (cn_db c) \<Longrightarrow> library_with J (cn_db (snd (drain_entries uc remover rp ids c)))"
proof (induction ids arbitrary: rp c)
  case (Cons i ids)
  let ?m = "libraryTransaction (processPending uc remover i)"
  have "library_with J (cn_db (snd (?m c)))"
    using Cons.prems by (intro keeps_always settles keep)
  then show ?case using Cons.IH by (auto simp: and_then_def split: prod.splits sum.splits)
qed (simp add: succeed_def)

lemma after_reads:
  assumes "reads_only m" "library_with J (cn_db c)"
    and "\<And>x c. library_with J (cn_db c) \<Longrightarrow> library_with J (cn_db (snd (f x c)))"
  shows "library_with J (cn_db (snd (and_then m f c)))"
proof -
  have "cn_db (snd (m c)) = cn_db c" using assms(1) by (simp add: reads_only_def)
  then show ?thesis using assms(2,3) by (auto simp: and_then_def split: prod.splits sum.splits)
qed

lemma drain_ok:
  "library_with J (cn_db c) \<Longrightarrow> library_with J (cn_db (snd (drainPendingArtifactDeletions uc remover i c)))"
  unfolding drainPendingArtifactDeletions_def
  by (intro after_reads reads_only_basic reads_only_connection reads_only_select drain_entries_ok)

lemma rebuild_entries_ok: "library_with J (cn_db c) \<Longrightarrow> library_with J (cn_db (snd (rebuild_entries ids c)))"
proof (induction ids arbitrary: c)
  case (Cons i ids)
  have "library_with J (cn_db (snd (rebuildRecordingEntry i c)))"
    using Cons.prems by (intro keeps_always settled_ops keep_rebuild)
  then show ?case using Cons.IH by (auto simp: and_then_def split: prod.splits sum.splits)
qed (simp add: succeed_def)

lemma rebuildAll_ok: "library_with J (cn_db c) \<Longrightarrow> library_with J (cn_db (snd (rebuildAll c)))"
  unfolding rebuildAll_def
  by (intro after_reads reads_only_connection reads_only_select rebuild_entries_ok)

end

subsection \<open>The two invariants of the tables\<close>

text \<open>The invariant of the repositories keeps the laws for new rows without a transcript.\<close>

lemma store_ok_base: "store_ok d \<longleftrightarrow> db_ok d \<and> transcripts_ok d"
  by (simp add: store_ok_def db_ok_inv)

lemma transcripts_recordings: "transcripts_ok (d\<lparr>db_recordings := rs\<rparr>) = transcripts_ok d"
  by (simp add: transcripts_ok_def seg_refs_def)

lemma transcripts_delete_rows:
  assumes "transcripts_ok d" "delete_jobs P d = Some (n, d')"
  shows "transcripts_ok (d'\<lparr>db_recordings := rs, db_segments := filter Q (db_segments d')\<rparr>)"
  using delete_jobs_transcripts[OF assms(2,1)]
  by (rule transcripts_filter) (simp_all add: seg_refs_def)

interpretation sound: tables_kept store_ok "\<lambda>q. rr_activeJobId q = None"
proof unfold_locales
  fix d :: job_tables
  assume "store_ok d"
  then have d: "db_ok d" "transcripts_ok d" by (simp_all add: store_ok_base)
  show "distinct (map rr_id (db_recordings d))" by (rule db_ok_recordings(1)[OF d(1)])
  show "store_ok (d\<lparr>db_recordings := db_recordings d @ [q]\<rparr>)"
    if "rr_id q \<notin> rr_id ` set (db_recordings d)" "rr_activeJobId q = None" for q
    using d db_ok_recordings[OF d(1)] that
    by (auto simp: store_ok_base transcripts_recordings intro!: set_recordings_base)
  show "store_ok (d\<lparr>db_recordings := map (\<lambda>q. if P q then g q else q) (db_recordings d)\<rparr>)"
    if g: "\<And>q. rr_id (g q) = rr_id q" and a: "\<And>q a. q \<in> set (db_recordings d) \<Longrightarrow> P q \<Longrightarrow> rr_activeJobId (g q) = Some a \<Longrightarrow>
      rr_activeJobId q = Some a
         \<or> (\<exists>j \<in> set (db_jobs d). tj_id j = a \<and> tj_recordingId j = rr_id q \<and> tj_state j = Completed)" for P g
  proof -
    have "db_ok (d\<lparr>db_recordings := map (\<lambda>q. if P q then g q else q) (db_recordings d)\<rparr>)"
      using a db_ok_recordings(3)[OF d(1)] by (intro map_recordings_ok[OF d(1) g]) blast
    then show ?thesis using d(2) by (simp add: store_ok_base transcripts_recordings)
  qed
  show "store_ok (d'\<lparr>db_recordings := filter (\<lambda>q. rr_id q \<notin> gone) (db_recordings d'),
            db_segments := filter (\<lambda>s. ts_recordingId s \<notin> gone) (db_segments d')\<rparr>)"
    if "delete_jobs (\<lambda>j. tj_recordingId j \<in> gone) d = Some (n, d')" for gone n d'
    using delete_recordings_ok[OF d(1) that] transcripts_delete_rows[OF d(2) that] by (simp add: store_ok_base)
qed

text \<open>The references alone need no restriction on new rows.\<close>

interpretation loose: tables_kept job_refs "\<lambda>q. True"
proof unfold_locales
  fix d :: job_tables
  assume d: "job_refs d"
  show "distinct (map rr_id (db_recordings d))" using d by (simp add: job_refs_def)
  show "job_refs (d\<lparr>db_recordings := db_recordings d @ [q]\<rparr>)" if "rr_id q \<notin> rr_id ` set (db_recordings d)" for q
    using d that by (auto simp: job_refs_def refers_def job_row_ok_def list_all_iff)
  show "job_refs (d\<lparr>db_recordings := map (\<lambda>q. if P q then g q else q) (db_recordings d)\<rparr>)"
    if "\<And>q. rr_id (g q) = rr_id q" for P g
  proof -
    have ids: "map rr_id (map (\<lambda>q. if P q then g q else q) (db_recordings d)) = map rr_id (db_recordings d)"
      using that by (auto simp: comp_def)
    then have "rr_id ` set (map (\<lambda>q. if P q then g q else q) (db_recordings d)) = rr_id ` set (db_recordings d)"
      by (metis set_map)
    then have "job_row_ok (d\<lparr>db_recordings := map (\<lambda>q. if P q then g q else q) (db_recordings d)\<rparr>) = job_row_ok d"
      by (intro ext) (simp add: job_row_ok_def)
    then show ?thesis using d ids by (simp add: job_refs_def refers_def del: map_map)
  qed
  show "job_refs (d'\<lparr>db_recordings := filter (\<lambda>q. rr_id q \<notin> gone) (db_recordings d'),
            db_segments := filter (\<lambda>s. ts_recordingId s \<notin> gone) (db_segments d')\<rparr>)"
    if "delete_jobs (\<lambda>j. tj_recordingId j \<in> gone) d = Some (n, d')" for gone n d'
  proof -
    have jobs: "db_jobs d' = filter (\<lambda>j. tj_recordingId j \<notin> gone) (db_jobs d)" "db_recordings d' = db_recordings d"
      using that by (auto simp: delete_jobs_def Let_def)
    have "single_execution (filter Q js)" if "single_execution js" for Q js
    proof -
      have "length (filter (\<lambda>j. tj_state j \<in> set executing) (filter Q js)) \<le> length (filter (\<lambda>j. tj_state j \<in> set executing) js)"
        by (induction js) auto
      then show ?thesis using that unfolding single_execution_def by linarith
    qed
    then show ?thesis using d jobs
      by (auto simp: job_refs_def refers_def job_row_ok_def list_all_iff distinct_map_filter)
  qed
qed

end
