(* ===== verification/LibraryRuns.thy ===== *)
theory LibraryRuns
  imports LibraryInvariants
begin

text \<open>
  Runs of the program on the library: the operations of the recording repository, those of the
  job repository on the same database, and changes other programs make to the files, in any
  order and with any statements failing.
\<close>

subsection \<open>The other repositories keep the references\<close>

lemma refers_exec:
  "(\<And>d x d'. q d = Some (x, d') \<Longrightarrow> refers ids d \<Longrightarrow> refers ids d') \<Longrightarrow>
   achieves (refers ids) (exec q) (\<lambda>_. refers ids)"
  by (rule achieves_exec) blast

lemma refers_modify:
  "(\<And>d. refers ids d \<Longrightarrow> refers ids (f d)) \<Longrightarrow> achieves (refers ids) (modify f) (\<lambda>_. refers ids)"
  by (rule achieves_modify)

lemma refers_same:
  "refers ids d \<Longrightarrow> db_recordings d' = db_recordings d \<Longrightarrow> db_jobs d' = db_jobs d \<Longrightarrow> refers ids d'"
  using job_row_ok_cong[of d d'] by (simp add: refers_def)

lemma refers_jobs:
  assumes "refers ids d" "db_recordings d' = db_recordings d" "list_all (job_row_ok d) (db_jobs d')"
    "single_execution (db_jobs d')"
  shows "refers ids d'"
  using assms job_row_ok_cong[of d d'] by (simp add: refers_def)

lemma single_execution_filter: "single_execution js \<Longrightarrow> single_execution (filter Q js)"
proof -
  assume *: "single_execution js"
  have "length (filter (\<lambda>j. tj_state j \<in> set executing) (filter Q js)) \<le> length (filter (\<lambda>j. tj_state j \<in> set executing) js)"
    by (induction js) auto
  then show ?thesis using * unfolding single_execution_def by linarith
qed

lemma refers_delete_jobs: "delete_jobs P d = Some (n, d') \<Longrightarrow> refers ids d \<Longrightarrow> refers ids d'"
  by (rule refers_jobs[of ids d]) (auto simp: delete_jobs_def Let_def refers_def list_all_iff single_execution_filter)

lemma refers_update_jobs: "update_jobs P f d = Some (n, d') \<Longrightarrow> refers ids d \<Longrightarrow> refers ids d'"
  by (rule refers_jobs[of ids d]) (simp_all add: update_jobs_def Let_def split: if_splits, auto)

lemma refers_statements [keep]:
  "achieves (refers ids) (exec (update_jobs P f)) (\<lambda>_. refers ids)"
  "achieves (refers ids) (exec (delete_jobs P)) (\<lambda>_. refers ids)"
  "achieves (refers ids) (exec (\<lambda>d. update_jobs (P' d) f d)) (\<lambda>_. refers ids)"
  "achieves (refers ids) (exec (\<lambda>d. delete_jobs (P' d) d)) (\<lambda>_. refers ids)"
  by (rule refers_exec; erule (1) refers_update_jobs refers_delete_jobs)+

lemma refers_insert_job [keep]: "achieves (refers ids) (exec (insert_job j)) (\<lambda>_. refers ids)"
  by (rule refers_exec, rule refers_jobs, assumption) (auto simp: insert_job_def refers_def split: if_splits)

lemma refers_rows [keep]:
  "achieves (refers ids) (exec (insert_chunk c)) (\<lambda>_. refers ids)"
  "achieves (refers ids) (exec (insert_event_row e)) (\<lambda>_. refers ids)"
  "achieves (refers ids) (exec (insert_lease l)) (\<lambda>_. refers ids)"
  "achieves (refers ids) (exec (delete_lease L)) (\<lambda>_. refers ids)"
  "achieves (refers ids) (exec (delete_segments S)) (\<lambda>_. refers ids)"
  "achieves (refers ids) (exec (insert_segment_row s)) (\<lambda>_. refers ids)"
  "achieves (refers ids) (exec (update_segments S g)) (\<lambda>_. refers ids)"
  by (rule refers_exec, erule refers_same; auto simp: insert_chunk_def insert_event_row_def insert_lease_def
      delete_lease_def delete_segments_def insert_segment_row_def update_segments_def Let_def
      split: if_splits option.splits)+

lemma refers_chunks [keep]:
  "achieves (refers ids) (modify (update_chunks Q g)) (\<lambda>_. refers ids)"
  "achieves (refers ids) (modify (delete_chunks i)) (\<lambda>_. refers ids)"
  "achieves (refers ids) (modify (\<lambda>d. recovered_chunk b i d m)) (\<lambda>_. refers ids)"
  "achieves (refers ids) (modify (\<lambda>d. d\<lparr>db_segments := filter (S d) (db_segments d)\<rparr>)) (\<lambda>_. refers ids)"
  by (rule refers_modify, erule refers_same; simp add: update_chunks_def delete_chunks_def recovered_chunk_def Let_def)+

lemma refers_event [keep]: "achieves (refers ids) (insertEvent e) (\<lambda>_. refers ids)"
  unfolding insertEvent_def by (intro keep)

lemma refers_take [keep]: "achieves (refers ids) (take_job j ow n t) (\<lambda>_. refers ids)"
  unfolding take_job_def Let_def by (intro keep)

lemma refers_free [keep]: "achieves (refers ids) (claim_free r ow n t) (\<lambda>_. refers ids)"
  unfolding claim_free_def by (intro keep)

lemma refers_if_exec [keep]:
  "achieves P (exec q) Q \<Longrightarrow> achieves P (exec q') Q \<Longrightarrow> achieves P (exec (if b then q else q')) Q"
  by simp

lemma refers_recover [keep]: "achieves (refers ids) (recover_expired t l) (\<lambda>_. refers ids)"
  unfolding recover_expired_def Let_def by (intro keep)

lemma refers_held [keep]: "achieves (refers ids) (claim_held r ow l) (\<lambda>_. refers ids)"
  unfolding claim_held_def Let_def by (intro keep)

lemma refers_claim [keep]: "achieves (refers ids) (claimInDatabase r ow n) (\<lambda>_. refers ids)"
  unfolding claimInDatabase_def by (intro keep)

lemma refers_transition [keep]:
  "achieves (refers ids) (transition_body i s code msg ow) (\<lambda>_. refers ids)"
  unfolding transition_body_def by (intro keep)

lemma refers_write [keep]:
  "achieves (refers ids) (insert_chunks i u cs) (\<lambda>_. refers ids)"
  "achieves (refers ids) (reorder_loop n js) (\<lambda>_. refers ids)"
  by (induction cs) (auto intro!: keep, induction js arbitrary: n, auto intro!: keep)

lemma refers_recover_jobs [keep]:
  "achieves (refers ids) (recover_jobs t why js n) (\<lambda>_. refers ids)"
proof (induction js arbitrary: n)
  case (Cons j js)
  obtain i s where "j = (i, s)" by fastforce
  then show ?case using Cons by (auto simp: Let_def intro!: keep)
qed (simp add: keep)

lemma refers_validate [keep]: "achieves P (validateLeaseIdentity l) (\<lambda>_. P)"
  unfolding validateLeaseIdentity_def by (intro keep)

lemma refers_renew: "achieves (refers ids) (renewLease i ow n) (\<lambda>_. refers ids)"
proof -
  have "achieves (refers ids) (exec (\<lambda>d. case db_lease d of
          Some r \<Rightarrow> if P r then Some (1 :: nat, d\<lparr>db_lease := Some (f r)\<rparr>) else Some (0, d)
        | None \<Rightarrow> Some (0, d))) (\<lambda>_. refers ids)" for P f
    by (rule refers_exec, erule refers_same) (auto split: option.splits if_splits)
  then show ?thesis unfolding renewLease_def Let_def by (intro keep)
qed

lemma refers_activate [keep]:
  "achieves (refers ids) (exec (\<lambda>d. Some (n d, d\<lparr>db_recordings := map (\<lambda>r. if P r
      then r\<lparr>rr_activeJobId := a, rr_updatedAt := t\<rparr> else r) (db_recordings d)\<rparr>))) (\<lambda>_. refers ids)"
proof (rule refers_exec)
  fix d x d'
  assume e: "Some (n d, d\<lparr>db_recordings := map (\<lambda>r. if P r
      then r\<lparr>rr_activeJobId := a, rr_updatedAt := t\<rparr> else r) (db_recordings d)\<rparr>) = Some (x, d')" and r: "refers ids d"
  have rows: "map rr_id (db_recordings d') = map rr_id (db_recordings d)" "db_jobs d' = db_jobs d"
    using e by (auto simp: comp_def)
  then have "rr_id ` set (db_recordings d') = rr_id ` set (db_recordings d)" by (metis set_map)
  then have "job_row_ok d' = job_row_ok d" by (intro ext) (simp add: job_row_ok_def)
  then show "refers ids d'" using r rows by (simp add: refers_def)
qed

lemma refers_complete: "achieves (refers ids) (completeAndActivate r i ow) (\<lambda>_. refers ids)"
  unfolding completeAndActivate_def by (intro keep)

lemma refers_clear: "achieves (refers ids) clearCompleted (\<lambda>_. refers ids)"
proof -
  have rebuild: "achieves (refers ids) (rebuild_all rs) (\<lambda>_. refers ids)" for rs
    by (induction rs) (auto intro!: keep)
  show ?thesis unfolding clearCompleted_def by (intro keep rebuild)
qed

lemma refers_delete: "achieves (refers ids) (deleteTerminalJob i) (\<lambda>_. refers ids)"
proof -
  have "achieves (refers ids) (exec (\<lambda>d. map_option (\<lambda>r. (f r, d)) (find P (db_recordings d)))) (\<lambda>_. refers ids)"
    for P and f :: "recording_row \<Rightarrow> bool"
    by (rule refers_exec) auto
  then show ?thesis unfolding deleteTerminalJob_def by (intro keep)
qed

lemma refers_op: "achieves (refers ids) (apply_op op) (\<lambda>_. refers ids)"
proof (cases op)
  case (MarkInterrupted why)
  show ?thesis unfolding MarkInterrupted apply_op.simps markRunningJobsInterrupted_def Let_def by (intro keep)
next
  case (UpdateChunk c ow)
  show ?thesis unfolding UpdateChunk apply_op.simps updateChunk_def by (intro keep)
next
  case (ReplaceChunks u i cs ow)
  show ?thesis unfolding ReplaceChunks apply_op.simps replaceChunks_def by (intro keep)
next
  case (CreateJob u j)
  show ?thesis unfolding CreateJob apply_op.simps createQueued_def Let_def by (intro keep)
qed (simp_all add: refers_renew refers_complete refers_clear refers_delete
    keep claimNextQueued_def claimQueued_def releaseLease_def transition_def updateProgress_def
    updateRuntimeInfo_def updateParameters_def appendEvent_def reorder_def db_transaction_immediate Let_def)

lemma refers_insert_segments [keep]: "achieves (refers ids) (insert_segments u r i now n V segs) (\<lambda>_. refers ids)"
  by (induction segs arbitrary: n V) (auto intro!: keep)

lemma refers_insertSegments [keep]: "achieves (refers ids) (insertSegments u r i segs allow) (\<lambda>_. refers ids)"
  unfolding insertSegments_def by (intro keep)

lemma refers_job_recording [keep]: "achieves (refers ids) (validateJobRecording r i) (\<lambda>_. refers ids)"
  by (rule achieves_weaken[OF check_recording[where P = "refers ids"]]) auto

lemma refers_loaded [keep]:
  "achieves (refers ids) (loadSegment k) (\<lambda>_. refers ids)" "achieves (refers ids) (loadSegments i b) (\<lambda>_. refers ids)"
  unfolding loadSegment_def loadSegments_def by (intro keep)+

lemma refers_store: "achieves (refers ids) (apply_store op) (\<lambda>_. refers ids)"
  by (cases op) (simp_all add: refers_op keep replaceTranscript_def saveEditedTranscript_def replaceChunk_def
      saveEditedSegment_def deleteSegment_def)

subsection \<open>Operations of the other repositories on the library\<close>

text \<open>An operation of the job or the transcript repository on the database of the library.\<close>

definition on_jobs :: "(job_tables, 'a) dbop \<Rightarrow> (library, 'a) dbop" where
  "on_jobs m c =
     (case m \<lparr>cn_db = lb_jobs (cn_db c), cn_time = cn_time c, cn_ticks = cn_ticks c, cn_faults = cn_faults c\<rparr> of
        (r, e) \<Rightarrow> (r, \<lparr>cn_db = (cn_db c)\<lparr>lb_jobs := cn_db e\<rparr>, cn_time = cn_time e,
                      cn_ticks = cn_ticks e, cn_faults = cn_faults e\<rparr>))"

text \<open>
  The recordings whose entries in the search index these operations rebuild before they commit. In
  \<open>JobStore\<close> and \<open>TranscriptStore\<close>, which know no index, the place of the rebuild is a statement that
  changes nothing; \<open>rebuilding\<close> adds its effect. It fails with the operation as a whole.
\<close>

fun reindexed_jobs :: "job_op \<Rightarrow> job_tables \<Rightarrow> string list" where
  "reindexed_jobs (CompleteJob r i ow) d = [r]"
| "reindexed_jobs (DeleteJob i) d = map tj_recordingId (filter (\<lambda>j. tj_id j = i) (db_jobs d))"
| "reindexed_jobs ClearCompleted d = remdups (map tj_recordingId (filter (\<lambda>j.
     \<not> tj_queueHidden j \<and> tj_state j \<in> {Completed, Cancelled}) (db_jobs d)))"
| "reindexed_jobs _ d = []"

fun reindexed :: "store_op \<Rightarrow> job_tables \<Rightarrow> string list" where
  "reindexed (OnJobs op) d = reindexed_jobs op d"
| "reindexed (ReplaceTranscript u r i segs) d = [r]"
| "reindexed (SaveTranscript u r i segs) d = [r]"
| "reindexed (ReplaceChunk uc u r i k segs provisional n ow) d = (if provisional then [] else [r])"
| "reindexed (SaveSegment s) d = [ts_recordingId s]"
| "reindexed (DeleteSegment i) d = map ts_recordingId (filter (\<lambda>s. ts_id s = i) (db_segments d))"

fun rebuild_each :: "string list \<Rightarrow> (library, unit) dbop" where
  "rebuild_each [] = succeed ()"
| "rebuild_each (i # ids) = and_then (rebuildEntry i) (\<lambda>_. rebuild_each ids)"

definition rebuilding :: "(job_tables, unit) dbop \<Rightarrow> (job_tables \<Rightarrow> string list) \<Rightarrow> (library, unit) dbop" where
  "rebuilding m changed c =
     library_rolled_back (and_then (on_jobs m) (\<lambda>_. rebuild_each (changed (lb_jobs (cn_db c))))) c"

subsection \<open>Runs\<close>

datatype library_op =
  CreateRecording "int \<Rightarrow> string" recording
  | UpdateRecording "int \<Rightarrow> string" recording string string
  | UpdateTitle string qstring
  | UpdateNotes string qstring
  | UpdateReviewState string qstring
  | RelinkSource string qstring bool
  | SetTags "int \<Rightarrow> string" string "qstring list"
  | MoveToTrash string
  | RestoreRecording string
  | PermanentlyDelete "int \<Rightarrow> string" string
  | DrainDeletions file_remover string
  | SetActiveTranscript string string
  | RebuildEntry string
  | RebuildAll
  | OnStore store_op
  | FilesChange file_system

fun apply_library :: "unicode \<Rightarrow> library_op \<Rightarrow> (library, unit) dbop" where
  "apply_library uc (CreateRecording uuid r) = createRecording uc uuid r"
| "apply_library uc (UpdateRecording uuid r j ow) = updateRecording uc uuid r j ow"
| "apply_library uc (UpdateTitle i t) = updateTitle uc i t"
| "apply_library uc (UpdateNotes i t) = updateNotes i t"
| "apply_library uc (UpdateReviewState i t) = updateReviewState uc i t"
| "apply_library uc (RelinkSource i p b) = relinkSource uc i p b"
| "apply_library uc (SetTags uuid i tags) = setTags uc uuid i tags"
| "apply_library uc (MoveToTrash i) = moveToTrash i"
| "apply_library uc (RestoreRecording i) = restoreRecording i"
| "apply_library uc (PermanentlyDelete uuid i) = permanentlyDelete uc uuid i"
| "apply_library uc (DrainDeletions remover i) = ignore_result (drainPendingArtifactDeletions uc remover i)"
| "apply_library uc (SetActiveTranscript i j) = setActiveTranscriptJob i j"
| "apply_library uc (RebuildEntry i) = rebuildRecordingEntry i"
| "apply_library uc RebuildAll = rebuildAll"
| "apply_library uc (OnStore op) = rebuilding (apply_store op) (reindexed op)"
| "apply_library uc (FilesChange fs) = (\<lambda>c. (Inr (), c\<lparr>cn_db := (cn_db c)\<lparr>lb_files := fs\<rparr>\<rparr>))"

text \<open>
  \<open>create\<close> stores an active transcript without checking that it is a completed job of the recording,
  which \<open>setActiveTranscriptJob\<close> checks. \<open>proper_op\<close>: the operation does not do so.
\<close>

fun proper_op :: "library_op \<Rightarrow> bool" where
  "proper_op (CreateRecording uuid r) \<longleftrightarrow> rg_activeJobId r = []"
| "proper_op _ \<longleftrightarrow> True"

definition run_library :: "unicode \<Rightarrow> library connection \<Rightarrow> library_op list \<Rightarrow> library connection" where
  "run_library uc = foldl (\<lambda>c op. snd (apply_library uc op c))"

lemma ignore_result_db [simp]: "cn_db (snd (ignore_result m c)) = cn_db (snd (m c))"
  by (auto simp: ignore_result_def and_then_def succeed_def split: prod.splits sum.splits)

lemma rebuilding_cases:
  obtains (failed) e c' fs where "rebuilding m changed c = (Inl e, c')" "cn_db c' = (cn_db c)\<lparr>lb_files := fs\<rparr>"
  | (succeeded) c1 c' where "on_jobs m c = (Inr (), c1)" "rebuild_each (changed (lb_jobs (cn_db c))) c1 = (Inr (), c')"
      "rebuilding m changed c = (Inr (), c')"
proof (cases "rebuilding m changed c")
  case (Pair r c')
  show thesis
  proof (cases r)
    case (Inl e)
    then show thesis using failed library_rolled_back_failure Pair unfolding rebuilding_def by metis
  next
    case (Inr u)
    then show thesis using Pair that(2) unfolding rebuilding_def by auto
  qed
qed

text \<open>
  An invariant of the job tables that the operations of the job and the transcript repository keep is
  kept on the library.
\<close>

locale library_kept = tables_kept +
  assumes operations: "J (cn_db e) \<Longrightarrow> J (cn_db (snd (apply_store op e)))"
    and references: "J d \<Longrightarrow> job_refs d"
begin

lemma on_jobs_ok:
  assumes "library_with J (cn_db c)" "on_jobs (apply_store op) c = (Inr u, c1)"
  shows "library_with J (cn_db c1)"
proof -
  let ?c = "\<lparr>cn_db = lb_jobs (cn_db c), cn_time = cn_time c, cn_ticks = cn_ticks c, cn_faults = cn_faults c\<rparr>"
  obtain r e where m: "apply_store op ?c = (r, e)" by fastforce
  then have r: "r = Inr u" "cn_db c1 = (cn_db c)\<lparr>lb_jobs := cn_db e\<rparr>" using assms(2) by (auto simp: on_jobs_def)
  have old: "J (lb_jobs (cn_db c))" using assms(1) by (simp add: library_with_def)
  then have "J (cn_db e)" using operations[of ?c op] m by simp
  moreover have "map rr_id (db_recordings (cn_db e)) = map rr_id (db_recordings (lb_jobs (cn_db c)))"
    using achievesD[OF refers_store, of op ?c u e] m r(1) references[OF old] by (simp add: job_refs_def refers_def)
  ultimately have "library_with J ((cn_db c)\<lparr>lb_rows := lb_rows (cn_db c), lb_jobs := cn_db e\<rparr>)"
    using assms(1) by (intro library_with_replace) (auto simp: library_with_def)
  then show ?thesis by (simp add: r(2))
qed

lemma keep_rebuild_each: "achieves (library_with J) (rebuild_each ids) (\<lambda>_. library_with J)"
  by (induction ids) (auto intro!: keep)

lemma rebuilding_ok:
  assumes "library_with J (cn_db c)"
  shows "library_with J (cn_db (snd (rebuilding (apply_store op) changed c)))"
proof (cases "apply_store op" changed c rule: rebuilding_cases)
  case (failed e c' fs)
  then show ?thesis using assms by simp
next
  case (succeeded c1 c')
  then show ?thesis using on_jobs_ok[OF assms succeeded(1)] achievesD[OF keep_rebuild_each succeeded(2)] by simp
qed

lemmas library_always =
  keeps_always[OF keep_updateRecording settled_ops(2)]
  keeps_always[OF keep_columns(1) settled_ops(3)] keeps_always[OF keep_columns(2) settled_ops(4)]
  keeps_always[OF keep_columns(3) settled_ops(5)] keeps_always[OF keep_relink settled_ops(6)]
  keeps_always[OF keep_setTags settled_ops(7)] keeps_always[OF keep_trash(1) settled_ops(8)]
  keeps_always[OF keep_trash(2) settled_ops(9)] keeps_always[OF keep_permanentlyDelete settled_ops(10)]
  keeps_always[OF keep_setActive settled_ops(11)] keeps_always[OF keep_rebuild settled_ops(12)]

text \<open>Which recordings may be created is left to the invariant.\<close>

definition admitted :: "library_op \<Rightarrow> bool" where
  "admitted op \<longleftrightarrow> (\<forall>uuid r i t. op = CreateRecording uuid r \<longrightarrow> admits \<lparr>rr_id = i,
     rr_activeJobId = (if rg_activeJobId r = [] then None else Some (rg_activeJobId r)), rr_updatedAt = t\<rparr>)"

lemma apply_library_ok:
  assumes "library_with J (cn_db c)" "admitted op"
  shows "library_with J (cn_db (snd (apply_library uc op c)))"
proof (cases op)
  case (CreateRecording u r)
  have "achieves (library_with J) (createRecording uc u r) (\<lambda>_. library_with J)"
    using assms(2) CreateRecording by (intro keep_create) (simp add: admitted_def)
  then show ?thesis
    unfolding CreateRecording apply_library.simps using assms(1) by (intro keeps_always settled_ops(1))
next
  case (FilesChange fs)
  then show ?thesis using assms(1) by simp
qed (simp_all only: apply_library.simps ignore_result_db rebuilding_ok[OF assms(1)] drain_ok[OF assms(1)]
    rebuildAll_ok[OF assms(1)] library_always[OF assms(1)])

lemma run_library_ok:
  assumes "library_with J (cn_db c)" "list_all admitted ops"
  shows "library_with J (cn_db (run_library uc c ops))"
  using assms unfolding run_library_def
  by (induction ops arbitrary: c) (simp_all add: apply_library_ok)

end

text \<open>The repositories keep the full invariant, and in any case the references.\<close>

lemma job_refs_store: "store_ok d \<Longrightarrow> job_refs d"
  by (simp add: store_ok_base db_ok_def base_ok_def keys_ok_def job_refs_def refers_def)

interpretation sound_library: library_kept store_ok "\<lambda>q. rr_activeJobId q = None"
  by unfold_locales (simp_all add: store.step_inv job_refs_store)

interpretation loose_library: library_kept job_refs "\<lambda>q. True"
proof unfold_locales
  fix e :: "job_tables connection" and op
  assume e: "job_refs (cn_db e)"
  obtain r e' where r: "apply_store op e = (r, e')" by fastforce
  show "job_refs (cn_db (snd (apply_store op e)))"
  proof (cases r)
    case (Inl err)
    then show ?thesis using apply_store_atomic[of op] r e by (auto simp: atomic_def)
  next
    case (Inr u)
    then have "refers (map rr_id (db_recordings (cn_db e))) (cn_db e')"
      using achievesD[OF refers_store, of op e u e'] r e by (simp add: job_refs_def)
    then show ?thesis using e r by (simp add: job_refs_def refers_def)
  qed
qed

lemma proper_admitted: "sound_library.admitted op = proper_op op"
  by (cases op) (auto simp: sound_library.admitted_def)

lemma library_with_mono: "library_with T d \<Longrightarrow> (T (lb_jobs d) \<Longrightarrow> T' (lb_jobs d)) \<Longrightarrow> library_with T' d"
  by (simp add: library_with_def)

text \<open>
  C10: Whatever operations of the recording, the job and the transcript repository run on the library, in any
  order, with any statements failing and with other programs changing the files: recordings have distinct
  identifiers; every job, tag link and search entry belongs to a recording, and every tag link to a
  tag; tag names differ by more than the case of ASCII letters; and at most one job executes. If no recording
  is created with an active transcript (\<open>create\<close> does not check the one it is given), the active transcript
  of a recording is in addition always a completed job of that recording, and every segment
  belongs to a recording.
\<close>

theorem library_invariant:
  assumes "library_ok (cn_db c)" "d = cn_db (run_library uc c ops)"
  shows "distinct (map lr_id (lb_rows d))
    \<and> tj_recordingId ` set (db_jobs (lb_jobs d)) \<subseteq> lr_id ` set (lb_rows d)
    \<and> fst ` set (lb_recordingTags d) \<subseteq> lr_id ` set (lb_rows d)
    \<and> snd ` set (lb_recordingTags d) \<subseteq> tg_id ` set (lb_tags d)
    \<and> sx_recordingId ` set (lb_search d) \<subseteq> lr_id ` set (lb_rows d)
    \<and> distinct (map (nocase \<circ> tg_name) (lb_tags d))
    \<and> length (filter (\<lambda>j. isRunning (tj_state j)) (db_jobs (lb_jobs d))) \<le> 1
    \<and> (list_all proper_op ops \<longrightarrow>
         (\<forall>q \<in> set (db_recordings (lb_jobs d)). \<forall>a. rr_activeJobId q = Some a \<longrightarrow>
            (\<exists>j \<in> set (db_jobs (lb_jobs d)). tj_id j = a \<and> tj_recordingId j = rr_id q \<and> tj_state j = Completed))
         \<and> ts_recordingId ` set (db_segments (lb_jobs d)) \<subseteq> lr_id ` set (lb_rows d))"
proof -
  have "library_with job_refs (cn_db c)" using assms(1) by (rule library_with_mono) (rule job_refs_store)
  then have ok: "library_with job_refs d"
    using loose_library.run_library_ok[of c ops uc] assms(2)
    by (simp add: loose_library.admitted_def list_all_iff)
  then have jobs: "job_refs (lb_jobs d)" and ids: "map lr_id (lb_rows d) = map rr_id (db_recordings (lb_jobs d))"
    by (simp_all add: library_with_def)
  have set_ids: "lr_id ` set (lb_rows d) = rr_id ` set (db_recordings (lb_jobs d))" using ids by (metis set_map)
  have refs: "tj_recordingId ` set (db_jobs (lb_jobs d)) \<subseteq> lr_id ` set (lb_rows d)"
    using jobs set_ids by (auto simp: job_refs_def refers_def list_all_iff job_row_ok_def)
  moreover have "distinct (map lr_id (lb_rows d))" using jobs ids by (simp add: job_refs_def)
  moreover have "length (filter (\<lambda>j. isRunning (tj_state j)) (db_jobs (lb_jobs d))) \<le> 1"
    using jobs by (simp add: job_refs_def refers_def single_execution_def executing_isRunning)
  moreover have "fst ` set (lb_recordingTags d) \<subseteq> lr_id ` set (lb_rows d)
      \<and> snd ` set (lb_recordingTags d) \<subseteq> tg_id ` set (lb_tags d)
      \<and> distinct (map (nocase \<circ> tg_name) (lb_tags d)) \<and> sx_recordingId ` set (lb_search d) \<subseteq> lr_id ` set (lb_rows d)"
    using library_okD[OF ok] unfolding tags_ok_def search_ok_def by (elim conjE) (intro conjI; assumption)
  moreover have "(\<forall>q \<in> set (db_recordings (lb_jobs d)). \<forall>a. rr_activeJobId q = Some a \<longrightarrow>
      (\<exists>j \<in> set (db_jobs (lb_jobs d)). tj_id j = a \<and> tj_recordingId j = rr_id q \<and> tj_state j = Completed))
      \<and> ts_recordingId ` set (db_segments (lb_jobs d)) \<subseteq> lr_id ` set (lb_rows d)" if "list_all proper_op ops"
  proof -
    have "library_ok d"
      using sound_library.run_library_ok[OF assms(1), of ops uc] that assms(2)
      by (simp add: proper_admitted[abs_def])
    then have ok: "db_ok (lb_jobs d)" "transcripts_ok (lb_jobs d)" by (simp_all add: library_with_def store_ok_base)
    have "ts_recordingId ` set (db_segments (lb_jobs d)) \<subseteq> tj_recordingId ` set (db_jobs (lb_jobs d))"
    proof (rule image_subsetI)
      fix s assume "s \<in> set (db_segments (lb_jobs d))"
      then have "seg_refs (lb_jobs d) s" using ok(2) by (simp add: transcripts_ok_def)
      then show "ts_recordingId s \<in> tj_recordingId ` set (db_jobs (lb_jobs d))" unfolding seg_refs_def by (metis image_eqI)
    qed
    moreover have "active_ok (lb_jobs d)" using ok(1) by (simp add: db_ok_def base_ok_def)
    ultimately show ?thesis using refs unfolding active_ok_def by blast
  qed
  ultimately show ?thesis by blast
qed

end
