(* ===== verification/LibraryFacts.thy ===== *)
theory LibraryFacts
  imports LibraryRuns LibrarySearch
begin

text \<open>
  What the operations on the library do: permanent deletion and the removal of files, what a worker
  may change of a recording, trash and restore, and the state of the search index.
\<close>

subsection \<open>A forward calculus\<close>

text \<open>From a known state: \<open>reaches d m Q\<close> says what holds when \<open>m\<close> succeeds on the tables \<open>d\<close>.\<close>

definition reaches :: "'d \<Rightarrow> ('d, 'a) dbop \<Rightarrow> ('a \<Rightarrow> 'd \<Rightarrow> bool) \<Rightarrow> bool" where
  "reaches d m Q \<longleftrightarrow> achieves (\<lambda>e. e = d) m Q"

named_theorems forward \<open>rules that read an operation from its start\<close>

lemma reachesD: "reaches (cn_db c) m Q \<Longrightarrow> m c = (Inr x, c') \<Longrightarrow> Q x (cn_db c')"
  by (simp add: reaches_def achieves_def)

lemma reaches_weaken: "reaches d m Q \<Longrightarrow> (\<And>x e. Q x e \<Longrightarrow> Q' x e) \<Longrightarrow> reaches d m Q'"
  unfolding reaches_def achieves_def by blast

lemma reaches_and_then:
  "reaches d m R \<Longrightarrow> (\<And>x e. R x e \<Longrightarrow> reaches e (f x) Q) \<Longrightarrow> reaches d (and_then m f) Q"
  unfolding reaches_def achieves_def by simp blast

lemma reaches_select [forward]: "reaches d (f (g d)) Q \<Longrightarrow> reaches d (and_then (select g) f) Q"
  unfolding reaches_def achieves_def by (auto dest!: selectD)

lemma reaches_look [forward]: "reaches d (f (g d)) Q \<Longrightarrow> reaches d (and_then (look g) f) Q"
  unfolding reaches_def achieves_def by (auto simp: look_def)

lemma reaches_clock [forward]: "(\<And>now. reaches d (f now) Q) \<Longrightarrow> reaches d (and_then clock f) Q"
  unfolding reaches_def achieves_def by (auto dest!: clockD)

lemma reaches_connection [forward]: "reaches d (f ()) Q \<Longrightarrow> reaches d (and_then connection f) Q"
  unfolding reaches_def achieves_def by (auto dest!: connectionD)

lemma reaches_modify [forward]: "reaches (g d) (f ()) Q \<Longrightarrow> reaches d (and_then (modify g) f) Q"
  unfolding reaches_def achieves_def by (auto dest!: modifyD)

lemma reaches_exec [forward]:
  "(\<And>x e. q d = Some (x, e) \<Longrightarrow> reaches e (f x) Q) \<Longrightarrow> reaches d (and_then (exec q) f) Q"
  unfolding reaches_def achieves_def by (auto dest!: execD)

lemma reaches_last [forward]:
  "Q () (g d) \<Longrightarrow> reaches d (modify g) Q"
  "(\<And>x e. q d = Some (x, e) \<Longrightarrow> Q' x e) \<Longrightarrow> reaches d (exec q) Q'"
  "Q'' y d \<Longrightarrow> reaches d (succeed y) Q''"
  "reaches d (validation e) Q'''" "reaches d (fail err) Q'''"
  unfolding reaches_def achieves_def validation_def by (auto dest!: modifyD execD)

lemma reaches_if [forward]:
  "(b \<Longrightarrow> reaches d m Q) \<Longrightarrow> (\<not> b \<Longrightarrow> reaches d n Q) \<Longrightarrow> reaches d (if b then m else n) Q"
  by simp

lemma reaches_option [forward]:
  "(v = None \<Longrightarrow> reaches d m Q) \<Longrightarrow> (\<And>x. v = Some x \<Longrightarrow> reaches d (f x) Q)
   \<Longrightarrow> reaches d (case v of None \<Rightarrow> m | Some x \<Rightarrow> f x) Q"
  by (cases v) simp_all

lemma reaches_transaction [forward]: "reaches d m Q \<Longrightarrow> reaches d (libraryTransaction m) Q"
  unfolding reaches_def by (rule keep_libraryTransaction)

lemma reaches_lease [forward]: "reaches d m Q \<Longrightarrow> reaches d (libraryLeaseTransaction i ow m) Q"
  unfolding libraryLeaseTransaction_def by (intro forward)

lemma reaches_reads: "reads_only m \<Longrightarrow> reaches d (f ()) Q \<Longrightarrow> reaches d (and_then m f) Q"
  for m :: "('d, unit) dbop"
  unfolding reaches_def reads_only_def achieves_def by simp (metis snd_conv)

lemma reads_only_validation [atomics]: "reads_only (validation e)"
  unfolding validation_def by (rule reads_only_basic)

lemma reads_only_look [atomics]: "reads_only (look f)"
  by (simp add: reads_only_def look_def)

lemma reads_only_checks [atomics]:
  "reads_only (ensureNewManagedReferencesExist uc i requested)"
  "reads_only (ensureNoActiveExecutionLease i)"
  "reads_only (ensureJobBelongsToRecording j i)"
  unfolding ensureNewManagedReferencesExist_def ensureNoActiveExecutionLease_def ensureJobBelongsToRecording_def
  by (intro atomics)+

lemma reaches_checks [forward]:
  "reaches d (f ()) Q \<Longrightarrow> reaches d (and_then (ensureNewManagedReferencesExist uc i requested) f) Q"
  "reaches d (f ()) Q \<Longrightarrow> reaches d (and_then (ensureNoActiveExecutionLease i) f) Q"
  "reaches d (f ()) Q \<Longrightarrow> reaches d (and_then (ensureJobBelongsToRecording j i) f) Q"
  by (intro reaches_reads atomics; assumption)+

lemma reaches_update_row [forward]:
  assumes "\<And>n now e. update_recordings (\<lambda>r. lr_id r = i) g (\<lambda>q. q\<lparr>rr_updatedAt := now\<rparr>) d = Some (n, e) \<Longrightarrow>
      n \<noteq> 0 \<Longrightarrow> reaches e (f ()) Q"
  shows "reaches d (and_then (update_row i missing g) f) Q"
  unfolding update_row_def
  by (rule reaches_and_then[where R = "\<lambda>x e. \<exists>n now. n \<noteq> 0 \<and>
      update_recordings (\<lambda>r. lr_id r = i) g (\<lambda>q. q\<lparr>rr_updatedAt := now\<rparr>) d = Some (n, e)"])
    (auto intro!: forward intro: assms)

lemma reaches_update_row_last [forward]:
  assumes "\<And>n now e. update_recordings (\<lambda>r. lr_id r = i) g (\<lambda>q. q\<lparr>rr_updatedAt := now\<rparr>) d = Some (n, e) \<Longrightarrow>
      n \<noteq> 0 \<Longrightarrow> Q () e"
  shows "reaches d (update_row i missing g) Q"
  unfolding update_row_def by (auto intro!: forward intro: assms)

subsection \<open>Permanent deletion\<close>

text \<open>
  What is queued: files of the recording that pass the path checks, and of the derived ones only
  those that are certainly not its source. A file is known by its absolute path, on Windows up to case.
\<close>

definition file_key :: "unicode \<Rightarrow> file_system \<Rightarrow> qstring \<Rightarrow> qstring" where
  "file_key uc fs path = (if fs_windows fs then uc_toCaseFolded uc path else path)"

definition removable :: "unicode \<Rightarrow> file_system \<Rightarrow> artifact_kind \<times> qstring \<Rightarrow> bool" where
  "removable uc fs candidate \<longleftrightarrow> (case candidate of (kind, path) \<Rightarrow>
     let abs = normalizedAbsolutePath uc fs path in
     abs \<noteq> [] \<and> isSafeArtifactPath uc fs abs kind \<and> (fs_exists fs abs \<or> fs_isSymLink fs abs))"

definition queued_for :: "unicode \<Rightarrow> file_system \<Rightarrow> library_row \<Rightarrow> pending_deletion \<Rightarrow> bool" where
  "queued_for uc fs r p \<longleftrightarrow> pd_recordingId p = lr_id r
     \<and> (\<exists>path. (pd_kind p, path) \<in> set (deletion_candidates uc fs r) \<and> removable uc fs (pd_kind p, path)
          \<and> pd_path p = normalizedAbsolutePath uc fs path)"

definition path_keys :: "unicode \<Rightarrow> file_system \<Rightarrow> pending_deletion list \<Rightarrow> qstring set" where
  "path_keys uc fs ps = (\<lambda>p. file_key uc fs (pd_path p)) ` set ps"

definition queues_all :: "unicode \<Rightarrow> file_system \<Rightarrow> (artifact_kind \<times> qstring) list \<Rightarrow> qstring set \<Rightarrow> bool" where
  "queues_all uc fs cs keys \<longleftrightarrow> (\<forall>(k, path) \<in> set cs. removable uc fs (k, path) \<longrightarrow>
     file_key uc fs (normalizedAbsolutePath uc fs path) \<in> keys)"

lemma enqueue_reaches:
  assumes "set cs \<subseteq> set (deletion_candidates uc (lb_files d) r)"
  shows "reaches d (enqueue_candidates uc uuid (lr_id r) t n queued cs) (\<lambda>_ e. \<exists>ps.
     e = d\<lparr>lb_pending := lb_pending d @ ps\<rparr> \<and> (\<forall>p \<in> set ps. queued_for uc (lb_files d) r p)
     \<and> queues_all uc (lb_files d) cs (queued \<union> path_keys uc (lb_files d) ps))"
  using assms
proof (induction cs arbitrary: d n queued)
  case Nil
  show ?case by (auto intro!: forward exI[of _ "[]"] simp: queues_all_def)
next
  case (Cons c cs)
  obtain k path where c: "c = (k, path)" by fastforce
  let ?fs = "lb_files d"
  let ?abs = "normalizedAbsolutePath uc ?fs path"
  let ?key = "file_key uc ?fs ?abs"
  let ?p = "\<lparr>pd_id = uuid n, pd_recordingId = lr_id r, pd_kind = k, pd_path = ?abs, pd_createdAt = t,
      pd_attemptCount = 0, pd_nextAttemptAt = t, pd_lastError = []\<rparr>"
  have sub: "set cs \<subseteq> set (deletion_candidates uc ?fs r)" using Cons.prems by simp
  show ?case
  proof (cases "?abs = [] \<or> ?key \<in> queued \<or> \<not> isSafeArtifactPath uc ?fs ?abs k
      \<or> (\<not> fs_exists ?fs ?abs \<and> \<not> fs_isSymLink ?fs ?abs)")
    case True
    then have "removable uc ?fs (k, path) \<Longrightarrow> ?key \<in> queued" by (auto simp: removable_def Let_def)
    then show ?thesis
      using True unfolding c enqueue_candidates.simps Let_def file_key_def[symmetric]
      by (intro reaches_look)
        (auto simp: queues_all_def intro!: reaches_weaken[OF Cons.IH[OF sub]])
  next
    case False
    have can: "removable uc ?fs (k, path)" using False by (simp add: removable_def Let_def)
    have queued_p: "queued_for uc ?fs r ?p" using can Cons.prems c by (auto simp: queued_for_def)
    have "reaches (d\<lparr>lb_pending := lb_pending d @ [?p]\<rparr>)
        (enqueue_candidates uc uuid (lr_id r) t (n + 1) (insert ?key queued) cs) (\<lambda>_ e. \<exists>ps.
        e = d\<lparr>lb_pending := lb_pending d @ ps\<rparr> \<and> (\<forall>p \<in> set ps. queued_for uc ?fs r p)
        \<and> queues_all uc ?fs ((k, path) # cs) (queued \<union> path_keys uc ?fs ps))"
    proof (rule reaches_weaken[OF Cons.IH], goal_cases)
      case 1
      show ?case using sub by simp
    next
      case (2 x e)
      then obtain ps where "e = d\<lparr>lb_pending := lb_pending d @ [?p], lb_pending := (lb_pending d @ [?p]) @ ps\<rparr>"
        "\<forall>p \<in> set ps. queued_for uc ?fs r p" "queues_all uc ?fs cs (insert ?key queued \<union> path_keys uc ?fs ps)" by auto
      moreover from this(3) have "queues_all uc ?fs ((k, path) # cs) (queued \<union> path_keys uc ?fs (?p # ps))"
        by (auto simp: queues_all_def path_keys_def)
      ultimately show ?case using queued_p by (intro exI[of _ "?p # ps"]) simp
    qed
    then show ?thesis
      using False unfolding c enqueue_candidates.simps Let_def file_key_def[symmetric]
      by (intro reaches_look) (auto intro!: reaches_exec simp: insert_pending_def split: if_splits)
  qed
qed

text \<open>\<open>queued_files\<close>: what \<open>permanentlyDelete\<close> adds to the queue for a recording.\<close>

definition queued_files :: "unicode \<Rightarrow> file_system \<Rightarrow> library_row \<Rightarrow> pending_deletion list \<Rightarrow> bool" where
  "queued_files uc fs r ps \<longleftrightarrow> (\<forall>p \<in> set ps. queued_for uc fs r p)
     \<and> queues_all uc fs (deletion_candidates uc fs r) (path_keys uc fs ps)"

lemma enqueueDeletions_reaches:
  "reaches d (enqueueArtifactDeletions uc uuid r) (\<lambda>_ e. \<exists>ps.
     e = d\<lparr>lb_pending := lb_pending d @ ps\<rparr> \<and> queued_files uc (lb_files d) r ps)"
  unfolding enqueueArtifactDeletions_def
  by (intro forward reaches_weaken[OF enqueue_reaches]) (auto simp: queued_files_def)

definition mentions :: "string \<Rightarrow> library \<Rightarrow> bool" where
  "mentions i d \<longleftrightarrow> i \<in> lr_id ` set (lb_rows d) \<or> i \<in> rr_id ` set (db_recordings (lb_jobs d))
     \<or> i \<in> tj_recordingId ` set (db_jobs (lb_jobs d)) \<or> i \<in> ts_recordingId ` set (db_segments (lb_jobs d))
     \<or> i \<in> fst ` set (lb_recordingTags d) \<or> i \<in> sx_recordingId ` set (lb_search d)
     \<or> (\<exists>entries. lb_fts d = Some entries \<and> i \<in> sx_recordingId ` set entries)"

text \<open>The library without one recording: every other row of every table is kept, in its order.\<close>

definition jobs_without :: "string \<Rightarrow> job_tables \<Rightarrow> job_tables" where
  "jobs_without i d = (let gone = tj_id ` {j \<in> set (db_jobs d). tj_recordingId j = i} in
     d\<lparr>db_recordings := filter (\<lambda>q. rr_id q \<noteq> i) (db_recordings d),
       db_jobs := filter (\<lambda>j. tj_recordingId j \<noteq> i) (db_jobs d),
       db_chunks := filter (\<lambda>c. jc_jobId c \<notin> gone) (db_chunks d),
       db_segments := filter (\<lambda>s. ts_jobId s \<notin> gone \<and> ts_recordingId s \<noteq> i) (db_segments d),
       db_events := filter (\<lambda>e. je_jobId e \<notin> gone) (db_events d),
       db_lease := (case db_lease d of Some l \<Rightarrow> if el_jobId l \<in> gone then None else Some l | None \<Rightarrow> None)\<rparr>)"

definition library_without :: "string \<Rightarrow> library \<Rightarrow> library" where
  "library_without i d =
     d\<lparr>lb_jobs := jobs_without i (lb_jobs d), lb_rows := filter (\<lambda>r. lr_id r \<noteq> i) (lb_rows d),
       lb_recordingTags := filter (\<lambda>(r, t). r \<noteq> i) (lb_recordingTags d),
       lb_search := filter (\<lambda>s. sx_recordingId s \<noteq> i) (lb_search d),
       lb_fts := map_option (filter (\<lambda>s. sx_recordingId s \<noteq> i)) (lb_fts d)\<rparr>"

lemma library_without_mentions: "\<not> mentions i (library_without i d)"
  by (auto simp: mentions_def library_without_def jobs_without_def Let_def)

lemma mentions_pending: "mentions i (d\<lparr>lb_pending := ps\<rparr>) = mentions i d"
  by (simp add: mentions_def)

lemma removeEntry_reaches:
  "reaches d (removeEntry i) (\<lambda>_ e. e = d\<lparr>lb_search := without_entry i (lb_search d),
     lb_fts := map_option (without_entry i) (lb_fts d)\<rparr>)"
  unfolding removeEntry_def
  by (intro forward) (auto simp: update_fts_def)

lemma delete_one:
  assumes "distinct (map lr_id (lb_rows d))" "r \<in> set (lb_rows d)" "lr_deletedAt r \<noteq> None" "lr_id r = i"
    and "delete_recordings (\<lambda>r. lr_id r = i \<and> lr_deletedAt r \<noteq> None) d = Some (n, e)"
  shows "e\<lparr>lb_search := without_entry i (lb_search e), lb_fts := map_option (without_entry i) (lb_fts e)\<rparr>
    = library_without i d"
proof -
  have same: "(lr_id x = i \<and> lr_deletedAt x \<noteq> None) = (lr_id x = i)" if "x \<in> set (lb_rows d)" for x
    using assms(1-4) that by (auto simp: distinct_map dest: inj_onD)
  then have gone: "lr_id ` set (filter (\<lambda>r. lr_id r = i \<and> lr_deletedAt r \<noteq> None) (lb_rows d)) = {i}"
    using assms(2-4) by (auto simp: image_iff)
  have rows: "filter (\<lambda>r. \<not> (lr_id r = i \<and> lr_deletedAt r \<noteq> None)) (lb_rows d) = filter (\<lambda>r. lr_id r \<noteq> i) (lb_rows d)"
    using same by (intro filter_cong) auto
  have "without_entry i (filter (\<lambda>s. sx_recordingId s \<noteq> i) xs) = filter (\<lambda>s. sx_recordingId s \<noteq> i) xs" for xs
    by (simp add: without_entry_def)
  moreover have jobs: "set (filter (\<lambda>j. tj_recordingId j \<in> {i}) (db_jobs (lb_jobs d)))
      = {j \<in> set (db_jobs (lb_jobs d)). tj_recordingId j = i}" by auto
  ultimately show ?thesis
    using assms(5) unfolding delete_recordings_def delete_jobs_def Let_def gone rows jobs
    by (auto simp: library_without_def jobs_without_def Let_def without_entry_def[abs_def])
qed

definition live_lease :: "string \<Rightarrow> int \<Rightarrow> library \<Rightarrow> bool" where
  "live_lease i now d \<longleftrightarrow> (\<exists>l j. db_lease (lb_jobs d) = Some l \<and> j \<in> set (db_jobs (lb_jobs d))
     \<and> tj_id j = el_jobId l \<and> tj_recordingId j = i \<and> (\<forall>t. el_expiresAt l = Some t \<longrightarrow> now < t))"

lemma lease_check_success:
  assumes "ensureNoActiveExecutionLease i c = (Inr u, c')"
  shows "\<not> live_lease i (cn_time c) (cn_db c) \<and> cn_db c' = cn_db c"
proof -
  let ?row = "\<lambda>d. case db_lease (lb_jobs d) of
      Some l \<Rightarrow> if list_ex (\<lambda>j. tj_id j = el_jobId l \<and> tj_recordingId j = i) (db_jobs (lb_jobs d))
                then Some (el_expiresAt l) else None
    | None \<Rightarrow> None"
  obtain row c1 where s: "select ?row c = (Inr row, c1)"
    and rest: "(case row of None \<Rightarrow> succeed () | Some None \<Rightarrow> validation InvalidStateTransition
      | Some (Some expiresAt) \<Rightarrow> and_then clock (\<lambda>now.
          if expiresAt > now then validation InvalidStateTransition else succeed ())) c1 = (Inr u, c')"
    using assms unfolding ensureNoActiveExecutionLease_def by auto
  have row: "row = ?row (cn_db c)" "cn_db c1 = cn_db c" "cn_time c1 = cn_time c" using selectD[OF s] by simp_all
  have ok: "row = None \<or> (\<exists>t. row = Some (Some t) \<and> t \<le> cn_time c)" and same: "cn_db c' = cn_db c"
    using rest row(2,3) by (auto simp: validation_def dest!: clockD split: option.splits if_splits)
  have "\<not> live_lease i (cn_time c) (cn_db c)"
  proof
    assume "live_lease i (cn_time c) (cn_db c)"
    then obtain l j where l: "db_lease (lb_jobs (cn_db c)) = Some l" "j \<in> set (db_jobs (lb_jobs (cn_db c)))"
      "tj_id j = el_jobId l" "tj_recordingId j = i" "\<forall>t. el_expiresAt l = Some t \<longrightarrow> cn_time c < t"
      unfolding live_lease_def by blast
    then have "list_ex (\<lambda>j. tj_id j = el_jobId l \<and> tj_recordingId j = i) (db_jobs (lb_jobs (cn_db c)))"
      by (auto simp: list_ex_iff)
    then have "row = Some (el_expiresAt l)" using row(1) l(1) by simp
    then show False using ok l(5) by auto
  qed
  then show ?thesis using same by blast
qed

text \<open>\<open>permanentlyDelete\<close> after its check of the lease.\<close>

abbreviation delete_trashed :: "unicode \<Rightarrow> (int \<Rightarrow> string) \<Rightarrow> string \<Rightarrow> (library, unit) dbop" where
  "delete_trashed uc uuid i \<equiv>
     and_then (select (find_row i)) (\<lambda>existing.
       case existing of
         None \<Rightarrow> validation InvalidStateTransition
       | Some r \<Rightarrow>
           if lr_deletedAt r = None then validation InvalidStateTransition
           else
             and_then (enqueueArtifactDeletions uc uuid r) (\<lambda>_.
             and_then (exec (delete_recordings (\<lambda>r. lr_id r = i \<and> lr_deletedAt r \<noteq> None))) (\<lambda>rows.
             if rows = 0 then validation InvalidStateTransition else removeEntry i)))"

lemma delete_body:
  "distinct (map lr_id (lb_rows d)) \<Longrightarrow> reaches d (delete_trashed uc uuid i)
     (\<lambda>_ e. \<exists>r ps. r \<in> set (lb_rows d) \<and> lr_id r = i \<and> lr_deletedAt r \<noteq> None
        \<and> e = (library_without i d)\<lparr>lb_pending := lb_pending d @ ps\<rparr> \<and> queued_files uc (lb_files d) r ps)"
proof (intro reaches_select reaches_option reaches_if reaches_last)
  fix r assume d: "distinct (map lr_id (lb_rows d))" and f: "find_row i d = Some r" and t: "\<not> lr_deletedAt r = None"
  have r: "r \<in> set (lb_rows d)" "lr_id r = i" using f by (auto simp: find_row_def find_Some_iff)
  show "reaches d (and_then (enqueueArtifactDeletions uc uuid r) (\<lambda>_.
      and_then (exec (delete_recordings (\<lambda>r. lr_id r = i \<and> lr_deletedAt r \<noteq> None))) (\<lambda>rows.
      if rows = 0 then validation InvalidStateTransition else removeEntry i)))
    (\<lambda>_ e. \<exists>r ps. r \<in> set (lb_rows d) \<and> lr_id r = i \<and> lr_deletedAt r \<noteq> None
        \<and> e = (library_without i d)\<lparr>lb_pending := lb_pending d @ ps\<rparr> \<and> queued_files uc (lb_files d) r ps)"
  proof (rule reaches_and_then[OF enqueueDeletions_reaches], elim exE conjE, intro reaches_exec reaches_if reaches_last)
    fix e ps n e'
    assume e: "e = d\<lparr>lb_pending := lb_pending d @ ps\<rparr>" "queued_files uc (lb_files d) r ps"
      and del: "delete_recordings (\<lambda>r. lr_id r = i \<and> lr_deletedAt r \<noteq> None) e = Some (n, e')"
    have "distinct (map lr_id (lb_rows e))" "r \<in> set (lb_rows e)" using d r(1) e(1) by simp_all
    from delete_one[OF this t r(2) del]
    have "e'\<lparr>lb_search := without_entry i (lb_search e'), lb_fts := map_option (without_entry i) (lb_fts e')\<rparr>
        = (library_without i d)\<lparr>lb_pending := lb_pending d @ ps\<rparr>"
      using e(1) by (simp add: library_without_def)
    then show "reaches e' (removeEntry i) (\<lambda>_ e. \<exists>r ps. r \<in> set (lb_rows d) \<and> lr_id r = i \<and> lr_deletedAt r \<noteq> None
        \<and> e = (library_without i d)\<lparr>lb_pending := lb_pending d @ ps\<rparr> \<and> queued_files uc (lb_files d) r ps)"
      using e(2) r t by (intro reaches_weaken[OF removeEntry_reaches]) auto
  qed
qed


subsection \<open>A small library\<close>

text \<open>One trashed recording whose media file lies in the folder \<open>/r\<close>; the cache is \<open>/c\<close>.\<close>

definition sample_files :: file_system where
  "sample_files = \<lparr>fs_windows = False, fs_isAbsolute = (\<lambda>p. p \<noteq> [] \<and> hd p = 0x2F), fs_cleanAbsolute = (\<lambda>p. p),
     fs_fromNative = (\<lambda>p. p),
     fs_canonical = (\<lambda>p. if p = lit ''/r'' \<or> p = lit ''/c'' \<or> p = lit ''/r/a'' then p else []),
     fs_isSymLink = (\<lambda>p. False), fs_symLinkTarget = (\<lambda>p. []),
     fs_exists = (\<lambda>p. p = lit ''/r'' \<or> p = lit ''/c'' \<or> p = lit ''/r/a''),
     fs_isDir = (\<lambda>p. p = lit ''/r'' \<or> p = lit ''/c''), fs_isFile = (\<lambda>p. p = lit ''/r/a''),
     fs_fileName = (\<lambda>p. rev (takeWhile (\<lambda>c. c \<noteq> 0x2F) (rev p))),
     fs_parent = (\<lambda>p. rev (tl (dropWhile (\<lambda>c. c \<noteq> 0x2F) (rev p)))),
     fs_join = (\<lambda>a b. a @ [0x2F] @ b), fs_relative = (\<lambda>d p. if d = p then lit ''.'' else lit ''..''),
     fs_recordings = lit ''/r'', fs_cache = lit ''/c''\<rparr>"

definition sample_row :: library_row where
  "sample_row = \<lparr>lr_id = ''r'', lr_title = lit ''Talk'', lr_sourcePath = lit ''/u/talk'', lr_managedMediaPath = lit ''/r/a'',
     lr_normalizedPcmPath = [], lr_sourceHash = [], lr_mediaType = [], lr_durationMs = 1000, lr_sampleRate = 0,
     lr_channelCount = 0, lr_waveformPath = [], lr_createdAt = Some 1, lr_deletedAt = Some 2, lr_notes = [],
     lr_reviewState = lit ''unreviewed''\<rparr>"

definition sample_library :: library where
  "sample_library = \<lparr>lb_jobs = sample_tables, lb_rows = [sample_row],
     lb_tags = [\<lparr>tg_id = ''t'', tg_name = lit ''work''\<rparr>], lb_recordingTags = [(''r'', ''t'')],
     lb_search = [], lb_hasFts5 = False, lb_fts = None, lb_pending = [], lb_files = sample_files\<rparr>"

lemma sample_library_ok: "library_ok sample_library"
  using sample_ok
  by (simp add: library_with_def store_ok_base transcripts_ok_def segments_ok_def sample_library_def tags_ok_def search_ok_def pending_ok_def row_checks_def sample_row_def)
    (simp add: sample_tables_def)

abbreviation sample_uuid :: "int \<Rightarrow> string" where
  "sample_uuid \<equiv> \<lambda>n. if n = 0 then ''new'' else if n = 1 then ''p1'' else ''p2''"

abbreviation sample_deletion :: "unit result \<times> library connection" where
  "sample_deletion \<equiv> permanentlyDelete ascii sample_uuid ''r'' (at_time 5 sample_library)"

lemmas db_eval = and_then_def succeed_def fail_def select_def modify_def exec_def exec_as_def clock_def connection_def
  statement_def look_def libraryTransaction_def library_rolled_back_def validation_def at_time_def

lemma sample_safe: "isSafeArtifactPath ascii sample_files (lit ''/r/a'') ManagedMedia"
  by (simp add: isSafeArtifactPath_def hasUnsafeWindowsPathSyntax_def artifactRoot_def normalizedAbsolutePath_def
      isStrictChildPath_def pathEquals_def startsWith_def unsafe_parent_def sample_files_def trimmed_def ascii_def)

lemma sample_path: "normalizedAbsolutePath ascii sample_files (lit ''/r/a'') = lit ''/r/a''"
    "fs_exists sample_files (lit ''/r/a'')" "fs_windows sample_files = False"
  by (simp_all add: normalizedAbsolutePath_def sample_files_def trimmed_def ascii_def)

lemmas sample_media = sample_safe[simplified] sample_path[simplified]

lemma sample_deletes: "fst sample_deletion = Inr ()"
  by (simp add: permanentlyDelete_def ensureNoActiveExecutionLease_def enqueueArtifactDeletions_def
      deletion_candidates_def pathsAreProvablyDistinct_def normalizedAbsolutePath_def[of _ _ "[]"] find_row_def
      delete_recordings_def delete_jobs_def removeEntry_def insert_pending_def sample_library_def
      sample_tables_def sample_row_def db_eval sample_media Let_def)


subsection \<open>Which files are removed\<close>

text \<open>
  \<open>runs d m Q\<close>: started on the tables \<open>d\<close>, \<open>m\<close> ends in tables with \<open>Q\<close>, whether it succeeds or not.
\<close>

definition runs :: "'d \<Rightarrow> ('d, 'a) dbop \<Rightarrow> ('d \<Rightarrow> bool) \<Rightarrow> bool" where
  "runs d m Q \<longleftrightarrow> (\<forall>c. cn_db c = d \<longrightarrow> Q (cn_db (snd (m c))))"

named_theorems outcomes \<open>rules that follow an operation through success and failure\<close>

lemma runsI: "(\<And>c r c'. m c = (r, c') \<Longrightarrow> cn_db c = d \<Longrightarrow> Q (cn_db c')) \<Longrightarrow> runs d m Q"
  unfolding runs_def by (metis prod.collapse)

lemma runsD: "runs d m Q \<Longrightarrow> m c = (r, c') \<Longrightarrow> cn_db c = d \<Longrightarrow> Q (cn_db c')"
  unfolding runs_def by (metis snd_conv)

lemma and_then_cases:
  assumes "and_then m f c = (r, c')"
  obtains e where "m c = (Inl e, c')" | x c1 where "m c = (Inr x, c1)" "f x c1 = (r, c')"
  using assms by (auto simp: and_then_def split: prod.splits sum.splits)

lemma runs_reads:
  assumes "reads_only m" "Q d" "\<And>x. runs d (f x) Q"
  shows "runs d (and_then m f) Q"
proof (rule runsI)
  fix c r c' assume a: "and_then m f c = (r, c')" "cn_db c = d"
  have same: "cn_db (snd (m c)) = d" using assms(1) a(2) by (simp add: reads_only_def)
  from a(1) show "Q (cn_db c')"
  proof (rule and_then_cases)
    show ?thesis if "m c = (Inl e, c')" for e using same that assms(2) by simp
    show ?thesis if "m c = (Inr x, c1)" "f x c1 = (r, c')" for x c1
      using same that runsD[OF assms(3)] by simp
  qed
qed

lemma runs_select [outcomes]:
  assumes "Q d" "runs d (f (g d)) Q"
  shows "runs d (and_then (select g) f) Q"
proof (rule runsI)
  fix c r c' assume a: "and_then (select g) f c = (r, c')" "cn_db c = d"
  from a(1) show "Q (cn_db c')"
  proof (rule and_then_cases)
    show ?thesis if "select g c = (Inl e, c')" for e using select_failure[OF that] a(2) assms(1) by simp
    show ?thesis if "select g c = (Inr x, c1)" "f x c1 = (r, c')" for x c1
      using selectD[OF that(1)] that(2) a(2) runsD[OF assms(2)] by simp
  qed
qed

lemma runs_basic [outcomes]:
  "(\<And>t. runs d (f t) Q) \<Longrightarrow> runs d (and_then clock f) Q"
  "runs d (h (g d)) Q \<Longrightarrow> runs d (and_then (look g) h) Q"
  "Q d \<Longrightarrow> runs d (succeed x) Q" "Q d \<Longrightarrow> runs d (validation e) Q"
  by (auto simp: runs_def and_then_def clock_def look_def succeed_def validation_def fail_def)

lemma runs_connection [outcomes]: "Q d \<Longrightarrow> runs d (f ()) Q \<Longrightarrow> runs d (and_then connection f) Q"
  by (rule runs_reads[OF reads_only_connection]) simp_all

lemma runs_if [outcomes]:
  "(b \<Longrightarrow> runs d m Q) \<Longrightarrow> (\<not> b \<Longrightarrow> runs d n Q) \<Longrightarrow> runs d (if b then m else n) Q"
  by simp

lemma runs_option [outcomes]:
  "(v = None \<Longrightarrow> runs d m Q) \<Longrightarrow> (\<And>x. v = Some x \<Longrightarrow> runs d (f x) Q)
   \<Longrightarrow> runs d (case v of None \<Rightarrow> m | Some x \<Rightarrow> f x) Q"
  by (cases v) simp_all

lemma runs_modify [outcomes]:
  assumes "Q d" "Q (g d)"
  shows "runs d (and_then (modify g) (\<lambda>_. succeed x)) Q"
proof (rule runsI)
  fix c r c' assume a: "and_then (modify g) (\<lambda>_. succeed x) c = (r, c')" "cn_db c = d"
  from a(1) show "Q (cn_db c')"
  proof (rule and_then_cases)
    show ?thesis if "modify g c = (Inl e, c')" for e
      using that a(2) assms(1) unfolding modify_def exec_def by (auto dest: exec_as_failure)
    show ?thesis if "modify g c = (Inr y, c1)" "succeed x c1 = (r, c')" for y c1
      using modifyD[OF that(1)] that(2) a(2) assms(2) by (simp add: succeed_def)
  qed
qed

lemma runs_remove [outcomes]:
  "(\<And>a fs. remover p k (lb_files d) = (a, fs) \<Longrightarrow> runs (d\<lparr>lb_files := fs\<rparr>) (f a) Q) \<Longrightarrow>
   runs d (and_then (remove_file remover p k) f) Q"
  by (auto simp: runs_def and_then_def remove_file_def split: prod.splits)

lemma runs_transaction:
  assumes "runs d m Q" "Q d" "\<And>e. Q e \<Longrightarrow> Q (d\<lparr>lb_files := lb_files e\<rparr>)"
  shows "runs d (libraryTransaction m) Q"
proof -
  let ?m = "and_then m (\<lambda>x. and_then statement (\<lambda>_. succeed x))"
  have inner: "runs d ?m Q"
  proof (rule runsI)
    fix c r c' assume a: "?m c = (r, c')" "cn_db c = d"
    from a(1) show "Q (cn_db c')"
    proof (rule and_then_cases)
      show ?thesis if "m c = (Inl e, c')" for e using runsD[OF assms(1) that a(2)] .
      show ?thesis if m: "m c = (Inr x, c1)" "and_then statement (\<lambda>_. succeed x) c1 = (r, c')" for x c1
      proof -
        have "Q (cn_db c1)" using runsD[OF assms(1) m(1) a(2)] .
        then have "runs (cn_db c1) (and_then statement (\<lambda>_. succeed x)) Q"
          unfolding statement_def by (intro outcomes)
        from runsD[OF this m(2)] show ?thesis by simp
      qed
    qed
  qed
  have body: "runs d (library_rolled_back ?m) Q"
  proof (rule runsI)
    fix c r c' assume a: "library_rolled_back ?m c = (r, c')" "cn_db c = d"
    obtain r1 c1 where m: "?m c = (r1, c1)" by fastforce
    have "Q (cn_db c1)" using runsD[OF inner m a(2)] .
    then show "Q (cn_db c')"
      using a m assms(3) by (cases r1) (auto simp: library_rolled_back_def)
  qed
  show ?thesis
    unfolding libraryTransaction_def
    by (intro runs_connection runs_reads[OF reads_only_statement] body assms(2))
qed

text \<open>
  One removal: the path of a queued entry, which passes the checks in the file system as it is then
  and is no file any recording refers to.
\<close>

definition may_remove :: "unicode \<Rightarrow> library \<Rightarrow> file_system \<Rightarrow> qstring \<Rightarrow> artifact_kind \<Rightarrow> bool" where
  "may_remove uc d fs path kind \<longleftrightarrow>
     (\<exists>p \<in> set (lb_pending d). pd_path p = path \<and> pd_kind p = kind)
     \<and> isSafeArtifactPath uc fs path kind \<and> (fs_exists fs path \<or> fs_isSymLink fs path)
     \<and> (\<forall>r \<in> set (lb_rows d). \<forall>q \<in> set (row_paths r). \<not> pathsEquivalent uc fs path q)"

inductive removals :: "unicode \<Rightarrow> file_remover \<Rightarrow> library \<Rightarrow> file_system \<Rightarrow> file_system \<Rightarrow> bool" for uc remover d where
  no_removal: "removals uc remover d fs fs"
| removal: "may_remove uc d fs path kind \<Longrightarrow> removals uc remover d (snd (remover path kind fs)) fs' \<Longrightarrow>
     removals uc remover d fs fs'"

inductive_cases removals_cases: "removals uc remover d fs fs'"

lemma removals_trans:
  "removals uc remover d a b \<Longrightarrow> removals uc remover d b c \<Longrightarrow> removals uc remover d a c"
  by (induction rule: removals.induct) (auto intro: removals.intros)

definition pending_paths :: "library \<Rightarrow> (qstring \<times> artifact_kind) set" where
  "pending_paths d = (\<lambda>p. (pd_path p, pd_kind p)) ` set (lb_pending d)"

definition drained :: "unicode \<Rightarrow> file_remover \<Rightarrow> library \<Rightarrow> library \<Rightarrow> bool" where
  "drained uc remover d e \<longleftrightarrow> removals uc remover d (lb_files d) (lb_files e) \<and> lb_rows e = lb_rows d
     \<and> pending_paths e \<subseteq> pending_paths d"

lemma removals_mono:
  "removals uc remover e a b \<Longrightarrow> lb_rows e = lb_rows d \<Longrightarrow> pending_paths e \<subseteq> pending_paths d \<Longrightarrow>
   removals uc remover d a b"
proof (induction rule: removals.induct)
  case (removal fs path kind fs')
  have "(path, kind) \<in> pending_paths d"
    using removal.hyps(1) removal.prems(2) unfolding may_remove_def pending_paths_def by fast
  then have "may_remove uc d fs path kind"
    using removal.hyps(1) removal.prems(1) unfolding may_remove_def pending_paths_def by auto
  then show ?case using removal by (auto intro: removals.removal)
qed (rule no_removal)

lemma drained_refl: "drained uc remover d d"
  by (simp add: drained_def no_removal)

lemma drained_trans:
  assumes "drained uc remover d e" "drained uc remover e f"
  shows "drained uc remover d f"
proof -
  have "removals uc remover d (lb_files e) (lb_files f)"
    by (rule removals_mono[of uc remover e]) (use assms in \<open>simp_all add: drained_def\<close>)
  moreover have "removals uc remover d (lb_files d) (lb_files e)" using assms(1) by (simp add: drained_def)
  ultimately have "removals uc remover d (lb_files d) (lb_files f)" by (rule removals_trans[rotated])
  moreover have "pending_paths f \<subseteq> pending_paths d" "lb_rows f = lb_rows d"
    using assms by (auto simp: drained_def)
  ultimately show ?thesis by (simp add: drained_def)
qed

lemma drained_files: "drained uc remover d e \<Longrightarrow> drained uc remover d (d\<lparr>lb_files := lb_files e\<rparr>)"
  by (simp add: drained_def pending_paths_def)

lemma drained_acknowledge: "drained uc remover d e \<Longrightarrow> runs e (acknowledge i r) (drained uc remover d)"
  unfolding acknowledge_def
  by (intro outcomes) (auto simp: drained_def delete_pending_def pending_paths_def intro!: removals_mono)

lemma drained_retry: "drained uc remover d e \<Longrightarrow> runs e (retry_later row msg r) (drained uc remover d)"
  unfolding retry_later_def
  by (intro outcomes) (force simp: drained_def update_pending_def pending_paths_def image_iff)+

lemma drained_removal:
  assumes "find (\<lambda>p. pd_id p = i \<and> pd_nextAttemptAt p \<le> now) (lb_pending d) = Some row"
    "isSafeArtifactPath uc (lb_files d) (pd_path row) (pd_kind row)"
    "fs_exists (lb_files d) (pd_path row) \<or> fs_isSymLink (lb_files d) (pd_path row)"
    "\<not> list_ex (\<lambda>r. list_ex (pathsEquivalent uc (lb_files d) (pd_path row)) (row_paths r)) (lb_rows d)"
    "remover (pd_path row) (pd_kind row) (lb_files d) = (a, fs)"
  shows "drained uc remover d (d\<lparr>lb_files := fs\<rparr>)"
proof -
  have "row \<in> set (lb_pending d)" using assms(1) by (auto simp: find_Some_iff)
  then have "may_remove uc d (lb_files d) (pd_path row) (pd_kind row)"
    using assms(2-4) unfolding may_remove_def list_ex_iff by blast
  from removals.removal[OF this, of remover fs] assms(5) show ?thesis
    by (simp add: drained_def pending_paths_def no_removal)
qed

lemma processPending_drained: "runs d (processPending uc remover i) (drained uc remover d)"
proof -
  have remove: "runs d (remove_pending_file uc remover row) (drained uc remover d)"
    if "find (\<lambda>p. pd_id p = i \<and> pd_nextAttemptAt p \<le> now) (lb_pending d) = Some row"
      "isSafeArtifactPath uc (lb_files d) (pd_path row) (pd_kind row)"
      "fs_exists (lb_files d) (pd_path row) \<or> fs_isSymLink (lb_files d) (pd_path row)"
      "\<not> list_ex (\<lambda>r. list_ex (pathsEquivalent uc (lb_files d) (pd_path row)) (row_paths r)) (lb_rows d)"
    for now row
    unfolding remove_pending_file_def
    by (intro runs_remove runs_option drained_acknowledge drained_retry drained_removal[OF that])
  show ?thesis
    unfolding processPending_def pathIsReferenced_def
    by (intro outcomes drained_refl drained_acknowledge drained_retry remove) auto
qed

lemma drain_entries_drained: "runs d (drain_entries uc remover rp ids) (drained uc remover d)"
proof (induction ids arbitrary: d rp)
  case Nil
  show ?case by (simp add: outcomes drained_refl)
next
  case (Cons i ids)
  show ?case
  proof (rule runsI)
    fix c r c' assume a: "drain_entries uc remover rp (i # ids) c = (r, c')" "cn_db c = d"
    have step: "runs d (libraryTransaction (processPending uc remover i)) (drained uc remover d)"
      by (intro runs_transaction processPending_drained drained_refl drained_files)
    from a(1)[unfolded drain_entries.simps] show "drained uc remover d (cn_db c')"
    proof (rule and_then_cases)
      show ?thesis if "libraryTransaction (processPending uc remover i) c = (Inl e, c')" for e
        using runsD[OF step that a(2)] .
      show ?thesis if m: "libraryTransaction (processPending uc remover i) c = (Inr x, c1)"
        "drain_entries uc remover (count_outcome x rp) ids c1 = (r, c')" for x c1
        using drained_trans[OF runsD[OF step m(1) a(2)] runsD[OF Cons.IH m(2) refl]] .
    qed
  qed
qed

text \<open>
  C11: Emptying the queue of deletions changes the file system only by removing, one at a time, files
  that are queued, pass the path checks at that moment and are referred to by no recording, whether
  it succeeds or not; no recording changes and nothing is added to the queue.
\<close>

theorem removed_files_are_safe:
  "drained uc remover (cn_db c) (cn_db (snd (drainPendingArtifactDeletions uc remover i c)))"
proof -
  have "runs (cn_db c) (drainPendingArtifactDeletions uc remover i) (drained uc remover (cn_db c))"
    unfolding drainPendingArtifactDeletions_def
    by (intro outcomes drained_refl drain_entries_drained)
  then show ?thesis by (simp add: runs_def)
qed

subsection \<open>What a worker may change\<close>

text \<open>The columns a user edits.\<close>

definition user_columns :: "library_row \<Rightarrow> qstring list \<times> int option \<times> int option" where
  "user_columns r = ([lr_title r, lr_sourcePath r, lr_managedMediaPath r, lr_notes r, lr_reviewState r],
     lr_createdAt r, lr_deletedAt r)"

lemma update_recordings_rows:
  "update_recordings P f g d = Some (n, e) \<Longrightarrow> lb_rows e = map (\<lambda>r. if P r then f r else r) (lb_rows d)
     \<and> db_jobs (lb_jobs e) = db_jobs (lb_jobs d) \<and> db_segments (lb_jobs e) = db_segments (lb_jobs d)
     \<and> lb_tags e = lb_tags d \<and> lb_recordingTags e = lb_recordingTags d \<and> lb_search e = lb_search d
     \<and> lb_fts e = lb_fts d \<and> lb_pending e = lb_pending d \<and> lb_files e = lb_files d \<and> lb_hasFts5 e = lb_hasFts5 d
     \<and> n = length (filter P (lb_rows d))"
  by (auto simp: update_recordings_def Let_def split: if_splits)

text \<open>
  C13: A worker, which presents the token of its lease, can change of a recording only what it derives
  from the media: the title, the source, the managed copy, the notes, the review state and the dates
  stay as they are, and so do all other recordings, the tags and the search index.
\<close>

theorem worker_changes_derived_columns:
  assumes "updateRecording uc uuid given jobId token c = (Inr u, c')" "token \<noteq> []"
  shows "map (\<lambda>r. (lr_id r, user_columns r)) (lb_rows (cn_db c')) = map (\<lambda>r. (lr_id r, user_columns r)) (lb_rows (cn_db c))
    \<and> filter (\<lambda>r. lr_id r \<noteq> lr_id given) (lb_rows (cn_db c')) = filter (\<lambda>r. lr_id r \<noteq> lr_id given) (lb_rows (cn_db c))
    \<and> lb_recordingTags (cn_db c') = lb_recordingTags (cn_db c) \<and> lb_search (cn_db c') = lb_search (cn_db c)
    \<and> (\<exists>j \<in> set (db_jobs (lb_jobs (cn_db c))). tj_id j = jobId \<and> tj_recordingId j = lr_id given)
    \<and> db_jobs (lb_jobs (cn_db c')) = db_jobs (lb_jobs (cn_db c))"
proof -
  let ?f = "replace_derived (columns_of given)"
  let ?Q = "\<lambda>d e. lb_rows e = map (\<lambda>r. if lr_id r = lr_id given then ?f r else r) (lb_rows d)
    \<and> lb_recordingTags e = lb_recordingTags d \<and> lb_search e = lb_search d \<and> db_jobs (lb_jobs e) = db_jobs (lb_jobs d)
    \<and> list_ex (\<lambda>j. tj_id j = jobId \<and> tj_recordingId j = lr_id given) (db_jobs (lb_jobs d))"
  have "reaches d (updateDerivedFields uc jobId given) (\<lambda>_. ?Q d)" for d
  proof -
    have job: "reaches d (ensureJobBelongsToRecording jobId (lr_id given)) (\<lambda>_ e. e = d
        \<and> list_ex (\<lambda>j. tj_id j = jobId \<and> tj_recordingId j = lr_id given) (db_jobs (lb_jobs d)))"
      unfolding ensureJobBelongsToRecording_def by (intro forward) simp
    show ?thesis
      unfolding updateDerivedFields_def
      by (rule reaches_and_then[OF job], elim conjE, simp only:, intro reaches_checks reaches_update_row_last)
        (auto dest!: update_recordings_rows)
  qed
  then have "reaches (cn_db c) (updateRecording uc uuid given jobId token) (\<lambda>_. ?Q (cn_db c))"
    using assms(2) unfolding updateRecording_def by (simp add: forward)
  from reachesD[OF this assms(1)]
  have rows: "lb_rows (cn_db c') = map (\<lambda>r. if lr_id r = lr_id given then ?f r else r) (lb_rows (cn_db c))"
    and rest: "lb_recordingTags (cn_db c') = lb_recordingTags (cn_db c)" "lb_search (cn_db c') = lb_search (cn_db c)"
    "db_jobs (lb_jobs (cn_db c')) = db_jobs (lb_jobs (cn_db c))"
    "list_ex (\<lambda>j. tj_id j = jobId \<and> tj_recordingId j = lr_id given) (db_jobs (lb_jobs (cn_db c)))"
    by blast+
  have same: "user_columns (?f r) = user_columns r" "lr_id (?f r) = lr_id r" for r
    by (simp_all add: user_columns_def replace_derived_def)
  have "filter (\<lambda>r. lr_id r \<noteq> lr_id given) (map (\<lambda>r. if lr_id r = lr_id given then ?f r else r) rs)
      = filter (\<lambda>r. lr_id r \<noteq> lr_id given) rs" for rs
    by (induction rs) (auto simp: same)
  then show ?thesis using rest by (auto simp: rows same list_ex_iff)
qed

subsection \<open>Trash\<close>

text \<open>
  Moving a recording to the trash and restoring it gives back the library as it was: the row, its
  tags, jobs, transcripts and search entry; in between no page of live recordings shows it.
\<close>

theorem trash_and_restore:
  assumes "moveToTrash i c = (Inr u, c1)" "restoreRecording i c1 = (Inr v, c2)"
    and "r \<in> set (lb_rows (cn_db c))" "lr_id r = i" "lr_deletedAt r = None" "library_ok (cn_db c)"
  shows "lb_rows (cn_db c2) = lb_rows (cn_db c)
    \<and> lb_recordingTags (cn_db c2) = lb_recordingTags (cn_db c) \<and> lb_search (cn_db c2) = lb_search (cn_db c)
    \<and> db_jobs (lb_jobs (cn_db c2)) = db_jobs (lb_jobs (cn_db c))
    \<and> db_segments (lb_jobs (cn_db c2)) = db_segments (lb_jobs (cn_db c))
    \<and> (\<forall>request. \<not> rq_deletedOnly request \<longrightarrow> \<not> rq_includeDeleted request \<longrightarrow>
         i \<notin> lr_id ` set (listed_recordings uc request (cn_db c1)))"
proof -
  let ?trash = "\<lambda>t r. if lr_id r = i \<and> lr_deletedAt r = None then r\<lparr>lr_deletedAt := Some t\<rparr> else r"
  let ?restore = "\<lambda>r. if lr_id r = i \<and> lr_deletedAt r \<noteq> None then r\<lparr>lr_deletedAt := None\<rparr> else r"
  let ?same = "\<lambda>d e. lb_recordingTags e = lb_recordingTags d \<and> lb_search e = lb_search d
    \<and> db_jobs (lb_jobs e) = db_jobs (lb_jobs d) \<and> db_segments (lb_jobs e) = db_segments (lb_jobs d)"
  have "reaches d (moveToTrash i) (\<lambda>_ e. (\<exists>t. lb_rows e = map (?trash t) (lb_rows d)) \<and> ?same d e)" for d
    unfolding moveToTrash_def by (intro forward) (auto dest!: update_recordings_rows)
  from reachesD[OF this assms(1)] obtain t where
    trashed: "lb_rows (cn_db c1) = map (?trash t) (lb_rows (cn_db c))" "?same (cn_db c) (cn_db c1)"
    by blast
  have "reaches d (restoreRecording i) (\<lambda>_ e. lb_rows e = map ?restore (lb_rows d) \<and> ?same d e)" for d
    unfolding restoreRecording_def by (intro forward) (auto dest!: update_recordings_rows)
  from reachesD[OF this assms(2)]
  have restored: "lb_rows (cn_db c2) = map ?restore (lb_rows (cn_db c1))" "?same (cn_db c1) (cn_db c2)"
    by blast+
  have "distinct (map lr_id (lb_rows (cn_db c)))" using assms(6) by (simp add: library_with_def store_ok_base db_ok_recordings(1))
  then have only: "x = r" if "x \<in> set (lb_rows (cn_db c))" "lr_id x = i" for x
    using that assms(3,4) by (auto simp: distinct_map dest: inj_onD)
  have "?restore (?trash t x) = x" if "x \<in> set (lb_rows (cn_db c))" for x
    using only[OF that] assms(5) by auto
  then have "lb_rows (cn_db c2) = lb_rows (cn_db c)"
    by (simp add: restored(1) trashed(1) map_idI)
  moreover have "i \<notin> lr_id ` set (listed_recordings uc request (cn_db c1))"
    if live: "\<not> rq_deletedOnly request" "\<not> rq_includeDeleted request" for request
  proof
    assume "i \<in> lr_id ` set (listed_recordings uc request (cn_db c1))"
    then obtain x where x: "x \<in> set (lb_rows (cn_db c1))" "lr_id x = i" "listed uc (cn_db c1) request x"
      by (auto simp: listed_recordings_def)
    have "lr_deletedAt x = None" using x(3) live by (simp add: listed_def)
    obtain y where y: "y \<in> set (lb_rows (cn_db c))" "x = ?trash t y" using x(1) trashed(1) by auto
    show False using \<open>lr_deletedAt x = None\<close> x(2) y(2) by (cases "lr_id y = i \<and> lr_deletedAt y = None") auto
  qed
  ultimately show ?thesis using trashed(2) restored(2) by simp
qed

subsection \<open>The search index\<close>

definition current_in :: "string \<Rightarrow> library \<Rightarrow> search_row list \<Rightarrow> bool" where
  "current_in i d entries \<longleftrightarrow> filter (\<lambda>s. sx_recordingId s = i) entries
     = (case search_content i d of Some s \<Rightarrow> [s] | None \<Rightarrow> [])"

definition entry_current :: "string \<Rightarrow> library \<Rightarrow> bool" where
  "entry_current i d \<longleftrightarrow> current_in i d (lb_search d)
     \<and> (lb_hasFts5 d \<longrightarrow> (case lb_fts d of Some entries \<Rightarrow> current_in i d entries | None \<Rightarrow> False))"

lemma search_content_frame [frame_simps]:
  "search_content i (d\<lparr>lb_search := s\<rparr>) = search_content i d" "search_content i (d\<lparr>lb_fts := e\<rparr>) = search_content i d"
  by (simp_all add: search_content_def find_row_def recording_tag_names_def active_segments_def find_queue_row_def
      split: option.split)

text \<open>
  \<open>rebuildEntry\<close> of one recording makes its entry current and leaves those of the others as they are.
\<close>

definition fresh_entry :: "string \<Rightarrow> library \<Rightarrow> bool" where
  "fresh_entry i d \<longleftrightarrow> (i \<in> lr_id ` set (lb_rows d) \<longrightarrow> entry_current i d)"

lemma search_content_id: "search_content i d = Some s \<Longrightarrow> sx_recordingId s = i"
  by (auto simp: search_content_def find_row_def find_Some_iff)

lemma without_entry_filter:
  "filter (\<lambda>s. sx_recordingId s = i) (without_entry j es)
   = (if i = j then [] else filter (\<lambda>s. sx_recordingId s = i) es)"
  by (auto simp: without_entry_def intro!: filter_cong)

lemma current_in_rebuilt:
  assumes "search_content j d = Some s" "search_content i e = search_content i d" "i = j \<or> current_in i d es"
  shows "current_in i e (without_entry j es @ [s])"
  using assms search_content_id[OF assms(1)] by (cases "i = j") (auto simp: current_in_def without_entry_filter)

definition rebuilt_entry :: "string \<Rightarrow> library \<Rightarrow> search_row \<Rightarrow> library" where
  "rebuilt_entry j d s = d\<lparr>lb_search := without_entry j (lb_search d) @ [s],
     lb_fts := (if lb_hasFts5 d then map_option (\<lambda>es. without_entry j es @ [s]) (lb_fts d) else lb_fts d)\<rparr>"

lemma rebuildEntry_exact:
  "reaches d (rebuildEntry j) (\<lambda>_ e. case search_content j d of None \<Rightarrow> e = d
     | Some s \<Rightarrow> e = rebuilt_entry j d s \<and> (lb_hasFts5 d \<longrightarrow> lb_fts d \<noteq> None))"
proof (cases "search_content j d")
  case None
  then show ?thesis unfolding rebuildEntry_def by (simp add: reaches_select reaches_last)
next
  case (Some s)
  then show ?thesis
    unfolding rebuildEntry_def
    by (intro reaches_select)
      (auto intro!: reaches_modify reaches_exec reaches_look reaches_last simp: insert_search_def update_fts_def rebuilt_entry_def split: if_splits)
qed

lemma rebuildEntry_reaches:
  "reaches d (rebuildEntry j) (\<lambda>_ e. i = j \<or> fresh_entry i d \<longrightarrow> fresh_entry i e)"
proof (rule reaches_weaken[OF rebuildEntry_exact], intro impI)
  fix e
  assume e: "case search_content j d of None \<Rightarrow> e = d
     | Some s \<Rightarrow> e = rebuilt_entry j d s \<and> (lb_hasFts5 d \<longrightarrow> lb_fts d \<noteq> None)"
    and i: "i = j \<or> fresh_entry i d"
  show "fresh_entry i e"
  proof (cases "search_content j d")
    case None
    then have "fresh_entry j d" by (auto simp: fresh_entry_def search_content_def find_row_def find_None_iff)
    then show ?thesis using e i None by auto
  next
    case (Some s)
    have e: "e = rebuilt_entry j d s" "lb_hasFts5 d \<longrightarrow> lb_fts d \<noteq> None" using e Some by simp_all
    have same: "search_content i e = search_content i d" by (simp add: e(1) rebuilt_entry_def frame_simps)
    show ?thesis
    proof (cases "i \<in> lr_id ` set (lb_rows d)")
      case False
      then show ?thesis by (simp add: fresh_entry_def e(1) rebuilt_entry_def)
    next
      case True
      then have i: "i = j \<or> entry_current i d" using i by (simp add: fresh_entry_def)
      then have "current_in i e (without_entry j (lb_search d) @ [s])"
        by (intro current_in_rebuilt[OF Some same]) (auto simp: entry_current_def)
      moreover have "current_in i e (without_entry j es @ [s])" if "lb_hasFts5 d" "lb_fts d = Some es" for es
        using i that by (intro current_in_rebuilt[OF Some same]) (auto simp: entry_current_def)
      ultimately show ?thesis
        using e(2) by (auto simp: fresh_entry_def entry_current_def e(1) rebuilt_entry_def)
    qed
  qed
qed

lemma rebuilt [forward]:
  "reaches d (rebuildEntry i) (\<lambda>_. fresh_entry i)" "reaches d (rebuildRecordingEntry i) (\<lambda>_. fresh_entry i)"
  unfolding rebuildRecordingEntry_def
  by (intro reaches_transaction reaches_weaken[OF rebuildEntry_reaches], blast)+

lemma rebuilt_lists:
  "reaches d (rebuild_each ids) (\<lambda>_ e. i \<in> set ids \<or> fresh_entry i d \<longrightarrow> fresh_entry i e)"
  "reaches d (rebuild_entries ids) (\<lambda>_ e. i \<in> set ids \<or> fresh_entry i d \<longrightarrow> fresh_entry i e)"
proof (induction ids arbitrary: d)
  case (Cons j ids)
  have one: "reaches d (rebuildRecordingEntry j) (\<lambda>_ e. i = j \<or> fresh_entry i d \<longrightarrow> fresh_entry i e)" for d
    unfolding rebuildRecordingEntry_def by (intro reaches_transaction rebuildEntry_reaches)
  {
    case 1
    show ?case
      unfolding rebuild_each.simps
      by (rule reaches_and_then[OF rebuildEntry_reaches[of d j i]], rule reaches_weaken[OF Cons.IH(1)]) auto
  }
  {
    case 2
    show ?case
      unfolding rebuild_entries.simps by (rule reaches_and_then[OF one[of d]], rule reaches_weaken[OF Cons.IH(2)]) auto
  }
qed (simp_all add: forward)

lemma reaches_tail: "(\<And>x e. reaches e (f x) Q) \<Longrightarrow> reaches d (and_then m f) Q"
  by (rule reaches_and_then[where R = "\<lambda>_ _. True"]) (simp_all add: reaches_def achieves_def)

text \<open>
  The recordings whose entry an operation rebuilds: those whose title, notes or tags it writes, and
  those whose transcript it writes, activates or removes.
\<close>

fun refreshed :: "library_op \<Rightarrow> library \<Rightarrow> string list" where
  "refreshed (CreateRecording uuid r) d = [if lr_id r = [] then uuid 0 else lr_id r]"
| "refreshed (UpdateRecording uuid r j ow) d = (if ow = [] then [lr_id r] else [])"
| "refreshed (UpdateTitle i t) d = [i]"
| "refreshed (UpdateNotes i t) d = [i]"
| "refreshed (SetTags uuid i tags) d = [i]"
| "refreshed (SetActiveTranscript i j) d = [i]"
| "refreshed (RebuildEntry i) d = [i]"
| "refreshed RebuildAll d = map lr_id (lb_rows d)"
| "refreshed (OnStore op) d = reindexed op (lb_jobs d)"
| "refreshed _ d = []"

lemma refreshed_fresh:
  assumes "apply_library uc op c = (Inr u, c')" "i \<in> set (refreshed op (cn_db c))"
  shows "fresh_entry i (cn_db c')"
proof -
  have metadata: "reaches d (updateMetadataColumn i f True) (\<lambda>_. fresh_entry i)" for d f
    unfolding updateMetadataColumn_def by (intro reaches_if forward reaches_tail) (simp_all add: forward)
  have one: "fresh_entry i (cn_db c')" if "reaches (cn_db c) (apply_library uc op) (\<lambda>_. fresh_entry i)"
    using reachesD[OF that assms(1)] .
  show ?thesis
  proof (cases op)
    case (CreateRecording uuid r)
    have "reaches d (createRecording uc uuid r) (\<lambda>_. fresh_entry i)" for d
      using assms(2) unfolding CreateRecording createRecording_def Let_def
      by (intro reaches_if reaches_last reaches_clock reaches_transaction reaches_tail) (simp add: rebuilt)
    then show ?thesis using one CreateRecording by simp
  next
    case (UpdateRecording uuid r j ow)
    then have i: "ow = []" "i = lr_id r" using assms(2) by (simp_all split: if_splits)
    have "reaches d (updateAllFields uc uuid r) (\<lambda>_. fresh_entry i)" for d
      unfolding updateAllFields_def i by (intro reaches_tail rebuilt)
    then have "reaches d (updateRecording uc uuid r j ow) (\<lambda>_. fresh_entry i)" for d
      unfolding updateRecording_def i(1) by (simp add: forward)
    then show ?thesis using one UpdateRecording by simp
  next
    case (UpdateTitle k t)
    then show ?thesis using one assms(2) metadata by (simp add: updateTitle_def forward)
  next
    case (UpdateNotes k t)
    then show ?thesis using one assms(2) metadata by (simp add: updateNotes_def)
  next
    case (SetTags uuid k tags)
    have "reaches d (setTags uc uuid i tags) (\<lambda>_. fresh_entry i)" for d
      unfolding setTags_def by (intro reaches_transaction reaches_tail rebuilt)
    then show ?thesis using one assms(2) SetTags by simp
  next
    case (SetActiveTranscript k j)
    have "reaches d (setActiveTranscriptJob i j) (\<lambda>_. fresh_entry i)" for d
      unfolding setActiveTranscriptJob_def by (intro forward)
    then show ?thesis using one assms(2) SetActiveTranscript by simp
  next
    case (RebuildEntry k)
    then show ?thesis using one assms(2) by (simp add: rebuilt)
  next
    case RebuildAll
    have "reaches d rebuildAll (\<lambda>_ e. i \<in> lr_id ` set (lb_rows d) \<longrightarrow> fresh_entry i e)" for d
      unfolding rebuildAll_def by (intro forward reaches_weaken[OF rebuilt_lists(2)[where i = i]]) auto
    then show ?thesis using reachesD[of c rebuildAll] assms RebuildAll by fastforce
  next
    case (OnStore m)
    then have run: "rebuilding (apply_store m) (reindexed m) c = (Inr u, c')" using assms(1) by simp
    show ?thesis
    proof (cases "apply_store m" "reindexed m" c rule: rebuilding_cases)
      case (failed e c' fs)
      then show ?thesis using run by simp
    next
      case (succeeded c1 c2)
      then show ?thesis
        using reachesD[OF rebuilt_lists(1)[where i = i] succeeded(2)] run assms(2) OnStore by simp
    qed
  qed (use assms(2) in simp_all)
qed


subsection \<open>Examples\<close>

definition sample_live :: library where
  "sample_live = sample_library\<lparr>lb_rows := [sample_row\<lparr>lr_deletedAt := None\<rparr>], lb_jobs := sample_running\<rparr>"

definition sample_recording :: recording where
  "sample_recording = \<lparr>lr_id = ''r'', lr_title = lit ''Talk'', lr_sourcePath = [], lr_managedMediaPath = [],
     lr_normalizedPcmPath = [], lr_sourceHash = lit ''ab'', lr_mediaType = [], lr_durationMs = 2000, lr_sampleRate = 16000,
     lr_channelCount = 1, lr_waveformPath = [], lr_createdAt = None, lr_deletedAt = None, lr_notes = [],
     lr_reviewState = [], rg_updatedAt = None, rg_activeJobId = [], rg_tags = [], rg_latestJobState = None,
     rg_latestJobModelId = [], rg_latestJobProgress = 0\<rparr>"

text \<open>A run with a recording that is created with an active transcript that does not exist.\<close>

abbreviation sample_ops :: "library_op list" where
  "sample_ops \<equiv> [RestoreRecording ''r'', OnStore (OnJobs (CreateJob ''u'' sample_job)),
     SetTags sample_uuid ''r'' [lit ''home''],
     CreateRecording sample_uuid (sample_recording\<lparr>lr_id := ''q'', rg_activeJobId := ''missing''\<rparr>),
     MoveToTrash ''r'', PermanentlyDelete sample_uuid ''r'']"

lemma library_invariant_witness:
  "distinct (map lr_id (lb_rows (cn_db (run_library ascii (at_time 5 sample_library) sample_ops))))
   \<and> length (filter (\<lambda>j. isRunning (tj_state j)) (db_jobs (lb_jobs (cn_db (run_library ascii (at_time 5 sample_library) sample_ops))))) \<le> 1"
proof -
  have "library_ok (cn_db (at_time 5 sample_library))" by (simp add: at_time_def sample_library_ok)
  from library_invariant[OF this refl, of ascii sample_ops] show ?thesis by (elim conjE) (intro conjI; assumption)
qed

lemmas sample_defs = sample_live_def sample_library_def sample_row_def sample_tables_def sample_running_def
  sample_job_def sample_recording_def

abbreviation sample_work :: "unit result \<times> library connection" where
  "sample_work \<equiv> updateRecording ascii sample_uuid sample_recording ''j'' ''w'' (at_time 5 sample_live)"

lemma sample_work_done: "fst sample_work = Inr ()"
  by (simp add: updateRecording_def blank_def white_char_def libraryLeaseTransaction_def updateDerivedFields_def
      ensureJobBelongsToRecording_def ensureNewManagedReferencesExist_def reference_ok_def update_row_def
      update_recordings_def replace_derived_def row_checks_def columns_of_def library_row.defs existing_references_def
      find_row_def row_paths_def sample_defs db_eval)

lemma worker_changes_derived_columns_witness:
  "map (\<lambda>r. (lr_id r, user_columns r)) (lb_rows (cn_db (snd sample_work)))
     = map (\<lambda>r. (lr_id r, user_columns r)) (lb_rows (cn_db (at_time 5 sample_live)))"
proof -
  have "sample_work = (Inr (), snd sample_work)"
    by (rule prod_eqI) (simp_all only: sample_work_done fst_conv snd_conv)
  from worker_changes_derived_columns[OF this] show ?thesis by simp
qed

lemma sample_live_ok: "library_ok sample_live"
proof -
  have "db_ok sample_running"
    by (simp add: db_ok_def base_ok_def keys_ok_def events_ok_def active_ok_def single_execution_def lease_ok_but_def
        job_row_ok_def job_ids_def job_executing_def executing_def sample_running_def sample_tables_def sample_job_def)
  then show ?thesis
    using sample_library_ok
    by (simp add: sample_live_def library_with_def store_ok_base transcripts_ok_def segments_ok_def tags_ok_def search_ok_def pending_ok_def sample_library_def
        row_checks_def sample_row_def sample_running_def sample_tables_def)
qed

abbreviation sample_trashed :: "unit result \<times> library connection" where
  "sample_trashed \<equiv> moveToTrash ''r'' (at_time 5 sample_live)"

lemma sample_trash_done: "fst sample_trashed = Inr ()" "fst (restoreRecording ''r'' (snd sample_trashed)) = Inr ()"
  by (simp_all add: moveToTrash_def restoreRecording_def update_recordings_def row_checks_def sample_defs db_eval Let_def)

lemma trash_and_restore_witness:
  "lb_rows (cn_db (snd (restoreRecording ''r'' (snd sample_trashed)))) = lb_rows (cn_db (at_time 5 sample_live))"
proof -
  have "sample_trashed = (Inr (), snd sample_trashed)"
    "restoreRecording ''r'' (snd sample_trashed) = (Inr (), snd (restoreRecording ''r'' (snd sample_trashed)))"
    by (rule prod_eqI, simp_all only: sample_trash_done fst_conv snd_conv)+
  from trash_and_restore[OF this, of "sample_row\<lparr>lr_deletedAt := None\<rparr>"] show ?thesis
    using sample_live_ok by (simp add: at_time_def sample_live_def sample_library_def sample_row_def)
qed

lemma sample_titled: "fst (apply_library ascii (UpdateNotes ''r'' (lit ''x'')) (at_time 5 sample_live)) = Inr ()"
  by (simp add: updateNotes_def updateMetadataColumn_def blank_def white_char_def update_row_def update_recordings_def
      row_checks_def rebuildEntry_def search_content_def find_row_def insert_search_def without_entry_def
      recording_tag_names_def active_segments_def find_queue_row_def sample_defs db_eval Let_def)

lemma sample_titled_row:
  "''r'' \<in> lr_id ` set (lb_rows (cn_db (snd (apply_library ascii (UpdateNotes ''r'' (lit ''x'')) (at_time 5 sample_live)))))"
  by (simp add: updateNotes_def updateMetadataColumn_def blank_def white_char_def update_row_def update_recordings_def
      row_checks_def rebuildEntry_def search_content_def find_row_def insert_search_def without_entry_def
      recording_tag_names_def active_segments_def find_queue_row_def sample_defs db_eval Let_def)


definition sample_query :: recording_query where
  "sample_query = \<lparr>rq_searchText = [], rq_status = [], rq_tag = [], rq_includeDeleted = False, rq_deletedOnly = False,
     rq_sortColumn = ''title'', rq_ascending = True, rq_offset = 0, rq_limit = 10\<rparr>"

abbreviation sample_page :: "recording_page result \<times> library connection" where
  "sample_page \<equiv> listRecordings ascii sample_query (at_time 5 sample_live)"

lemma sample_page_done: "\<exists>page. fst sample_page = Inr page \<and> map lr_id (pg_items page) = [''r'']"
proof -
  have listed: "listed_recordings ascii sample_query sample_live = [readRecording sample_live (sample_row\<lparr>lr_deletedAt := None\<rparr>)]"
    by (simp add: listed_recordings_def listed_def text_listed_def sample_query_def sample_live_def sample_library_def
        stable_sort_def)
  have total: "filter (listed ascii sample_live sample_query) (lb_rows sample_live) = lb_rows sample_live"
    by (simp add: listed_def text_listed_def sample_query_def sample_live_def sample_library_def)
  have ids: "lr_id (sample_row\<lparr>lr_deletedAt := None\<rparr>) = ''r''" by (simp add: sample_row_def)
  show ?thesis
    by (simp add: listRecordings_def listed total ids sample_query_def[THEN arg_cong, of rq_limit]
      sample_query_def[THEN arg_cong, of rq_offset] loadTagBatches.simps[of "[]"] loadTagBatches.simps[of "[''r'']"]
      TagBatchSize_def db_eval clamp_def ids)
qed

lemma pages_cut_one_list_witness:
  "\<exists>page. fst sample_page = Inr page \<and> pg_limit page \<le> 1000"
proof -
  obtain page c' where run: "sample_page = (Inr page, c')"
    using sample_page_done by (metis prod.exhaust_sel)
  from pages_cut_one_list[OF run] show ?thesis using run by auto
qed

lemma sample_found_done: "\<exists>found. fst (findRecording ''r'' (at_time 5 sample_live)) = Inr found"
  by (simp add: findRecording_def read_one_def loadTags_def find_row_def sample_live_def sample_library_def
      sample_row_def db_eval)

lemma listed_as_found_witness:
  "\<exists>page. fst sample_page = Inr page
     \<and> fst (findRecording ''r'' (at_time 5 sample_live)) = Inr (Some (hd (pg_items page)))"
proof -
  obtain page c' where run: "sample_page = (Inr page, c')" and ids: "map lr_id (pg_items page) = [''r'']"
    using sample_page_done by (metis Inr_inject prod.exhaust_sel)
  obtain item where item: "pg_items page = [item]" "lr_id item = ''r''" using ids by (cases "pg_items page") auto
  obtain found e' where find: "findRecording ''r'' (at_time 5 sample_live) = (Inr found, e')"
    using sample_found_done by (metis prod.exhaust_sel)
  have "found = Some item"
  proof (rule listed_as_found[OF run _ _ refl])
    show "distinct (map lr_id (lb_rows (cn_db (at_time 5 sample_live))))"
      by (simp add: at_time_def sample_live_def)
    show "item \<in> set (pg_items page)" by (simp add: item)
    show "findRecording (lr_id item) (at_time 5 sample_live) = (Inr found, e')" using find by (simp only: item)
  qed
  then show ?thesis using run find item by simp
qed

definition sample_indexed :: library where
  "sample_indexed = sample_live\<lparr>lb_search := [\<lparr>sx_recordingId = ''r'', sx_title = lit ''Talk'', sx_notes = [],
     sx_tags = [], sx_transcript = []\<rparr>]\<rparr>"

definition no_engine :: fts_engine where
  "no_engine = \<lparr>fe_match = (\<lambda>q s. False), fe_rank = (\<lambda>q s. 0), fe_snippet = (\<lambda>q s. [])\<rparr>"

abbreviation sample_search :: "search_result list result \<times> library connection" where
  "sample_search \<equiv> searchLibrary ascii no_engine (lit ''al'') 10 0 (at_time 5 sample_indexed)"

lemma sample_tokens: "searchTokens ascii (lit ''al'') = [lit ''al'']"
  by (simp add: searchTokens_def simplified_def ascii_def)

lemma sample_search_done: "\<exists>results. fst sample_search = Inr results"
proof -
  have located: "\<exists>results c'. locate_results tokens rows c = (Inr results, c') \<and> cn_faults c' = []"
    if "cn_faults c = []" for tokens rows and c :: "library connection"
    using that
  proof (induction rows arbitrary: c)
    case (Cons row rows)
    obtain i t s where row: "row = (i, t, s)" by (cases row) auto
    let ?m = "select (\<lambda>d. first_by ts_startMs (filter (segment_like tokens) (active_segments i d)))"
    have m: "\<exists>x. ?m c = (Inr x, c)"
      using Cons.prems by (cases c) (simp add: select_def exec_def exec_as_def)
    then obtain x where x: "?m c = (Inr x, c)" by blast
    obtain rest c' where rest: "locate_results tokens rows c = (Inr rest, c')" "cn_faults c' = []"
      using Cons.IH[OF Cons.prems] by blast
    show ?case unfolding row locate_results.simps by (simp add: and_then_def x rest succeed_def)
  qed (simp add: succeed_def)
  define rows where "rows = take (nat (clamp 1 500 10)) (drop (nat (max 0 0)) (fallback_rows [lit ''al''] sample_indexed))"
  have "cn_faults (at_time 5 sample_indexed) = []" "cn_db (at_time 5 sample_indexed) = sample_indexed"
    "lb_hasFts5 sample_indexed = False"
    by (simp_all add: at_time_def sample_indexed_def sample_live_def sample_library_def)
  then have "sample_search = locate_results [lit ''al''] rows (at_time 5 sample_indexed)"
    by (simp add: searchLibrary_def sample_tokens[simplified] and_then_def connection_def look_def select_def exec_def
        exec_as_def rows_def at_time_def Let_def)
  then show ?thesis
    using located[of "at_time 5 sample_indexed"] by (metis at_time_def connection.select_convs(4) fst_conv)
qed

lemma search_finds_witness:
  "\<exists>results. fst sample_search = Inr results
     \<and> map sr_recordingId results = [''r''] \<and> map sr_title results = [lit ''Talk'']"
proof -
  obtain results c' where run: "sample_search = (Inr results, c')"
    using sample_search_done by (metis prod.exhaust_sel)
  have start: "cn_db (at_time 5 sample_indexed) = sample_indexed" "\<not> lb_hasFts5 sample_indexed"
    by (simp_all add: at_time_def sample_indexed_def sample_live_def sample_library_def)
  let ?s = "\<lparr>sx_recordingId = ''r'', sx_title = lit ''Talk'', sx_notes = [], sx_tags = [], sx_transcript = []\<rparr>"
  have "columns_like [lit ''al''] ?s" by code_simp
  moreover have live: "live_title sample_indexed ?s = Some (lit ''Talk'')"
    by (simp add: live_title_def find_row_def sample_indexed_def sample_live_def sample_library_def sample_row_def)
  ultimately have "search_hit [lit ''al''] sample_indexed ?s"
    unfolding search_hit_def columns_like_contains[symmetric]
    by (auto simp: live_title_hit) (auto simp: sample_indexed_def)
  then have hits: "search_hits [lit ''al''] sample_indexed = [?s]"
    by (simp add: search_hits_def) (simp add: sample_indexed_def)
  have "map (\<lambda>r. (sr_recordingId r, sr_title r)) results = [(''r'', lit ''Talk'')]"
    using conjunct1[OF search_finds[OF run, unfolded start(1) sample_tokens]] start(2) hits live
    by (simp add: clamp_def del: lit_simps)
  then show ?thesis using run by auto
qed

end
