(* ===== verification/ModelManifest.thy ===== *)
theory ModelManifest
  imports TranscriptExport
begin

text \<open>
  \<^verbatim>\<open>models/ModelManifest.cpp\<close>: the catalogue of models that can be downloaded. The JSON parser and
  the test whether a text is a valid URL are parameters; a JSON number is read as an integer the
  way \<open>toLongLong\<close> rounds it, and other JSON values are converted by a parameter. An error of the
  source is a message and \<open>false\<close>; here it is a value of \<open>manifest_error\<close>.
\<close>

subsection \<open>Entries\<close>

record manifest_entry =
  me_id :: qstring
  me_displayName :: qstring
  me_description :: qstring
  me_engine :: qstring
  me_architecture :: qstring
  me_quantization :: qstring
  me_downloadUrl :: qstring
  me_fileName :: qstring
  me_fileSize :: int
  me_sha256 :: bytes
  me_sourceRepository :: qstring
  me_sourceRevision :: qstring
  me_licenseName :: qstring
  me_licenseUrl :: qstring
  me_recommendedMemoryBytes :: int
  me_capabilities :: "qstring list"
  me_defaultLanguage :: qstring
  me_isRecommended :: bool

datatype manifest_error = NotJson | NoModels | InvalidEntry qstring | DuplicateModel qstring
  | NotOneRecommended

record manifest_services =
  ms_parse :: "bytes \<Rightarrow> json option"
  ms_toLongLong :: "json option \<Rightarrow> int"
  ms_validUrl :: "qstring \<Rightarrow> bool"

definition roundHalfAway :: "real \<Rightarrow> int" where
  "roundHalfAway x = (if x \<ge> 0 then \<lfloor>x + 1 / 2\<rfloor> else \<lceil>x - 1 / 2\<rceil>)"

definition jsonInteger :: "manifest_services \<Rightarrow> json \<Rightarrow> string \<Rightarrow> int" where
  "jsonInteger ms v key = (case object_value v key of
      Some (JNumber x) \<Rightarrow> roundHalfAway x
    | other \<Rightarrow> ms_toLongLong ms other)"

text \<open>\<open>toLatin1\<close> writes a question mark for what Latin-1 lacks; \<open>toLower\<close> of a byte array knows
  only the letters of ASCII.\<close>

definition toLatin1 :: "qstring \<Rightarrow> bytes" where
  "toLatin1 s = map (\<lambda>c. if unat c < 256 then of_nat (unat c) else 63) s"

definition byte_lower :: "8 word \<Rightarrow> 8 word" where
  "byte_lower b = (if 65 \<le> unat b \<and> unat b \<le> 90 then b + 32 else b)"

definition array_of :: "json option \<Rightarrow> json list" where
  "array_of v = (case v of Some (JArray xs) \<Rightarrow> xs | _ \<Rightarrow> [])"

definition parseEntry :: "manifest_services \<Rightarrow> json \<Rightarrow> manifest_entry" where
  "parseEntry ms v = (let field = \<lambda>key. toText (object_value v key) in
     \<lparr>me_id = field ''id'', me_displayName = field ''displayName'',
      me_description = field ''description'', me_engine = field ''engine'',
      me_architecture = field ''architecture'', me_quantization = field ''quantization'',
      me_downloadUrl = field ''downloadUrl'', me_fileName = field ''fileName'',
      me_fileSize = jsonInteger ms v ''fileSize'',
      me_sha256 = map byte_lower (toLatin1 (field ''sha256'')),
      me_sourceRepository = field ''sourceRepository'', me_sourceRevision = field ''sourceRevision'',
      me_licenseName = field ''licenseName'', me_licenseUrl = field ''licenseUrl'',
      me_recommendedMemoryBytes = jsonInteger ms v ''recommendedMemoryBytes'',
      me_capabilities = map (\<lambda>c. toText (Some c)) (array_of (object_value v ''capabilities'')),
      me_defaultLanguage = field ''defaultLanguage'',
      me_isRecommended = toBool (object_value v ''isRecommended'')\<rparr>)"

definition hexDigit :: "8 word \<Rightarrow> bool" where
  "hexDigit b \<longleftrightarrow> 48 \<le> unat b \<and> unat b \<le> 57 \<or> 97 \<le> unat b \<and> unat b \<le> 102"

definition validHash :: "bytes \<Rightarrow> bool" where
  "validHash h \<longleftrightarrow> length h = 64 \<and> (\<forall>b \<in> set h. hexDigit b)"

definition entry_isValid :: "manifest_services \<Rightarrow> manifest_entry \<Rightarrow> bool" where
  "entry_isValid ms e \<longleftrightarrow> \<not> (me_id e = [] \<or> me_displayName e = [] \<or> me_engine e \<noteq> lit ''whisper.cpp''
     \<or> 47 \<in> set (me_fileName e) \<or> 92 \<in> set (me_fileName e) \<or> me_fileSize e \<le> 0
     \<or> \<not> validHash (me_sha256 e) \<or> \<not> ms_validUrl ms (me_downloadUrl e)
     \<or> length (me_sourceRevision e) < 7 \<or> me_licenseName e = [] \<or> me_licenseUrl e = [])"

subsection \<open>The manifest\<close>

fun check_entries :: "manifest_services \<Rightarrow> qstring set \<Rightarrow> int \<Rightarrow> manifest_entry list
    \<Rightarrow> manifest_error + int" where
  "check_entries ms identifiers recommendedCount [] = Inr recommendedCount"
| "check_entries ms identifiers recommendedCount (e # es) =
    (if \<not> entry_isValid ms e \<or> me_id e \<in> identifiers
     then Inl (if me_id e \<in> identifiers then DuplicateModel (me_id e) else InvalidEntry (me_id e))
     else check_entries ms (insert (me_id e) identifiers)
            (recommendedCount + (if me_isRecommended e then 1 else 0)) es)"

definition manifest_check :: "manifest_services \<Rightarrow> manifest_entry list \<Rightarrow> manifest_error + unit" where
  "manifest_check ms es =
    (if es = [] then Inl NoModels
     else case check_entries ms {} 0 es of
        Inl err \<Rightarrow> Inl err
      | Inr n \<Rightarrow> if n \<noteq> 1 then Inl NotOneRecommended else Inr ())"

definition fromJson :: "manifest_services \<Rightarrow> bytes \<Rightarrow> manifest_error option \<times> manifest_entry list" where
  "fromJson ms text =
    (case ms_parse ms text of
       Some (JObject kvs) \<Rightarrow>
         (let es = map (parseEntry ms) (array_of (object_value (JObject kvs) ''models''))
          in case manifest_check ms es of Inl err \<Rightarrow> (Some err, []) | Inr _ \<Rightarrow> (None, es))
     | _ \<Rightarrow> (Some NotJson, []))"

definition find_model :: "qstring \<Rightarrow> manifest_entry list \<Rightarrow> manifest_entry option" where
  "find_model k es = find (\<lambda>e. me_id e = k) es"

subsection \<open>What an accepted manifest is\<close>

definition manifest_ok :: "manifest_services \<Rightarrow> manifest_entry list \<Rightarrow> bool" where
  "manifest_ok ms es \<longleftrightarrow> (\<forall>e \<in> set es. entry_isValid ms e) \<and> distinct (map me_id es)
     \<and> length (filter me_isRecommended es) = 1"

lemma check_entries_Inr:
  "check_entries ms ids n es = Inr k \<longleftrightarrow>
     (\<forall>e \<in> set es. entry_isValid ms e \<and> me_id e \<notin> ids) \<and> distinct (map me_id es)
     \<and> k = n + int (length (filter me_isRecommended es))"
  by (induction ms ids n es rule: check_entries.induct) (auto simp: image_iff)

lemma manifest_check_ok: "manifest_check ms es = Inr () \<longleftrightarrow> manifest_ok ms es"
proof (cases "es = []")
  case True
  then show ?thesis by (simp add: manifest_check_def manifest_ok_def)
next
  case False
  show ?thesis
  proof (cases "check_entries ms {} 0 es")
    case (Inl err)
    then have "\<not> manifest_ok ms es"
      using check_entries_Inr[of ms "{}" 0 es] by (auto simp: manifest_ok_def)
    then show ?thesis using Inl False by (simp add: manifest_check_def)
  next
    case (Inr k)
    then show ?thesis
      using False check_entries_Inr[of ms "{}" 0 es k] by (auto simp: manifest_check_def manifest_ok_def)
  qed
qed

lemma find_model_distinct:
  "distinct (map me_id es) \<Longrightarrow> find_model k es = Some e \<longleftrightarrow> e \<in> set es \<and> me_id e = k"
  by (induction es) (auto simp: find_model_def)

text \<open>The digest an accepted entry names is never the answer for a file that cannot be read.\<close>

lemma valid_digest_nonempty: "entry_isValid ms e \<Longrightarrow> me_sha256 e \<noteq> [] \<and> me_fileSize e > 0"
  by (auto simp: entry_isValid_def validHash_def)

text \<open>The entries a text lists, in its order, and the error the first bad one of them stands for.\<close>

definition listed_entries :: "manifest_services \<Rightarrow> (qstring \<times> json) list \<Rightarrow> manifest_entry list" where
  "listed_entries ms kvs =
     map (parseEntry ms) (array_of (object_value (JObject kvs) ''models''))"

definition good_entries :: "manifest_services \<Rightarrow> manifest_entry list \<Rightarrow> bool" where
  "good_entries ms es \<longleftrightarrow> (\<forall>e \<in> set es. entry_isValid ms e) \<and> distinct (map me_id es)"

definition rejects :: "manifest_services \<Rightarrow> manifest_entry list \<Rightarrow> manifest_error \<Rightarrow> bool" where
  "rejects ms es err = (case err of
      NotJson \<Rightarrow> False
    | NoModels \<Rightarrow> es = []
    | DuplicateModel k \<Rightarrow> (\<exists>pre e post. es = pre @ e # post \<and> good_entries ms pre \<and> me_id e = k
                              \<and> k \<in> me_id ` set pre)
    | InvalidEntry k \<Rightarrow> (\<exists>pre e post. es = pre @ e # post \<and> good_entries ms pre \<and> me_id e = k
                              \<and> k \<notin> me_id ` set pre \<and> \<not> entry_isValid ms e)
    | NotOneRecommended \<Rightarrow> es \<noteq> [] \<and> good_entries ms es \<and> length (filter me_isRecommended es) \<noteq> 1)"

lemma check_entries_Inl:
  "check_entries ms ids n es = Inl err \<Longrightarrow>
     \<exists>pre e post. es = pre @ e # post \<and> good_entries ms pre \<and> me_id ` set pre \<inter> ids = {}
       \<and> (if me_id e \<in> ids \<union> me_id ` set pre then err = DuplicateModel (me_id e)
          else err = InvalidEntry (me_id e) \<and> \<not> entry_isValid ms e)"
proof (induction ms ids n es rule: check_entries.induct)
  case (1 ms ids n)
  then show ?case by simp
next
  case (2 ms ids n a es)
  show ?case
  proof (cases "\<not> entry_isValid ms a \<or> me_id a \<in> ids")
    case True
    then show ?thesis using 2(2)
      by (intro exI[of _ "[]"] exI[of _ a] exI[of _ es]) (auto simp: good_entries_def)
  next
    case False
    then have "check_entries ms (insert (me_id a) ids) (n + (if me_isRecommended a then 1 else 0)) es
        = Inl err"
      using 2(2) by simp
    then obtain pre e post where *: "es = pre @ e # post" "good_entries ms pre"
        "me_id ` set pre \<inter> insert (me_id a) ids = {}"
        "if me_id e \<in> insert (me_id a) ids \<union> me_id ` set pre then err = DuplicateModel (me_id e)
         else err = InvalidEntry (me_id e) \<and> \<not> entry_isValid ms e"
      using 2(1)[OF False] by blast
    then show ?thesis using False
      by (intro exI[of _ "a # pre"] exI[of _ e] exI[of _ post]) (auto simp: good_entries_def)
  qed
qed

lemma manifest_check_rejects: "manifest_check ms es = Inl err \<Longrightarrow> rejects ms es err"
proof -
  assume err: "manifest_check ms es = Inl err"
  consider "es = []" | "es \<noteq> []" "check_entries ms {} 0 es = Inl err"
    | k where "es \<noteq> []" "check_entries ms {} 0 es = Inr k" "k \<noteq> 1" "err = NotOneRecommended"
    using err by (auto simp: manifest_check_def split: sum.splits if_splits)
  then show ?thesis
  proof cases
    case 1
    then show ?thesis using err by (simp add: manifest_check_def rejects_def)
  next
    case 2
    show ?thesis using check_entries_Inl[OF 2(2)] by (fastforce simp: rejects_def split: if_splits)
  next
    case 3
    then show ?thesis
      by (auto simp: rejects_def good_entries_def check_entries_Inr)
  qed
qed

lemma good_prefix_unique:
  assumes "pre @ e # post = pre' @ e' # post'" "good_entries ms pre" "good_entries ms pre'"
    "\<not> good_entries ms (pre @ [e])" "\<not> good_entries ms (pre' @ [e'])"
  shows "pre = pre' \<and> e = e'"
proof -
  have no: False if "\<not> good_entries ms (xs @ [x])" "good_entries ms (xs @ x # zs)" for xs x zs
    using that by (auto simp: good_entries_def)
  obtain us where "pre = pre' @ us \<and> us @ e # post = e' # post'
      \<or> pre' = pre @ us \<and> e # post = us @ e' # post'"
    using assms(1) by (auto simp: append_eq_append_conv2)
  then show ?thesis
    using assms(2-) no[of pre' e'] no[of pre e] by (cases us) auto
qed

lemma rejects_bad: "rejects ms es err \<Longrightarrow> \<not> manifest_ok ms es"
  by (cases err) (auto simp: rejects_def manifest_ok_def good_entries_def)

lemma rejects_unique: "rejects ms es err \<Longrightarrow> rejects ms es err' \<Longrightarrow> err = err'"
proof -
  have bad: "\<exists>pre e post. es = pre @ e # post \<and> good_entries ms pre \<and> \<not> good_entries ms (pre @ [e])
      \<and> err = (if me_id e \<in> me_id ` set pre then DuplicateModel (me_id e) else InvalidEntry (me_id e))"
    if rej: "rejects ms es err" "es \<noteq> []" "\<not> good_entries ms es" for err
  proof (cases err)
    case (DuplicateModel k)
    then obtain pre e post where "es = pre @ e # post" "good_entries ms pre" "me_id e = k" "k \<in> me_id ` set pre"
      using rej by (auto simp: rejects_def)
    then show ?thesis using DuplicateModel by (intro exI[of _ pre] exI[of _ e] exI[of _ post]) (simp add: good_entries_def)
  next
    case (InvalidEntry k)
    then obtain pre e post where "es = pre @ e # post" "good_entries ms pre" "me_id e = k"
        "k \<notin> me_id ` set pre" "\<not> entry_isValid ms e"
      using rej by (auto simp: rejects_def)
    then show ?thesis using InvalidEntry by (intro exI[of _ pre] exI[of _ e] exI[of _ post]) (simp add: good_entries_def)
  qed (use rej in \<open>auto simp: rejects_def\<close>)
  have good: "err = NotOneRecommended" if "rejects ms es err" "es \<noteq> []" "good_entries ms es" for err
    using that by (cases err) (auto simp: rejects_def good_entries_def)
  have none: "err = NoModels" if "rejects ms es err" "es = []" for err
    using that by (cases err) (auto simp: rejects_def)
  assume *: "rejects ms es err" "rejects ms es err'"
  show ?thesis
  proof (cases "es = [] \<or> good_entries ms es")
    case True
    then show ?thesis using good none * by metis
  next
    case False
    then obtain pre e post pre' e' post' where
        a: "es = pre @ e # post" "good_entries ms pre" "\<not> good_entries ms (pre @ [e])"
          "err = (if me_id e \<in> me_id ` set pre then DuplicateModel (me_id e) else InvalidEntry (me_id e))"
        and b: "es = pre' @ e' # post'" "good_entries ms pre'" "\<not> good_entries ms (pre' @ [e'])"
          "err' = (if me_id e' \<in> me_id ` set pre' then DuplicateModel (me_id e') else InvalidEntry (me_id e'))"
      using bad * by metis
    then show ?thesis using good_prefix_unique[of pre e post pre' e' post' ms] by auto
  qed
qed

lemma manifest_check_exact:
  "manifest_check ms es = Inl err \<longleftrightarrow> rejects ms es err"
  using manifest_check_rejects[of ms es] rejects_unique[of ms es err] rejects_bad[of ms es err]
    manifest_check_ok[of ms es]
  by (cases "manifest_check ms es") auto

lemma fromJson_accepts:
  "fromJson ms text = (None, es) \<longleftrightarrow>
     (\<exists>kvs. ms_parse ms text = Some (JObject kvs) \<and> es = listed_entries ms kvs \<and> manifest_ok ms es)"
  by (auto simp: fromJson_def Let_def listed_entries_def manifest_check_ok[symmetric]
      split: option.splits json.splits sum.splits)

lemma fromJson_rejects:
  "fromJson ms text = (Some err, es) \<longleftrightarrow> es = [] \<and>
     (case ms_parse ms text of Some (JObject kvs) \<Rightarrow> rejects ms (listed_entries ms kvs) err
      | _ \<Rightarrow> err = NotJson)"
  by (auto simp: fromJson_def Let_def listed_entries_def manifest_check_exact[symmetric]
      split: option.splits json.splits sum.splits)

lemma entry_isValid_facts:
  "entry_isValid ms e \<Longrightarrow> me_id e \<noteq> [] \<and> 0 < me_fileSize e \<and> length (me_sha256 e) = 64
     \<and> 47 \<notin> set (me_fileName e) \<and> 92 \<notin> set (me_fileName e) \<and> ms_validUrl ms (me_downloadUrl e)"
  by (auto simp: entry_isValid_def validHash_def)

text \<open>
  C22: A manifest is accepted as a whole or not at all. The answer has no error and the entries \<open>es\<close>
  exactly when the text is a JSON object, \<open>es\<close> is the entry of every element of its array of
  models, in order and none left out, all of them valid, with different identifiers and exactly one
  recommended; each then has an identifier, a positive size, a digest of 64 digits, a valid address
  and a file name that names no other directory. It has the error \<open>err\<close> exactly when there are no
  entries in the answer and \<open>err\<close> is what is wrong first: the text is no object; it lists no
  model; the first bad entry repeats an identifier or is invalid; or no bad entry, but not one
  recommended. In an accepted manifest \<open>find\<close> returns the one entry with the identifier.
\<close>

theorem manifest_all_or_nothing:
  "(fromJson ms text = (None, es) \<longleftrightarrow>
      (\<exists>kvs. ms_parse ms text = Some (JObject kvs) \<and> es = listed_entries ms kvs \<and> manifest_ok ms es))
   \<and> (fromJson ms text = (Some err, es) \<longleftrightarrow> es = [] \<and>
      (case ms_parse ms text of Some (JObject kvs) \<Rightarrow> rejects ms (listed_entries ms kvs) err
       | _ \<Rightarrow> err = NotJson))
   \<and> (fromJson ms text = (None, es) \<longrightarrow>
      (\<forall>e \<in> set es. me_id e \<noteq> [] \<and> 0 < me_fileSize e \<and> length (me_sha256 e) = 64
         \<and> 47 \<notin> set (me_fileName e) \<and> 92 \<notin> set (me_fileName e) \<and> ms_validUrl ms (me_downloadUrl e))
      \<and> (\<forall>k e. find_model k es = Some e \<longleftrightarrow> e \<in> set es \<and> me_id e = k))"
proof -
  have "find_model k es = Some e \<longleftrightarrow> e \<in> set es \<and> me_id e = k" if "manifest_ok ms es" for k e
    using that find_model_distinct[of es k e] by (simp add: manifest_ok_def)
  moreover have "\<forall>e \<in> set es. entry_isValid ms e" if "manifest_ok ms es"
    using that by (simp add: manifest_ok_def)
  ultimately show ?thesis
    using fromJson_accepts[of ms "text" es] fromJson_rejects[of ms "text" err es] entry_isValid_facts[of ms]
    by blast
qed

text \<open>Two models, one of them recommended, are accepted; with the first one twice, they are not.\<close>

definition sample_model :: "string \<Rightarrow> bool \<Rightarrow> json" where
  "sample_model k r = JObject (map (\<lambda>(a, b). (lit a, b))
     [(''id'', JText (lit k)), (''displayName'', JText (lit ''Breeze'')),
      (''engine'', JText (lit ''whisper.cpp'')), (''downloadUrl'', JText (lit ''https://example.org/m'')),
      (''fileName'', JText (lit ''m.bin'')), (''fileSize'', JText (lit ''1000'')),
      (''sha256'', JText (lit (replicate 64 CHR ''A''))), (''sourceRevision'', JText (lit ''0123456'')),
      (''licenseName'', JText (lit ''MIT'')), (''licenseUrl'', JText (lit ''https://example.org/l'')),
      (''isRecommended'', JBool r)])"

definition sample_manifest :: "bool \<Rightarrow> manifest_services" where
  "sample_manifest again = \<lparr>ms_parse = (\<lambda>t. if t = [123] then Some (JObject [(lit ''models'',
       JArray (sample_model ''large'' True # sample_model ''small'' False
         # (if again then [sample_model ''large'' False] else [])))]) else None),
     ms_toLongLong = (\<lambda>v. case v of Some (JText t) \<Rightarrow> 1000 | _ \<Rightarrow> 0), ms_validUrl = (\<lambda>u. u \<noteq> [])\<rparr>"

lemma sample_manifest_read:
  "map me_id (snd (fromJson (sample_manifest False) [123])) = [lit ''large'', lit ''small'']
   \<and> fst (fromJson (sample_manifest False) [123]) = None"
  by code_simp

lemma manifest_all_or_nothing_witness:
  "(\<exists>es. fromJson (sample_manifest False) [123] = (None, es) \<and> length es = 2
      \<and> manifest_ok (sample_manifest False) es
      \<and> (\<forall>k e. find_model k es = Some e \<longleftrightarrow> e \<in> set es \<and> me_id e = k))
   \<and> fromJson (sample_manifest True) [123] = (Some (DuplicateModel (lit ''large'')), [])"
proof -
  obtain es where es: "fromJson (sample_manifest False) [123] = (None, es)"
      "map me_id es = [lit ''large'', lit ''small'']"
    using sample_manifest_read by (cases "fromJson (sample_manifest False) [123]") auto
  have "length es = 2" using arg_cong[OF es(2), of length] by simp
  moreover have "fromJson (sample_manifest True) [123] = (Some (DuplicateModel (lit ''large'')), [])"
    by code_simp
  ultimately show ?thesis
    using es(1) manifest_all_or_nothing[of "sample_manifest False" "[123]" es] by blast
qed

end
