(* ===== verification/ModelDownload.thy ===== *)
theory ModelDownload
  imports ModelManifest
begin

text \<open>
  \<^verbatim>\<open>models/ModelDownloadOperation.cpp\<close>: the download of a model as a state machine over the calls
  of the user, the signals of the network reply, the timers and the background verification, with
  the two files it works on and the lock file it shares with other processes.

  The state holds the members of the class, the open reply, the files \<open><name>.part\<close> and \<open><name>\<close> and
  the holder of the lock. What the system answers in a step (whether a file can be removed, renamed or
  opened, the free space, short writes) is a record \<open>answers\<close>. The digest is a parameter. A background
  verification is the pair of its purpose and the result of its future. \<open>QNetworkReply::abort\<close> emits
  \<open>finished\<close> at once unless the reply has finished already, as its documentation says, so the code
  after the header check of \<open>handleNetworkFinished\<close> is a definition of its own, \<open>conclude\<close>, that the
  header check reaches too.
\<close>

subsection \<open>States\<close>

datatype download_state = Pending | Downloading | Paused | Verifying | Completed | Cancelled | Failed

datatype verification_purpose = ExistingFinal | DownloadedPart | FinalBeforeCommit

datatype lock_holder = LockFree | LockMine | LockOther

datatype download_error = LockNotAcquired | LockLost | NetworkUnavailable | PartTooLarge | NoDiskSpace
  | PartNotCreated | PartNotOpened | ServerStatus int | InvalidStatus | DuplicateLength | InvalidLength
  | DuplicateRange | InvalidRange | UnexpectedRange | PartExceeds | ResponseExceeds | WriteFailed
  | NotRestarted | TransferFailed | SizeMismatch | FinalNotRemoved | ChecksumMismatch | FinalNotReplaced
  | NotCommitted

record reply =
  re_status :: int
  re_headers :: "(string \<times> string) list"
  re_buffer :: bytes
  re_failed :: bool
  re_finished :: bool

record download =
  dl_state :: download_state
  dl_bytesReceived :: int
  dl_bytesTotal :: int
  dl_lastSpeedBytes :: int
  dl_bytesPerSecond :: int
  dl_requestOffset :: int
  dl_retryCount :: nat
  dl_error :: "download_error option"
  dl_userPaused :: bool
  dl_cancelled :: bool
  dl_restartWithoutRange :: bool
  dl_responseValidated :: bool
  dl_verificationInProgress :: bool
  dl_finishedEmitted :: bool
  dl_finished :: "bool list"
  dl_reply :: "reply option"
  dl_partOpen :: bool
  dl_lockTimer :: bool
  dl_speedTimer :: bool
  dl_retryTimers :: "int list"
  dl_restartCalls :: nat
  dl_watchers :: "(verification_purpose \<times> bytes) list"
  dl_part :: "bytes option"
  dl_final :: "bytes option"
  dl_lock :: lock_holder

record download_config =
  cf_entry :: manifest_entry
  cf_hash :: "bytes \<Rightarrow> bytes"
  cf_network :: bool

record answers =
  an_lockError :: bool
  an_removesPart :: bool
  an_removesFinal :: bool
  an_renames :: bool
  an_published :: "bytes option"
  an_available :: "int option"
  an_factory :: bool
  an_opens :: bool
  an_written :: "nat option list"

definition fileSize :: "download_config \<Rightarrow> int" where
  "fileSize cf = me_fileSize (cf_entry cf)"

definition file_bytes :: "bytes option \<Rightarrow> bytes" where
  "file_bytes f = (case f of None \<Rightarrow> [] | Some bs \<Rightarrow> bs)"

definition partSize :: "download \<Rightarrow> int" where
  "partSize d = int (length (file_bytes (dl_part d)))"

definition DiskSafetyMargin :: int where "DiskSafetyMargin = 256 * 1024 * 1024"
definition MaximumReadChunk :: int where "MaximumReadChunk = 1024 * 1024"
definition MaximumRetries :: nat where "MaximumRetries = 4"

definition new_download :: "download_config \<Rightarrow> bytes option \<Rightarrow> bytes option \<Rightarrow> lock_holder \<Rightarrow> download" where
  "new_download cf part final lock =
     \<lparr>dl_state = Pending, dl_bytesReceived = 0, dl_bytesTotal = fileSize cf, dl_lastSpeedBytes = 0,
      dl_bytesPerSecond = 0, dl_requestOffset = 0, dl_retryCount = 0, dl_error = None,
      dl_userPaused = False, dl_cancelled = False, dl_restartWithoutRange = False,
      dl_responseValidated = False, dl_verificationInProgress = False, dl_finishedEmitted = False,
      dl_finished = [], dl_reply = None, dl_partOpen = False, dl_lockTimer = False, dl_speedTimer = False,
      dl_retryTimers = [], dl_restartCalls = 0, dl_watchers = [], dl_part = part, dl_final = final,
      dl_lock = lock\<rparr>"

subsection \<open>Reading the headers of a response\<close>

definition blank :: "char \<Rightarrow> bool" where
  "blank c \<longleftrightarrow> c \<in> {CHR '' '', CHR 0x09, CHR 0x0A, CHR 0x0B, CHR 0x0C, CHR 0x0D}"

definition bytes_trimmed :: "string \<Rightarrow> string" where
  "bytes_trimmed s = rev (dropWhile blank (rev (dropWhile blank s)))"

definition char_lower :: "char \<Rightarrow> char" where
  "char_lower c = (if 65 \<le> (of_char c :: nat) \<and> (of_char c :: nat) \<le> 90
     then char_of ((of_char c :: nat) + 32) else c)"

definition ascii_digit :: "char \<Rightarrow> bool" where
  "ascii_digit c \<longleftrightarrow> 48 \<le> (of_char c :: nat) \<and> (of_char c :: nat) \<le> 57"

definition decimal_value :: "string \<Rightarrow> nat" where
  "decimal_value s = foldl (\<lambda>n c. 10 * n + (of_char c - 48)) 0 s"

definition parseNonNegativeInteger :: "string \<Rightarrow> int option" where
  "parseNonNegativeInteger s =
    (if s = [] \<or> \<not> list_all ascii_digit s then None
     else if int (decimal_value s) > 2 ^ 63 - 1 then None else Some (int (decimal_value s)))"

definition readSingleHeader :: "reply \<Rightarrow> string \<Rightarrow> bool \<times> string option" where
  "readSingleHeader r name =
    (case filter (\<lambda>h. map char_lower (fst h) = map char_lower name) (re_headers r) of
       [] \<Rightarrow> (True, None)
     | [h] \<Rightarrow> (True, Some (bytes_trimmed (snd h)))
     | _ \<Rightarrow> (False, None))"

fun index_from :: "char \<Rightarrow> nat \<Rightarrow> string \<Rightarrow> nat option" where
  "index_from c n [] = None"
| "index_from c n (x # xs) = (if x = c then Some n else index_from c (Suc n) xs)"

definition indexOf :: "string \<Rightarrow> char \<Rightarrow> nat \<Rightarrow> nat option" where
  "indexOf s c from = index_from c from (drop from s)"

definition mid :: "string \<Rightarrow> nat \<Rightarrow> nat \<Rightarrow> string" where
  "mid s from n = take n (drop from s)"

definition contentRangeMatches :: "string \<Rightarrow> int \<Rightarrow> int \<Rightarrow> bool" where
  "contentRangeMatches v expectedStart expectedTotal =
    (let trimmed = bytes_trimmed v in
     if length trimmed < 8 \<or> map char_lower (take 6 trimmed) \<noteq> ''bytes '' then False
     else case indexOf trimmed CHR ''-'' 6 of
       None \<Rightarrow> False
     | Some dash \<Rightarrow>
        (case indexOf trimmed CHR ''/'' (dash + 1) of
           None \<Rightarrow> False
         | Some slash \<Rightarrow>
            if indexOf trimmed CHR ''-'' (dash + 1) \<noteq> None \<or> indexOf trimmed CHR ''/'' (slash + 1) \<noteq> None
            then False
            else case (parseNonNegativeInteger (mid trimmed 6 (dash - 6)),
                       parseNonNegativeInteger (mid trimmed (dash + 1) (slash - dash - 1)),
                       parseNonNegativeInteger (drop (slash + 1) trimmed)) of
                (Some start, Some last_byte, Some all_bytes) \<Rightarrow>
                   start = expectedStart \<and> all_bytes = expectedTotal \<and> expectedTotal > 0
                   \<and> last_byte = expectedTotal - 1
              | _ \<Rightarrow> False))"

subsection \<open>Small steps\<close>

definition setState :: "download_state \<Rightarrow> download \<Rightarrow> download" where
  "setState s d = d\<lparr>dl_state := s\<rparr>"

definition finish_download :: "bool \<Rightarrow> download \<Rightarrow> download" where
  "finish_download success d =
    (if dl_finishedEmitted d then d
     else d\<lparr>dl_finishedEmitted := True, dl_finished := dl_finished d @ [success]\<rparr>)"

definition closeActiveRequest :: "download \<Rightarrow> download" where
  "closeActiveRequest d = d\<lparr>dl_reply := None, dl_partOpen := False\<rparr>"

definition releaseDownloadLock :: "download \<Rightarrow> download" where
  "releaseDownloadLock d = (if dl_lock d = LockMine then d\<lparr>dl_lock := LockFree\<rparr> else d)"

text \<open>\<open>QFile::remove\<close> fails for a file that does not exist.\<close>

definition remove_part :: "answers \<Rightarrow> download \<Rightarrow> bool \<times> download" where
  "remove_part a d = (if dl_part d \<noteq> None \<and> an_removesPart a then (True, d\<lparr>dl_part := None\<rparr>) else (False, d))"

definition remove_final :: "answers \<Rightarrow> download \<Rightarrow> bool \<times> download" where
  "remove_final a d =
    (if dl_final d \<noteq> None \<and> an_removesFinal a then (True, d\<lparr>dl_final := None\<rparr>) else (False, d))"

text \<open>\<open>QFile::rename\<close> refuses to replace an existing file.\<close>

definition rename_part :: "answers \<Rightarrow> download \<Rightarrow> bool \<times> download" where
  "rename_part a d =
    (if dl_part d \<noteq> None \<and> dl_final d = None \<and> an_renames a
     then (True, d\<lparr>dl_final := dl_part d, dl_part := None\<rparr>) else (False, d))"

definition discardPartialIfOwned :: "answers \<Rightarrow> download \<Rightarrow> download" where
  "discardPartialIfOwned a d =
    (if dl_lock d = LockMine then (snd (remove_part a d))\<lparr>dl_bytesReceived := 0\<rparr> else d)"

definition scheduleRetry :: "download \<Rightarrow> download" where
  "scheduleRetry d =
    (let delay = 1000 * 2 ^ dl_retryCount d in
     (setState Pending (releaseDownloadLock (d\<lparr>dl_retryCount := dl_retryCount d + 1\<rparr>)))
       \<lparr>dl_retryTimers := dl_retryTimers d @ [delay]\<rparr>)"

definition fail_download :: "answers \<Rightarrow> download_error \<Rightarrow> bool \<Rightarrow> bool \<Rightarrow> download \<Rightarrow> download" where
  "fail_download a err retryable discardPartial d =
    (let d1 = (closeActiveRequest (d\<lparr>dl_error := Some err\<rparr>))\<lparr>dl_speedTimer := False\<rparr> in
     if retryable \<and> dl_retryCount d1 < MaximumRetries \<and> \<not> dl_cancelled d1 \<and> \<not> dl_userPaused d1
     then scheduleRetry d1
     else let d2 = (if discardPartial \<or> retryable then discardPartialIfOwned a d1 else d1) in
       finish_download False (setState Failed (releaseDownloadLock d2)))"

definition completeSuccessfully :: "download \<Rightarrow> download" where
  "completeSuccessfully d = finish_download True (setState Completed (releaseDownloadLock d))"

text \<open>The future of a verification holds the digest of the file, or nothing where it cannot be read.\<close>

definition sha256File :: "download_config \<Rightarrow> bytes option \<Rightarrow> bytes" where
  "sha256File cf f = (case f of None \<Rightarrow> [] | Some bs \<Rightarrow> cf_hash cf bs)"

definition beginVerification :: "download_config \<Rightarrow> answers \<Rightarrow> bytes option \<Rightarrow> verification_purpose
    \<Rightarrow> download \<Rightarrow> download" where
  "beginVerification cf a f purpose d =
    (if dl_lock d \<noteq> LockMine then fail_download a LockLost False False d
     else (setState Verifying d)\<lparr>dl_verificationInProgress := True,
            dl_watchers := dl_watchers d @ [(purpose, sha256File cf f)]\<rparr>)"

subsection \<open>Opening a request\<close>

text \<open>
  \<open>beginRequest\<close>, \<open>acquireDownloadLock\<close> and \<open>inspectLockedFiles\<close> call each other, but a
  request is opened only under the lock and the lock is taken only without it: \<open>open_request\<close> is the body of
  \<open>beginRequest\<close> behind its first test.
\<close>

definition open_request :: "download_config \<Rightarrow> answers \<Rightarrow> download \<Rightarrow> download" where
  "open_request cf a d =
    (if \<not> cf_network cf then fail_download a NetworkUnavailable False False d
     else let existing = partSize d;
              (removed, d1) = (if existing > fileSize cf then remove_part a d else (True, d)) in
       if existing > fileSize cf \<and> \<not> removed then fail_download a PartTooLarge False False d1
       else let existing = (if existing > fileSize cf then 0 else existing) in
       if existing = fileSize cf \<and> existing > 0
       then beginVerification cf a (dl_part d1) DownloadedPart
              (d1\<lparr>dl_bytesReceived := existing, dl_bytesTotal := fileSize cf\<rparr>)
       else if (case an_available a of None \<Rightarrow> False
                | Some free \<Rightarrow> free < (fileSize cf - existing) + DiskSafetyMargin)
       then fail_download a NoDiskSpace False False d1
       else if \<not> an_factory a then fail_download a PartNotCreated False True (d1\<lparr>dl_partOpen := False\<rparr>)
       else if \<not> an_opens a then fail_download a PartNotOpened False True (d1\<lparr>dl_partOpen := False\<rparr>)
       else let d2 = d1\<lparr>dl_part := Some (file_bytes (dl_part d1)), dl_partOpen := True\<rparr>;
                offset = partSize d2 in
         (setState Downloading (d2\<lparr>dl_requestOffset := offset, dl_responseValidated := False,
            dl_bytesReceived := offset, dl_bytesTotal := fileSize cf, dl_lastSpeedBytes := offset,
            dl_reply := Some \<lparr>re_status = 0, re_headers = [], re_buffer = [], re_failed = False,
                             re_finished = False\<rparr>\<rparr>))\<lparr>dl_speedTimer := True\<rparr>)"

definition inspectLockedFiles :: "download_config \<Rightarrow> answers \<Rightarrow> download \<Rightarrow> download" where
  "inspectLockedFiles cf a d =
    (if dl_lock d \<noteq> LockMine then fail_download a LockLost False False d
     else if dl_final d \<noteq> None then beginVerification cf a (dl_final d) ExistingFinal d
     else open_request cf a d)"

definition acquireDownloadLock :: "download_config \<Rightarrow> answers \<Rightarrow> download \<Rightarrow> download" where
  "acquireDownloadLock cf a d =
    (if dl_cancelled d \<or> dl_userPaused d \<or> dl_lock d = LockMine then d
     else if an_lockError a then fail_download a LockNotAcquired False False d
     else if dl_lock d = LockOther then (setState Pending d)\<lparr>dl_lockTimer := True\<rparr>
     else inspectLockedFiles cf a (d\<lparr>dl_lock := LockMine\<rparr>))"

definition beginRequest :: "download_config \<Rightarrow> answers \<Rightarrow> download \<Rightarrow> download" where
  "beginRequest cf a d =
    (if dl_lock d \<noteq> LockMine then acquireDownloadLock cf a d else open_request cf a d)"

subsection \<open>The calls of the user\<close>

definition start_download :: "download_config \<Rightarrow> answers \<Rightarrow> download \<Rightarrow> download" where
  "start_download cf a d =
    (if dl_state d \<noteq> Pending \<and> dl_state d \<noteq> Failed then d
     else acquireDownloadLock cf a (d\<lparr>dl_cancelled := False, dl_userPaused := False,
            dl_finishedEmitted := False, dl_retryCount := 0, dl_error := None\<rparr>))"

definition pause_download :: "download \<Rightarrow> download" where
  "pause_download d =
    (if dl_state d \<noteq> Downloading \<and> \<not> (dl_state d = Pending \<and> dl_lockTimer d) then d
     else setState Paused (releaseDownloadLock
            ((closeActiveRequest (d\<lparr>dl_userPaused := True, dl_lockTimer := False\<rparr>))\<lparr>dl_speedTimer := False\<rparr>)))"

definition resume_download :: "download_config \<Rightarrow> answers \<Rightarrow> download \<Rightarrow> download" where
  "resume_download cf a d =
    (if dl_state d \<noteq> Paused \<and> dl_state d \<noteq> Failed then d
     else acquireDownloadLock cf a (setState Pending
            (d\<lparr>dl_userPaused := False, dl_cancelled := False, dl_restartWithoutRange := False,
              dl_responseValidated := False, dl_finishedEmitted := False, dl_error := None\<rparr>)))"

definition cancel_download :: "answers \<Rightarrow> download \<Rightarrow> download" where
  "cancel_download a d =
    (if dl_state d = Completed \<or> dl_state d = Cancelled then d
     else let d1 = setState Cancelled (d\<lparr>dl_cancelled := True, dl_lockTimer := False, dl_speedTimer := False\<rparr>) in
       if dl_verificationInProgress d1 then d1
       else let d2 = closeActiveRequest d1;
                d3 = (if dl_lock d2 = LockFree \<and> \<not> an_lockError a then d2\<lparr>dl_lock := LockMine\<rparr> else d2);
                d4 = (if dl_lock d3 = LockMine then snd (remove_part a d3) else d3) in
         finish_download False (releaseDownloadLock d4))"

subsection \<open>Signals of the reply\<close>

text \<open>\<open>handleNetworkFinished\<close> from the point where the reply is let go.\<close>

definition conclude :: "download_config \<Rightarrow> answers \<Rightarrow> reply \<Rightarrow> download \<Rightarrow> download" where
  "conclude cf a r d =
    (let d1 = d\<lparr>dl_reply := None, dl_partOpen := False, dl_speedTimer := False\<rparr> in
     if dl_cancelled d1 \<or> dl_userPaused d1 then d1
     else if dl_restartWithoutRange d1 then
       (let (removed, d2) = remove_part a (d1\<lparr>dl_restartWithoutRange := False\<rparr>) in
        if \<not> removed then fail_download a NotRestarted False False d2
        else d2\<lparr>dl_restartCalls := dl_restartCalls d2 + 1\<rparr>)
     else if 500 \<le> re_status r \<and> re_status r \<le> 599
       then fail_download a (ServerStatus (re_status r)) True False d1
     else if re_status r = 0 \<and> re_failed r then fail_download a TransferFailed True False d1
     else if re_status r \<noteq> 200 \<and> re_status r \<noteq> 206
       then fail_download a (ServerStatus (re_status r)) False True d1
     else if re_failed r then fail_download a TransferFailed True False d1
     else if partSize d1 \<noteq> fileSize cf then fail_download a SizeMismatch True False d1
     else beginVerification cf a (dl_part d1) DownloadedPart d1)"

text \<open>The checks of the headers once the status is one that can be accepted.\<close>

definition header_error :: "download_config \<Rightarrow> reply \<Rightarrow> int \<Rightarrow> download_error option" where
  "header_error cf r requestOffset =
    (let expectedRemaining = fileSize cf - requestOffset;
         (single_length, len) = readSingleHeader r ''Content-Length'';
         (single_range, range) = readSingleHeader r ''Content-Range'' in
     if \<not> single_length then Some DuplicateLength
     else if (case len of None \<Rightarrow> False
              | Some t \<Rightarrow> parseNonNegativeInteger t \<noteq> Some expectedRemaining) then Some InvalidLength
     else if \<not> single_range then Some DuplicateRange
     else if requestOffset > 0 then
       (case range of
          None \<Rightarrow> Some InvalidRange
        | Some t \<Rightarrow> if contentRangeMatches t requestOffset (fileSize cf) then None else Some InvalidRange)
     else if range \<noteq> None then Some UnexpectedRange else None)"

definition validateResponseHeaders :: "download_config \<Rightarrow> answers \<Rightarrow> download \<Rightarrow> bool \<times> download" where
  "validateResponseHeaders cf a d =
    (case dl_reply d of
       None \<Rightarrow> (dl_responseValidated d, d)
     | Some r \<Rightarrow>
        if dl_responseValidated d \<or> dl_restartWithoutRange d then (dl_responseValidated d, d)
        else let status = re_status r in
        if status = 0 \<or> 300 \<le> status \<and> status < 400 then (False, d)
        else if 500 \<le> status \<and> status \<le> 599
          then (False, fail_download a (ServerStatus status) True False d)
        else if 400 \<le> status \<and> status \<le> 499
          then (False, fail_download a (ServerStatus status) False True d)
        else if dl_requestOffset d > 0 \<and> status = 200 then
          (let d1 = d\<lparr>dl_restartWithoutRange := True\<rparr> in
           (False, if re_finished r then d1 else conclude cf a (r\<lparr>re_failed := True\<rparr>) d1))
        else if dl_requestOffset d = 0 \<and> status \<noteq> 200 \<or> dl_requestOffset d > 0 \<and> status \<noteq> 206
          then (False, fail_download a InvalidStatus False True d)
        else case header_error cf r (dl_requestOffset d) of
            Some err \<Rightarrow> (False, fail_download a err False True d)
          | None \<Rightarrow> (True, d\<lparr>dl_responseValidated := True\<rparr>))"

text \<open>
  The loop that drains the reply into the file. The list says how many bytes each write takes; where it
  has no entry the write takes all of them. A closed file takes none.
\<close>

definition maximumRead :: "int \<Rightarrow> nat" where
  "maximumRead remaining = nat (if remaining \<ge> MaximumReadChunk then MaximumReadChunk else remaining + 1)"

definition next_write :: "nat option list \<Rightarrow> bytes \<Rightarrow> download \<Rightarrow> nat" where
  "next_write ws block d = (if \<not> dl_partOpen d then 0
     else case ws of Some n # _ \<Rightarrow> min n (length block) | _ \<Rightarrow> length block)"

function read_loop :: "download_config \<Rightarrow> answers \<Rightarrow> nat option list \<Rightarrow> download \<Rightarrow> download" where
  "read_loop cf a ws d =
    (case dl_reply d of
       None \<Rightarrow> d
     | Some r \<Rightarrow>
        if re_buffer r = [] then d
        else let currentSize = partSize d in
        if currentSize > fileSize cf then fail_download a PartExceeds False True d
        else let remaining = fileSize cf - currentSize;
                 block = take (maximumRead remaining) (re_buffer r);
                 d1 = d\<lparr>dl_reply := Some (r\<lparr>re_buffer := drop (maximumRead remaining) (re_buffer r)\<rparr>)\<rparr> in
        if block = [] then d1
        else if int (length block) > remaining then fail_download a ResponseExceeds False True d1
        else let n = next_write ws block d;
                 d2 = d1\<lparr>dl_part := Some (file_bytes (dl_part d1) @ take n block)\<rparr> in
        if n \<noteq> length block then fail_download a WriteFailed False True d2
        else read_loop cf a (tl ws) (d2\<lparr>dl_bytesReceived := currentSize + int (length block)\<rparr>))"
  by pat_completeness auto
termination
  by (relation "measure (\<lambda>(cf, a, ws, d). case dl_reply d of None \<Rightarrow> 0 | Some r \<Rightarrow> length (re_buffer r))")
     (auto simp: take_eq_Nil)

declare read_loop.simps [simp del]

text \<open>There is a part file object wherever there is a reply, so only the reply is tested.\<close>

definition handleReadyRead :: "download_config \<Rightarrow> answers \<Rightarrow> download \<Rightarrow> download" where
  "handleReadyRead cf a d =
    (if dl_reply d = None \<or> dl_restartWithoutRange d then d
     else let (valid, d1) = validateResponseHeaders cf a d in
       if \<not> valid then d1 else read_loop cf a (an_written a) d1)"

definition handleNetworkFinished :: "download_config \<Rightarrow> answers \<Rightarrow> download \<Rightarrow> download" where
  "handleNetworkFinished cf a d =
    (case dl_reply d of
       None \<Rightarrow> d
     | Some r \<Rightarrow>
        if (re_status r = 200 \<or> re_status r = 206) \<and> \<not> dl_restartWithoutRange d then
          (let (valid, d1) = validateResponseHeaders cf a d;
               d2 = (if valid then handleReadyRead cf a d1 else d1) in
           if dl_reply d2 = None then d2 else conclude cf a r d2)
        else conclude cf a r d)"

subsection \<open>The end of a verification\<close>

definition commitVerifiedPart :: "download_config \<Rightarrow> answers \<Rightarrow> download \<Rightarrow> download" where
  "commitVerifiedPart cf a d =
    (if dl_final d \<noteq> None then beginVerification cf a (dl_final d) FinalBeforeCommit d
     else let d1 = d\<lparr>dl_final := an_published a\<rparr>;
              (renamed, d2) = rename_part a d1 in
       if \<not> renamed then
         if dl_final d2 \<noteq> None then beginVerification cf a (dl_final d2) FinalBeforeCommit d2
         else fail_download a NotCommitted False False d2
       else completeSuccessfully d2)"

definition handleVerificationFinished :: "download_config \<Rightarrow> answers \<Rightarrow> bytes \<Rightarrow> verification_purpose
    \<Rightarrow> download \<Rightarrow> download" where
  "handleVerificationFinished cf a checksum purpose d =
    (let valid = (checksum = me_sha256 (cf_entry cf)) in
     case purpose of
       ExistingFinal \<Rightarrow>
         if valid then completeSuccessfully (snd (remove_part a d))
         else let (removed, d1) = remove_final a d in
           if dl_final d \<noteq> None \<and> \<not> removed then fail_download a FinalNotRemoved False False d1
           else beginRequest cf a d1
     | DownloadedPart \<Rightarrow>
         if \<not> valid then fail_download a ChecksumMismatch False False (snd (remove_part a d))
         else commitVerifiedPart cf a d
     | FinalBeforeCommit \<Rightarrow>
         if valid then completeSuccessfully (snd (remove_part a d))
         else let (removed, d1) = remove_final a d in
           if dl_final d \<noteq> None \<and> \<not> removed then fail_download a FinalNotReplaced False False d1
           else let (renamed, d2) = rename_part a d1 in
             if \<not> renamed then fail_download a NotCommitted False False d2
             else completeSuccessfully d2)"

definition verification_done :: "download_config \<Rightarrow> answers \<Rightarrow> download \<Rightarrow> download" where
  "verification_done cf a d =
    (case dl_watchers d of
       [] \<Rightarrow> d
     | (purpose, checksum) # rest \<Rightarrow>
        let d1 = d\<lparr>dl_watchers := rest, dl_verificationInProgress := False\<rparr> in
        if dl_cancelled d1 then
          (let d2 = (if dl_lock d1 = LockMine then snd (remove_part a d1) else d1) in
           finish_download False (releaseDownloadLock d2))
        else handleVerificationFinished cf a checksum purpose d1)"

subsection \<open>Events\<close>

datatype download_event = Start | Pause | Resume | Cancel
  | LockTimer | RetryTimer | RestartCall | SpeedTimer
  | MetaDataChanged int "(string \<times> string) list"
  | ReadyRead bytes
  | NetworkFinished bool
  | Verified
  | OtherProcess lock_holder "bytes option" "bytes option"
  | PublishedFinal bytes

text \<open>
  Another process that respects the lock changes the files only while this one does not hold it. A
  process that ignores the lock may still publish a model where there is none.
\<close>

definition download_step :: "download_config \<Rightarrow> download \<Rightarrow> download_event \<times> answers \<Rightarrow> download" where
  "download_step cf d ea = (case ea of (e, a) \<Rightarrow> (case e of
       Start \<Rightarrow> start_download cf a d
     | Pause \<Rightarrow> pause_download d
     | Resume \<Rightarrow> resume_download cf a d
     | Cancel \<Rightarrow> cancel_download a d
     | LockTimer \<Rightarrow> if dl_lockTimer d then acquireDownloadLock cf a (d\<lparr>dl_lockTimer := False\<rparr>) else d
     | RetryTimer \<Rightarrow> (case dl_retryTimers d of
           [] \<Rightarrow> d
         | _ # rest \<Rightarrow> let d1 = d\<lparr>dl_retryTimers := rest\<rparr> in
             if \<not> dl_cancelled d1 \<and> \<not> dl_userPaused d1 then acquireDownloadLock cf a d1 else d1)
     | RestartCall \<Rightarrow> if dl_restartCalls d > 0
         then beginRequest cf a (d\<lparr>dl_restartCalls := dl_restartCalls d - 1\<rparr>) else d
     | SpeedTimer \<Rightarrow> if dl_speedTimer d
         then d\<lparr>dl_bytesPerSecond := dl_bytesReceived d - dl_lastSpeedBytes d,
                dl_lastSpeedBytes := dl_bytesReceived d\<rparr> else d
     | MetaDataChanged status headers \<Rightarrow> (case dl_reply d of
           None \<Rightarrow> d
         | Some r \<Rightarrow> snd (validateResponseHeaders cf a
             (d\<lparr>dl_reply := Some (r\<lparr>re_status := status, re_headers := headers\<rparr>)\<rparr>)))
     | ReadyRead bs \<Rightarrow> (case dl_reply d of
           None \<Rightarrow> d
         | Some r \<Rightarrow> handleReadyRead cf a (d\<lparr>dl_reply := Some (r\<lparr>re_buffer := re_buffer r @ bs\<rparr>)\<rparr>))
     | NetworkFinished failed \<Rightarrow> (case dl_reply d of
           None \<Rightarrow> d
         | Some r \<Rightarrow> handleNetworkFinished cf a
             (d\<lparr>dl_reply := Some (r\<lparr>re_failed := failed, re_finished := True\<rparr>)\<rparr>))
     | Verified \<Rightarrow> verification_done cf a d
     | OtherProcess lock part final \<Rightarrow>
         if dl_lock d \<noteq> LockMine \<and> lock \<noteq> LockMine
         then d\<lparr>dl_lock := lock, dl_part := part, dl_final := final\<rparr> else d
     | PublishedFinal bs \<Rightarrow> if dl_final d = None then d\<lparr>dl_final := Some bs\<rparr> else d))"

subsection \<open>The invariant\<close>

text \<open>
  \<open>quiet\<close>: nothing but possibly a request is under way. \<open>dl_ok\<close> says for each state what may be under
  way, who holds the lock, and what is known of the files.
\<close>

definition quiet :: "download \<Rightarrow> bool" where
  "quiet d \<longleftrightarrow> dl_watchers d = [] \<and> \<not> dl_verificationInProgress d \<and> dl_restartCalls d = 0
     \<and> \<not> dl_userPaused d \<and> \<not> dl_cancelled d \<and> dl_retryTimers d = [] \<and> \<not> dl_lockTimer d
     \<and> dl_retryCount d \<le> MaximumRetries \<and> \<not> dl_finishedEmitted d"

definition delays_ok :: "int list \<Rightarrow> bool" where
  "delays_ok ts \<longleftrightarrow> (\<forall>t \<in> set ts. t \<in> {1000, 2000, 4000, 8000}) \<and> length ts \<le> 1"

definition verification_sound :: "download_config \<Rightarrow> download \<Rightarrow> verification_purpose \<times> bytes \<Rightarrow> bool" where
  "verification_sound cf d w \<longleftrightarrow> (case fst w of
       ExistingFinal \<Rightarrow> dl_final d \<noteq> None \<and> snd w = sha256File cf (dl_final d)
     | DownloadedPart \<Rightarrow> dl_part d \<noteq> None \<and> snd w = sha256File cf (dl_part d) \<and> partSize d = fileSize cf
     | FinalBeforeCommit \<Rightarrow> dl_final d \<noteq> None \<and> snd w = sha256File cf (dl_final d)
         \<and> dl_part d \<noteq> None \<and> sha256File cf (dl_part d) = me_sha256 (cf_entry cf))"

definition transfer_ok :: "download_config \<Rightarrow> download \<Rightarrow> bool" where
  "transfer_ok cf d \<longleftrightarrow> (dl_reply d = None \<longrightarrow> dl_restartCalls d = 1) \<and>
     (dl_reply d \<noteq> None \<longrightarrow> dl_restartCalls d = 0 \<and> dl_partOpen d \<and> dl_part d \<noteq> None
        \<and> \<not> re_finished (the (dl_reply d)) \<and> 0 \<le> dl_requestOffset d
        \<and> dl_requestOffset d \<le> partSize d \<and> partSize d \<le> fileSize cf)"

definition dl_ok :: "download_config \<Rightarrow> download \<Rightarrow> bool" where
  "dl_ok cf d \<longleftrightarrow> \<not> dl_restartWithoutRange d \<and> dl_retryCount d \<le> MaximumRetries
     \<and> delays_ok (dl_retryTimers d)
     \<and> (case dl_state d of
         Pending \<Rightarrow> dl_reply d = None \<and> dl_watchers d = [] \<and> \<not> dl_verificationInProgress d
           \<and> dl_restartCalls d = 0 \<and> dl_lock d \<noteq> LockMine \<and> \<not> dl_userPaused d \<and> \<not> dl_cancelled d
           \<and> (dl_lockTimer d \<longrightarrow> dl_retryTimers d = []) \<and> \<not> dl_finishedEmitted d
       | Downloading \<Rightarrow> dl_watchers d = [] \<and> \<not> dl_verificationInProgress d \<and> dl_lock d = LockMine
           \<and> \<not> dl_userPaused d \<and> \<not> dl_cancelled d \<and> \<not> dl_lockTimer d \<and> dl_retryTimers d = []
           \<and> \<not> dl_finishedEmitted d \<and> transfer_ok cf d
       | Paused \<Rightarrow> dl_reply d = None \<and> dl_watchers d = [] \<and> \<not> dl_verificationInProgress d
           \<and> dl_lock d \<noteq> LockMine \<and> dl_userPaused d \<and> \<not> dl_lockTimer d \<and> dl_retryTimers d = []
           \<and> \<not> dl_finishedEmitted d
       | Verifying \<Rightarrow> dl_reply d = None \<and> dl_verificationInProgress d \<and> dl_restartCalls d = 0
           \<and> dl_lock d = LockMine \<and> \<not> dl_userPaused d \<and> \<not> dl_cancelled d \<and> \<not> dl_lockTimer d
           \<and> dl_retryTimers d = [] \<and> \<not> dl_finishedEmitted d
           \<and> (\<exists>w. dl_watchers d = [w] \<and> verification_sound cf d w)
       | Cancelled \<Rightarrow> dl_reply d = None \<and> dl_cancelled d \<and> \<not> dl_lockTimer d
           \<and> (if dl_verificationInProgress d
              then (\<exists>w. dl_watchers d = [w]) \<and> dl_lock d = LockMine \<and> \<not> dl_finishedEmitted d
                \<and> dl_restartCalls d = 0
              else dl_watchers d = [] \<and> dl_lock d \<noteq> LockMine \<and> dl_finishedEmitted d)
       | _ \<Rightarrow> dl_reply d = None \<and> dl_watchers d = [] \<and> \<not> dl_verificationInProgress d
           \<and> dl_restartCalls d = 0 \<and> dl_lock d \<noteq> LockMine \<and> \<not> dl_userPaused d \<and> \<not> dl_cancelled d
           \<and> \<not> dl_lockTimer d \<and> dl_retryTimers d = [] \<and> dl_finishedEmitted d)"

lemmas small_steps = setState_def finish_download_def closeActiveRequest_def releaseDownloadLock_def
  remove_part_def remove_final_def rename_part_def discardPartialIfOwned_def

lemma retry_delay_listed: "k < MaximumRetries \<Longrightarrow> 1000 * 2 ^ k \<in> {1000, 2000, 4000, 8000 :: int}"
proof -
  assume "k < MaximumRetries"
  then have "k \<in> {0, 1, 2, 3}" by (auto simp: MaximumRetries_def)
  then show ?thesis by auto
qed

lemma fail_ok:
  assumes "quiet d" "\<not> dl_restartWithoutRange d"
  shows "dl_ok cf (fail_download a err retryable discards d)"
  using assms retry_delay_listed[of "dl_retryCount d"]
  by (simp add: dl_ok_def quiet_def fail_download_def scheduleRetry_def small_steps delays_ok_def Let_def)

lemma fail_reply [simp]: "dl_reply (fail_download a err retryable discards d) = None"
  by (simp add: fail_download_def scheduleRetry_def small_steps Let_def)

lemma begin_verification_reply [simp]:
  "dl_reply d = None \<Longrightarrow> dl_reply (beginVerification cf a f purpose d) = None"
  by (simp add: beginVerification_def setState_def)

lemma begin_verification_ok:
  assumes "quiet d" "\<not> dl_restartWithoutRange d" "dl_reply d = None" "dl_lock d = LockMine"
    and "verification_sound cf d (purpose, sha256File cf f)"
  shows "dl_ok cf (beginVerification cf a f purpose d)"
  using assms
  by (cases purpose) (simp_all add: dl_ok_def quiet_def beginVerification_def small_steps delays_ok_def
      verification_sound_def partSize_def)

lemma remove_part_simps [simp]:
  "quiet (snd (remove_part a d)) = quiet d"
  "dl_reply (snd (remove_part a d)) = dl_reply d"
  "dl_lock (snd (remove_part a d)) = dl_lock d"
  "dl_final (snd (remove_part a d)) = dl_final d"
  "dl_restartWithoutRange (snd (remove_part a d)) = dl_restartWithoutRange d"
  "fst (remove_part a d) \<Longrightarrow> dl_part (snd (remove_part a d)) = None"
  by (simp_all add: remove_part_def quiet_def split: if_splits)

lemma remove_final_simps [simp]:
  "quiet (snd (remove_final a d)) = quiet d"
  "dl_reply (snd (remove_final a d)) = dl_reply d"
  "dl_lock (snd (remove_final a d)) = dl_lock d"
  "dl_part (snd (remove_final a d)) = dl_part d"
  "dl_restartWithoutRange (snd (remove_final a d)) = dl_restartWithoutRange d"
  "fst (remove_final a d) \<Longrightarrow> dl_final (snd (remove_final a d)) = None"
  by (simp_all add: remove_final_def quiet_def split: if_splits)

lemma open_request_ok:
  assumes q: "quiet d" "\<not> dl_restartWithoutRange d" "dl_reply d = None" "dl_lock d = LockMine"
    and size: "0 < fileSize cf"
  shows "dl_ok cf (open_request cf a d)"
proof -
  define d1 where "d1 = (if partSize d > fileSize cf then snd (remove_part a d) else d)"
  define n where "n = (if partSize d > fileSize cf then 0 else partSize d)"
  have d1: "quiet d1" "\<not> dl_restartWithoutRange d1" "dl_reply d1 = None" "dl_lock d1 = LockMine"
    using q by (auto simp: d1_def)
  show ?thesis
  proof (cases "\<not> cf_network cf \<or> partSize d > fileSize cf \<and> \<not> fst (remove_part a d)")
    case True
    then show ?thesis using fail_ok q d1
      by (auto simp: open_request_def Let_def case_prod_beta d1_def split: prod.splits)
  next
    case False
    then have n: "partSize d1 = n" by (auto simp: d1_def n_def partSize_def file_bytes_def)
    have "n \<le> fileSize cf" "0 \<le> n" using size by (auto simp: n_def partSize_def)
    have eq: "open_request cf a d =
       (if n = fileSize cf \<and> n > 0
        then beginVerification cf a (dl_part d1) DownloadedPart
              (d1\<lparr>dl_bytesReceived := n, dl_bytesTotal := fileSize cf\<rparr>)
       else if (case an_available a of None \<Rightarrow> False | Some free \<Rightarrow> free < (fileSize cf - n) + DiskSafetyMargin)
       then fail_download a NoDiskSpace False False d1
       else if \<not> an_factory a then fail_download a PartNotCreated False True (d1\<lparr>dl_partOpen := False\<rparr>)
       else if \<not> an_opens a then fail_download a PartNotOpened False True (d1\<lparr>dl_partOpen := False\<rparr>)
       else let d2 = d1\<lparr>dl_part := Some (file_bytes (dl_part d1)), dl_partOpen := True\<rparr>;
                offset = partSize d2 in
         (setState Downloading (d2\<lparr>dl_requestOffset := offset, dl_responseValidated := False,
            dl_bytesReceived := offset, dl_bytesTotal := fileSize cf, dl_lastSpeedBytes := offset,
            dl_reply := Some \<lparr>re_status = 0, re_headers = [], re_buffer = [], re_failed = False,
                             re_finished = False\<rparr>\<rparr>))\<lparr>dl_speedTimer := True\<rparr>)"
      using False by (cases "an_available a"; cases "partSize d > fileSize cf")
        (simp_all add: open_request_def Let_def case_prod_beta d1_def n_def)
    have part: "partSize d1 = fileSize cf \<Longrightarrow> dl_part d1 \<noteq> None"
      using size by (cases "dl_part d1") (auto simp: partSize_def file_bytes_def)
    show ?thesis
    proof (cases "n = fileSize cf \<and> n > 0")
      case True
      then have "dl_ok cf (beginVerification cf a (dl_part d1) DownloadedPart
              (d1\<lparr>dl_bytesReceived := n, dl_bytesTotal := fileSize cf\<rparr>))"
        using d1 n part
        by (intro begin_verification_ok) (simp_all add: quiet_def verification_sound_def partSize_def)
      then show ?thesis using eq True by simp
    next
      case False
      have f1: "dl_ok cf (fail_download a err r p (d1\<lparr>dl_partOpen := False\<rparr>))" for err r p
        using d1 by (intro fail_ok) (simp_all add: quiet_def)
      have f2: "dl_ok cf (fail_download a err r p d1)" for err r p using d1 by (intro fail_ok) simp_all
      define d2 where "d2 = d1\<lparr>dl_part := Some (file_bytes (dl_part d1)), dl_partOpen := True\<rparr>"
      have d2: "partSize d2 = n" "quiet d2" "\<not> dl_restartWithoutRange d2" "dl_lock d2 = LockMine"
        "dl_partOpen d2" "dl_part d2 \<noteq> None"
        using n d1 by (simp_all add: d2_def partSize_def file_bytes_def quiet_def)
      have f3: "dl_ok cf ((setState Downloading (d2\<lparr>dl_requestOffset := partSize d2,
            dl_responseValidated := False,
            dl_bytesReceived := partSize d2, dl_bytesTotal := fileSize cf, dl_lastSpeedBytes := partSize d2,
            dl_reply := Some \<lparr>re_status = 0, re_headers = [], re_buffer = [], re_failed = False,
                             re_finished = False\<rparr>\<rparr>))\<lparr>dl_speedTimer := True\<rparr>)"
        using d2 \<open>n \<le> fileSize cf\<close> \<open>0 \<le> n\<close>
        by (simp add: dl_ok_def quiet_def setState_def transfer_ok_def delays_ok_def) (simp add: partSize_def)
      show ?thesis unfolding eq Let_def d2_def[symmetric] if_not_P[OF False] using f1 f2 f3 by simp
    qed
  qed
qed

lemma inspect_ok:
  assumes "quiet d" "\<not> dl_restartWithoutRange d" "dl_reply d = None" "dl_lock d = LockMine"
    and "0 < fileSize cf"
  shows "dl_ok cf (inspectLockedFiles cf a d)"
  using assms by (auto simp: inspectLockedFiles_def verification_sound_def intro: open_request_ok begin_verification_ok)

lemma acquire_ok:
  assumes "quiet d" "\<not> dl_restartWithoutRange d" "dl_reply d = None" "dl_lock d \<noteq> LockMine"
    and "0 < fileSize cf"
  shows "dl_ok cf (acquireDownloadLock cf a d)"
proof -
  have "dl_ok cf (inspectLockedFiles cf a (d\<lparr>dl_lock := LockMine\<rparr>))"
    using assms by (intro inspect_ok) (simp_all add: quiet_def)
  moreover have "dl_ok cf (fail_download a LockNotAcquired False False d)" using assms by (intro fail_ok)
  ultimately show ?thesis
    using assms(1-4)
    by (simp add: acquireDownloadLock_def quiet_def) (simp add: dl_ok_def setState_def delays_ok_def)
qed

text \<open>\<open>receiving\<close>: a reply is open and may be read.\<close>

definition receiving :: "download_config \<Rightarrow> download \<Rightarrow> bool" where
  "receiving cf d \<longleftrightarrow> quiet d \<and> \<not> dl_restartWithoutRange d \<and> dl_lock d = LockMine
     \<and> dl_state d = Downloading \<and> dl_reply d \<noteq> None \<and> dl_partOpen d \<and> dl_part d \<noteq> None
     \<and> 0 \<le> dl_requestOffset d \<and> dl_requestOffset d \<le> partSize d \<and> partSize d \<le> fileSize cf"

lemma dl_ok_receiving:
  "dl_ok cf d \<Longrightarrow> dl_reply d = Some r \<Longrightarrow> receiving cf d \<and> \<not> re_finished r"
  by (cases "dl_state d") (auto simp: dl_ok_def receiving_def quiet_def transfer_ok_def)

lemma receiving_ok:
  "receiving cf d \<Longrightarrow> \<forall>r. dl_reply d = Some r \<longrightarrow> \<not> re_finished r \<Longrightarrow> dl_ok cf d"
  by (auto simp: dl_ok_def receiving_def quiet_def transfer_ok_def delays_ok_def)

lemma conclude_ok:
  assumes "receiving cf (d\<lparr>dl_restartWithoutRange := False\<rparr>)"
  shows "dl_ok cf (conclude cf a r d)"
proof -
  let ?d = "d\<lparr>dl_reply := None, dl_partOpen := False, dl_speedTimer := False\<rparr>"
  have q: "quiet (?d\<lparr>dl_restartWithoutRange := False\<rparr>)" "dl_lock d = LockMine" "dl_state d = Downloading"
    "dl_part d \<noteq> None"
    using assms by (simp_all add: receiving_def quiet_def)
  have np: "\<not> dl_cancelled d" "\<not> dl_userPaused d" using q by (simp_all add: quiet_def)
  show ?thesis
  proof (cases "dl_restartWithoutRange d")
    case True
    obtain removed d2 where rm: "remove_part a (?d\<lparr>dl_restartWithoutRange := False\<rparr>) = (removed, d2)"
      by fastforce
    then have d2: "quiet d2" "\<not> dl_restartWithoutRange d2" "dl_reply d2 = None" "dl_lock d2 = LockMine"
      "dl_state d2 = Downloading"
      using q by (auto simp: remove_part_def quiet_def split: if_splits)
    have "dl_ok cf (d2\<lparr>dl_restartCalls := dl_restartCalls d2 + 1\<rparr>)"
      using d2 by (simp add: dl_ok_def quiet_def transfer_ok_def delays_ok_def)
    then show ?thesis using True np rm d2(1,2) fail_ok by (simp add: conclude_def)
  next
    case False
    have qd: "quiet ?d" using q by (simp add: quiet_def)
    have "dl_ok cf (fail_download a err b p ?d)" for err b p using qd False by (intro fail_ok) simp_all
    moreover have "dl_ok cf (beginVerification cf a (dl_part ?d) DownloadedPart ?d)" if "partSize ?d = fileSize cf"
      using qd False q that by (intro begin_verification_ok) (simp_all add: verification_sound_def)
    ultimately show ?thesis using False np by (simp add: conclude_def Let_def)
  qed
qed

lemma conclude_reply [simp]: "dl_reply (conclude cf a r d) = None"
  unfolding conclude_def Let_def
  by (cases "remove_part a (d\<lparr>dl_reply := None, dl_partOpen := False, dl_speedTimer := False,
        dl_restartWithoutRange := False\<rparr>)")
    (auto simp: remove_part_def split: if_splits)

lemma validate_ok:
  assumes "receiving cf d" "dl_reply d = Some r"
    and "validateResponseHeaders cf a d = (valid, d1)"
  shows "valid \<and> receiving cf d1 \<and> dl_reply d1 = Some r \<and> dl_part d1 = dl_part d
      \<or> \<not> valid \<and> (dl_ok cf d1 \<and> dl_reply d1 = None \<or> d1 = d
          \<or> re_finished r \<and> d1 = d\<lparr>dl_restartWithoutRange := True\<rparr>)"
proof -
  have fails: "dl_ok cf (fail_download a err b p d)" for err b p
    using fail_ok assms(1) by (simp add: receiving_def)
  have concl: "dl_ok cf (conclude cf a (r\<lparr>re_failed := True\<rparr>) (d\<lparr>dl_restartWithoutRange := True\<rparr>))"
    using assms(1) by (intro conclude_ok) (simp add: receiving_def quiet_def partSize_def)
  have keep: "receiving cf (d\<lparr>dl_responseValidated := True\<rparr>)"
    using assms(1) by (simp add: receiving_def quiet_def partSize_def)
  define R where "R res \<longleftrightarrow> (case res of (valid, d1) \<Rightarrow>
      valid \<and> receiving cf d1 \<and> dl_reply d1 = Some r \<and> dl_part d1 = dl_part d
      \<or> \<not> valid \<and> (dl_ok cf d1 \<and> dl_reply d1 = None \<or> d1 = d
          \<or> re_finished r \<and> d1 = d\<lparr>dl_restartWithoutRange := True\<rparr>))" for res
  have R: "R (False, fail_download a err b p d)" "R (False, d)" "R (dl_responseValidated d, d)"
    "re_finished r \<Longrightarrow> R (False, d\<lparr>dl_restartWithoutRange := True\<rparr>)"
    "R (False, conclude cf a (r\<lparr>re_failed := True\<rparr>) (d\<lparr>dl_restartWithoutRange := True\<rparr>))"
    "R (True, d\<lparr>dl_responseValidated := True\<rparr>)" for err b p
    using assms(1,2) fails concl keep by (simp_all add: R_def)
  have "R (validateResponseHeaders cf a d)"
    unfolding validateResponseHeaders_def assms(2) option.case Let_def
    by (simp only: R if_split split: option.split) (simp add: R)
  then show ?thesis using assms(3) by (simp add: R_def)
qed

lemma read_loop_ok:
  "receiving cf d \<Longrightarrow>
     dl_ok cf (read_loop cf a ws d) \<and> dl_reply (read_loop cf a ws d) = None
     \<or> receiving cf (read_loop cf a ws d) \<and>
       re_finished (the (dl_reply (read_loop cf a ws d))) = re_finished (the (dl_reply d))"
proof (induction cf a ws d rule: read_loop.induct)
  case (1 cf a ws d)
  obtain r where r: "dl_reply d = Some r" using 1(2) by (auto simp: receiving_def)
  have fails: "dl_ok cf (fail_download a err b p x)" if "quiet x" "\<not> dl_restartWithoutRange x" for err b p x
    using fail_ok that .
  show ?case
  proof (cases "re_buffer r = [] \<or> partSize d > fileSize cf")
    case True
    then show ?thesis using 1(2) r
      by (subst (1 2 3 4) read_loop.simps) (auto simp: receiving_def)
  next
    case False
    define block where "block = take (maximumRead (fileSize cf - partSize d)) (re_buffer r)"
    define d1 where "d1 = d\<lparr>dl_reply := Some (r\<lparr>re_buffer := drop (maximumRead (fileSize cf - partSize d)) (re_buffer r)\<rparr>)\<rparr>"
    define n where "n = next_write ws block d"
    define d2 where "d2 = d1\<lparr>dl_part := Some (file_bytes (dl_part d1) @ take n block)\<rparr>"
    define d3 where "d3 = d2\<lparr>dl_bytesReceived := partSize d + int (length block)\<rparr>"
    have eq: "read_loop cf a ws d =
       (if block = [] then d1
        else if int (length block) > fileSize cf - partSize d then fail_download a ResponseExceeds False True d1
        else if n \<noteq> length block then fail_download a WriteFailed False True d2
        else read_loop cf a (tl ws) d3)"
      using False r by (subst read_loop.simps) (simp add: Let_def block_def d1_def n_def d2_def d3_def)
    have d1: "receiving cf d1" "quiet d1" "\<not> dl_restartWithoutRange d1"
      using 1(2) by (simp_all add: d1_def receiving_def quiet_def partSize_def)
    have d2: "quiet d2" "\<not> dl_restartWithoutRange d2" using d1 by (simp_all add: d2_def quiet_def)
    have fin: "re_finished (the (dl_reply d1)) = re_finished (the (dl_reply d))"
      "re_finished (the (dl_reply d3)) = re_finished (the (dl_reply d))"
      using r by (simp_all add: d1_def d2_def d3_def)
    show ?thesis
    proof (cases "block = [] \<or> int (length block) > fileSize cf - partSize d \<or> n \<noteq> length block")
      case True
      then show ?thesis unfolding eq using d1 fin fails[OF d1(2,3)] fails[OF d2] by auto
    next
      case ok: False
      have "partSize d3 = partSize d + int (length block)"
        using ok by (simp add: d3_def d2_def d1_def partSize_def file_bytes_def)
      then have "receiving cf d3"
        using 1(2) ok by (simp add: d3_def d2_def d1_def receiving_def quiet_def)
      moreover have "read_loop cf a ws d = read_loop cf a (tl ws) d3" unfolding eq using ok by simp
      moreover have "receiving cf d3 \<Longrightarrow>
          dl_ok cf (read_loop cf a (tl ws) d3) \<and> dl_reply (read_loop cf a (tl ws) d3) = None
          \<or> receiving cf (read_loop cf a (tl ws) d3) \<and>
            re_finished (the (dl_reply (read_loop cf a (tl ws) d3))) = re_finished (the (dl_reply d3))"
        unfolding d3_def d2_def n_def d1_def block_def
        by (rule 1(1)[OF r _ refl _ refl refl refl _ _ refl refl])
          (use False ok in \<open>simp_all add: block_def n_def\<close>)
      ultimately show ?thesis using fin by metis
    qed
  qed
qed

lemma handleReadyRead_ok:
  assumes "receiving cf d"
  shows "dl_ok cf (handleReadyRead cf a d) \<and> dl_reply (handleReadyRead cf a d) = None
    \<or> receiving cf (handleReadyRead cf a d) \<and>
       re_finished (the (dl_reply (handleReadyRead cf a d))) = re_finished (the (dl_reply d))
    \<or> re_finished (the (dl_reply d)) \<and> handleReadyRead cf a d = d\<lparr>dl_restartWithoutRange := True\<rparr>"
proof -
  obtain r where r: "dl_reply d = Some r" using assms by (auto simp: receiving_def)
  obtain valid d1 where v: "validateResponseHeaders cf a d = (valid, d1)" by fastforce
  have eq: "handleReadyRead cf a d = (if \<not> valid then d1 else read_loop cf a (an_written a) d1)"
    using assms r v by (simp add: handleReadyRead_def receiving_def)
  show ?thesis
  proof (cases valid)
    case True
    then have "receiving cf d1" "dl_reply d1 = Some r" using validate_ok[OF assms r v] by auto
    then show ?thesis using read_loop_ok[of cf d1 a "an_written a"] eq True r by auto
  next
    case False
    then show ?thesis using validate_ok[OF assms r v] eq r assms by auto
  qed
qed

lemma handleNetworkFinished_ok:
  assumes "receiving cf d"
  shows "dl_ok cf (handleNetworkFinished cf a d)"
proof -
  obtain r where r: "dl_reply d = Some r" using assms by (auto simp: receiving_def)
  have off: "receiving cf (x\<lparr>dl_restartWithoutRange := False\<rparr>)" if "receiving cf x" for x
    using that by (simp add: receiving_def quiet_def partSize_def)
  have plain: "dl_ok cf (conclude cf a r x)"
    if "receiving cf x \<or> (\<exists>y. receiving cf y \<and> x = y\<lparr>dl_restartWithoutRange := True\<rparr>)" for x
    using that off by (intro conclude_ok) auto
  show ?thesis
  proof (cases "(re_status r = 200 \<or> re_status r = 206) \<and> \<not> dl_restartWithoutRange d")
    case False
    then show ?thesis using plain[of d] assms r by (auto simp: handleNetworkFinished_def)
  next
    case True
    obtain valid d1 where v: "validateResponseHeaders cf a d = (valid, d1)" by fastforce
    define d2 where "d2 = (if valid then handleReadyRead cf a d1 else d1)"
    have eq: "handleNetworkFinished cf a d = (if dl_reply d2 = None then d2 else conclude cf a r d2)"
      unfolding handleNetworkFinished_def r option.case if_P[OF True] v Let_def prod.case d2_def by (rule refl)
    have "dl_ok cf d2 \<and> dl_reply d2 = None \<or> receiving cf d2
        \<or> (\<exists>y. receiving cf y \<and> d2 = y\<lparr>dl_restartWithoutRange := True\<rparr>)"
      using validate_ok[OF assms r v] handleReadyRead_ok[of cf d1 a] assms
      by (cases valid) (auto simp: d2_def)
    moreover have "dl_reply x \<noteq> None" if "receiving cf x" for x using that by (simp add: receiving_def)
    ultimately show ?thesis using plain[of d2] by (force simp: eq)
  qed
qed

lemma rename_part_simps [simp]:
  "quiet (snd (rename_part a d)) = quiet d"
  "dl_reply (snd (rename_part a d)) = dl_reply d"
  "dl_lock (snd (rename_part a d)) = dl_lock d"
  "dl_restartWithoutRange (snd (rename_part a d)) = dl_restartWithoutRange d"
  by (simp_all add: rename_part_def quiet_def)

lemma complete_ok:
  assumes "quiet d" "\<not> dl_restartWithoutRange d" "dl_reply d = None"
  shows "dl_ok cf (completeSuccessfully d)"
  using assms by (simp add: dl_ok_def quiet_def completeSuccessfully_def small_steps delays_ok_def)

lemma commit_ok:
  assumes "quiet d" "\<not> dl_restartWithoutRange d" "dl_reply d = None" "dl_lock d = LockMine"
    and "dl_part d \<noteq> None" "sha256File cf (dl_part d) = me_sha256 (cf_entry cf)"
  shows "dl_ok cf (commitVerifiedPart cf a d)"
proof -
  define d1 where "d1 = d\<lparr>dl_final := an_published a\<rparr>"
  obtain renamed d2 where rn: "rename_part a d1 = (renamed, d2)" by fastforce
  have d1: "quiet d1" "\<not> dl_restartWithoutRange d1" "dl_reply d1 = None" "dl_lock d1 = LockMine"
    "dl_part d1 \<noteq> None" "sha256File cf (dl_part d1) = me_sha256 (cf_entry cf)"
    using assms by (simp_all add: d1_def quiet_def)
  have d2: "quiet d2" "\<not> dl_restartWithoutRange d2" "dl_reply d2 = None" "\<not> renamed \<Longrightarrow> d2 = d1"
    using d1 rn by (auto simp: rename_part_def quiet_def split: if_splits)
  have begins: "dl_ok cf (beginVerification cf a (dl_final x) FinalBeforeCommit x)"
    if "quiet x" "\<not> dl_restartWithoutRange x" "dl_reply x = None" "dl_lock x = LockMine" "dl_part x \<noteq> None"
      "sha256File cf (dl_part x) = me_sha256 (cf_entry cf)" "dl_final x \<noteq> None" for x
    using that by (intro begin_verification_ok) (simp_all add: verification_sound_def)
  show ?thesis
    unfolding commitVerifiedPart_def d1_def[symmetric] rn Let_def
    using begins[of d] begins[of d1] assms d1 d2 fail_ok[of d2] complete_ok[of d2] by auto
qed

lemma verification_finished_ok:
  assumes q: "quiet d" "\<not> dl_restartWithoutRange d" "dl_reply d = None" "dl_lock d = LockMine"
    and w: "verification_sound cf d (purpose, checksum)" and size: "0 < fileSize cf"
  shows "dl_ok cf (handleVerificationFinished cf a checksum purpose d)"
proof -
  have kept: "dl_ok cf (completeSuccessfully (snd (remove_part a d)))"
    "dl_ok cf (fail_download a ChecksumMismatch False False (snd (remove_part a d)))"
    using q by (auto intro: complete_ok fail_ok)
  obtain removed d1 where rf: "remove_final a d = (removed, d1)" by fastforce
  have d1: "quiet d1" "\<not> dl_restartWithoutRange d1" "dl_reply d1 = None" "dl_lock d1 = LockMine"
    using q rf remove_final_simps[of a d] by simp_all
  obtain renamed d2 where rn: "rename_part a d1 = (renamed, d2)" by fastforce
  have d2: "quiet d2" "\<not> dl_restartWithoutRange d2" "dl_reply d2 = None"
    using d1 rn rename_part_simps(1,2,4)[of a d1] by simp_all
  have "dl_ok cf (fail_download a err b p x)" if "x = d1 \<or> x = d2" for err b p x
    using that d1 d2 by (intro fail_ok) auto
  moreover have "dl_ok cf (beginRequest cf a d1)"
    using d1 size by (simp add: beginRequest_def open_request_ok)
  moreover have "dl_ok cf (completeSuccessfully d2)" using d2 by (rule complete_ok)
  moreover have "dl_ok cf (commitVerifiedPart cf a d)"
    if "purpose = DownloadedPart" "checksum = me_sha256 (cf_entry cf)"
    using commit_ok q w that by (simp add: verification_sound_def)
  ultimately show ?thesis
    unfolding handleVerificationFinished_def rf Let_def prod.case rn using kept
    by (cases purpose) auto
qed

subsection \<open>Runs\<close>

text \<open>
  \<open>ModelManager::download\<close> starts a new operation once, and deletes it when it has reported its
  end. A request to be restarted from the first byte is a queued call, which the event loop delivers before a
  later call of the user. \<open>can_occur\<close> is what follows from this for the calls that begin an attempt;
  all other events occur in any order. An event that cannot occur is skipped.
\<close>

definition can_occur :: "download \<Rightarrow> download_event \<Rightarrow> bool" where
  "can_occur d e \<longleftrightarrow> (case e of
       Start \<Rightarrow> dl_retryTimers d = [] \<and> \<not> dl_lockTimer d
     | Resume \<Rightarrow> dl_restartCalls d = 0
     | _ \<Rightarrow> True)"

definition download_event_step :: "download_config \<Rightarrow> download \<Rightarrow> download_event \<times> answers \<Rightarrow> download" where
  "download_event_step cf d ea = (if can_occur d (fst ea) then download_step cf d ea else d)"

lemma acquire_nothing:
  "dl_cancelled d \<or> dl_userPaused d \<or> dl_lock d = LockMine \<Longrightarrow> acquireDownloadLock cf a d = d"
  by (simp add: acquireDownloadLock_def)

lemma start_ok:
  assumes "dl_ok cf d" "0 < fileSize cf" "dl_retryTimers d = []" "\<not> dl_lockTimer d"
  shows "dl_ok cf (start_download cf a d)"
proof (cases "dl_state d = Pending \<or> dl_state d = Failed")
  case True
  then have "dl_ok cf (acquireDownloadLock cf a (d\<lparr>dl_cancelled := False, dl_userPaused := False,
            dl_finishedEmitted := False, dl_retryCount := 0, dl_error := None\<rparr>))"
    using assms by (intro acquire_ok) (auto simp: dl_ok_def quiet_def)
  then show ?thesis using True by (auto simp: start_download_def)
next
  case False
  then show ?thesis using assms(1) by (auto simp: start_download_def)
qed

lemma resume_ok:
  assumes "dl_ok cf d" "0 < fileSize cf" "dl_restartCalls d = 0"
  shows "dl_ok cf (resume_download cf a d)"
proof (cases "dl_state d = Paused \<or> dl_state d = Failed")
  case True
  then have "dl_ok cf (acquireDownloadLock cf a (setState Pending
            (d\<lparr>dl_userPaused := False, dl_cancelled := False, dl_restartWithoutRange := False,
              dl_responseValidated := False, dl_finishedEmitted := False, dl_error := None\<rparr>)))"
    using assms by (intro acquire_ok) (auto simp: dl_ok_def quiet_def setState_def)
  then show ?thesis using True by (auto simp: resume_download_def)
next
  case False
  then show ?thesis using assms(1) by (auto simp: resume_download_def)
qed

lemma pause_ok: "dl_ok cf d \<Longrightarrow> dl_ok cf (pause_download d)"
  by (auto simp: dl_ok_def pause_download_def small_steps transfer_ok_def delays_ok_def)

lemma cancel_verifying_ok:
  assumes "dl_ok cf d" "dl_verificationInProgress d"
  shows "dl_ok cf (cancel_download a d)"
  using assms by (cases "dl_state d") (auto simp: dl_ok_def cancel_download_def setState_def Let_def)

lemma cancel_idle_ok:
  assumes ok: "dl_ok cf d" and v: "\<not> dl_verificationInProgress d"
  shows "dl_ok cf (cancel_download a d)"
proof (cases "dl_state d = Completed \<or> dl_state d = Cancelled")
  case True
  then show ?thesis using ok by (auto simp: cancel_download_def)
next
  case False
  define d3 where "d3 = (let d2 = closeActiveRequest (setState Cancelled
        (d\<lparr>dl_cancelled := True, dl_lockTimer := False, dl_speedTimer := False\<rparr>)) in
      if dl_lock d2 = LockFree \<and> \<not> an_lockError a then d2\<lparr>dl_lock := LockMine\<rparr> else d2)"
  define d4 where "d4 = (if dl_lock d3 = LockMine then snd (remove_part a d3) else d3)"
  have w: "dl_watchers d = []" "\<not> dl_restartWithoutRange d" "dl_retryCount d \<le> MaximumRetries"
    "delays_ok (dl_retryTimers d)"
    using ok v False by (auto simp: dl_ok_def split: download_state.splits)
  have "cancel_download a d = finish_download False (releaseDownloadLock d4)"
    using False v by (simp add: cancel_download_def Let_def d3_def d4_def setState_def)
  moreover have d4: "dl_state d4 = Cancelled" "dl_cancelled d4" "\<not> dl_lockTimer d4" "dl_reply d4 = None"
    "\<not> dl_verificationInProgress d4" "dl_watchers d4 = []" "\<not> dl_restartWithoutRange d4"
    "dl_retryCount d4 \<le> MaximumRetries" "delays_ok (dl_retryTimers d4)"
    using w v by (simp_all add: d4_def d3_def Let_def small_steps)
  moreover have "dl_ok cf (finish_download False (releaseDownloadLock d4))"
    using d4 by (simp add: dl_ok_def finish_download_def releaseDownloadLock_def)
  ultimately show ?thesis by simp
qed

lemma verification_done_ok:
  assumes ok: "dl_ok cf d" and size: "0 < fileSize cf"
  shows "dl_ok cf (verification_done cf a d)"
proof (cases "dl_watchers d")
  case Nil
  then show ?thesis using ok by (simp add: verification_done_def)
next
  case (Cons w ws)
  obtain purpose checksum where w: "w = (purpose, checksum)" by fastforce
  let ?d = "d\<lparr>dl_watchers := ws, dl_verificationInProgress := False\<rparr>"
  have st: "dl_state d = Verifying \<or> dl_state d = Cancelled" using ok Cons
    by (auto simp: dl_ok_def split: download_state.splits)
  then show ?thesis
  proof
    assume "dl_state d = Verifying"
    then have d: "\<not> dl_restartWithoutRange d" "dl_retryCount d \<le> MaximumRetries" "dl_reply d = None"
      "dl_restartCalls d = 0" "dl_lock d = LockMine" "\<not> dl_userPaused d" "\<not> dl_cancelled d"
      "\<not> dl_lockTimer d" "dl_retryTimers d = []" "\<not> dl_finishedEmitted d" "ws = []"
      "verification_sound cf d (purpose, checksum)"
      using ok Cons w by (simp_all add: dl_ok_def)
    have "verification_sound cf ?d (purpose, checksum)"
      using d(12) by (simp add: verification_sound_def partSize_def cong: verification_purpose.case_cong)
    then have "dl_ok cf (handleVerificationFinished cf a checksum purpose ?d)"
      using d size by (intro verification_finished_ok) (simp_all add: quiet_def)
    then show ?thesis using Cons w d by (simp add: verification_done_def)
  next
    assume c: "dl_state d = Cancelled"
    then have "dl_cancelled d" "dl_lock d = LockMine" "ws = []" "dl_reply d = None" "\<not> dl_lockTimer d"
      "\<not> dl_restartWithoutRange d" "dl_retryCount d \<le> MaximumRetries" "delays_ok (dl_retryTimers d)"
      using ok Cons by (auto simp: dl_ok_def split: if_splits)
    then show ?thesis using Cons w c
      by (simp add: verification_done_def small_steps dl_ok_def Let_def)
  qed
qed

lemma lock_timer_ok:
  assumes ok: "dl_ok cf d" "dl_lockTimer d" and size: "0 < fileSize cf"
  shows "dl_ok cf (acquireDownloadLock cf a (d\<lparr>dl_lockTimer := False\<rparr>))"
proof -
  have "dl_state d = Pending" using ok by (auto simp: dl_ok_def split: download_state.splits)
  then show ?thesis using ok size by (intro acquire_ok) (auto simp: dl_ok_def quiet_def)
qed

lemma retry_timer_ok:
  assumes ok: "dl_ok cf d" "dl_retryTimers d = t # rest" and size: "0 < fileSize cf"
  shows "(\<not> dl_cancelled d \<and> \<not> dl_userPaused d \<longrightarrow>
        dl_ok cf (acquireDownloadLock cf a (d\<lparr>dl_retryTimers := rest\<rparr>)))
     \<and> (dl_cancelled d \<or> dl_userPaused d \<longrightarrow> dl_ok cf (d\<lparr>dl_retryTimers := rest\<rparr>))"
proof -
  have st: "dl_state d = Pending \<or> dl_state d = Cancelled"
    using ok by (auto simp: dl_ok_def split: download_state.splits)
  then show ?thesis
  proof
    assume p: "dl_state d = Pending"
    then have "dl_ok cf (acquireDownloadLock cf a (d\<lparr>dl_retryTimers := rest\<rparr>))"
      using ok size by (intro acquire_ok) (auto simp: dl_ok_def quiet_def delays_ok_def)
    moreover have "\<not> dl_cancelled d" "\<not> dl_userPaused d" using ok p by (auto simp: dl_ok_def)
    ultimately show ?thesis by simp
  next
    assume "dl_state d = Cancelled"
    then show ?thesis using ok by (auto simp: dl_ok_def delays_ok_def)
  qed
qed

lemma restart_call_ok:
  assumes ok: "dl_ok cf d" "dl_restartCalls d > 0" and size: "0 < fileSize cf"
  shows "dl_ok cf (beginRequest cf a (d\<lparr>dl_restartCalls := dl_restartCalls d - 1\<rparr>))"
proof (cases "dl_state d = Downloading")
  case True
  then have "dl_restartCalls d = 1" "dl_reply d = None" "dl_lock d = LockMine"
    using ok by (auto simp: dl_ok_def transfer_ok_def)
  then show ?thesis using ok size True
    by (simp add: beginRequest_def) (intro open_request_ok, auto simp: dl_ok_def quiet_def)
next
  case False
  then have "dl_lock d \<noteq> LockMine" "dl_cancelled d \<or> dl_userPaused d"
    using ok by (auto simp: dl_ok_def split: download_state.splits if_splits)
  then have "beginRequest cf a (d\<lparr>dl_restartCalls := dl_restartCalls d - 1\<rparr>)
      = d\<lparr>dl_restartCalls := dl_restartCalls d - 1\<rparr>"
    by (auto simp: beginRequest_def acquire_nothing)
  moreover have "dl_ok cf (d\<lparr>dl_restartCalls := dl_restartCalls d - 1\<rparr>)"
    using ok False by (auto simp: dl_ok_def split: download_state.splits)
  ultimately show ?thesis by simp
qed

lemma receiving_reply:
  "receiving cf d \<Longrightarrow> r \<noteq> None \<Longrightarrow> receiving cf (d\<lparr>dl_reply := r\<rparr>)"
  by (simp add: receiving_def quiet_def partSize_def)

lemma signals_ok:
  assumes ok: "dl_ok cf d" and r: "dl_reply d = Some r"
  shows "dl_ok cf (snd (validateResponseHeaders cf a
             (d\<lparr>dl_reply := Some (r\<lparr>re_status := status, re_headers := headers\<rparr>)\<rparr>)))"
    and "dl_ok cf (handleReadyRead cf a (d\<lparr>dl_reply := Some (r\<lparr>re_buffer := re_buffer r @ bs\<rparr>)\<rparr>))"
    and "dl_ok cf (handleNetworkFinished cf a
             (d\<lparr>dl_reply := Some (r\<lparr>re_failed := failed, re_finished := True\<rparr>)\<rparr>))"
proof -
  have rc: "receiving cf (d\<lparr>dl_reply := Some r'\<rparr>)" and nf: "\<not> re_finished r" for r'
    using dl_ok_receiving[OF ok r] by (auto intro: receiving_reply)
  let ?d1 = "d\<lparr>dl_reply := Some (r\<lparr>re_status := status, re_headers := headers\<rparr>)\<rparr>"
  obtain v d1 where v: "validateResponseHeaders cf a ?d1 = (v, d1)" by fastforce
  show "dl_ok cf (snd (validateResponseHeaders cf a ?d1))"
  proof -
    have "dl_ok cf ?d1" using receiving_ok[OF rc] nf by simp
    then show ?thesis using validate_ok[OF rc _ v] nf receiving_ok[of cf d1] by (auto simp: v)
  qed
  let ?d2 = "d\<lparr>dl_reply := Some (r\<lparr>re_buffer := re_buffer r @ bs\<rparr>)\<rparr>"
  have fin: "re_finished (the (dl_reply ?d2)) = re_finished r" by simp
  show "dl_ok cf (handleReadyRead cf a ?d2)"
    using handleReadyRead_ok[OF rc[of "r\<lparr>re_buffer := re_buffer r @ bs\<rparr>"], of a] nf fin
    by (auto intro: receiving_ok)
  show "dl_ok cf (handleNetworkFinished cf a
             (d\<lparr>dl_reply := Some (r\<lparr>re_failed := failed, re_finished := True\<rparr>)\<rparr>))"
    by (rule handleNetworkFinished_ok[OF rc])
qed

lemma other_process_ok:
  assumes "dl_ok cf d" "dl_lock d \<noteq> LockMine" "lock \<noteq> LockMine"
  shows "dl_ok cf (d\<lparr>dl_lock := lock, dl_part := p, dl_final := f\<rparr>)"
  using assms by (cases "dl_state d") (auto simp: dl_ok_def)

lemma published_ok:
  assumes "dl_ok cf d" "dl_final d = None"
  shows "dl_ok cf (d\<lparr>dl_final := Some bs\<rparr>)"
  using assms by (cases "dl_state d")
    (auto simp: dl_ok_def transfer_ok_def verification_sound_def partSize_def split: verification_purpose.splits)

lemma speed_ok: "dl_ok cf (d\<lparr>dl_bytesPerSecond := x, dl_lastSpeedBytes := y\<rparr>) = dl_ok cf d"
  by (cases "dl_state d") (simp_all add: dl_ok_def transfer_ok_def verification_sound_def partSize_def
      cong: verification_purpose.case_cong)

lemma download_event_step_ok:
  assumes ok: "dl_ok cf d" and size: "0 < fileSize cf"
  shows "dl_ok cf (download_event_step cf d ea)"
proof -
  obtain e a where ea: "ea = (e, a)" by fastforce
  show ?thesis
  proof (cases "can_occur d e")
    case False
    then show ?thesis using ok by (simp add: download_event_step_def ea)
  next
    case can: True
    have cancel: "dl_ok cf (cancel_download a d)"
      using ok cancel_verifying_ok cancel_idle_ok by (cases "dl_verificationInProgress d") auto
    note retry = retry_timer_ok[OF ok _ size]
    have "dl_ok cf (download_step cf d (e, a))"
      using can ok size cancel retry
      by (cases e)
        (auto simp: download_step_def can_occur_def start_ok resume_ok pause_ok lock_timer_ok Let_def
          restart_call_ok signals_ok verification_done_ok other_process_ok published_ok speed_ok
          simp del: One_nat_def split: list.splits option.splits)
    then show ?thesis using can by (simp add: download_event_step_def ea)
  qed
qed

lemma new_download_ok: "lock \<noteq> LockMine \<Longrightarrow> dl_ok cf (new_download cf part final lock)"
  by (simp add: dl_ok_def new_download_def delays_ok_def)

interpretation downloads: machine "download_event_step cf" "\<lambda>d. 0 < fileSize cf \<and> dl_ok cf d" for cf
  by unfold_locales (simp add: download_event_step_ok)

subsection \<open>What is reported\<close>

text \<open>\<open>reports\<close>: a step reports nothing, a failure, or the success of a model file whose digest is the one of the manifest.\<close>

definition reports :: "download_config \<Rightarrow> download \<Rightarrow> download \<Rightarrow> bool" where
  "reports cf d d' \<longleftrightarrow> dl_finished d' = dl_finished d \<or> dl_finished d' = dl_finished d @ [False]
     \<or> dl_finished d' = dl_finished d @ [True] \<and> dl_state d' = Completed \<and> dl_final d' \<noteq> None
       \<and> sha256File cf (dl_final d') = me_sha256 (cf_entry cf)"

lemma reports_refl: "dl_finished d' = dl_finished d \<Longrightarrow> reports cf d d'"
  by (simp add: reports_def)

lemma reports_fail:
  "dl_finished x = dl_finished d \<Longrightarrow> reports cf d (fail_download a err retryable discards x)"
  by (simp add: reports_def fail_download_def scheduleRetry_def small_steps Let_def)

lemma reports_begin:
  "dl_finished x = dl_finished d \<Longrightarrow> reports cf d (beginVerification cf a f purpose x)"
  by (simp add: beginVerification_def reports_fail) (simp add: reports_def setState_def)

lemma reports_complete:
  "dl_finished x = dl_finished d \<Longrightarrow> dl_final x \<noteq> None \<Longrightarrow>
   sha256File cf (dl_final x) = me_sha256 (cf_entry cf) \<Longrightarrow> reports cf d (completeSuccessfully x)"
  by (simp add: reports_def completeSuccessfully_def small_steps)

lemma file_steps_finished [simp]:
  "dl_finished (snd (remove_part a d)) = dl_finished d"
  "dl_finished (snd (remove_final a d)) = dl_finished d"
  "dl_finished (snd (rename_part a d)) = dl_finished d"
  by (simp_all add: remove_part_def remove_final_def rename_part_def)

lemma renamed_part:
  "fst (rename_part a d) \<Longrightarrow> dl_final (snd (rename_part a d)) = dl_part d \<and> dl_part d \<noteq> None"
  by (simp add: rename_part_def split: if_splits)

lemma reports_open: "dl_finished x = dl_finished d \<Longrightarrow> reports cf d (open_request cf a x)"
  unfolding open_request_def Let_def
  by (cases "an_available a")
    (simp_all add: case_prod_beta reports_fail reports_begin reports_refl setState_def)

lemma reports_acquire: "dl_finished x = dl_finished d \<Longrightarrow> reports cf d (acquireDownloadLock cf a x)"
  by (simp add: acquireDownloadLock_def inspectLockedFiles_def reports_fail reports_begin reports_open reports_refl
      setState_def)

lemma reports_conclude: "dl_finished x = dl_finished d \<Longrightarrow> reports cf d (conclude cf a r x)"
  unfolding conclude_def Let_def
  by (simp add: case_prod_beta reports_fail reports_begin reports_refl)

lemma reports_validate:
  "dl_finished x = dl_finished d \<Longrightarrow> reports cf d (snd (validateResponseHeaders cf a x))
     \<and> (fst (validateResponseHeaders cf a x) \<longrightarrow> dl_finished (snd (validateResponseHeaders cf a x)) = dl_finished d)
     \<and> (dl_reply (snd (validateResponseHeaders cf a x)) \<noteq> None \<longrightarrow>
          dl_finished (snd (validateResponseHeaders cf a x)) = dl_finished d)"
  unfolding validateResponseHeaders_def Let_def
  by (simp add: reports_fail reports_conclude reports_refl split: option.split)

lemma reports_read:
  "dl_finished x = dl_finished d \<Longrightarrow> reports cf d (read_loop cf a ws x)
     \<and> (dl_reply (read_loop cf a ws x) \<noteq> None \<longrightarrow> dl_finished (read_loop cf a ws x) = dl_finished d)"
proof (induction cf a ws x rule: read_loop.induct)
  case (1 cf a ws x)
  show ?case
    by (subst (1 2 3) read_loop.simps)
      (use 1 in \<open>simp add: reports_fail reports_refl Let_def split: option.split\<close>)
qed

lemma reports_ready:
  assumes "dl_finished x = dl_finished d"
  shows "reports cf d (handleReadyRead cf a x)
    \<and> (dl_reply (handleReadyRead cf a x) \<noteq> None \<longrightarrow> dl_finished (handleReadyRead cf a x) = dl_finished d)"
  using reports_validate[OF assms, of cf a] reports_read[of "snd (validateResponseHeaders cf a x)" d cf a "an_written a"]
    assms
  by (simp add: handleReadyRead_def case_prod_beta reports_refl)

lemma reports_network:
  assumes "dl_finished x = dl_finished d"
  shows "reports cf d (handleNetworkFinished cf a x)"
  using reports_validate[OF assms, of cf a] reports_ready[of "snd (validateResponseHeaders cf a x)" d cf a] assms
  by (simp add: handleNetworkFinished_def case_prod_beta Let_def reports_refl reports_conclude split: option.split)

lemma reports_commit:
  assumes "dl_finished x = dl_finished d" "sha256File cf (dl_part x) = me_sha256 (cf_entry cf)"
  shows "reports cf d (commitVerifiedPart cf a x)"
  using assms renamed_part[of a "x\<lparr>dl_final := an_published a\<rparr>"]
  by (auto simp: commitVerifiedPart_def case_prod_beta Let_def reports_begin reports_fail intro!: reports_complete)

lemma reports_verification:
  assumes "dl_finished x = dl_finished d" "verification_sound cf x (purpose, checksum)"
  shows "reports cf d (handleVerificationFinished cf a checksum purpose x)"
proof (cases purpose)
  case ExistingFinal
  then show ?thesis using assms
    by (auto simp: handleVerificationFinished_def case_prod_beta Let_def reports_fail beginRequest_def
        reports_acquire reports_open verification_sound_def intro!: reports_complete)
next
  case DownloadedPart
  then show ?thesis using assms
    by (auto simp: handleVerificationFinished_def Let_def reports_fail verification_sound_def intro!: reports_commit)
next
  case FinalBeforeCommit
  then show ?thesis using assms renamed_part[of a "snd (remove_final a x)"]
    by (auto simp: handleVerificationFinished_def case_prod_beta Let_def reports_fail verification_sound_def
        intro!: reports_complete)
qed

lemma reports_done:
  assumes ok: "dl_ok cf d"
  shows "reports cf d (verification_done cf a d)"
proof (cases "dl_watchers d")
  case Nil
  then show ?thesis by (simp add: verification_done_def reports_refl)
next
  case (Cons w ws)
  obtain purpose checksum where w: "w = (purpose, checksum)" by fastforce
  let ?d = "d\<lparr>dl_watchers := ws, dl_verificationInProgress := False\<rparr>"
  show ?thesis
  proof (cases "dl_cancelled d")
    case True
    then show ?thesis using Cons w
      by (auto simp: verification_done_def Let_def reports_def finish_download_def releaseDownloadLock_def)
  next
    case False
    then have "dl_state d = Verifying" using ok Cons by (auto simp: dl_ok_def split: download_state.splits)
    then have "verification_sound cf d w" using ok Cons by (auto simp: dl_ok_def)
    then have "verification_sound cf ?d (purpose, checksum)"
      using w by (simp add: verification_sound_def partSize_def cong: verification_purpose.case_cong)
    then have "reports cf d (handleVerificationFinished cf a checksum purpose ?d)"
      by (intro reports_verification) simp_all
    then show ?thesis using Cons w False by (simp add: verification_done_def)
  qed
qed

lemma reports_stop:
  "dl_finished x = dl_finished d \<Longrightarrow> reports cf d (finish_download False (releaseDownloadLock x))"
  by (simp add: reports_def finish_download_def releaseDownloadLock_def)

lemma reports_step:
  assumes ok: "dl_ok cf d"
  shows "reports cf d (download_event_step cf d ea)"
proof -
  obtain e a where ea: "ea = (e, a)" by fastforce
  have start: "reports cf d (start_download cf a d)"
    by (simp add: start_download_def reports_refl reports_acquire)
  have resume: "reports cf d (resume_download cf a d)"
    by (simp add: resume_download_def reports_refl reports_acquire setState_def)
  have pause: "reports cf d (pause_download d)"
    by (simp add: pause_download_def small_steps reports_refl)
  have cancel: "reports cf d (cancel_download a d)"
    by (simp add: cancel_download_def Let_def setState_def closeActiveRequest_def reports_stop reports_refl)
  have meta: "reports cf d (snd (validateResponseHeaders cf a (d\<lparr>dl_reply := r\<rparr>)))" for r
    using reports_validate[of "d\<lparr>dl_reply := r\<rparr>" d cf a] by simp
  have ready: "reports cf d (handleReadyRead cf a (d\<lparr>dl_reply := r\<rparr>))" for r
    using reports_ready[of "d\<lparr>dl_reply := r\<rparr>" d cf a] by simp
  have network: "reports cf d (handleNetworkFinished cf a (d\<lparr>dl_reply := r\<rparr>))" for r
    by (rule reports_network) simp
  have lock: "reports cf d (acquireDownloadLock cf a (d\<lparr>dl_lockTimer := False\<rparr>))"
    "reports cf d (acquireDownloadLock cf a (d\<lparr>dl_retryTimers := ts\<rparr>))" for ts
    by (rule reports_acquire, simp)+
  have restart: "reports cf d (beginRequest cf a (d\<lparr>dl_restartCalls := n\<rparr>))" for n
    by (simp add: beginRequest_def reports_acquire reports_open)
  have fields: "reports cf d (d\<lparr>dl_retryTimers := ts\<rparr>)" "reports cf d d"
    "reports cf d (d\<lparr>dl_bytesPerSecond := x, dl_lastSpeedBytes := y\<rparr>)" "reports cf d (d\<lparr>dl_final := f\<rparr>)"
    "reports cf d (d\<lparr>dl_lock := l, dl_part := f, dl_final := g\<rparr>)" for ts x y l f g
    by (simp_all add: reports_refl)
  note facts = start resume pause cancel reports_done[OF ok] meta ready network lock restart fields
  have "reports cf d (download_step cf d (e, a))"
    unfolding download_step_def Let_def prod.case
    by (cases e) (simp_all add: facts split: list.split option.split)
  then show ?thesis by (simp add: download_event_step_def ea reports_refl)
qed

text \<open>
  C17: A run of the download, whatever events and answers, reports success only in a step that ends
  in the state Completed with the published model present and its digest equal to the one in the manifest.
\<close>

theorem success_means_verified:
  assumes "entry_isValid ms (cf_entry cf)" "lock \<noteq> LockMine"
    and "d = foldl (download_event_step cf) (new_download cf part final lock) es"
    and "d' = download_event_step cf d ea"
    and "length (filter id (dl_finished d')) > length (filter id (dl_finished d))"
  shows "dl_state d' = Completed \<and> (\<exists>bs. dl_final d' = Some bs \<and> cf_hash cf bs = me_sha256 (cf_entry cf))"
proof -
  have "0 < fileSize cf" using valid_digest_nonempty[OF assms(1)] by (simp add: fileSize_def)
  then have "dl_ok cf d" using downloads.run_inv new_download_ok[OF assms(2)] assms(3) by blast
  then have "reports cf d d'" using reports_step assms(4) by simp
  then show ?thesis using assms(5) by (auto simp: reports_def sha256File_def)
qed

subsection \<open>A sample\<close>

definition sample_entry :: manifest_entry where
  "sample_entry = \<lparr>me_id = lit ''m'', me_displayName = lit ''M'', me_description = [],
     me_engine = lit ''whisper.cpp'', me_architecture = [], me_quantization = [], me_downloadUrl = lit ''u'',
     me_fileName = lit ''m.bin'', me_fileSize = 3, me_sha256 = replicate 64 51, me_sourceRepository = [],
     me_sourceRevision = lit ''abcdefg'', me_licenseName = lit ''MIT'', me_licenseUrl = lit ''l'',
     me_recommendedMemoryBytes = 0, me_capabilities = [], me_defaultLanguage = [], me_isRecommended = True\<rparr>"

definition sample_hash :: "bytes \<Rightarrow> bytes" where
  "sample_hash bs = replicate 64 (if bs = [1, 2, 3] then 51 else 48)"

definition sample_config :: download_config where
  "sample_config = \<lparr>cf_entry = sample_entry, cf_hash = sample_hash, cf_network = True\<rparr>"

definition sample_services :: manifest_services where
  "sample_services = \<lparr>ms_parse = \<lambda>_. None, ms_toLongLong = \<lambda>_. 0, ms_validUrl = \<lambda>_. True\<rparr>"

definition calm :: answers where
  "calm = \<lparr>an_lockError = False, an_removesPart = True, an_removesFinal = True, an_renames = True,
     an_published = None, an_available = None, an_factory = True, an_opens = True, an_written = []\<rparr>"

definition sample_download :: "(download_event \<times> answers) list" where
  "sample_download = map (\<lambda>e. (e, calm)) [Start, MetaDataChanged 200 [], ReadyRead [1, 2], Pause, Resume,
     MetaDataChanged 206 [(''content-range'', ''bytes 2-2/3'')], ReadyRead [3], NetworkFinished False]"

lemma sample_entry_valid: "entry_isValid sample_services sample_entry"
  by code_simp

theorem success_means_verified_witness:
  "let d = foldl (download_event_step sample_config) (new_download sample_config None None LockFree) sample_download;
       d' = download_event_step sample_config d (Verified, calm)
   in dl_state d = Verifying \<and> dl_state d' = Completed
      \<and> (\<exists>bs. dl_final d' = Some bs \<and> cf_hash sample_config bs = me_sha256 (cf_entry sample_config))"
proof -
  let ?d = "foldl (download_event_step sample_config) (new_download sample_config None None LockFree) sample_download"
  have entry: "entry_isValid sample_services (cf_entry sample_config)"
    using sample_entry_valid by (simp add: sample_config_def)
  have "dl_state ?d = Verifying" by code_simp
  moreover have "dl_finished ?d = []" by code_simp
  moreover have "dl_finished (download_event_step sample_config ?d (Verified, calm)) = [True]" by code_simp
  ultimately show ?thesis
    using success_means_verified[OF entry _ refl refl, of LockFree None None sample_download "(Verified, calm)"]
    by (simp add: Let_def)
qed

subsection \<open>Whose files they are\<close>

text \<open>
  C20: The lock is held exactly while a transfer or a verification is under way, and while another
  process holds it no call, signal or timer of this operation touches the files or the lock.
\<close>

theorem files_belong_to_lock_holder:
  assumes "entry_isValid ms (cf_entry cf)" "lock \<noteq> LockMine"
    and "d = foldl (download_event_step cf) (new_download cf part final lock) es"
  shows "(dl_lock d = LockMine \<longleftrightarrow> dl_state d \<in> {Downloading, Verifying} \<or> dl_verificationInProgress d)
    \<and> (dl_lock d = LockOther \<and> (\<forall>l p f. e \<noteq> OtherProcess l p f) \<and> (\<forall>bs. e \<noteq> PublishedFinal bs) \<longrightarrow>
         dl_part (download_event_step cf d (e, a)) = dl_part d
         \<and> dl_final (download_event_step cf d (e, a)) = dl_final d
         \<and> dl_lock (download_event_step cf d (e, a)) = LockOther)"
proof -
  have "0 < fileSize cf" using valid_digest_nonempty[OF assms(1)] by (simp add: fileSize_def)
  then have ok: "dl_ok cf d" using downloads.run_inv new_download_ok[OF assms(2)] assms(3) by blast
  have acq: "dl_part (acquireDownloadLock cf a x) = dl_part x \<and> dl_final (acquireDownloadLock cf a x) = dl_final x
      \<and> dl_lock (acquireDownloadLock cf a x) = LockOther" if "dl_lock x = LockOther" for x
    using that by (simp add: acquireDownloadLock_def fail_download_def scheduleRetry_def small_steps Let_def)
  have "dl_part (download_event_step cf d (e, a)) = dl_part d
         \<and> dl_final (download_event_step cf d (e, a)) = dl_final d
         \<and> dl_lock (download_event_step cf d (e, a)) = LockOther"
    if other: "dl_lock d = LockOther" and e: "\<forall>l p f. e \<noteq> OtherProcess l p f" "\<forall>bs. e \<noteq> PublishedFinal bs"
  proof -
    have "dl_reply d = None" "dl_watchers d = []" "\<not> dl_verificationInProgress d"
      using ok other by (auto simp: dl_ok_def split: download_state.splits if_splits)
    then show ?thesis using other e acq
      by (cases e) (auto simp: download_event_step_def download_step_def start_download_def resume_download_def
          pause_download_def cancel_download_def small_steps beginRequest_def verification_done_def Let_def
          split: list.split)
  qed
  moreover have "dl_lock d = LockMine \<longleftrightarrow> dl_state d \<in> {Downloading, Verifying} \<or> dl_verificationInProgress d"
    using ok by (auto simp: dl_ok_def split: download_state.splits if_splits)
  ultimately show ?thesis by blast
qed

theorem files_belong_to_lock_holder_witness:
  "let d = foldl (download_event_step sample_config) (new_download sample_config (Some [1]) None LockOther)
             [(Start, calm)]
   in dl_lock d = LockOther \<and> dl_lockTimer d
      \<and> dl_part (download_event_step sample_config d (Cancel, calm)) = Some [1]"
proof -
  let ?d = "foldl (download_event_step sample_config) (new_download sample_config (Some [1]) None LockOther)
             [(Start, calm)]"
  have entry: "entry_isValid sample_services (cf_entry sample_config)"
    using sample_entry_valid by (simp add: sample_config_def)
  have "dl_lock ?d = LockOther" by code_simp
  moreover have "dl_lockTimer ?d" by code_simp
  moreover have "dl_part ?d = Some [1]" by code_simp
  ultimately show ?thesis
    using files_belong_to_lock_holder[OF entry _ refl, of LockOther "Some [1]" None "[(Start, calm)]" Cancel calm]
    by (simp add: Let_def)
qed

subsection \<open>Bounds\<close>

text \<open>
  \<open>before_retry\<close>: the partial file is within a bound, and the automatic retries and their timers are as
  they were; \<open>one_retry\<close>: it is, and at most the next retry was scheduled, with its delay.
\<close>

definition before_retry :: "int \<Rightarrow> nat \<Rightarrow> int list \<Rightarrow> download \<Rightarrow> bool" where
  "before_retry m n ts d \<longleftrightarrow> int (length (file_bytes (dl_part d))) \<le> m \<and> dl_retryCount d = n
     \<and> dl_retryTimers d = ts"

definition one_retry :: "int \<Rightarrow> nat \<Rightarrow> int list \<Rightarrow> download \<Rightarrow> bool" where
  "one_retry m n ts d \<longleftrightarrow> before_retry m n ts d
     \<or> n < MaximumRetries \<and> before_retry m (Suc n) (ts @ [1000 * 2 ^ n]) d"

lemma one_retry_start: "before_retry m n ts d \<Longrightarrow> one_retry m n ts d" by (simp add: one_retry_def)

lemma before_retry_remove [simp]:
  "before_retry m n ts d \<Longrightarrow> 0 \<le> m \<Longrightarrow> before_retry m n ts (snd (remove_part a d))"
  "before_retry m n ts (snd (remove_final a d)) = before_retry m n ts d"
  "before_retry m n ts d \<Longrightarrow> 0 \<le> m \<Longrightarrow> before_retry m n ts (snd (rename_part a d))"
  by (simp_all add: before_retry_def remove_part_def remove_final_def rename_part_def file_bytes_def)

lemma before_retry_update [simp]:
  "before_retry m n ts (setState st d) = before_retry m n ts d"
  "before_retry m n ts (releaseDownloadLock d) = before_retry m n ts d"
  "before_retry m n ts (closeActiveRequest d) = before_retry m n ts d"
  "before_retry m n ts (finish_download b d) = before_retry m n ts d"
  "before_retry m n ts (completeSuccessfully d) = before_retry m n ts d"
  by (simp_all add: before_retry_def small_steps completeSuccessfully_def)

lemma before_retry_fields [simp]:
  "before_retry m n ts (d\<lparr>dl_partOpen := b\<rparr>) = before_retry m n ts d"
  "before_retry m n ts (d\<lparr>dl_bytesReceived := x\<rparr>) = before_retry m n ts d"
  "before_retry m n ts (d\<lparr>dl_bytesTotal := x\<rparr>) = before_retry m n ts d"
  "before_retry m n ts (d\<lparr>dl_requestOffset := x\<rparr>) = before_retry m n ts d"
  "before_retry m n ts (d\<lparr>dl_lastSpeedBytes := x\<rparr>) = before_retry m n ts d"
  "before_retry m n ts (d\<lparr>dl_responseValidated := b\<rparr>) = before_retry m n ts d"
  "before_retry m n ts (d\<lparr>dl_reply := r\<rparr>) = before_retry m n ts d"
  "before_retry m n ts (d\<lparr>dl_speedTimer := b\<rparr>) = before_retry m n ts d"
  "before_retry m n ts (d\<lparr>dl_lockTimer := b\<rparr>) = before_retry m n ts d"
  "before_retry m n ts (d\<lparr>dl_restartWithoutRange := b\<rparr>) = before_retry m n ts d"
  "before_retry m n ts (d\<lparr>dl_restartCalls := k\<rparr>) = before_retry m n ts d"
  "before_retry m n ts (d\<lparr>dl_lock := l\<rparr>) = before_retry m n ts d"
  "before_retry m n ts (d\<lparr>dl_final := f\<rparr>) = before_retry m n ts d"
  "before_retry m n ts (d\<lparr>dl_bytesPerSecond := x\<rparr>) = before_retry m n ts d"
  by (simp_all add: before_retry_def)

lemma before_retry_failed:
  assumes "before_retry m n ts d" "0 \<le> m"
  shows "before_retry m n ts (fail_download a err False discards d)"
    and "one_retry m n ts (fail_download a err retryable discards d)"
  using assms
  by (simp_all add: one_retry_def before_retry_def fail_download_def scheduleRetry_def small_steps file_bytes_def
      Let_def)

lemma before_retry_begin:
  "before_retry m n ts d \<Longrightarrow> 0 \<le> m \<Longrightarrow> before_retry m n ts (beginVerification cf a f purpose d)"
  by (simp add: beginVerification_def before_retry_failed) (simp add: before_retry_def setState_def)

lemma before_retry_open:
  assumes "before_retry m n ts d" "0 \<le> m"
  shows "before_retry m n ts (open_request cf a d)"
proof -
  have rm: "before_retry m n ts (snd (remove_part a d))" using assms by simp
  have part: "before_retry m n ts (x\<lparr>dl_part := Some (file_bytes (dl_part x))\<rparr>)" if "before_retry m n ts x" for x
    using that by (simp add: before_retry_def file_bytes_def)
  have empty: "before_retry m n ts (x\<lparr>dl_part := Some (file_bytes None)\<rparr>)" if "before_retry m n ts x" for x
    using that assms(2) by (simp add: before_retry_def file_bytes_def)
  show ?thesis
    unfolding open_request_def Let_def using assms rm
    by (cases "an_available a") (simp_all add: case_prod_beta before_retry_failed before_retry_begin part empty)
qed

lemma before_retry_acquire:
  "before_retry m n ts d \<Longrightarrow> 0 \<le> m \<Longrightarrow> before_retry m n ts (acquireDownloadLock cf a d)"
proof -
  assume *: "before_retry m n ts d" "0 \<le> m"
  have "before_retry m n ts (d\<lparr>dl_lock := LockMine\<rparr>)" "before_retry m n ts ((setState Pending d)\<lparr>dl_lockTimer := True\<rparr>)"
    using *(1) by (simp_all add: before_retry_def setState_def)
  then show ?thesis
    using * by (simp add: acquireDownloadLock_def inspectLockedFiles_def before_retry_failed before_retry_begin
        before_retry_open)
qed

lemma before_retry_request:
  "before_retry m n ts d \<Longrightarrow> 0 \<le> m \<Longrightarrow> before_retry m n ts (beginRequest cf a d)"
  by (simp add: beginRequest_def before_retry_acquire before_retry_open)

lemma one_retry_conclude:
  assumes "before_retry m n ts d" "0 \<le> m"
  shows "one_retry m n ts (conclude cf a r d)"
proof -
  let ?d = "d\<lparr>dl_reply := None, dl_partOpen := False, dl_speedTimer := False\<rparr>"
  let ?e = "?d\<lparr>dl_restartWithoutRange := False\<rparr>"
  have d: "before_retry m n ts ?d" "before_retry m n ts ?e" using assms(1) by (simp_all add: before_retry_def)
  have "one_retry m n ts ((snd (remove_part a ?e))\<lparr>dl_restartCalls := k\<rparr>)" for k
    using before_retry_remove(1)[OF d(2) assms(2), of a] by (simp add: one_retry_def before_retry_def)
  then show ?thesis
    unfolding conclude_def Let_def using assms(2) d
    by (simp add: case_prod_beta before_retry_failed one_retry_start before_retry_begin)
qed

lemma one_retry_validate:
  assumes "before_retry m n ts d" "0 \<le> m"
  shows "one_retry m n ts (snd (validateResponseHeaders cf a d))
     \<and> (fst (validateResponseHeaders cf a d) \<or> dl_reply (snd (validateResponseHeaders cf a d)) \<noteq> None \<longrightarrow>
          before_retry m n ts (snd (validateResponseHeaders cf a d)))"
proof -
  have "before_retry m n ts (d\<lparr>dl_restartWithoutRange := True\<rparr>)"
    "before_retry m n ts (d\<lparr>dl_responseValidated := True\<rparr>)"
    using assms(1) by (simp_all add: before_retry_def)
  then show ?thesis using assms unfolding validateResponseHeaders_def Let_def
    by (simp add: before_retry_failed one_retry_conclude one_retry_start split: option.split)
qed

text \<open>A block is written only where the file then is no longer than the model.\<close>

lemma one_retry_read:
  "before_retry m n ts d \<Longrightarrow> 0 \<le> m \<Longrightarrow> fileSize cf \<le> m \<Longrightarrow> one_retry m n ts (read_loop cf a ws d)
     \<and> (dl_reply (read_loop cf a ws d) \<noteq> None \<longrightarrow> before_retry m n ts (read_loop cf a ws d))"
proof (induction cf a ws d rule: read_loop.induct)
  case (1 cf a ws d)
  note b = 1(2) and m = 1(3,4)
  show ?case
  proof (cases "dl_reply d")
    case None
    then show ?thesis using b by (simp add: read_loop.simps one_retry_start)
  next
    case (Some r)
    let ?k = "maximumRead (fileSize cf - partSize d)"
    let ?block = "take ?k (re_buffer r)"
    let ?d1 = "d\<lparr>dl_reply := Some (r\<lparr>re_buffer := drop ?k (re_buffer r)\<rparr>)\<rparr>"
    let ?n = "next_write ws ?block d"
    let ?d2 = "?d1\<lparr>dl_part := Some (file_bytes (dl_part ?d1) @ take ?n ?block)\<rparr>"
    let ?d3 = "?d2\<lparr>dl_bytesReceived := partSize d + int (length ?block)\<rparr>"
    show ?thesis
    proof (cases "re_buffer r = [] \<or> partSize d > fileSize cf \<or> ?block = []
        \<or> int (length ?block) > fileSize cf - partSize d")
      case True
      have "before_retry m n ts ?d1" using b by (simp add: before_retry_def)
      then show ?thesis using True b m Some
        by (subst (1 2 3) read_loop.simps) (auto simp: before_retry_failed one_retry_start Let_def)
    next
      case ok: False
      have "length (take ?n ?block) \<le> length ?block" by simp
      then have "int (length (file_bytes (dl_part d))) + int (length (take ?n ?block)) \<le> fileSize cf"
        using ok unfolding partSize_def by linarith
      then have d2: "before_retry m n ts ?d2" and d3: "before_retry m n ts ?d3"
        using b m by (simp_all add: before_retry_def file_bytes_def)
      show ?thesis
      proof (cases "?n = length ?block")
        case False
        then have "read_loop cf a ws d = fail_download a WriteFailed False True ?d2"
          using ok Some by (subst read_loop.simps) (simp add: Let_def)
        then show ?thesis using before_retry_failed[OF d2] m by simp
      next
        case True
        then have "read_loop cf a ws d = read_loop cf a (tl ws) ?d3"
          using ok Some by (subst read_loop.simps) (simp add: Let_def)
        moreover have "one_retry m n ts (read_loop cf a (tl ws) ?d3)
            \<and> (dl_reply (read_loop cf a (tl ws) ?d3) \<noteq> None \<longrightarrow> before_retry m n ts (read_loop cf a (tl ws) ?d3))"
          using ok Some True by (intro 1(1)[OF Some _ refl _ refl refl refl _ _ refl refl] d3 m) auto
        ultimately show ?thesis by simp
      qed
    qed
  qed
qed

lemma one_retry_ready:
  assumes "before_retry m n ts d" "0 \<le> m" "fileSize cf \<le> m"
  shows "one_retry m n ts (handleReadyRead cf a d)
     \<and> (dl_reply (handleReadyRead cf a d) \<noteq> None \<longrightarrow> before_retry m n ts (handleReadyRead cf a d))"
  using one_retry_validate[OF assms(1,2), of cf a] assms
    one_retry_read[OF _ assms(2,3), of n ts "snd (validateResponseHeaders cf a d)" a "an_written a"]
  by (simp add: handleReadyRead_def case_prod_beta one_retry_start)

lemma one_retry_network:
  assumes "before_retry m n ts d" "0 \<le> m" "fileSize cf \<le> m"
  shows "one_retry m n ts (handleNetworkFinished cf a d)"
  using one_retry_validate[OF assms(1,2), of cf a] assms
    one_retry_ready[OF _ assms(2,3), of n ts "snd (validateResponseHeaders cf a d)" a]
  by (simp add: handleNetworkFinished_def case_prod_beta Let_def one_retry_start one_retry_conclude split: option.split)

lemma one_retry_commit:
  assumes "before_retry m n ts d" "0 \<le> m"
  shows "before_retry m n ts (commitVerifiedPart cf a d)"
proof -
  have "before_retry m n ts (d\<lparr>dl_final := an_published a\<rparr>)" using assms(1) by (simp add: before_retry_def)
  then show ?thesis using assms
    by (simp add: commitVerifiedPart_def case_prod_beta Let_def before_retry_begin before_retry_failed)
qed

lemma one_retry_verification_done:
  assumes "before_retry m n ts d" "0 \<le> m"
  shows "before_retry m n ts (verification_done cf a d)"
proof (cases "dl_watchers d")
  case Nil
  then show ?thesis using assms(1) by (simp add: verification_done_def)
next
  case (Cons w ws)
  let ?d = "d\<lparr>dl_watchers := ws, dl_verificationInProgress := False\<rparr>"
  have d: "before_retry m n ts ?d" using assms(1) by (simp add: before_retry_def)
  have "before_retry m n ts (handleVerificationFinished cf a checksum purpose ?d)" for checksum purpose
    unfolding handleVerificationFinished_def Let_def using d assms(2)
    by (cases purpose) (simp_all add: case_prod_beta before_retry_failed before_retry_request one_retry_commit)
  then show ?thesis using Cons d assms(2)
    by (simp add: verification_done_def Let_def case_prod_beta)
qed

lemma one_retry_step:
  assumes "0 \<le> fileSize cf" "\<forall>l p f. fst ea \<noteq> OtherProcess l p f"
    and m: "m = max (partSize d) (fileSize cf)"
  shows "if fst ea = Start then before_retry m 0 (dl_retryTimers d) (download_event_step cf d ea)
             \<or> before_retry m (dl_retryCount d) (dl_retryTimers d) (download_event_step cf d ea)
         else if fst ea = RetryTimer then before_retry m (dl_retryCount d) (tl (dl_retryTimers d)) (download_event_step cf d ea)
           \<or> before_retry m (dl_retryCount d) (dl_retryTimers d) (download_event_step cf d ea)
         else one_retry m (dl_retryCount d) (dl_retryTimers d) (download_event_step cf d ea)"
proof -
  obtain e a where ea: "ea = (e, a)" by fastforce
  have pos: "0 \<le> m" "fileSize cf \<le> m" using m assms(1) by auto
  let ?b = "before_retry m (dl_retryCount d) (dl_retryTimers d)"
  have b: "?b d" using m by (simp add: before_retry_def partSize_def)
  have start: "before_retry m 0 (dl_retryTimers d) (start_download cf a d) \<or> ?b (start_download cf a d)"
  proof -
    have "before_retry m 0 (dl_retryTimers d) (d\<lparr>dl_cancelled := False, dl_userPaused := False,
        dl_finishedEmitted := False, dl_retryCount := 0, dl_error := None\<rparr>)"
      using b by (simp add: before_retry_def)
    then show ?thesis using before_retry_acquire[OF _ pos(1)] b by (simp add: start_download_def)
  qed
  have timer: "before_retry m (dl_retryCount d) rest (acquireDownloadLock cf a (d\<lparr>dl_retryTimers := rest\<rparr>))" for rest
    using b pos by (intro before_retry_acquire) (simp_all add: before_retry_def)
  have upd: "?b (d\<lparr>dl_reply := r\<rparr>)" "?b (d\<lparr>dl_lockTimer := x\<rparr>)" "?b (d\<lparr>dl_restartCalls := k\<rparr>)"
    "?b (d\<lparr>dl_bytesPerSecond := y, dl_lastSpeedBytes := z\<rparr>)" "?b (d\<lparr>dl_final := f\<rparr>)"
    "before_retry m (dl_retryCount d) us (d\<lparr>dl_retryTimers := us\<rparr>)"
    for r x k y z f us
    using b by (simp_all add: before_retry_def)
  have resume: "?b (resume_download cf a d)"
  proof -
    have "?b (setState Pending (d\<lparr>dl_userPaused := False, dl_cancelled := False, dl_restartWithoutRange := False,
        dl_responseValidated := False, dl_finishedEmitted := False, dl_error := None\<rparr>))"
      using b by (simp add: before_retry_def setState_def)
    then show ?thesis using before_retry_acquire[OF _ pos(1)] b by (simp add: resume_download_def)
  qed
  have pause: "?b (pause_download d)"
    using b by (simp add: pause_download_def) (simp add: before_retry_def small_steps)
  have cancel: "?b (cancel_download a d)"
    using b pos by (simp add: cancel_download_def Let_def)
      (simp add: before_retry_def small_steps file_bytes_def)
  have meta: "one_retry m (dl_retryCount d) (dl_retryTimers d)
      (snd (validateResponseHeaders cf a (d\<lparr>dl_reply := r\<rparr>)))" for r
    using one_retry_validate[OF upd(1) pos(1)] by blast
  have ready: "one_retry m (dl_retryCount d) (dl_retryTimers d) (handleReadyRead cf a (d\<lparr>dl_reply := r\<rparr>))" for r
    using one_retry_ready[OF upd(1) pos] by blast
  have network: "one_retry m (dl_retryCount d) (dl_retryTimers d) (handleNetworkFinished cf a (d\<lparr>dl_reply := r\<rparr>))" for r
    by (rule one_retry_network[OF upd(1) pos])
  have lock: "?b (acquireDownloadLock cf a (d\<lparr>dl_lockTimer := False\<rparr>))"
    by (rule before_retry_acquire[OF upd(2) pos(1)])
  have restart: "?b (beginRequest cf a (d\<lparr>dl_restartCalls := k\<rparr>))" for k
    by (rule before_retry_request[OF upd(3) pos(1)])
  have retry: "before_retry m (dl_retryCount d) (tl (dl_retryTimers d)) (download_step cf d (RetryTimer, a))
      \<or> ?b (download_step cf d (RetryTimer, a))"
    using b timer[of "tl (dl_retryTimers d)"] upd(6)[of "tl (dl_retryTimers d)"]
    by (cases "dl_retryTimers d") (simp_all add: download_step_def Let_def)
  have verified: "?b (verification_done cf a d)" by (rule one_retry_verification_done[OF b pos(1)])
  show ?thesis
  proof (cases "can_occur d e")
    case False
    then have "download_event_step cf d ea = d" by (simp add: ea download_event_step_def)
    then show ?thesis using b by (simp add: one_retry_start)
  next
    case True
    then have eq: "download_event_step cf d ea = download_step cf d (e, a)"
      by (simp add: ea download_event_step_def)
    show ?thesis using assms(2) unfolding eq unfolding ea fst_conv
      by (cases e; cases "e = RetryTimer"; cases "dl_reply d")
        (simp_all add: retry, simp_all add: download_step_def Let_def b start resume pause cancel lock restart verified upd
          meta ready network one_retry_start)
  qed
qed

text \<open>The delays of the retries that a run schedules.\<close>

fun retry_delays :: "download_config \<Rightarrow> download \<Rightarrow> (download_event \<times> answers) list \<Rightarrow> int list" where
  "retry_delays cf d [] = []"
| "retry_delays cf d (ea # es) =
     drop (length (dl_retryTimers d)) (dl_retryTimers (download_event_step cf d ea))
     @ retry_delays cf (download_event_step cf d ea) es"

definition listed_delays :: "int list" where
  "listed_delays = [1000, 2000, 4000, 8000]"

lemma listed_delays_drop:
  "n < MaximumRetries \<Longrightarrow> drop n listed_delays = 1000 * 2 ^ n # drop (Suc n) listed_delays"
proof -
  assume "n < MaximumRetries"
  then have "n \<in> {0, 1, 2, 3}" by (auto simp: MaximumRetries_def)
  then show ?thesis by (auto simp: listed_delays_def)
qed

lemma retry_delays_listed:
  assumes "0 < fileSize cf" "dl_ok cf d" "\<forall>ea \<in> set es. fst ea \<noteq> Start"
  shows "\<exists>k. retry_delays cf d es = take k (drop (dl_retryCount d) listed_delays)"
  using assms(2,3)
proof (induction es arbitrary: d)
  case Nil
  show ?case by (intro exI[of _ 0]) simp
next
  case (Cons ea es)
  let ?d = "download_event_step cf d ea"
  have "dl_ok cf ?d" using Cons(2) assms(1) by (rule download_event_step_ok)
  then obtain k where k: "retry_delays cf ?d es = take k (drop (dl_retryCount ?d) listed_delays)"
    using Cons(1,3) by auto
  have "(dl_retryCount ?d = dl_retryCount d \<and> length (dl_retryTimers ?d) \<le> length (dl_retryTimers d))
      \<or> (dl_retryCount d < MaximumRetries \<and> dl_retryCount ?d = Suc (dl_retryCount d)
          \<and> dl_retryTimers ?d = dl_retryTimers d @ [1000 * 2 ^ dl_retryCount d])"
  proof (cases "\<exists>l p f. fst ea = OtherProcess l p f")
    case True
    then obtain l p f a where "ea = (OtherProcess l p f, a)" by (cases ea) auto
    then show ?thesis by (simp add: download_event_step_def download_step_def)
  next
    case False
    then show ?thesis using one_retry_step[of cf ea _ d] assms(1) Cons(3)
      by (auto simp: before_retry_def one_retry_def split: if_splits)
  qed
  then show ?case
  proof
    assume "dl_retryCount ?d = dl_retryCount d \<and> length (dl_retryTimers ?d) \<le> length (dl_retryTimers d)"
    then show ?thesis using k by auto
  next
    assume "dl_retryCount d < MaximumRetries \<and> dl_retryCount ?d = Suc (dl_retryCount d)
          \<and> dl_retryTimers ?d = dl_retryTimers d @ [1000 * 2 ^ dl_retryCount d]"
    then show ?thesis using k listed_delays_drop[of "dl_retryCount d"]
      by (intro exI[of _ "Suc k"]) simp
  qed
qed

text \<open>
  C21: No step of the operation, in whatever state, makes the partial file longer than it was and longer
  than the size in the manifest, and the range a request asks for lies in it. Between two calls of
  \<open>start\<close>, whatever else happens, the operation schedules at most four automatic retries, one waiting at a
  time: their delays are one, two, four and eight seconds in this order, from the delay of the next
  retry on.
\<close>

theorem download_bounds:
  assumes "entry_isValid ms (cf_entry cf)" "lock \<noteq> LockMine"
    and "d = foldl (download_event_step cf) (new_download cf part final lock) es"
    and "\<forall>ea \<in> set es'. fst ea \<noteq> Start"
  shows "((\<forall>l p f. fst ea \<noteq> OtherProcess l p f) \<longrightarrow>
        partSize (download_event_step cf d ea) \<le> max (partSize d) (fileSize cf))
    \<and> (dl_reply d \<noteq> None \<longrightarrow> 0 \<le> dl_requestOffset d \<and> dl_requestOffset d \<le> partSize d \<and> partSize d \<le> fileSize cf)
    \<and> length (dl_retryTimers d) \<le> 1
    \<and> (\<exists>k. retry_delays cf d es' = take k (drop (dl_retryCount d) [1000, 2000, 4000, 8000]))
    \<and> length (retry_delays cf d es') \<le> 4"
proof -
  have size: "0 < fileSize cf" using valid_digest_nonempty[OF assms(1)] by (simp add: fileSize_def)
  then have ok: "dl_ok cf d" using downloads.run_inv new_download_ok[OF assms(2)] assms(3) by blast
  then have "length (dl_retryTimers d) \<le> 1" by (simp add: dl_ok_def delays_ok_def)
  moreover have "dl_reply d \<noteq> None \<longrightarrow> 0 \<le> dl_requestOffset d \<and> dl_requestOffset d \<le> partSize d
      \<and> partSize d \<le> fileSize cf"
    using dl_ok_receiving[OF ok] by (auto simp: receiving_def)
  moreover have "partSize (download_event_step cf d ea) \<le> max (partSize d) (fileSize cf)"
    if "\<forall>l p f. fst ea \<noteq> OtherProcess l p f"
    using one_retry_step[OF _ that refl, of cf d] size
    by (auto simp: before_retry_def one_retry_def partSize_def split: if_splits)
  moreover obtain k where k: "retry_delays cf d es' = take k (drop (dl_retryCount d) listed_delays)"
    using retry_delays_listed[OF size ok assms(4)] by blast
  moreover have "length (retry_delays cf d es') \<le> 4" unfolding k by (simp add: listed_delays_def)
  ultimately show ?thesis unfolding listed_delays_def by blast
qed

definition failing_attempts :: "nat \<Rightarrow> (download_event \<times> answers) list" where
  "failing_attempts n = concat (replicate n [(MetaDataChanged 503 [], calm), (RetryTimer, calm)])"

theorem download_bounds_witness:
  "let d = foldl (download_event_step sample_config) (new_download sample_config None None LockFree)
             [(Start, calm)]
   in retry_delays sample_config d (failing_attempts 6) = [1000, 2000, 4000, 8000]
      \<and> length (retry_delays sample_config d (failing_attempts 6)) \<le> 4
      \<and> partSize (download_event_step sample_config d (ReadyRead [1, 2, 3, 4], calm)) \<le> 3"
proof -
  let ?d = "foldl (download_event_step sample_config) (new_download sample_config None None LockFree)
             [(Start, calm)]"
  have entry: "entry_isValid sample_services (cf_entry sample_config)"
    using sample_entry_valid by (simp add: sample_config_def)
  have "retry_delays sample_config ?d (failing_attempts 6) = [1000, 2000, 4000, 8000]" by code_simp
  moreover have "\<forall>ea \<in> set (failing_attempts 6). fst ea \<noteq> Start" by (simp add: failing_attempts_def)
  moreover have "partSize ?d = 0 \<and> fileSize sample_config = 3" by code_simp
  ultimately show ?thesis
    using download_bounds[OF entry _ refl, of LockFree "failing_attempts 6" "(ReadyRead [1, 2, 3, 4], calm)" None None "[(Start, calm)]"]
    by (simp add: Let_def)
qed

end
