(* ===== verification/ModelResume.thy ===== *)
theory ModelResume
  imports ModelDownload "HOL-Library.Sublist"
begin

text \<open>
  Downloads from a server that serves the model: whatever is paused, interrupted, retried or
  resumed, the partial file is a beginning of the model (\<open>served\<close>), and a transfer whose bytes
  arrive in any pieces ends with the model published.
\<close>

subsection \<open>What happens to the partial file outside a transfer\<close>

definition kept :: "download \<Rightarrow> download \<Rightarrow> bool" where
  "kept d x \<longleftrightarrow> file_bytes (dl_part x) = file_bytes (dl_part d) \<or> file_bytes (dl_part x) = []"

lemma small_steps_part [simp]:
  "dl_part (finish_download s d) = dl_part d"
  "dl_part (releaseDownloadLock d) = dl_part d"
  "dl_part (closeActiveRequest d) = dl_part d"
  "dl_part (setState st d) = dl_part d"
  "dl_part (scheduleRetry d) = dl_part d"
  "dl_part (snd (remove_final a d)) = dl_part d"
  by (simp_all add: finish_download_def releaseDownloadLock_def closeActiveRequest_def setState_def
      scheduleRetry_def remove_final_def Let_def)

lemma file_bytes_simps [simp]: "file_bytes None = []" "file_bytes (Some bs) = bs"
  by (simp_all add: file_bytes_def)

lemma kept_refl: "dl_part x = dl_part d \<Longrightarrow> kept d x"
  by (simp add: kept_def)

lemma kept_prefix: "kept d x \<Longrightarrow> prefix (file_bytes (dl_part d)) M \<Longrightarrow> prefix (file_bytes (dl_part x)) M"
  by (auto simp: kept_def)

lemma kept_same: "kept d x \<Longrightarrow> dl_part y = dl_part x \<Longrightarrow> kept d y"
  by (simp add: kept_def)

lemma kept_remove: "kept d x \<Longrightarrow> kept d (snd (remove_part a x))"
  by (simp add: kept_def remove_part_def)

lemma kept_remove_final: "kept d x \<Longrightarrow> kept d (snd (remove_final a x))"
  by (simp add: kept_def)

lemma kept_rename: "kept d x \<Longrightarrow> kept d (snd (rename_part a x))"
  by (cases "dl_part x \<noteq> None \<and> dl_final x = None \<and> an_renames a") (auto simp: kept_def rename_part_def)

lemma kept_discard:
  assumes "kept d x"
  shows "kept d (discardPartialIfOwned a x)"
proof -
  have "kept d ((snd (remove_part a x))\<lparr>dl_bytesReceived := 0\<rparr>)"
    by (rule kept_same[OF kept_remove[OF assms, of a]]) simp
  then show ?thesis using assms by (simp add: discardPartialIfOwned_def)
qed

lemma kept_fail:
  assumes "kept d x"
  shows "kept d (fail_download a err retryable discards x)"
proof -
  define y where "y = (closeActiveRequest (x\<lparr>dl_error := Some err\<rparr>))\<lparr>dl_speedTimer := False\<rparr>"
  have y: "kept d y" using assms by (simp add: kept_def y_def)
  have k: "kept d (scheduleRetry y)" "kept d (finish_download False (setState Failed (releaseDownloadLock y)))"
    "kept d (finish_download False (setState Failed (releaseDownloadLock (discardPartialIfOwned a y))))"
    using y kept_discard[OF y, of a] by (simp_all add: kept_def)
  show ?thesis
    unfolding fail_download_def Let_def y_def[symmetric]
    by (cases "discards \<or> retryable") (simp_all add: k)
qed

lemma kept_begin: "kept d x \<Longrightarrow> kept d (beginVerification cf a f purpose x)"
  by (simp add: beginVerification_def kept_fail) (simp add: kept_def)

lemma kept_complete: "kept d x \<Longrightarrow> kept d (completeSuccessfully x)"
  by (simp add: kept_def completeSuccessfully_def)

lemma kept_fields:
  "kept d x \<Longrightarrow> kept d (x\<lparr>dl_bytesReceived := n, dl_bytesTotal := m\<rparr>)"
  "kept d x \<Longrightarrow> kept d (x\<lparr>dl_partOpen := b\<rparr>)"
  "kept d x \<Longrightarrow> kept d (x\<lparr>dl_final := f\<rparr>)"
  "kept d x \<Longrightarrow> kept d (x\<lparr>dl_restartCalls := c\<rparr>)"
  "kept d x \<Longrightarrow> kept d (x\<lparr>dl_lock := l\<rparr>)"
  by (simp_all add: kept_def)

lemma kept_open: "kept d x \<Longrightarrow> kept d (open_request cf a x)"
proof -
  assume x: "kept d x"
  then have removed: "kept d (snd (remove_part a x))" by (rule kept_remove)
  have opened: "kept d ((setState Downloading (y\<lparr>dl_part := Some (file_bytes (dl_part y)), dl_partOpen := True,
            dl_requestOffset := n, dl_responseValidated := False,
            dl_bytesReceived := n, dl_bytesTotal := m, dl_lastSpeedBytes := n, dl_reply := r\<rparr>))\<lparr>dl_speedTimer := True\<rparr>)"
    if "kept d y" for y n m r
    using that by (simp add: kept_def)
  show ?thesis
    unfolding open_request_def Let_def
    by (cases "an_available a")
      (simp_all add: case_prod_beta kept_fail kept_begin kept_fields x removed opened del: remove_part_simps)
qed

lemma kept_acquire: "kept d x \<Longrightarrow> kept d (acquireDownloadLock cf a x)"
  by (simp add: acquireDownloadLock_def inspectLockedFiles_def kept_fail kept_begin kept_open kept_fields)
    (simp add: kept_def setState_def)

lemma kept_conclude: "kept d x \<Longrightarrow> kept d (conclude cf a r x)"
proof -
  assume x: "kept d x"
  then have "kept d (x\<lparr>dl_reply := None, dl_partOpen := False, dl_speedTimer := False\<rparr>)"
    "kept d (x\<lparr>dl_reply := None, dl_partOpen := False, dl_speedTimer := False, dl_restartWithoutRange := False\<rparr>)"
    by (simp_all add: kept_def)
  then show ?thesis
    unfolding conclude_def Let_def
    by (simp add: case_prod_beta kept_fail kept_begin kept_fields kept_remove)
qed

lemma kept_commit: "kept d x \<Longrightarrow> kept d (commitVerifiedPart cf a x)"
proof -
  assume x: "kept d x"
  then have "kept d (x\<lparr>dl_final := an_published a\<rparr>)" by (rule kept_fields)
  note y = this kept_rename[OF this, of a]
  show ?thesis unfolding commitVerifiedPart_def Let_def
    using x y by (simp add: case_prod_beta kept_begin kept_fail kept_complete)
qed

lemma kept_verification: "kept d x \<Longrightarrow> kept d (handleVerificationFinished cf a checksum purpose x)"
proof -
  assume x: "kept d x"
  note r = kept_remove[OF x, of a] kept_remove_final[OF x, of a] kept_rename[OF kept_remove_final[OF x, of a], of a]
  show ?thesis unfolding handleVerificationFinished_def Let_def
    using x r by (cases purpose)
      (simp_all add: case_prod_beta kept_fail kept_complete kept_commit beginRequest_def kept_acquire kept_open)
qed

lemma kept_done: "kept d (verification_done cf a d)"
proof (cases "dl_watchers d")
  case Nil
  then show ?thesis by (simp add: verification_done_def kept_refl)
next
  case (Cons w ws)
  obtain purpose checksum where w: "w = (purpose, checksum)" by fastforce
  let ?d = "d\<lparr>dl_watchers := ws, dl_verificationInProgress := False\<rparr>"
  have x: "kept d ?d" by (simp add: kept_refl)
  have "kept d (finish_download False (releaseDownloadLock ?d))"
    "kept d (finish_download False (releaseDownloadLock (snd (remove_part a ?d))))"
    using x kept_remove[OF x, of a] by (simp_all add: kept_def)
  then show ?thesis using Cons w kept_verification[OF x]
    by (simp add: verification_done_def Let_def)
qed

lemma kept_validate: "kept d x \<Longrightarrow> kept d (snd (validateResponseHeaders cf a x))"
proof -
  assume x: "kept d x"
  then have "kept d (x\<lparr>dl_restartWithoutRange := True\<rparr>)" "kept d (x\<lparr>dl_responseValidated := True\<rparr>)"
    by (simp_all add: kept_def)
  then show ?thesis unfolding validateResponseHeaders_def Let_def
    by (simp add: kept_fail kept_conclude x split: option.split)
qed

lemma kept_start: "kept d (start_download cf a d)" "kept d (resume_download cf a d)"
proof -
  have "kept d (d\<lparr>dl_cancelled := b1, dl_userPaused := b2, dl_finishedEmitted := b3, dl_retryCount := n,
            dl_error := e\<rparr>)" for b1 b2 b3 n e
    by (simp add: kept_refl)
  then show "kept d (start_download cf a d)" by (simp add: start_download_def kept_acquire kept_refl)
  have "kept d (setState Pending (d\<lparr>dl_userPaused := b1, dl_cancelled := b2, dl_restartWithoutRange := b3,
      dl_responseValidated := b4, dl_finishedEmitted := b5, dl_error := e\<rparr>))" for b1 b2 b3 b4 b5 e
    by (simp add: kept_def)
  then show "kept d (resume_download cf a d)" by (simp add: resume_download_def kept_acquire kept_refl)
qed

lemma kept_cancel: "kept d (cancel_download a d)"
proof -
  define d2 where "d2 = closeActiveRequest (setState Cancelled
        (d\<lparr>dl_cancelled := True, dl_lockTimer := False, dl_speedTimer := False\<rparr>))"
  have d2: "kept d d2" by (simp add: d2_def kept_def)
  have "kept d (finish_download False (releaseDownloadLock x))" if "kept d x" for x
    using that by (simp add: kept_def)
  moreover have "kept d (snd (remove_part a (d2\<lparr>dl_lock := LockMine\<rparr>)))" "kept d (snd (remove_part a d2))"
    using d2 by (intro kept_remove kept_fields; simp)+
  moreover have "kept d (setState Cancelled (d\<lparr>dl_cancelled := True, dl_lockTimer := False, dl_speedTimer := False\<rparr>))"
    by (simp add: kept_def)
  ultimately show ?thesis
    unfolding cancel_download_def Let_def d2_def[symmetric] using d2 by (simp add: kept_refl)
qed

subsection \<open>Reading the bytes of the model\<close>

text \<open>The next bytes of the model are the file followed by what waits in the reply.\<close>

definition waiting :: "download \<Rightarrow> bytes" where
  "waiting d = (case dl_reply d of None \<Rightarrow> [] | Some r \<Rightarrow> re_buffer r)"

definition incoming :: "download \<Rightarrow> bytes" where
  "incoming d = file_bytes (dl_part d) @ waiting d"

lemma read_loop_prefix:
  assumes "prefix (incoming d) M" "int (length M) = fileSize cf"
  shows "prefix (incoming (read_loop cf a ws d)) M
    \<and> (dl_reply (read_loop cf a ws d) \<noteq> None \<longrightarrow> incoming (read_loop cf a ws d) = incoming d
        \<and> dl_requestOffset (read_loop cf a ws d) = dl_requestOffset d
        \<and> dl_responseValidated (read_loop cf a ws d) = dl_responseValidated d
        \<and> re_status (the (dl_reply (read_loop cf a ws d))) = re_status (the (dl_reply d)))"
  using assms
proof (induction cf a ws d rule: read_loop.induct)
  case (1 cf a ws d)
  have failed: "prefix (incoming (fail_download a err b p x)) M" if "prefix (file_bytes (dl_part x)) M" for err b p x
    using kept_prefix[OF kept_fail that] by (simp add: incoming_def waiting_def kept_refl)
  show ?case
  proof (cases "dl_reply d")
    case None
    then show ?thesis using 1(2) by (simp add: read_loop.simps[of cf a ws d])
  next
    case (Some r)
    define size where "size = maximumRead (fileSize cf - partSize d)"
    define block where "block = take size (re_buffer r)"
    define d1 where "d1 = d\<lparr>dl_reply := Some (r\<lparr>re_buffer := drop size (re_buffer r)\<rparr>)\<rparr>"
    define n where "n = next_write ws block d"
    define d2 where "d2 = d1\<lparr>dl_part := Some (file_bytes (dl_part d1) @ take n block)\<rparr>"
    define d3 where "d3 = d2\<lparr>dl_bytesReceived := partSize d + int (length block)\<rparr>"
    have M: "prefix (file_bytes (dl_part d)) M" "prefix (file_bytes (dl_part d) @ take n block) M"
      using 1(2) Some append_prefixD
      by (auto simp: incoming_def waiting_def block_def prefix_def)
        (metis append.assoc append_take_drop_id)
    show ?thesis
    proof (cases "re_buffer r = []")
      case True
      then show ?thesis using Some 1(2) by (simp add: read_loop.simps[of cf a ws d])
    next
      case buffer: False
      have eq: "read_loop cf a ws d =
         (if partSize d > fileSize cf then fail_download a PartExceeds False True d
          else if block = [] then d1
          else if int (length block) > fileSize cf - partSize d then fail_download a ResponseExceeds False True d1
          else if n \<noteq> length block then fail_download a WriteFailed False True d2
          else read_loop cf a (tl ws) d3)"
        using buffer Some by (subst read_loop.simps) (simp add: Let_def block_def d1_def n_def d2_def d3_def size_def)
      have parts: "file_bytes (dl_part d1) = file_bytes (dl_part d)"
        "file_bytes (dl_part d2) = file_bytes (dl_part d) @ take n block"
        by (simp_all add: d1_def d2_def)
      have same: "block = [] \<Longrightarrow> incoming d1 = incoming d"
        using Some buffer by (auto simp: incoming_def waiting_def d1_def block_def)
      show ?thesis
      proof (cases "partSize d > fileSize cf \<or> block = [] \<or> int (length block) > fileSize cf - partSize d \<or> n \<noteq> length block")
        case True
        have d1: "dl_requestOffset d1 = dl_requestOffset d" "dl_responseValidated d1 = dl_responseValidated d"
          "re_status (the (dl_reply d1)) = re_status (the (dl_reply d))" "dl_reply d1 \<noteq> None"
          using Some by (simp_all add: d1_def)
        show ?thesis unfolding eq using True failed M parts same 1(2) d1 by auto
      next
        case False
        have inc: "incoming d3 = incoming d"
        proof -
          have "take n block = block" using False by simp
          moreover have "block @ drop size (re_buffer r) = re_buffer r" by (simp add: block_def)
          ultimately show ?thesis using Some by (simp add: incoming_def waiting_def d3_def d2_def d1_def)
        qed
        have rest: "dl_requestOffset d3 = dl_requestOffset d" "dl_responseValidated d3 = dl_responseValidated d"
          "re_status (the (dl_reply d3)) = re_status (the (dl_reply d))"
          using Some by (simp_all add: d3_def d2_def d1_def)
        have "prefix (incoming d3) M \<Longrightarrow> int (length M) = fileSize cf \<Longrightarrow>
           prefix (incoming (read_loop cf a (tl ws) d3)) M
           \<and> (dl_reply (read_loop cf a (tl ws) d3) \<noteq> None \<longrightarrow> incoming (read_loop cf a (tl ws) d3) = incoming d3
              \<and> dl_requestOffset (read_loop cf a (tl ws) d3) = dl_requestOffset d3
              \<and> dl_responseValidated (read_loop cf a (tl ws) d3) = dl_responseValidated d3
              \<and> re_status (the (dl_reply (read_loop cf a (tl ws) d3))) = re_status (the (dl_reply d3)))"
          unfolding d3_def d2_def n_def d1_def block_def size_def
          by (rule 1(1)[OF Some _ refl _ refl refl refl _ _ refl refl])
            (use False buffer in \<open>simp_all add: block_def n_def size_def\<close>)
        moreover have "read_loop cf a ws d = read_loop cf a (tl ws) d3" unfolding eq using False by simp
        ultimately show ?thesis using inc rest 1(2,3) by simp
      qed
    qed
  qed
qed

subsection \<open>A server that serves the model\<close>

text \<open>
  \<open>k\<close> counts the bytes the current reply has delivered. A server answers a request for the rest with
  status 206 and the bytes from the offset on, or with status 200 and the bytes from the first on; the
  bodies of other answers are arbitrary. The headers arrive before the body. Other processes that hold the
  lock write nothing else into the partial file.
\<close>

definition delivers :: "bytes \<Rightarrow> nat \<Rightarrow> download \<Rightarrow> download_event \<Rightarrow> bool" where
  "delivers M k d e \<longleftrightarrow> (case e of
       MetaDataChanged status headers \<Rightarrow> k = 0 \<and> \<not> dl_responseValidated d
     | ReadyRead bs \<Rightarrow> (case dl_reply d of
           None \<Rightarrow> True
         | Some r \<Rightarrow>
            (re_status r = 206 \<longrightarrow> prefix bs (drop (nat (dl_requestOffset d) + k) M))
            \<and> (re_status r = 200 \<longrightarrow> prefix bs (drop k M)))
     | OtherProcess lock part final \<Rightarrow> prefix (file_bytes part) M
     | _ \<Rightarrow> True)"

definition delivered :: "nat \<Rightarrow> download \<Rightarrow> download_event \<Rightarrow> nat" where
  "delivered k d' e = (if dl_reply d' = None then 0 else (case e of ReadyRead bs \<Rightarrow> k + length bs | _ \<Rightarrow> k))"

inductive served :: "download_config \<Rightarrow> bytes \<Rightarrow> bytes option \<Rightarrow> download \<Rightarrow> nat \<Rightarrow> bool"
  for cf M part where
  fresh: "lock \<noteq> LockMine \<Longrightarrow> prefix (file_bytes part) M \<Longrightarrow>
    served cf M part (new_download cf part final lock) 0"
| event: "served cf M part d k \<Longrightarrow> delivers M k d e \<Longrightarrow> d' = download_event_step cf d (e, a) \<Longrightarrow>
    served cf M part d' (delivered k d' e)"

text \<open>What holds of the file and of what is on its way.\<close>

definition accepted_status :: "download \<Rightarrow> reply \<Rightarrow> bool" where
  "accepted_status d r \<longleftrightarrow> (if dl_requestOffset d > 0 then re_status r = 206 else re_status r = 200)"

definition on_its_way :: "bytes \<Rightarrow> nat \<Rightarrow> download \<Rightarrow> bool" where
  "on_its_way M k d \<longleftrightarrow> prefix (file_bytes (dl_part d)) M \<and>
     (case dl_reply d of
        None \<Rightarrow> k = 0
      | Some r \<Rightarrow> (k = 0 \<longrightarrow> re_buffer r = [] \<and> dl_requestOffset d = partSize d)
          \<and> (dl_responseValidated d \<longrightarrow> accepted_status d r)
          \<and> (accepted_status d r \<longrightarrow> prefix (incoming d) M
                \<and> length (incoming d) = nat (dl_requestOffset d) + k))"

lemma kept_on_its_way:
  "kept d x \<Longrightarrow> prefix (file_bytes (dl_part d)) M \<Longrightarrow> dl_reply x = None \<Longrightarrow> on_its_way M 0 x"
  using kept_prefix by (simp add: on_its_way_def)

text \<open>A request begins at the end of the file.\<close>

definition fresh_request :: "download \<Rightarrow> bool" where
  "fresh_request d \<longleftrightarrow> (case dl_reply d of
       None \<Rightarrow> True
     | Some r \<Rightarrow> re_buffer r = [] \<and> re_status r = 0 \<and> dl_requestOffset d = partSize d \<and> \<not> dl_responseValidated d)"

lemma fresh_on_its_way:
  assumes "kept d x" "prefix (file_bytes (dl_part d)) M" "fresh_request x"
  shows "on_its_way M 0 x"
  using kept_prefix[OF assms(1,2)] assms(3)
  by (auto simp: on_its_way_def fresh_request_def incoming_def waiting_def accepted_status_def partSize_def
      split: option.splits)

lemma fresh_fail [simp]: "fresh_request (fail_download a err retryable discards d)"
  by (simp add: fresh_request_def)

lemma fresh_begin: "fresh_request d \<Longrightarrow> fresh_request (beginVerification cf a f purpose d)"
  by (simp add: beginVerification_def) (simp add: fresh_request_def setState_def partSize_def split: option.splits)

lemma fresh_open: "dl_reply d = None \<Longrightarrow> fresh_request (open_request cf a d)"
proof -
  assume d: "dl_reply d = None"
  have none: "fresh_request x" if "dl_reply x = None" for x using that by (simp add: fresh_request_def)
  have opened: "fresh_request ((setState Downloading (y\<lparr>dl_part := p, dl_partOpen := True,
            dl_requestOffset := partSize (y\<lparr>dl_part := p, dl_partOpen := True\<rparr>), dl_responseValidated := False,
            dl_bytesReceived := n, dl_bytesTotal := m, dl_lastSpeedBytes := n,
            dl_reply := Some \<lparr>re_status = 0, re_headers = [], re_buffer = [], re_failed = False,
                             re_finished = False\<rparr>\<rparr>))\<lparr>dl_speedTimer := True\<rparr>)" for y p n m
    by (simp add: fresh_request_def setState_def partSize_def)
  show ?thesis
    unfolding open_request_def Let_def
    by (cases "an_available a") (simp_all add: case_prod_beta fresh_begin none d opened)
qed

lemma fresh_acquire: "dl_reply d = None \<Longrightarrow> fresh_request (acquireDownloadLock cf a d)"
proof -
  assume d: "dl_reply d = None"
  have none: "fresh_request x" if "dl_reply x = None" for x using that by (simp add: fresh_request_def)
  show ?thesis
    by (simp add: acquireDownloadLock_def inspectLockedFiles_def fresh_begin fresh_open none d setState_def)
qed

lemma validate_way:
  assumes way: "on_its_way M k d" and r: "dl_reply d = Some r" and o: "0 \<le> dl_requestOffset d"
    and v: "validateResponseHeaders cf a d = (valid, x)"
  shows "prefix (file_bytes (dl_part x)) M \<and> (valid \<longrightarrow> dl_reply x \<noteq> None)
    \<and> (dl_reply x \<noteq> None \<longrightarrow> on_its_way M k x \<and> dl_reply x = Some r \<and> (valid \<longrightarrow> dl_responseValidated x)
        \<and> dl_requestOffset x = dl_requestOffset d)"
proof -
  define R where "R res \<longleftrightarrow> (case res of (valid, x) \<Rightarrow> prefix (file_bytes (dl_part x)) M \<and> (valid \<longrightarrow> dl_reply x \<noteq> None)
    \<and> (dl_reply x \<noteq> None \<longrightarrow> on_its_way M k x \<and> dl_reply x = Some r \<and> (valid \<longrightarrow> dl_responseValidated x)
        \<and> dl_requestOffset x = dl_requestOffset d))" for res
  have pre: "prefix (file_bytes (dl_part d)) M" using way by (simp add: on_its_way_def)
  have way_fields: "on_its_way M k (d\<lparr>dl_restartWithoutRange := b\<rparr>)" for b
    using way by (simp add: on_its_way_def incoming_def waiting_def accepted_status_def partSize_def r)
  have validated: "on_its_way M k (d\<lparr>dl_responseValidated := True\<rparr>)" if "accepted_status d r"
    using way that by (simp add: on_its_way_def incoming_def waiting_def accepted_status_def partSize_def r)
  have kept: "kept d (d\<lparr>dl_restartWithoutRange := True\<rparr>)" by (simp add: kept_refl)
  have R: "R (False, fail_download a err b p d)" "R (False, d)" "R (dl_responseValidated d, d)"
    "R (False, d\<lparr>dl_restartWithoutRange := True\<rparr>)"
    "R (False, conclude cf a r' (d\<lparr>dl_restartWithoutRange := True\<rparr>))"
    "accepted_status d r \<Longrightarrow> R (True, d\<lparr>dl_responseValidated := True\<rparr>)" for err b p r'
    using r way way_fields[of True] validated pre kept_prefix[OF kept_fail[OF kept_refl[OF refl]] pre]
      kept_prefix[OF kept_conclude[OF kept] pre]
    by (simp_all add: R_def)
  have "R (validateResponseHeaders cf a d)"
    unfolding validateResponseHeaders_def r option.case Let_def
    using o by (simp add: R(1-5)) (auto simp: accepted_status_def intro!: R split: option.split)
  then show ?thesis using v by (simp add: R_def)
qed

lemma read_way:
  assumes way: "on_its_way M k d" and r: "dl_reply d = Some r" and "dl_responseValidated d"
    and M: "int (length M) = fileSize cf"
  shows "prefix (file_bytes (dl_part (read_loop cf a ws d))) M
    \<and> (dl_reply (read_loop cf a ws d) \<noteq> None \<longrightarrow> on_its_way M k (read_loop cf a ws d))"
proof (cases "re_buffer r = []")
  case True
  then show ?thesis using way r by (simp add: read_loop.simps[of cf a ws d] on_its_way_def)
next
  case False
  have acc: "accepted_status d r" and len: "length (incoming d) = nat (dl_requestOffset d) + k" "k \<noteq> 0"
    and inc: "prefix (incoming d) M"
    using way r assms(3) False by (auto simp: on_its_way_def)
  note rl = read_loop_prefix[OF inc M, of a ws]
  have "on_its_way M k (read_loop cf a ws d)" if reply: "dl_reply (read_loop cf a ws d) = Some r'" for r'
  proof -
    have "accepted_status (read_loop cf a ws d) r'"
      using rl acc r reply by (simp add: accepted_status_def)
    then show ?thesis
      using rl reply len by (simp add: on_its_way_def) (metis incoming_def append_prefixD)
  qed
  then show ?thesis using rl append_prefixD by (auto simp: incoming_def)
qed

lemma ready_way:
  assumes way: "on_its_way M k d" and r: "dl_reply d = Some r" and o: "0 \<le> dl_requestOffset d"
    and M: "int (length M) = fileSize cf"
  shows "prefix (file_bytes (dl_part (handleReadyRead cf a d))) M
    \<and> (dl_reply (handleReadyRead cf a d) \<noteq> None \<longrightarrow> on_its_way M k (handleReadyRead cf a d))"
proof (cases "dl_restartWithoutRange d")
  case True
  then show ?thesis using way by (simp add: handleReadyRead_def on_its_way_def)
next
  case False
  obtain valid x where v: "validateResponseHeaders cf a d = (valid, x)" by fastforce
  have eq: "handleReadyRead cf a d = (if \<not> valid then x else read_loop cf a (an_written a) x)"
    using r v False by (simp add: handleReadyRead_def)
  note w = validate_way[OF way r o v]
  show ?thesis
  proof (cases valid)
    case True
    then have x: "on_its_way M k x" "dl_reply x = Some r" "dl_responseValidated x" using w by simp_all
    show ?thesis using read_way[OF x M, of a "an_written a"] True by (simp add: eq)
  next
    case False
    then show ?thesis using w by (simp add: eq)
  qed
qed

lemma network_way:
  assumes way: "on_its_way M k d" and r: "dl_reply d = Some r" and o: "0 \<le> dl_requestOffset d"
    and M: "int (length M) = fileSize cf"
  shows "on_its_way M 0 (handleNetworkFinished cf a d)"
proof -
  obtain valid x where v: "validateResponseHeaders cf a d = (valid, x)" by fastforce
  define y where "y = (if valid then handleReadyRead cf a x else x)"
  note w = validate_way[OF way r o v]
  have "prefix (file_bytes (dl_part y)) M"
  proof (cases valid)
    case True
    then have x: "on_its_way M k x" "dl_reply x = Some r" "0 \<le> dl_requestOffset x" using w o by simp_all
    show ?thesis using ready_way[OF x M, of a] True by (simp add: y_def)
  next
    case False
    then show ?thesis using w by (simp add: y_def)
  qed
  moreover have "prefix (file_bytes (dl_part d)) M" using way by (simp add: on_its_way_def)
  ultimately have c: "on_its_way M 0 (conclude cf a r y)" "on_its_way M 0 (conclude cf a r d)"
      "dl_reply y = None \<Longrightarrow> on_its_way M 0 y"
    using kept_on_its_way[OF kept_conclude[OF kept_refl[OF refl]]] by (auto simp: on_its_way_def)
  show ?thesis
    unfolding handleNetworkFinished_def r option.case v Let_def prod.case y_def[symmetric]
    using c by simp
qed

lemma idle_step_way:
  assumes way: "on_its_way M k d" and none: "dl_reply d = None" and e: "delivers M k d e"
  shows "on_its_way M 0 (download_step cf d (e, a))"
proof -
  have pre: "prefix (file_bytes (dl_part d)) M" using way by (simp add: on_its_way_def)
  have fresh: "on_its_way M 0 x" if "kept d x" "fresh_request x" for x
    using fresh_on_its_way that pre by blast
  have nf: "fresh_request x" if "dl_reply x = None" for x using that by (simp add: fresh_request_def)
  have acq: "on_its_way M 0 (acquireDownloadLock cf a x)" if "dl_part x = dl_part d" "dl_reply x = None" for x
    using that by (intro fresh kept_acquire fresh_acquire kept_refl)
  have start: "on_its_way M 0 (start_download cf a d)"
    by (rule fresh[OF kept_start(1)]) (simp add: start_download_def fresh_acquire none nf)
  have resume: "on_its_way M 0 (resume_download cf a d)"
    by (rule fresh[OF kept_start(2)]) (simp add: resume_download_def fresh_acquire none nf setState_def)
  have cancel: "on_its_way M 0 (cancel_download a d)"
  proof (rule fresh[OF kept_cancel], rule nf)
    show "dl_reply (cancel_download a d) = None"
      using none by (simp add: cancel_download_def Let_def setState_def closeActiveRequest_def
          finish_download_def releaseDownloadLock_def)
  qed
  have restart: "on_its_way M 0 (beginRequest cf a (d\<lparr>dl_restartCalls := n\<rparr>))" for n
  proof -
    have "on_its_way M 0 (open_request cf a (d\<lparr>dl_restartCalls := n\<rparr>))"
      by (rule fresh[OF kept_open[OF kept_refl] fresh_open]) (simp_all add: none)
    then show ?thesis using acq[of "d\<lparr>dl_restartCalls := n\<rparr>"] by (simp add: beginRequest_def none)
  qed
  have finished: "fresh_request (handleVerificationFinished cf a checksum purpose x)"
    if "dl_reply x = None" for checksum purpose x
  proof -
    have "fresh_request (commitVerifiedPart cf a x)"
      unfolding commitVerifiedPart_def Let_def completeSuccessfully_def
      using that by (simp add: case_prod_beta fresh_begin nf small_steps del: rename_part_simps)
    then show ?thesis
      using that unfolding handleVerificationFinished_def Let_def
      by (cases purpose) (simp_all add: case_prod_beta beginRequest_def fresh_acquire fresh_open nf
          completeSuccessfully_def finish_download_def setState_def releaseDownloadLock_def)
  qed
  have verified: "on_its_way M 0 (verification_done cf a d)"
    by (rule fresh[OF kept_done])
      (simp add: verification_done_def finished none nf finish_download_def releaseDownloadLock_def Let_def
        split: list.split)
  have fields: "on_its_way M 0 x" if "dl_part x = dl_part d" "dl_reply x = None" for x
    using that pre by (simp add: on_its_way_def)
  have pause: "on_its_way M 0 (pause_download d)"
    by (rule fields) (simp_all add: pause_download_def none small_steps)
  have other: "on_its_way M 0 (d\<lparr>dl_lock := l, dl_part := p, dl_final := f\<rparr>)" if "prefix (file_bytes p) M" for l p f
    using that none by (simp add: on_its_way_def)
  note facts = start resume cancel restart verified pause
  show ?thesis
    unfolding download_step_def prod.case Let_def
    using e none by (cases e)
      (auto simp: facts delivers_def intro: acq fields other split: list.split)
qed

lemma busy_step_way:
  assumes way: "on_its_way M k d" and r: "dl_reply d = Some r" and ok: "dl_ok cf d"
    and e: "delivers M k d e" and M: "int (length M) = fileSize cf"
  shows "on_its_way M (delivered k (download_step cf d (e, a)) e) (download_step cf d (e, a))"
proof -
  have st: "dl_state d = Downloading" "dl_watchers d = []" "\<not> dl_verificationInProgress d" "dl_lock d = LockMine"
    "\<not> dl_lockTimer d" "dl_retryTimers d = []" "dl_restartCalls d = 0" "0 \<le> dl_requestOffset d"
    using ok r by (auto simp: dl_ok_def transfer_ok_def split: download_state.splits if_splits)
  have pre: "prefix (file_bytes (dl_part d)) M" using way by (simp add: on_its_way_def)
  show ?thesis
  proof (cases e)
    case (MetaDataChanged status headers)
    let ?d = "d\<lparr>dl_reply := Some (r\<lparr>re_status := status, re_headers := headers\<rparr>)\<rparr>"
    obtain valid x where v: "validateResponseHeaders cf a ?d = (valid, x)" by fastforce
    have "k = 0" "\<not> dl_responseValidated d" using e MetaDataChanged by (simp_all add: delivers_def)
    then have "on_its_way M k ?d"
      using way r st(8) by (simp add: on_its_way_def incoming_def waiting_def partSize_def)
    note w = validate_way[OF this _ _ v]
    have d': "download_step cf d (e, a) = x" using MetaDataChanged r v by (simp add: download_step_def)
    show ?thesis
      using w st(8) MetaDataChanged \<open>k = 0\<close> unfolding d'
      by (cases "dl_reply x") (simp_all add: delivered_def on_its_way_def)
  next
    case (ReadyRead bs)
    let ?d = "d\<lparr>dl_reply := Some (r\<lparr>re_buffer := re_buffer r @ bs\<rparr>)\<rparr>"
    have "prefix (incoming d @ bs) M \<and> length (incoming d @ bs) = nat (dl_requestOffset d) + (k + length bs)"
      if acc: "accepted_status d r"
    proof -
      have inc: "prefix (incoming d) M" "length (incoming d) = nat (dl_requestOffset d) + k"
        using way r acc by (simp_all add: on_its_way_def)
      have "prefix bs (drop (length (incoming d)) M)"
        using e ReadyRead r acc inc(2) by (auto simp: delivers_def accepted_status_def split: if_splits)
      then show ?thesis using inc by (auto simp: prefix_def)
    qed
    then have "on_its_way M (k + length bs) ?d"
      using way r by (simp add: on_its_way_def incoming_def waiting_def partSize_def accepted_status_def)
    note w = ready_way[OF this, of _ cf a]
    have d': "download_step cf d (e, a) = handleReadyRead cf a ?d"
      using ReadyRead r by (simp add: download_step_def)
    show ?thesis
      using w M st(8) ReadyRead unfolding d'
      by (cases "dl_reply (handleReadyRead cf a ?d)") (simp_all add: delivered_def on_its_way_def)
  next
    case (NetworkFinished failed)
    let ?d = "d\<lparr>dl_reply := Some (r\<lparr>re_failed := failed, re_finished := True\<rparr>)\<rparr>"
    have "on_its_way M k ?d"
      using way r by (simp add: on_its_way_def incoming_def waiting_def partSize_def accepted_status_def)
    then have "on_its_way M 0 (handleNetworkFinished cf a ?d)" using network_way M st(8) by simp
    moreover have d': "download_step cf d (e, a) = handleNetworkFinished cf a ?d"
      using NetworkFinished r by (simp add: download_step_def)
    moreover have "dl_reply (handleNetworkFinished cf a ?d) = None"
      by (simp add: handleNetworkFinished_def Let_def split: prod.split)
    ultimately show ?thesis using NetworkFinished by (simp add: delivered_def)
  next
    case Pause
    have "on_its_way M 0 (pause_download d)"
      by (rule kept_on_its_way[OF kept_refl pre]) (simp_all add: pause_download_def st small_steps)
    moreover have "dl_reply (pause_download d) = None" by (simp add: pause_download_def st small_steps)
    ultimately show ?thesis using Pause by (simp add: download_step_def delivered_def)
  next
    case Cancel
    have none: "dl_reply (cancel_download a d) = None"
      using st by (simp add: cancel_download_def Let_def setState_def closeActiveRequest_def
          finish_download_def releaseDownloadLock_def)
    show ?thesis using Cancel none kept_on_its_way[OF kept_cancel pre none]
      by (simp add: download_step_def delivered_def)
  next
    case SpeedTimer
    have "on_its_way M k (d\<lparr>dl_bytesPerSecond := x, dl_lastSpeedBytes := y\<rparr>)" for x y
      using way r by (simp add: on_its_way_def incoming_def waiting_def partSize_def accepted_status_def)
    then show ?thesis using SpeedTimer r way by (simp add: download_step_def delivered_def)
  next
    case (PublishedFinal bs)
    have "on_its_way M k (d\<lparr>dl_final := f\<rparr>)" for f
      using way r by (simp add: on_its_way_def incoming_def waiting_def partSize_def accepted_status_def)
    then show ?thesis using PublishedFinal r way by (simp add: download_step_def delivered_def)
  qed (use way r in \<open>simp_all add: download_step_def start_download_def resume_download_def
        verification_done_def st delivered_def\<close>)
qed

lemma served_way:
  assumes "served cf M part d k" "int (length M) = fileSize cf" "0 < fileSize cf"
  shows "dl_ok cf d \<and> on_its_way M k d"
  using assms(1)
proof (induction rule: served.induct)
  case (fresh lock final)
  then show ?case using new_download_ok by (simp add: on_its_way_def new_download_def)
next
  case (event d k e d' a)
  have ok: "dl_ok cf d'" using event download_event_step_ok assms(3) by simp
  have "on_its_way M (delivered k d' e) d'"
  proof (cases "can_occur d e")
    case False
    then have d': "d' = d" and "\<forall>bs. e \<noteq> ReadyRead bs"
      using event(3) by (auto simp: download_event_step_def can_occur_def)
    then have "delivered k d' e = (if dl_reply d = None then 0 else k)"
      by (cases e) (simp_all add: delivered_def)
    then show ?thesis using event d' by (auto simp: on_its_way_def split: option.splits)
  next
    case True
    then have d': "d' = download_step cf d (e, a)" using event(3) by (simp add: download_event_step_def)
    show ?thesis
    proof (cases "dl_reply d")
      case None
      then have "k = 0" using event by (simp add: on_its_way_def)
      then have "delivered k d' e = 0" using None d'
        by (cases e) (simp_all add: delivered_def download_step_def)
      moreover have "on_its_way M 0 (download_step cf d (e, a))"
        using event None by (intro idle_step_way[of M k]) simp_all
      ultimately show ?thesis using d' by simp
    next
      case (Some r)
      then have "on_its_way M (delivered k (download_step cf d (e, a)) e) (download_step cf d (e, a))"
        using event assms(2) by (intro busy_step_way) simp_all
      then show ?thesis using d' by simp
    qed
  qed
  then show ?case using ok by simp
qed

text \<open>
  C18: Against a server that serves the model, every partial file is a beginning of the model, whatever
  is paused, resumed, retried, interrupted or answered without a range, and when a downloaded file is
  verified it is the model itself, so the verification succeeds.
\<close>

theorem partial_file_is_beginning_of_model:
  assumes "served cf M part d k" "int (length M) = fileSize cf" "entry_isValid ms (cf_entry cf)"
    and "cf_hash cf M = me_sha256 (cf_entry cf)"
  shows "prefix (file_bytes (dl_part d)) M
    \<and> (\<forall>c. (DownloadedPart, c) \<in> set (dl_watchers d) \<and> dl_state d = Verifying \<longrightarrow>
          dl_part d = Some M \<and> c = me_sha256 (cf_entry cf))"
proof -
  have size: "0 < fileSize cf" using valid_digest_nonempty[OF assms(3)] by (simp add: fileSize_def)
  have ok: "dl_ok cf d" and pre: "prefix (file_bytes (dl_part d)) M"
    using served_way[OF assms(1,2) size] by (simp_all add: on_its_way_def)
  have "dl_part d = Some M \<and> c = me_sha256 (cf_entry cf)"
    if w: "(DownloadedPart, c) \<in> set (dl_watchers d)" "dl_state d = Verifying" for c
  proof -
    obtain bs where bs: "dl_part d = Some bs" "c = sha256File cf (Some bs)" "int (length bs) = fileSize cf"
      using ok w by (auto simp: dl_ok_def verification_sound_def partSize_def)
    then have "bs = M" using pre assms(2) by (auto simp: prefix_def)
    then show ?thesis using bs assms(4) by (simp add: sha256File_def)
  qed
  then show ?thesis using pre by blast
qed

lemma served_run:
  "served cf M part d k \<Longrightarrow> delivers M k d e \<Longrightarrow>
   served cf M part (download_event_step cf d (e, a)) (delivered k (download_event_step cf d (e, a)) e)"
  by (rule served.event) auto

theorem partial_file_is_beginning_of_model_witness:
  "\<exists>d k. served sample_config [1, 2, 3] None d k \<and> dl_state d = Downloading
     \<and> dl_part d = Some [1, 2] \<and> prefix (file_bytes (dl_part d)) [1, 2, 3]"
proof -
  let ?M = "[1, 2, 3] :: bytes"
  define d0 where "d0 = new_download sample_config None None LockFree"
  define d1 where "d1 = download_event_step sample_config d0 (Start, calm)"
  define d2 where "d2 = download_event_step sample_config d1 (MetaDataChanged 200 [], calm)"
  define d3 where "d3 = download_event_step sample_config d2 (ReadyRead [1, 2], calm)"
  note defs = d3_def d2_def d1_def d0_def
  have s0: "served sample_config ?M None d0 0" unfolding d0_def by (rule served.fresh) simp_all
  have s1: "served sample_config ?M None d1 0"
    using served_run[OF s0, of Start calm] by (simp add: delivers_def delivered_def d1_def split: if_splits)
  have "\<not> dl_responseValidated d1" unfolding defs by code_simp
  then have s2: "served sample_config ?M None d2 0"
    using served_run[OF s1, of "MetaDataChanged 200 []" calm]
    by (simp add: delivers_def delivered_def d2_def split: if_splits)
  have reply: "dl_reply d2 = Some \<lparr>re_status = 200, re_headers = [], re_buffer = [], re_failed = False,
      re_finished = False\<rparr>" unfolding defs by code_simp
  obtain k where s3: "served sample_config ?M None d3 k"
    using served_run[OF s2, of "ReadyRead [1, 2]" calm] reply by (auto simp: delivers_def d3_def)
  have part: "dl_part d3 = Some [1, 2]" and st: "dl_state d3 = Downloading"
    unfolding defs by (code_simp, code_simp)
  have "prefix (file_bytes (dl_part d3)) ?M"
    using partial_file_is_beginning_of_model[OF s3, of sample_services] sample_entry_valid
    by (simp add: sample_config_def fileSize_def sample_entry_def sample_hash_def)
  then show ?thesis using s3 part st by blast
qed

subsection \<open>A transfer that ends\<close>

text \<open>Without faults the loop moves everything that waits into the file.\<close>

lemma read_loop_all:
  "dl_reply d = Some r \<Longrightarrow> dl_partOpen d \<Longrightarrow> partSize d + int (length (re_buffer r)) \<le> fileSize cf \<Longrightarrow>
   dl_part d \<noteq> None \<Longrightarrow>
   \<exists>n. read_loop cf a [] d = d\<lparr>dl_part := Some (file_bytes (dl_part d) @ re_buffer r),
         dl_reply := Some (r\<lparr>re_buffer := []\<rparr>), dl_bytesReceived := n\<rparr>"
proof (induction "length (re_buffer r)" arbitrary: d r rule: less_induct)
  case less
  show ?case
  proof (cases "re_buffer r = []")
    case True
    obtain bs where "dl_part d = Some bs" using less(5) by blast
    then have "read_loop cf a [] d = d\<lparr>dl_part := Some (file_bytes (dl_part d) @ re_buffer r),
         dl_reply := Some (r\<lparr>re_buffer := []\<rparr>), dl_bytesReceived := dl_bytesReceived d\<rparr>"
      using less(2) True by (cases r, cases d) (simp add: read_loop.simps)
    then show ?thesis by blast
  next
    case False
    define size where "size = maximumRead (fileSize cf - partSize d)"
    define block where "block = take size (re_buffer r)"
    define r' where "r' = r\<lparr>re_buffer := drop size (re_buffer r)\<rparr>"
    define d' where "d' = d\<lparr>dl_reply := Some r', dl_part := Some (file_bytes (dl_part d) @ block),
       dl_bytesReceived := partSize d + int (length block)\<rparr>"
    have "0 < fileSize cf - partSize d" using less(4) False by (cases "re_buffer r") simp_all
    then have size: "0 < size" by (simp add: size_def maximumRead_def MaximumReadChunk_def)
    then have block: "block \<noteq> []" "int (length block) \<le> fileSize cf - partSize d"
      using False less(4) by (auto simp: block_def)
    have step: "read_loop cf a [] d = read_loop cf a [] d'"
      using less(2,3,4) False block size
      by (subst read_loop.simps)
        (simp add: Let_def size_def[symmetric] block_def[symmetric] next_write_def d'_def r'_def)
    have "partSize d' + int (length (re_buffer r')) \<le> fileSize cf"
      using less(4) by (simp add: d'_def r'_def partSize_def block_def)
    moreover have "length (re_buffer r') < length (re_buffer r)" using size False by (simp add: r'_def)
    ultimately obtain n where "read_loop cf a [] d' = d'\<lparr>dl_part := Some (file_bytes (dl_part d') @ re_buffer r'),
         dl_reply := Some (r'\<lparr>re_buffer := []\<rparr>), dl_bytesReceived := n\<rparr>"
      using less(1)[of r' d'] less(3) by (auto simp: d'_def)
    then have "read_loop cf a [] d = d\<lparr>dl_part := Some (file_bytes (dl_part d) @ re_buffer r),
         dl_reply := Some (r\<lparr>re_buffer := []\<rparr>), dl_bytesReceived := n\<rparr>"
      unfolding step by (simp add: d'_def r'_def block_def)
    then show ?thesis by blast
  qed
qed

definition transferring :: "download \<Rightarrow> bytes \<Rightarrow> bool" where
  "transferring d bs \<longleftrightarrow> dl_state d = Downloading \<and> dl_lock d = LockMine \<and> dl_part d = Some bs \<and> dl_final d = None
     \<and> dl_partOpen d \<and> dl_responseValidated d \<and> \<not> dl_restartWithoutRange d \<and> \<not> dl_cancelled d
     \<and> \<not> dl_userPaused d \<and> dl_watchers d = [] \<and> \<not> dl_finishedEmitted d \<and> dl_finished d = []
     \<and> (\<exists>r. dl_reply d = Some r \<and> re_buffer r = [] \<and> (re_status r = 200 \<or> re_status r = 206))"

lemma piece_arrives:
  assumes t: "transferring d bs" and fits: "int (length (bs @ p)) \<le> fileSize cf"
  shows "transferring (download_event_step cf d (ReadyRead p, calm)) (bs @ p)"
proof -
  obtain r where r: "dl_reply d = Some r" "re_buffer r = []" "re_status r = 200 \<or> re_status r = 206"
    using t by (auto simp: transferring_def)
  let ?d = "d\<lparr>dl_reply := Some (r\<lparr>re_buffer := p\<rparr>)\<rparr>"
  have "handleReadyRead cf calm ?d = read_loop cf calm [] ?d"
    using t by (simp add: handleReadyRead_def transferring_def validateResponseHeaders_def calm_def)
  moreover obtain n where "read_loop cf calm [] ?d = ?d\<lparr>dl_part := Some (file_bytes (dl_part ?d) @ p),
         dl_reply := Some (r\<lparr>re_buffer := [], re_buffer := []\<rparr>), dl_bytesReceived := n\<rparr>"
    using read_loop_all[of ?d "r\<lparr>re_buffer := p\<rparr>" cf calm] t fits
    by (auto simp: transferring_def partSize_def)
  ultimately have "download_event_step cf d (ReadyRead p, calm) = ?d\<lparr>dl_part := Some (bs @ p),
         dl_reply := Some (r\<lparr>re_buffer := []\<rparr>), dl_bytesReceived := n\<rparr>"
    using t r by (simp add: download_event_step_def can_occur_def download_step_def transferring_def)
  then show ?thesis using t r by (simp add: transferring_def)
qed

lemma pieces_arrive:
  "transferring d bs \<Longrightarrow> int (length (bs @ concat ps)) \<le> fileSize cf \<Longrightarrow>
   transferring (foldl (download_event_step cf) d (map (\<lambda>p. (ReadyRead p, calm)) ps)) (bs @ concat ps)"
proof (induction ps arbitrary: d bs)
  case Nil
  then show ?case by simp
next
  case (Cons p ps)
  then have "transferring (download_event_step cf d (ReadyRead p, calm)) (bs @ p)"
    by (intro piece_arrives) simp_all
  then show ?case using Cons.IH[of _ "bs @ p"] Cons.prems(2) by simp
qed

lemma transfer_ends:
  assumes t: "transferring d M" and M: "int (length M) = fileSize cf" and h: "cf_hash cf M = me_sha256 (cf_entry cf)"
  shows "let d' = foldl (download_event_step cf) d [(NetworkFinished False, calm), (Verified, calm)]
    in dl_state d' = Completed \<and> dl_final d' = Some M \<and> dl_part d' = None \<and> dl_lock d' = LockFree
       \<and> dl_finished d' = [True]"
proof -
  obtain r where r: "dl_reply d = Some r" "re_buffer r = []" "re_status r = 200 \<or> re_status r = 206"
    using t by (auto simp: transferring_def)
  let ?r = "r\<lparr>re_failed := False, re_finished := True\<rparr>"
  let ?d = "d\<lparr>dl_reply := Some ?r\<rparr>"
  have v: "validateResponseHeaders cf calm ?d = (True, ?d)"
    using t by (simp add: transferring_def validateResponseHeaders_def)
  then have rd: "handleReadyRead cf calm ?d = ?d"
    using t r by (simp add: handleReadyRead_def transferring_def read_loop.simps)
  have "handleNetworkFinished cf calm ?d = conclude cf calm ?r ?d"
    using t r v rd by (simp add: handleNetworkFinished_def transferring_def)
  also have "\<dots> = d\<lparr>dl_reply := None, dl_partOpen := False, dl_speedTimer := False, dl_state := Verifying,
      dl_verificationInProgress := True, dl_watchers := [(DownloadedPart, me_sha256 (cf_entry cf))]\<rparr>"
    using t r M h by (auto simp: conclude_def transferring_def partSize_def beginVerification_def setState_def sha256File_def)
  finally have "download_event_step cf d (NetworkFinished False, calm)
      = d\<lparr>dl_reply := None, dl_partOpen := False, dl_speedTimer := False, dl_state := Verifying,
      dl_verificationInProgress := True, dl_watchers := [(DownloadedPart, me_sha256 (cf_entry cf))]\<rparr>"
    using r by (simp add: download_event_step_def can_occur_def download_step_def)
  then show ?thesis
    using t by (simp add: download_event_step_def can_occur_def download_step_def verification_done_def Let_def
        handleVerificationFinished_def commitVerifiedPart_def rename_part_def calm_def transferring_def
        completeSuccessfully_def small_steps)
qed

text \<open>
  C19: A download completes: from a partial file that is a beginning of the model and an answer whose
  status and headers are the right ones for it, the rest may arrive in any pieces; the operation ends in
  Completed with the model published, the partial file gone and the lock free.
\<close>

theorem download_completes:
  assumes entry: "entry_isValid ms (cf_entry cf)" and net: "cf_network cf"
    and M: "int (length M) = fileSize cf" "cf_hash cf M = me_sha256 (cf_entry cf)"
    and part: "file_bytes part @ concat ps = M" "file_bytes part \<noteq> M"
    and answer: "status = (if file_bytes part = [] then 200 else 206)"
      "header_error cf \<lparr>re_status = status, re_headers = headers, re_buffer = [], re_failed = False,
         re_finished = False\<rparr> (int (length (file_bytes part))) = None"
  shows "let d = foldl (download_event_step cf) (new_download cf part None LockFree)
            ((Start, calm) # (MetaDataChanged status headers, calm) # map (\<lambda>p. (ReadyRead p, calm)) ps
              @ [(NetworkFinished False, calm), (Verified, calm)])
    in dl_state d = Completed \<and> dl_final d = Some M \<and> dl_part d = None \<and> dl_lock d = LockFree
       \<and> dl_finished d = [True]"
proof -
  let ?bs = "file_bytes part"
  let ?r = "\<lparr>re_status = 0, re_headers = [], re_buffer = [], re_failed = False, re_finished = False\<rparr>"
  have size: "0 < fileSize cf" using valid_digest_nonempty[OF entry] by (simp add: fileSize_def)
  have lt: "length ?bs < length M" using part by (metis append_self_conv le_less length_append le_add1 length_0_conv add_cancel_left_right)
  define d1 where "d1 = download_event_step cf (new_download cf part None LockFree) (Start, calm)"
  define d2 where "d2 = download_event_step cf d1 (MetaDataChanged status headers, calm)"
  have d1: "dl_state d1 = Downloading" "dl_lock d1 = LockMine" "dl_part d1 = Some ?bs" "dl_final d1 = None"
    "dl_partOpen d1" "\<not> dl_responseValidated d1" "\<not> dl_restartWithoutRange d1" "\<not> dl_cancelled d1"
    "\<not> dl_userPaused d1" "dl_watchers d1 = []" "\<not> dl_finishedEmitted d1" "dl_finished d1 = []"
    "dl_reply d1 = Some ?r" "dl_requestOffset d1 = int (length ?bs)"
    using lt M net size
    by (simp_all add: d1_def download_event_step_def can_occur_def download_step_def new_download_def
        start_download_def acquireDownloadLock_def inspectLockedFiles_def open_request_def calm_def
        partSize_def setState_def Let_def)
  have "d2 = d1\<lparr>dl_reply := Some (?r\<lparr>re_status := status, re_headers := headers\<rparr>), dl_responseValidated := True\<rparr>"
    using d1 answer
    by (auto simp: d2_def download_event_step_def can_occur_def download_step_def validateResponseHeaders_def)
  then have "transferring d2 ?bs" using d1 answer by (simp add: transferring_def)
  then have "transferring (foldl (download_event_step cf) d2 (map (\<lambda>p. (ReadyRead p, calm)) ps)) M"
    using pieces_arrive[of d2 ?bs ps cf] part M by simp
  then show ?thesis
    using transfer_ends[OF _ M] by (simp add: d1_def[symmetric] d2_def[symmetric])
qed

theorem download_completes_witness:
  "let d = foldl (download_event_step sample_config) (new_download sample_config (Some [1]) None LockFree)
            ((Start, calm) # (MetaDataChanged 206 [(''Content-Range'', ''bytes 1-2/3'')], calm)
              # map (\<lambda>p. (ReadyRead p, calm)) [[2], [3]] @ [(NetworkFinished False, calm), (Verified, calm)])
   in dl_state d = Completed \<and> dl_final d = Some [1, 2, 3]"
proof -
  have "header_error sample_config \<lparr>re_status = 206, re_headers = [(''Content-Range'', ''bytes 1-2/3'')],
      re_buffer = [], re_failed = False, re_finished = False\<rparr> 1 = None"
    by code_simp
  then show ?thesis
    using download_completes[of sample_services sample_config "[1, 2, 3]" "Some [1]" "[[2], [3]]" 206
        "[(''Content-Range'', ''bytes 1-2/3'')]"] sample_entry_valid
    by (simp add: sample_config_def fileSize_def sample_entry_def sample_hash_def Let_def)
qed

end
