(* ===== verification/WorkerSessions.thy ===== *)
theory WorkerSessions
  imports WorkerLink
begin

text \<open>
  The sessions of \<^verbatim>\<open>ipc/WorkerServer\<close>, seen from the bytes of one client: which pieces the server
  read from its socket, the messages these bytes hold, and what of them is handed on.
\<close>

subsection \<open>What a client sent and what was handed on\<close>

text \<open>The pieces read from a client while it was connected.\<close>

definition piece_of :: "nat \<Rightarrow> worker_server \<Rightarrow> server_event \<Rightarrow> bytes list" where
  "piece_of i sv ev = (case ev of
      ReadyRead now j bs \<Rightarrow> if j = i \<and> map_of (sv_clients sv) i \<noteq> None then [bs] else []
    | _ \<Rightarrow> [])"

fun heard :: "cbor_codec \<Rightarrow> nat \<Rightarrow> worker_server \<Rightarrow> server_event list \<Rightarrow> bytes list" where
  "heard cc i sv [] = []"
| "heard cc i sv (ev # evs) = piece_of i sv ev @ heard cc i (snd (server_step cc sv ev)) evs"

definition messages :: "cbor_codec \<Rightarrow> bytes list \<Rightarrow> envelope list" where
  "messages cc pieces = fst (feed cc (new_decoder kMaximumMessageSize) pieces)"

fun delivered_to :: "nat \<Rightarrow> server_signal list \<Rightarrow> envelope list" where
  "delivered_to i [] = []"
| "delivered_to i (EnvelopeReceived j e # xs) = (if j = i then e # delivered_to i xs else delivered_to i xs)"
| "delivered_to i (_ # xs) = delivered_to i xs"

definition checked :: "bytes \<Rightarrow> envelope \<Rightarrow> bool" where
  "checked token e \<longleftrightarrow> env_protocolVersion e = kProtocolVersion \<and> env_sessionToken e = token"

text \<open>A session begins with a Hello; what follows it is handed on, except for heartbeats.\<close>

definition opens :: "bytes \<Rightarrow> envelope list \<Rightarrow> bool" where
  "opens token es \<longleftrightarrow> es \<noteq> [] \<and> env_type (hd es) = Hello \<and> checked token (hd es)"

definition expected :: "envelope list \<Rightarrow> envelope list" where
  "expected es = filter (\<lambda>e. env_type e \<noteq> Ping) (tl es)"

lemma delivered_append: "delivered_to i (xs @ ys) = delivered_to i xs @ delivered_to i ys"
  by (induction i xs rule: delivered_to.induct) auto

lemma expected_append: "expected (es @ es') =
    (if es = [] then expected es' else expected es @ filter (\<lambda>e. env_type e \<noteq> Ping) es')"
  by (simp add: expected_def)

lemma opens_append: "opens token es \<Longrightarrow> opens token (es @ es')"
  by (auto simp: opens_def)

lemma feed_snoc:
  "feed cc d (ps @ [p]) = (fst (feed cc d ps) @ fst (fst (append_bytes cc (snd (feed cc d ps)) p)),
     snd (append_bytes cc (snd (feed cc d ps)) p))"
  by (induction ps arbitrary: d) (simp_all split: prod.split)

subsection \<open>Signals that hand nothing on\<close>

definition silent :: "server_signal list \<Rightarrow> bool" where
  "silent out \<longleftrightarrow> (\<forall>i. delivered_to i out = [] \<and> ClientReady i \<notin> set out)"

lemma silent_simps [simp]:
  "silent []" "silent (xs @ ys) \<longleftrightarrow> silent xs \<and> silent ys"
  "silent (ClientDisconnected i # xs) = silent xs" "silent (ServerError i err # xs) = silent xs"
  "silent (Written i bs # xs) = silent xs"
  by (auto simp: silent_def delivered_append)

lemma silent_disconnect: "silent (fst (disconnectClient i err sv))"
  by (simp add: disconnectClient_def split: option.split)

lemma silent_disconnectAll: "silent (fst (disconnectAll is err sv))"
  using silent_disconnect by (induction "is" arbitrary: sv) (simp_all add: case_prod_beta)

lemma silent_send: "silent (server_send cc i e sv)"
  by (simp add: server_send_def split: option.split sum.split)

lemma disconnectAll_nextClientId: "sv_nextClientId (snd (disconnectAll is err sv)) = sv_nextClientId sv"
  by (induction "is" arbitrary: sv) (simp_all add: case_prod_beta frame_simps)

subsection \<open>One envelope and one read\<close>

text \<open>
  \<open>handled\<close>: what processing the messages \<open>es\<close> of a client that had sent \<open>past\<close> leads to, for
  the client itself, while it stays connected and when it is dropped.
\<close>

definition handled :: "bytes \<Rightarrow> nat \<Rightarrow> client_state \<Rightarrow> envelope list \<Rightarrow> envelope list \<Rightarrow> server_output \<Rightarrow> bool" where
  "handled token i c past es result \<longleftrightarrow> (case result of (out, sv') \<Rightarrow>
     (\<exists>k. expected past @ delivered_to i out = take k (expected (past @ es)))
     \<and> (ClientReady i \<in> set out \<longrightarrow> opens token (past @ es))
     \<and> (case map_of (sv_clients sv') i of
          None \<Rightarrow> True
        | Some c' \<Rightarrow> cl_decoder c' = cl_decoder c \<and> (cl_ready c' \<longleftrightarrow> past @ es \<noteq> [])
            \<and> expected past @ delivered_to i out = expected (past @ es)
            \<and> (ClientReady i \<in> set out \<longleftrightarrow> past = [] \<and> es \<noteq> [])
            \<and> (past @ es \<noteq> [] \<longrightarrow> opens token (past @ es)) \<and> list_all (checked token) es))"

definition others_kept :: "nat \<Rightarrow> worker_server \<Rightarrow> server_output \<Rightarrow> bool" where
  "others_kept i sv result \<longleftrightarrow> (case result of (out, sv') \<Rightarrow>
     sv_nextClientId sv' = sv_nextClientId sv
     \<and> (\<forall>j. j \<noteq> i \<longrightarrow> map_of (sv_clients sv') j = map_of (sv_clients sv) j
           \<and> delivered_to j out = [] \<and> ClientReady j \<notin> set out))"

lemma others_kept_disconnect: "others_kept i sv (disconnectClient i err sv)"
  using silent_disconnect[of i err sv]
  by (simp add: others_kept_def case_prod_beta silent_def disconnect_clients map_of_filter_key frame_simps)

lemma others_kept_seq:
  "others_kept i sv (out, sv') \<Longrightarrow> others_kept i sv' (out', sv'') \<Longrightarrow> others_kept i sv (out @ out', sv'')"
  by (simp add: others_kept_def delivered_append)

lemma others_kept_set: "others_kept i sv ([], set_client i c sv)"
  by (simp add: others_kept_def set_client_map) (simp add: set_client_def)

text \<open>The cases of \<open>processEnvelope\<close> for a connected client.\<close>

lemma processEnvelope_cases:
  assumes "map_of (sv_clients sv) i = Some c" "sv_sessionToken sv = token"
  obtains (drop) err where "processEnvelope cc i e sv = (False, disconnectClient i err sv)"
  | (hello) out where "checked token e" "\<not> cl_ready c" "env_type e = Hello" "silent out"
      "processEnvelope cc i e sv = (True, out @ [ClientReady i], set_client i (c\<lparr>cl_ready := True\<rparr>) sv)"
  | (ping) out where "checked token e" "cl_ready c" "env_type e = Ping" "silent out"
      "processEnvelope cc i e sv = (True, out, sv)"
  | (deliver) "checked token e" "cl_ready c" "env_type e \<noteq> Ping"
      "processEnvelope cc i e sv = (True, [EnvelopeReceived i e], sv)"
proof -
  note u = processEnvelope_def[of cc i e sv] assms
  show thesis
  proof (cases "checked token e \<and> (cl_ready c \<or> env_type e = Hello)")
    case False
    then consider "env_protocolVersion e \<noteq> kProtocolVersion"
      | "env_protocolVersion e = kProtocolVersion" "env_sessionToken e \<noteq> token"
      | "checked token e" "\<not> cl_ready c" "env_type e \<noteq> Hello"
      by (auto simp: checked_def)
    then show thesis
      using u drop by cases (simp_all add: checked_def)
  next
    case True
    then consider "\<not> cl_ready c" "env_type e = Hello" | "cl_ready c" "env_type e = Ping"
      | "cl_ready c" "env_type e \<noteq> Ping" by blast
    then show thesis
    proof cases
      case 1
      then show thesis using u True by (intro hello[OF _ _ _ silent_send]) (simp_all add: checked_def Let_def)
    next
      case 2
      then show thesis using u True by (intro ping[OF _ _ _ silent_send]) (simp_all add: checked_def)
    next
      case 3
      then show thesis using u True deliver by (simp add: checked_def)
    qed
  qed
qed

lemma others_kept_one:
  assumes "processEnvelope cc i e sv = (continue, out, sv')"
  shows "others_kept i sv (out, sv')"
proof (cases "map_of (sv_clients sv) i")
  case None
  then show ?thesis using assms by (auto simp: processEnvelope_def others_kept_def)
next
  case (Some c)
  have quiet: "others_kept i sv (o1, sv)" if "silent o1" for o1
    using that by (simp add: others_kept_def silent_def)
  show ?thesis
  proof (rule processEnvelope_cases[OF Some refl, of cc e])
    fix err
    assume "processEnvelope cc i e sv = (False, disconnectClient i err sv)"
    then show ?thesis using assms others_kept_disconnect[of i sv err] by simp
  next
    fix o1
    assume "silent o1"
      "processEnvelope cc i e sv = (True, o1 @ [ClientReady i], set_client i (c\<lparr>cl_ready := True\<rparr>) sv)"
    then show ?thesis using assms others_kept_set[of i sv "c\<lparr>cl_ready := True\<rparr>"]
      by (auto simp: others_kept_def delivered_append silent_def)
  next
    fix o1
    assume "silent o1" "processEnvelope cc i e sv = (True, o1, sv)"
    then show ?thesis using assms quiet by simp
  next
    assume "processEnvelope cc i e sv = (True, [EnvelopeReceived i e], sv)"
    then show ?thesis using assms by (auto simp: others_kept_def)
  qed
qed

lemma others_kept_read: "others_kept i sv (processEnvelopes cc i es sv)"
proof (induction es arbitrary: sv)
  case Nil
  then show ?case by (simp add: others_kept_def)
next
  case (Cons e es)
  obtain continue out sv' where p: "processEnvelope cc i e sv = (continue, out, sv')"
    by (cases "processEnvelope cc i e sv")
  show ?case using p Cons.IH[of sv'] others_kept_one[OF p] others_kept_seq[of i sv out sv' _ _]
    by (cases "processEnvelopes cc i es sv'") auto
qed

lemma handled_read:
  assumes "map_of (sv_clients sv) i = Some c" "sv_sessionToken sv = token"
    and "cl_ready c \<longleftrightarrow> past \<noteq> []" "past \<noteq> [] \<longrightarrow> opens token past"
  shows "handled token i c past es (processEnvelopes cc i es sv)"
  using assms
proof (induction es arbitrary: sv c past)
  case Nil
  then show ?case by (auto simp: handled_def intro!: exI[of _ "length (expected past)"])
next
  case (Cons e es)
  note now = Cons.prems
  show ?case
  proof (rule processEnvelope_cases[OF now(1,2), of cc e])
    fix err
    assume p: "processEnvelope cc i e sv = (False, disconnectClient i err sv)"
    have "map_of (sv_clients (snd (disconnectClient i err sv))) i = None"
      by (simp add: disconnect_clients map_of_filter_key)
    moreover have "\<exists>k. expected past = take k (expected (past @ e # es))"
      by (cases "past = []") (auto simp: expected_append expected_def
          intro!: exI[of _ 0] exI[of _ "length (expected past)"])
    ultimately show ?thesis using p silent_disconnect[of i err sv]
      by (simp add: handled_def case_prod_beta silent_def)
  next
    fix out
    assume h: "checked token e" "\<not> cl_ready c" "env_type e = Hello" "silent out"
      "processEnvelope cc i e sv = (True, out @ [ClientReady i], set_client i (c\<lparr>cl_ready := True\<rparr>) sv)"
    have past: "past = []" using h(2) now(3) by simp
    have o: "opens token [e]" using h by (simp add: opens_def)
    have "handled token i (c\<lparr>cl_ready := True\<rparr>) [e] es
        (processEnvelopes cc i es (set_client i (c\<lparr>cl_ready := True\<rparr>) sv))"
      using Cons.IH[of "set_client i (c\<lparr>cl_ready := True\<rparr>) sv" "c\<lparr>cl_ready := True\<rparr>" "[e]"] now(2) o
      by (simp add: set_client_map) (simp add: set_client_def)
    then show ?thesis using h past o opens_append[OF o, of es]
      by (auto simp: handled_def case_prod_beta delivered_append silent_def expected_def split: option.splits)
  next
    fix out
    assume h: "checked token e" "cl_ready c" "env_type e = Ping" "silent out"
      "processEnvelope cc i e sv = (True, out, sv)"
    then have past: "past \<noteq> []" "opens token past" using now(3,4) by simp_all
    have "handled token i c (past @ [e]) es (processEnvelopes cc i es sv)"
      using Cons.IH[OF now(1,2), of "past @ [e]"] past h(2) opens_append[OF past(2)] by simp
    moreover have "expected (past @ [e]) = expected past" using past h(3) by (simp add: expected_append)
    ultimately show ?thesis using h past
      by (auto simp: handled_def case_prod_beta delivered_append silent_def split: option.splits)
  next
    assume h: "checked token e" "cl_ready c" "env_type e \<noteq> Ping"
      "processEnvelope cc i e sv = (True, [EnvelopeReceived i e], sv)"
    then have past: "past \<noteq> []" "opens token past" using now(3,4) by simp_all
    have "handled token i c (past @ [e]) es (processEnvelopes cc i es sv)"
      using Cons.IH[OF now(1,2), of "past @ [e]"] past h(2) opens_append[OF past(2)] by simp
    moreover have "expected (past @ [e]) = expected past @ [e]" using past h(3) by (simp add: expected_append)
    ultimately show ?thesis using h past
      by (auto simp: handled_def case_prod_beta split: option.splits)
  qed
qed

subsection \<open>Runs\<close>

text \<open>\<open>follows\<close>: how a client's connection and the signals about it follow from the bytes read from it.\<close>

definition follows :: "cbor_codec \<Rightarrow> bytes \<Rightarrow> nat \<Rightarrow> worker_server \<Rightarrow> bytes list \<Rightarrow> server_signal list \<Rightarrow> bool" where
  "follows cc token i sv pieces signals \<longleftrightarrow>
     (\<exists>k. delivered_to i signals = take k (expected (messages cc pieces)))
     \<and> (ClientReady i \<in> set signals \<longrightarrow> opens token (messages cc pieces))
     \<and> (sv_nextClientId sv \<le> i \<longrightarrow> pieces = [] \<and> delivered_to i signals = [] \<and> ClientReady i \<notin> set signals)
     \<and> (case map_of (sv_clients sv) i of
          None \<Rightarrow> True
        | Some c \<Rightarrow> cl_decoder c = snd (feed cc (new_decoder kMaximumMessageSize) pieces)
            \<and> (cl_ready c \<longleftrightarrow> messages cc pieces \<noteq> [])
            \<and> delivered_to i signals = expected (messages cc pieces)
            \<and> (ClientReady i \<in> set signals \<longleftrightarrow> messages cc pieces \<noteq> [])
            \<and> (messages cc pieces \<noteq> [] \<longrightarrow> opens token (messages cc pieces))
            \<and> list_all (checked token) (messages cc pieces))"

lemma follows_quiet:
  assumes "follows cc token i sv pieces signals" "silent out"
    and "sv_nextClientId sv' = sv_nextClientId sv"
    and "map_of (sv_clients sv') i = None \<or> map_of (sv_clients sv') i = map_of (sv_clients sv) i"
  shows "follows cc token i sv' pieces (signals @ out)"
proof -
  have "delivered_to i (signals @ out) = delivered_to i signals"
    "ClientReady i \<in> set (signals @ out) \<longleftrightarrow> ClientReady i \<in> set signals"
    using assms(2) by (simp_all add: silent_def delivered_append)
  note same = this assms(3)
  show ?thesis
  proof (cases "map_of (sv_clients sv') i")
    case None
    show ?thesis using assms(1) unfolding follows_def same None option.case by blast
  next
    case (Some c)
    then have old: "map_of (sv_clients sv) i = Some c" using assms(4) by simp
    show ?thesis using assms(1) unfolding follows_def same Some old .
  qed
qed

lemma follows_other:
  assumes "follows cc token i sv pieces signals" "others_kept j sv (out, sv')" "i \<noteq> j"
  shows "follows cc token i sv' pieces (signals @ out)"
proof -
  have same: "delivered_to i (signals @ out) = delivered_to i signals"
    "ClientReady i \<in> set (signals @ out) \<longleftrightarrow> ClientReady i \<in> set signals"
    "sv_nextClientId sv' = sv_nextClientId sv" "map_of (sv_clients sv') i = map_of (sv_clients sv) i"
    using assms(2,3) by (simp_all add: others_kept_def delivered_append)
  show ?thesis using assms(1) unfolding follows_def same .
qed

lemma messages_snoc:
  "messages cc (pieces @ [p]) = messages cc pieces
     @ fst (fst (append_bytes cc (snd (feed cc (new_decoder kMaximumMessageSize) pieces)) p))"
  by (simp add: messages_def feed_snoc)

lemma take_expected:
  "\<exists>k. expected es = take k (expected (es @ es'))"
proof (cases "es = []")
  case True
  then show ?thesis by (intro exI[of _ 0]) (simp add: expected_def)
next
  case False
  then show ?thesis by (intro exI[of _ "length (expected es)"]) (simp add: expected_append)
qed

lemma follows_read:
  assumes f: "follows cc token i sv pieces signals" and ok: "server_ok token sv"
    and c: "map_of (sv_clients sv) i = Some c"
  shows "follows cc token i (snd (readClient cc now i bs sv)) (pieces @ [bs])
      (signals @ fst (readClient cc now i bs sv))"
proof -
  obtain es err d where a: "append_bytes cc (cl_decoder c) bs = ((es, err), d)" by (metis surj_pair)
  let ?c = "c\<lparr>cl_lastActivity := now, cl_decoder := d\<rparr>"
  let ?sv = "set_client i ?c sv"
  let ?past = "messages cc pieces"
  have unfold: "readClient cc now i bs sv =
      (if err \<noteq> NoProtocolError then disconnectClient i err ?sv else processEnvelopes cc i es ?sv)"
    using c a by (simp add: readClient_def Let_def)
  have old: "cl_decoder c = snd (feed cc (new_decoder kMaximumMessageSize) pieces)"
    "cl_ready c \<longleftrightarrow> ?past \<noteq> []" "delivered_to i signals = expected ?past"
    "ClientReady i \<in> set signals \<longleftrightarrow> ?past \<noteq> []" "?past \<noteq> [] \<longrightarrow> opens token ?past"
    "list_all (checked token) ?past"
    using f[unfolded follows_def c option.case] by blast+
  have known: "\<not> sv_nextClientId sv \<le> i" using ok map_of_SomeD[OF c] by (force simp: server_ok_def)
  have msgs: "messages cc (pieces @ [bs]) = ?past @ es"
    "snd (feed cc (new_decoder kMaximumMessageSize) (pieces @ [bs])) = d"
    using a old(1) by (simp_all add: messages_snoc feed_snoc)
  have tok: "sv_sessionToken ?sv = token" using ok map_of_SomeD[OF c]
    by (auto simp: server_ok_def set_client_def)
  have next_id: "sv_nextClientId ?sv = sv_nextClientId sv" by (simp add: set_client_def)
  show ?thesis
  proof (cases "err = NoProtocolError")
    case False
    then have "readClient cc now i bs sv = disconnectClient i err ?sv" using unfold by simp
    moreover have "map_of (sv_clients (snd (disconnectClient i err ?sv))) i = None"
      by (simp add: disconnect_clients map_of_filter_key)
    moreover have "sv_nextClientId (snd (disconnectClient i err ?sv)) = sv_nextClientId sv"
      by (simp add: frame_simps next_id)
    ultimately show ?thesis
      using silent_disconnect[of i err ?sv] old known take_expected[of ?past es] opens_append[of token ?past es]
      by (auto simp: follows_def silent_def delivered_append msgs)
  next
    case True
    obtain out sv' where r: "processEnvelopes cc i es ?sv = (out, sv')" by fastforce
    have "handled token i ?c ?past es (out, sv')"
      using handled_read[of ?sv i ?c token ?past es cc] tok old r by (simp add: set_client_map)
    moreover have "sv_nextClientId sv' = sv_nextClientId sv"
      using others_kept_read[of i ?sv cc es] r next_id by (simp add: others_kept_def)
    ultimately show ?thesis unfolding unfold using True r old known opens_append[of token ?past es]
      by (auto simp: follows_def handled_def delivered_append msgs split: option.splits)
  qed
qed

lemma follows_step:
  assumes f: "follows cc token i sv pieces signals" and ok: "server_ok token sv"
  shows "follows cc token i (snd (server_step cc sv ev)) (pieces @ piece_of i sv ev)
      (signals @ fst (server_step cc sv ev))"
proof (cases ev)
  case (NewConnection now)
  show ?thesis
  proof (cases "sv_listening sv")
    case False
    then show ?thesis using f NewConnection by (simp add: piece_of_def)
  next
    case True
    have fresh: "map_of (sv_clients sv) (sv_nextClientId sv) = None"
      using ok by (force simp: server_ok_def map_of_eq_None_iff)
    have eq: "server_step cc sv ev = acceptConnection now sv" using NewConnection True by simp
    show ?thesis
    proof (cases "i = sv_nextClientId sv")
      case False
      then have "map_of (sv_clients (snd (acceptConnection now sv))) i = map_of (sv_clients sv) i"
        by (auto simp: acceptConnection_def map_add_def split: option.split)
      then show ?thesis unfolding eq using f NewConnection False
        by (auto simp: follows_def acceptConnection_def piece_of_def)
    next
      case new: True
      have "map_of (sv_clients (snd (acceptConnection now sv))) i =
          Some \<lparr>cl_decoder = new_decoder kMaximumMessageSize, cl_lastActivity = now,
               cl_ready = False, cl_connected = True\<rparr>"
        using fresh new by (simp add: acceptConnection_def map_add_def)
      then show ?thesis unfolding eq using f NewConnection new
        by (auto simp: follows_def acceptConnection_def piece_of_def messages_def expected_def)
    qed
  qed
next
  case (ReadyRead now j bs)
  have eq: "server_step cc sv ev = readClient cc now j bs sv" using ReadyRead by simp
  show ?thesis
  proof (cases "map_of (sv_clients sv) j")
    case None
    then show ?thesis unfolding eq using f ReadyRead by (cases "j = i") (simp_all add: readClient_def piece_of_def)
  next
    case (Some c)
    show ?thesis
    proof (cases "j = i")
      case True
      then show ?thesis unfolding eq using follows_read[OF f ok, of c] Some ReadyRead
        by (simp add: piece_of_def)
    next
      case False
      have "others_kept j sv (readClient cc now j bs sv)"
      proof -
        obtain es err d where a: "append_bytes cc (cl_decoder c) bs = ((es, err), d)" by (metis surj_pair)
        let ?sv = "set_client j (c\<lparr>cl_lastActivity := now, cl_decoder := d\<rparr>) sv"
        have "others_kept j sv ([] @ out, sv')" if "others_kept j ?sv (out, sv')" for out sv'
          using that others_kept_set by (rule others_kept_seq[rotated])
        then show ?thesis
          using Some a others_kept_disconnect[of j ?sv err] others_kept_read[of j ?sv cc es]
          by (cases "disconnectClient j err ?sv"; cases "processEnvelopes cc j es ?sv")
            (simp add: readClient_def Let_def)
      qed
      then show ?thesis unfolding eq using follows_other[OF f, of j] False ReadyRead
        by (simp add: piece_of_def)
    qed
  qed
next
  case (SocketClosed j)
  then show ?thesis
    using follows_quiet[OF f silent_disconnect[of j NoProtocolError sv]]
    by (simp add: piece_of_def frame_simps disconnect_clients map_of_filter_key)
next
  case (SocketFailed j)
  then show ?thesis using follows_quiet[OF f] by (simp add: piece_of_def)
next
  case (WatchdogTimeout now)
  have all: "follows cc token i (snd (disconnectAll js err sv)) pieces (signals @ fst (disconnectAll js err sv))" for js err
    using follows_quiet[OF f silent_disconnectAll[of js err sv]] disconnectAll_props[of token sv js err]
    by (simp add: disconnectAll_nextClientId map_of_filter_other)
  then show ?thesis using WatchdogTimeout f by (simp add: piece_of_def watchdog_timeout_def)
next
  case CloseServer
  let ?sv = "sv\<lparr>sv_watchdog := False\<rparr>"
  have "sv_clients (snd (disconnectAll (map fst (sv_clients sv)) NoProtocolError ?sv)) = []"
    using disconnectAll_props[of token ?sv "map fst (sv_clients sv)" NoProtocolError]
    by (simp add: filter_empty_conv)
  then have "follows cc token i (snd (close_server sv)) pieces (signals @ fst (close_server sv))"
    by (intro follows_quiet[OF f])
      (simp_all add: close_server_def case_prod_beta silent_disconnectAll disconnectAll_nextClientId)
  then show ?thesis using CloseServer by (simp add: piece_of_def)
qed

lemma follows_run:
  assumes "follows cc token i sv pieces signals" "server_ok token sv"
  shows "follows cc token i (snd (server_run cc sv evs)) (pieces @ heard cc i sv evs)
      (signals @ fst (server_run cc sv evs))"
  using assms
proof (induction evs arbitrary: sv pieces signals)
  case Nil
  then show ?case by simp
next
  case (Cons ev evs)
  obtain out sv' where s: "server_step cc sv ev = (out, sv')" by fastforce
  obtain out' sv'' where r: "server_run cc sv' evs = (out', sv'')" by fastforce
  have "server_ok token sv'" using server_step_props[OF Cons.prems(2), of cc ev] s by simp
  then show ?case
    using Cons.IH[OF follows_step[OF Cons.prems, of ev]] s r by simp
qed

subsection \<open>The property\<close>

text \<open>
  C24: The worker talks only to authenticated clients. Once the server listens with a token, whatever
  bytes arrive, in whatever order sockets connect, close and fail and the watchdog fires, the
  signals form session traces: an envelope is delivered only within a session, carries the session
  token and the protocol version, and never follows the disconnection; a session is never opened
  twice, and the open sessions are the clients marked ready; the token has at least 16 bytes. For
  every client, let \<open>es\<close> be the messages in the bytes the server read from it. A session of the client
  was opened only if the first of them is a Hello with the token and the version. What was delivered of
  it is a beginning of the messages after the first, in order and without the heartbeats; while
  the client is connected it is all of them, every message was checked, and the client is ready
  exactly when a first message arrived, which then is such a Hello.
\<close>

theorem server_session_discipline:
  assumes "listen bound serverName token new_server = (True, out, sv)"
    and "server_run cc sv events = (signals, sv')"
  shows "session_trace token {} signals = Some (ready_clients sv') \<and> 16 \<le> length token
    \<and> (let es = messages cc (heard cc i sv events) in
         (ClientReady i \<in> set signals \<longrightarrow> opens token es)
       \<and> (\<exists>k. delivered_to i signals = take k (expected es))
       \<and> (\<forall>c. map_of (sv_clients sv') i = Some c \<longrightarrow>
            delivered_to i signals = expected es \<and> list_all (checked token) es
            \<and> (cl_ready c \<longleftrightarrow> es \<noteq> []) \<and> (cl_ready c \<longrightarrow> opens token es)))"
proof -
  note l = listen_ok[OF assms(1)]
  then have "implements token sv (server_run cc sv events)" using server_run_props by blast
  moreover have "ready_clients sv = {}" using l by (simp add: ready_clients_def)
  moreover have "follows cc token i sv [] []" using l by (simp add: follows_def messages_def expected_def)
  then have "follows cc token i sv' (heard cc i sv events) signals"
    using follows_run[of cc token i sv "[]" "[]" events] l assms(2) by simp
  ultimately show ?thesis using assms(2) l by (auto simp: implements_def follows_def Let_def split: option.splits)
qed

text \<open>A codec for the witness: a body of one byte is a Hello, a heartbeat or a request.\<close>

definition sample_message :: "bytes \<Rightarrow> envelope" where
  "sample_message b = (default_envelope (if b = [1] then Hello else if b = [2] then Ping else CancelJob))
     \<lparr>env_sessionToken := replicate 16 7\<rparr>"

definition sample_codec :: cbor_codec where
  "sample_codec = \<lparr>cc_toCbor = (\<lambda>_. [0xA0]),
     cc_fromCbor = (\<lambda>b. Some (CborMap (envelope_toCbor (sample_message b))))\<rparr>"

definition sample_reads :: "server_event list" where
  "sample_reads = [NewConnection 0, ReadyRead 5 1 [0, 0, 0], ReadyRead 6 1 [1, 1, 0, 0, 0, 1, 2],
     ReadyRead 7 1 [0, 0, 0, 1, 3], NewConnection 8, ReadyRead 9 2 [0, 0, 0, 1, 3]]"

definition sample_listening :: worker_server where
  "sample_listening = new_server\<lparr>sv_sessionToken := replicate 16 7, sv_listening := True, sv_watchdog := True\<rparr>"

lemma sample_drain:
  "drain sample_codec kMaximumMessageSize (0 # 0 # 0 # 1 # b # rest) =
     (case drain sample_codec kMaximumMessageSize rest of (es, err, left) \<Rightarrow> (sample_message [b] # es, err, left))"
  "length rest < 4 \<Longrightarrow> drain sample_codec kMaximumMessageSize rest = ([], NoProtocolError, rest)"
proof -
  have "fromBigEndian (0 # 0 # 0 # 1 # b # rest) = 1" by simp
  then show "drain sample_codec kMaximumMessageSize (0 # 0 # 0 # 1 # b # rest) =
     (case drain sample_codec kMaximumMessageSize rest of (es, err, left) \<Rightarrow> (sample_message [b] # es, err, left))"
    by (subst drain.simps) (simp add: kFramePrefixSize_def kMaximumMessageSize_def sample_codec_def Let_def)
  show "length rest < 4 \<Longrightarrow> drain sample_codec kMaximumMessageSize rest = ([], NoProtocolError, rest)"
    by (subst drain.simps) (simp add: kFramePrefixSize_def)
qed

lemma sample_sends [simp]: "delivered_to i (server_send cc j e sv) = []" "ClientReady i \<notin> set (server_send cc j e sv)"
  using silent_send[of cc j e sv] by (auto simp: silent_def)

lemma sample_run:
  "let (signals, sv') = server_run sample_codec sample_listening sample_reads
   in delivered_to 1 signals = [sample_message [3]] \<and> delivered_to 2 signals = []
      \<and> map_of (sv_clients sv') 1 \<noteq> None"
  by (simp add: sample_reads_def sample_listening_def acceptConnection_def readClient_def append_bytes_def
      new_decoder_def sample_drain set_client_def processEnvelope_def sample_message_def default_envelope_def
      delivered_append disconnectClient_def new_server_def Let_def)

lemma sample_heard:
  "length (messages sample_codec (heard sample_codec 1 sample_listening sample_reads)) = 3"
  by (simp add: sample_reads_def sample_listening_def acceptConnection_def readClient_def append_bytes_def
      new_decoder_def sample_drain set_client_def processEnvelope_def sample_message_def default_envelope_def
      piece_of_def messages_def new_server_def Let_def)

theorem server_session_discipline_witness:
  "let (signals, sv') = server_run sample_codec sample_listening sample_reads;
       es = messages sample_codec (heard sample_codec 1 sample_listening sample_reads)
   in delivered_to 1 signals = [sample_message [3]] \<and> delivered_to 1 signals = expected es
      \<and> opens (replicate 16 7) es \<and> length es = 3 \<and> delivered_to 2 signals = []
      \<and> session_trace (replicate 16 7) {} signals = Some (ready_clients sv')"
proof -
  have l: "listen True (lit ''w'') (replicate 16 7) new_server = (True, [], sample_listening)"
    by (simp add: listen_def close_server_def new_server_def sample_listening_def)
  obtain signals sv' where r: "server_run sample_codec sample_listening sample_reads = (signals, sv')"
    by fastforce
  have "let (signals, sv') = server_run sample_codec sample_listening sample_reads
   in delivered_to 1 signals = [sample_message [3]] \<and> delivered_to 2 signals = []
      \<and> map_of (sv_clients sv') 1 \<noteq> None" by (rule sample_run)
  then obtain c where d: "delivered_to 1 signals = [sample_message [3]]" "delivered_to 2 signals = []"
      "map_of (sv_clients sv') 1 = Some c" using r by auto
  note es = sample_heard
  then have "messages sample_codec (heard sample_codec 1 sample_listening sample_reads) \<noteq> []" by auto
  then show ?thesis
    using server_session_discipline[OF l r, of 1] r d es by (simp add: Let_def)
qed

end
