(* ===== verification/Spec2Isabelle.thy ===== *)
theory Spec2Isabelle
  imports CoreTypes JobStates Cbor ChunkPlanner VadSegmenter QText Segments Dedup Prompts Glossary
    Protocol Frames WorkerLink Editor TextFormats GlossaryCsv Database JobStore JobInvariants JobLeases
    JobRepository JobOutcomes JobRecovery JobQueue TranscriptStore TranscriptRuns
    TranscriptExport Autosave WorkerProcess LibraryPaths LibraryStore LibrarySearch
    LibraryInvariants LibraryRuns LibraryFacts ModelManifest ModelDownload ModelResume WorkerSessions
begin

text \<open>
  A verification library for BreezeDesk, a desktop application that transcribes recordings with a
  speech model in a worker process, keeps jobs and transcripts in SQLite, and lets the user edit
  the result. The program runs as three processes that share one database: the application, the
  command line program, and the worker they drive over a local socket.

  \<^bold>\<open>Theories and sources\<close> (paths under \<^verbatim>\<open>src/src\<close>; types come from the headers of the same name)

    \<^item> \<open>Prelude\<close>: options, lists, maps, and the locale \<open>machine\<close> of a step function with an invariant.
    \<^item> \<open>CoreTypes\<close>: \<^verbatim>\<open>core/Error.cpp\<close>; results are sums, an error is its domain, code and flag.
    \<^item> \<open>JobStates\<close>: \<^verbatim>\<open>jobs/TranscriptionJob.cpp\<close>, \<^verbatim>\<open>jobs/JobStateMachine.cpp\<close>: states, names, the
      transition table, monotonic progress.
    \<^item> \<open>Cbor\<close>: the values exchanged with the worker.
    \<^item> \<open>ChunkPlanner\<close>: \<^verbatim>\<open>asr/LongFormChunkPlanner.cpp\<close>; the speech analysis answer of
      \<^verbatim>\<open>worker/main.cpp\<close> and its decoding in \<^verbatim>\<open>app/TranscriptionCoordinator.cpp\<close>.
    \<^item> \<open>VadSegmenter\<close>: \<^verbatim>\<open>asr/StreamingVadSegmenter.cpp\<close>.
    \<^item> \<open>QText\<close>: the text operations of Qt the code uses, on UTF-16 code units.
    \<^item> \<open>Segments\<close>: transcript segments, \<^verbatim>\<open>asr/SegmentMetrics.cpp\<close>,
      \<^verbatim>\<open>asr/WorkerSegmentValidator.cpp\<close>, \<^verbatim>\<open>asr/WorkerOperationState.h\<close>.
    \<^item> \<open>Dedup\<close>: \<^verbatim>\<open>asr/OverlapDeduplicator.cpp\<close>, \<^verbatim>\<open>asr/LongFormTranscriber.cpp\<close>, and the
      reconciliation of overlapping chunks in \<^verbatim>\<open>app/TranscriptionCoordinator.cpp\<close>.
    \<^item> \<open>Prompts\<close>: \<^verbatim>\<open>asr/PromptTokenBudget.cpp\<close>, \<^verbatim>\<open>glossary/PromptComposer.cpp\<close>.
    \<^item> \<open>Glossary\<close>: \<^verbatim>\<open>glossary/GlossaryPostProcessor.cpp\<close>.
    \<^item> \<open>Protocol\<close>, \<open>Frames\<close>: \<^verbatim>\<open>ipc/Protocol.cpp\<close>, \<^verbatim>\<open>ipc/FrameCodec.cpp\<close>.
    \<^item> \<open>WorkerLink\<close>: \<^verbatim>\<open>ipc/WorkerServer.cpp\<close>, \<^verbatim>\<open>ipc/AsrWorkerClient.cpp\<close>,
      \<^verbatim>\<open>cli/CliChunkEnvelopeGate.h\<close>: both ends of the socket as state machines over their events;
      \<open>WorkerSessions\<close> relates what the server delivers to the bytes it read from each client.
    \<^item> \<open>Editor\<close>: \<^verbatim>\<open>transcript/TranscriptEditor.cpp\<close>.
    \<^item> \<open>TextFormats\<close>, \<open>GlossaryCsv\<close>: \<^verbatim>\<open>core/TimeUtils.cpp\<close>, \<^verbatim>\<open>core/TextUtils.cpp\<close>,
      \<^verbatim>\<open>glossary/GlossarySerializer.cpp\<close>.
    \<^item> \<open>Database\<close>: the transactions of \<^verbatim>\<open>database/DatabaseManager.cpp\<close>, with the triples
      \<open>achieves\<close> (if it succeeds), \<open>delivers\<close> (it succeeds), \<open>reads_only\<close> and \<open>atomic\<close>.
    \<^item> \<open>JobStore\<close>: \<^verbatim>\<open>jobs/SqliteJobRepository.cpp\<close>; \<open>JobInvariants\<close> and \<open>JobLeases\<close> show that its
      statements and operations keep the invariant, \<open>JobRepository\<close> treats runs of operations,
      \<open>JobOutcomes\<close> and \<open>JobRecovery\<close> what single operations achieve.
    \<^item> \<open>JobQueue\<close>: \<^verbatim>\<open>jobs/JobQueue.cpp\<close> and \<^verbatim>\<open>jobs/JobRecoveryService.cpp\<close>, over a locale that states
      the contract of \<^verbatim>\<open>jobs/IJobRepository.h\<close>.
    \<^item> \<open>TranscriptStore\<close>: \<^verbatim>\<open>transcript/SqliteTranscriptRepository.cpp\<close> on the same tables;
      \<open>TranscriptRuns\<close> adds stored transcripts to the invariant and treats runs that mix the
      operations of both repositories.
    \<^item> \<open>TranscriptExport\<close>: \<^verbatim>\<open>transcript/TranscriptExporter.cpp\<close>, the writers of the export formats and
      readers that take the files apart again.
    \<^item> \<open>Autosave\<close>: \<^verbatim>\<open>transcript/TranscriptAutosave.cpp\<close> over a locale \<open>segment_saver\<close> for the store it
      saves into.
    \<^item> \<open>WorkerProcess\<close>: \<^verbatim>\<open>app/WorkerProcessManager.cpp\<close>, the supervision of the worker process; relation
      \<open>timers_run\<close> is any number of its timers firing in any order.
    \<^item> \<open>ModelManifest\<close>: \<^verbatim>\<open>models/ModelManifest.cpp\<close>, the list of models that can be downloaded.
    \<^item> \<open>ModelDownload\<close>: \<^verbatim>\<open>models/ModelDownloadOperation.cpp\<close>, the download of one model as a machine over
      the signals of the network, its timers and other processes that use the same files and lock;
      \<open>ModelResume\<close> follows it against a server that serves the model, over pauses, retries and ranges.
    \<^item> \<open>LibraryPaths\<close>, \<open>LibraryStore\<close>: \<^verbatim>\<open>database/SqliteRecordingRepository.cpp\<close>, the checks of the
      paths of managed files and the repository of recordings with its queue of file deletions, and
      the index part of \<^verbatim>\<open>database/DatabaseSearchService.cpp\<close>; \<open>LibrarySearch\<close> its queries,
      \<open>LibraryInvariants\<close> the invariant of the library and its keeping by every operation (locale
      \<open>tables_kept\<close>, for any invariant of the job tables with four laws on their rows), \<open>LibraryRuns\<close>
      runs that mix all repositories (locale \<open>library_kept\<close>), \<open>LibraryFacts\<close> what single operations
      achieve from a known state, and which files any sequence of removals may touch (relation
      \<open>removals\<close>). Both locales are interpreted twice: with the full invariant of the two repositories,
      for runs that create no recording with an active transcript, and with the references and the
      single execution alone, for all runs.

  \<^bold>\<open>How the parts interact.\<close> The user's commands (\<open>JobQueue\<close>) change the queue in the repository
  (\<open>JobStore\<close>). A process that wants to transcribe claims a job, which gives it the one execution
  lease; everything it then writes carries the lease token. It connects to a worker (\<open>WorkerLink\<close>
  over \<open>Frames\<close> and \<open>Protocol\<close>), has the speech analysed (\<open>VadSegmenter\<close>) and the recording planned
  into overlapping chunks (\<open>ChunkPlanner\<close>), composes a prompt for each chunk (\<open>Prompts\<close>), checks
  what comes back (\<open>Segments\<close>), joins it to what is stored (\<open>Dedup\<close>, \<open>Glossary\<close>), and completes the
  job. The user edits the transcript (\<open>Editor\<close>).

  \<^bold>\<open>Conventions.\<close> Errors are values of \<open>user_error + 'a\<close>, without the prose shown to the user. Machine
  integers are words where the code can wrap or saturate (tick conversion, frame lengths) and \<open>int\<close>
  elsewhere, floating point numbers are reals, times are milliseconds. A database operation is a
  function on a connection, which holds the tables, the clock and the faults that will occur; a
  process that shares the database is the operations it issues, interleaved in any order. The file
  system is part of the connection of the library and is not undone when a transaction is. Loops are
  structural recursions or have a termination proof by the measure their code decreases; the one
  loop that may return nothing is \<open>subtitle_loop\<close>, a partial function, with a theorem that it returns.
  The resolution of symbolic links is bounded by a visited set, as the code bounds it. No fuel is
  used.

  \<^bold>\<open>Lemma groups.\<close> Each theory states its invariant or contract, shows that every operation keeps
  it, and ends with its properties. Locales: \<open>machine\<close> (runs keep an invariant) is interpreted on job
  progress, the segmenter, the prompt loops, the editor, the worker server, the worker's supervision
  and its history, the job repository, the two repositories for jobs and transcripts together, and
  the download of a model; \<open>tables_kept\<close> and \<open>library_kept\<close> on the library; \<open>timeline\<close> (ordered intervals) on speech regions and transcripts;
  \<open>job_repository\<close> on the SQLite model; \<open>segment_saver\<close> on the transcript repository.

  \<^bold>\<open>Not modelled.\<close> The user interface, audio capture and FFmpeg processes, the bindings to the speech
  engine, settings, platform services and updates are input and output around the components above.
  The glossary repository, schema migrations and the coordinator's scheduling are not modelled. The
  tokenizer of the full-text engine is a parameter of the searches. How one queued file is removed
  (\<open>removeArtifactFile\<close>, a sequence of system calls of either platform) is a parameter too: a remover
  that answers whether it succeeded and what the files are afterwards, of which nothing is assumed;
  the hook with which the tests interrupt the check of managed references is left out. The
  index of searches is not part of the tables of \<open>JobStore\<close> and \<open>TranscriptStore\<close>: where their
  operations rebuild an entry there is a statement that may fail, and \<open>LibraryRuns\<close> (\<open>rebuilding\<close>)
  adds the effect on the library, in the same transaction. Claiming, renewing and releasing a lease
  are not operations under a lease (\<open>leased\<close>); a release does not look at the expiry. A start of
  a download while an automatic retry or the lock is waited for is left out (such an event changes nothing). Values outside Latin-1 are not
  distinguished in identifiers, which are strings of characters; texts of transcripts are lists of
  16-bit code units.
\<close>

end
